(* ===== verification/Prelude.thy ===== *)
theory Prelude
  imports Main
begin

text \<open>
  Shared vocabulary of the development. It fixes how Python values appear in the model (instants
  and durations in microseconds, strings as character lists, fallible calls as sums), the
  collections of simplification rules the component theories extend, and the generic facts on
  lists, options and integers that several components use.
\<close>

section \<open>Types\<close>

text \<open>
  An instant is a number of microseconds since the epoch in UTC, a duration a number of
  microseconds: the resolution of \<^verbatim>\<open>datetime\<close> and \<^verbatim>\<open>timedelta\<close>.
  A fallible call returns \<open>Inl\<close> of the exception it raises or \<open>Inr\<close> of its result.
\<close>

type_synonym instant = int
type_synonym duration = int
type_synonym ('e, 'a) result = "'e + 'a"

definition seconds :: "int \<Rightarrow> duration" where
  "seconds n = n * 1000000"

definition minutes :: "int \<Rightarrow> duration" where
  "minutes n = seconds (60 * n)"

definition hours_us :: "int \<Rightarrow> duration" where
  "hours_us n = seconds (3600 * n)"

definition days_us :: "int \<Rightarrow> duration" where
  "days_us n = seconds (86400 * n)"

section \<open>Collections of rules\<close>

named_theorems mongo_laws \<open>documented behaviour of the collection operations\<close>
named_theorems store_defs \<open>definitions of the operations on stored documents\<close>
named_theorems time_defs \<open>durations as microseconds\<close>

lemmas [time_defs] = seconds_def minutes_def hours_us_def days_us_def

section \<open>Python idioms\<close>

text \<open>\<open>or_str a b\<close> is \<^verbatim>\<open>a or b\<close> for an optional string: both \<open>None\<close> and the empty string are false.\<close>

definition or_str :: "string option \<Rightarrow> string \<Rightarrow> string" where
  "or_str a b = (case a of None \<Rightarrow> b | Some s \<Rightarrow> if s = [] then b else s)"

text \<open>Sequencing of calls that may raise: the first exception is the result.\<close>

definition rbind :: "('e, 'a) result \<Rightarrow> ('a \<Rightarrow> ('e, 'b) result) \<Rightarrow> ('e, 'b) result" where
  "rbind x f = (case x of Inl e \<Rightarrow> Inl e | Inr v \<Rightarrow> f v)"

definition require :: "bool \<Rightarrow> 'e \<Rightarrow> ('e, unit) result" where
  "require b e = (if b then Inr () else Inl e)"

lemma rbind_simps [simp]:
  "rbind (Inl e) f = Inl e"
  "rbind (Inr v) f = f v"
  by (simp_all add: rbind_def)

lemma rbind_eq_Inr:
  "rbind x f = Inr r \<longleftrightarrow> (\<exists>v. x = Inr v \<and> f v = Inr r)"
  by (cases x) auto

lemma require_simps [simp]:
  "require True e = Inr ()"
  "require False e = Inl e"
  by (simp_all add: require_def)

lemma require_eq_Inr [simp]: "require b e = Inr u \<longleftrightarrow> b"
  by (simp add: require_def)

lemma or_str_None [simp]: "or_str None b = b"
  by (simp add: or_str_def)

text \<open>Python's \<^verbatim>\<open>math.ceil\<close> of the quotient of two durations.\<close>

definition ceil_div :: "int \<Rightarrow> int \<Rightarrow> int" where
  "ceil_div a b = - ((- a) div b)"

lemma ceil_div_ge: "0 < b \<Longrightarrow> a \<le> ceil_div a b * b"
  using div_mult_mod_eq [of "- a" b] pos_mod_sign [of b "- a"]
  by (simp add: ceil_div_def minus_div_mult_eq_mod [symmetric])

lemma ceil_div_less: "0 < b \<Longrightarrow> (ceil_div a b - 1) * b < a"
proof -
  assume "0 < b"
  then have "(- a) mod b < b" by simp
  moreover have "(- a) div b * b + (- a) mod b = - a" by simp
  ultimately have "- ((- a) div b * b) - b < a" by linarith
  then show ?thesis by (simp add: ceil_div_def left_diff_distrib)
qed

text \<open>A number lies in the block of its quotient.\<close>

lemma div_block:
  fixes x w :: int
  assumes "0 < w"
  shows "x div w * w \<le> x" and "x < (x div w + 1) * w"
proof -
  have m: "0 \<le> x mod w" "x mod w < w" using assms by simp_all
  have "x div w * w = x - x mod w" by (simp add: minus_mod_eq_div_mult)
  moreover have "(x div w + 1) * w = x div w * w + w" by (simp add: distrib_right)
  ultimately show "x div w * w \<le> x" "x < (x div w + 1) * w" using m by linarith+
qed

end
