(* ===== verification/MongoCollection.thy ===== *)
theory MongoCollection
  imports Prelude
begin

text \<open>
  The surface of a MongoDB collection that the modelled code calls. The server is not part of the
  repository: every definition that talks to a collection takes the operations as an argument
  (a record \<open>'d mongo\<close>), and what the code relies on is the locale \<open>mongo_collection\<close>, the
  documented behaviour of single-document operations on an \<^verbatim>\<open>_id\<close>: each is atomic, an upsert
  whose filter does not match a document with that \<^verbatim>\<open>_id\<close> fails with
  \<^verbatim>\<open>DuplicateKeyError\<close>, an update or a delete whose filter matches nothing changes nothing.
  \<open>mem_mongo\<close> is an in-memory collection of the kind the repository's tests use; it shows that
  the contract can be met.
\<close>

section \<open>Operations\<close>

text \<open>The documents of a collection by their \<^verbatim>\<open>_id\<close>.\<close>

type_synonym 'd coll = "string \<rightharpoonup> 'd"

datatype mongo_error = DuplicateKeyError | PyMongoError

text \<open>
  A filter that pins \<^verbatim>\<open>_id\<close> is the identifier and a predicate for its other conditions; an
  update is a function on the document. \<open>find_one_and_update\<close> returns the updated document, or
  \<open>None\<close> when nothing matched (so it also gives the \<^verbatim>\<open>matched_count\<close> of \<^verbatim>\<open>update_one\<close>);
  \<open>find_one_and_update_before\<close> is the same call with the driver's default
  \<^verbatim>\<open>ReturnDocument.BEFORE\<close>, which returns the document as it was;
  \<open>upsert_one\<close> takes the document to insert when there is none with that \<^verbatim>\<open>_id\<close>.
  \<open>update_many\<close> updates every matching document, \<open>find_many\<close> lists them in some order;
  \<open>find_where\<close> is a filter without \<^verbatim>\<open>_id\<close>: any matching document may be returned.
\<close>

record 'd mongo =
  find_one :: "'d coll \<Rightarrow> string \<Rightarrow> ('d \<Rightarrow> bool) \<Rightarrow> 'd option"
  find_where :: "'d coll \<Rightarrow> ('d \<Rightarrow> bool) \<Rightarrow> 'd option"
  insert_one :: "'d coll \<Rightarrow> string \<Rightarrow> 'd \<Rightarrow> (mongo_error, 'd coll) result"
  find_one_and_update :: "'d coll \<Rightarrow> string \<Rightarrow> ('d \<Rightarrow> bool) \<Rightarrow> ('d \<Rightarrow> 'd) \<Rightarrow> 'd option \<times> 'd coll"
  find_one_and_update_before :: "'d coll \<Rightarrow> string \<Rightarrow> ('d \<Rightarrow> bool) \<Rightarrow> ('d \<Rightarrow> 'd) \<Rightarrow> 'd option \<times> 'd coll"
  upsert_one :: "'d coll \<Rightarrow> string \<Rightarrow> ('d \<Rightarrow> bool) \<Rightarrow> ('d \<Rightarrow> 'd) \<Rightarrow> 'd \<Rightarrow>
    (mongo_error, 'd \<times> 'd coll) result"
  update_many :: "'d coll \<Rightarrow> ('d \<Rightarrow> bool) \<Rightarrow> ('d \<Rightarrow> 'd) \<Rightarrow> 'd coll"
  find_many :: "'d coll \<Rightarrow> ('d \<Rightarrow> bool) \<Rightarrow> 'd list"
  delete_one :: "'d coll \<Rightarrow> string \<Rightarrow> ('d \<Rightarrow> bool) \<Rightarrow> (mongo_error, nat) result \<times> 'd coll"

section \<open>The contract\<close>

definition matches :: "'d coll \<Rightarrow> string \<Rightarrow> ('d \<Rightarrow> bool) \<Rightarrow> bool" where
  "matches c k P = (case c k of None \<Rightarrow> False | Some d \<Rightarrow> P d)"

lemma matches_simps [simp]:
  "c k = None \<Longrightarrow> matches c k P = False"
  "c k = Some d \<Longrightarrow> matches c k P = P d"
  by (simp_all add: matches_def)

lemma matchesE:
  assumes "matches c k P"
  obtains d where "c k = Some d" and "P d"
  using assms by (auto simp: matches_def split: option.splits)

text \<open>
  A delete may also fail on its way to the server (the one failure the modelled code catches);
  it then either did not happen or happened unacknowledged.
\<close>

locale mongo_collection =
  fixes M :: "'d mongo"
  assumes find_one_law: "find_one M c k P = (if matches c k P then c k else None)"
    and find_where_Some: "find_where M c P = Some d \<Longrightarrow> P d \<and> d \<in> ran c"
    and find_where_None: "find_where M c P = None \<Longrightarrow> d \<in> ran c \<Longrightarrow> \<not> P d"
    and insert_one_law: "insert_one M c k d =
      (if c k = None then Inr (c(k \<mapsto> d)) else Inl DuplicateKeyError)"
    and find_one_and_update_law: "find_one_and_update M c k P u =
      (if matches c k P then (Some (u (the (c k))), c(k \<mapsto> u (the (c k)))) else (None, c))"
    and find_one_and_update_before_law: "find_one_and_update_before M c k P u =
      (if matches c k P then (c k, c(k \<mapsto> u (the (c k)))) else (None, c))"
    and upsert_one_law: "upsert_one M c k P u d =
      (if matches c k P then Inr (u (the (c k)), c(k \<mapsto> u (the (c k))))
       else if c k = None then Inr (d, c(k \<mapsto> d))
       else Inl DuplicateKeyError)"
    and update_many_law: "update_many M c P u = (\<lambda>k. map_option (\<lambda>d. if P d then u d else d) (c k))"
    and find_many_law: "finite (dom c) \<Longrightarrow> set (find_many M c P) = {d \<in> ran c. P d}"
    and delete_one_cases: "delete_one M c k P =
        (Inr (if matches c k P then 1 else 0), if matches c k P then c(k := None) else c) \<or>
      delete_one M c k P = (Inl PyMongoError, c) \<or>
      delete_one M c k P = (Inl PyMongoError, if matches c k P then c(k := None) else c)"
begin

lemmas point_laws = find_one_law insert_one_law find_one_and_update_law
  find_one_and_update_before_law upsert_one_law

text \<open>Whatever a delete does, other documents and documents the filter rejects stay.\<close>

lemma delete_one_other: "k' \<noteq> k \<Longrightarrow> snd (delete_one M c k P) k' = c k'"
  using delete_one_cases [of c k P] by (auto split: if_splits)

lemma delete_one_kept: "\<not> matches c k P \<Longrightarrow> snd (delete_one M c k P) = c"
  using delete_one_cases [of c k P] by auto

lemma delete_one_sub: "snd (delete_one M c k P) k' = Some d \<Longrightarrow> c k' = Some d"
  using delete_one_cases [of c k P] by (auto split: if_splits)

lemma delete_one_Inr:
  "fst (delete_one M c k P) = Inr n \<Longrightarrow>
    n = (if matches c k P then 1 else 0) \<and>
    snd (delete_one M c k P) = (if matches c k P then c(k := None) else c)"
  using delete_one_cases [of c k P] by auto

end

section \<open>An in-memory collection\<close>

definition mem_mongo :: "'d mongo" where
  "mem_mongo = \<lparr>
    find_one = (\<lambda>c k P. case c k of None \<Rightarrow> None | Some d \<Rightarrow> if P d then Some d else None),
    find_where = (\<lambda>c P. if \<exists>d \<in> ran c. P d then Some (SOME d. d \<in> ran c \<and> P d) else None),
    insert_one = (\<lambda>c k d. case c k of None \<Rightarrow> Inr (c(k \<mapsto> d)) | Some _ \<Rightarrow> Inl DuplicateKeyError),
    find_one_and_update = (\<lambda>c k P u. case c k of None \<Rightarrow> (None, c)
      | Some d \<Rightarrow> if P d then (Some (u d), c(k \<mapsto> u d)) else (None, c)),
    find_one_and_update_before = (\<lambda>c k P u. case c k of None \<Rightarrow> (None, c)
      | Some d \<Rightarrow> if P d then (Some d, c(k \<mapsto> u d)) else (None, c)),
    upsert_one = (\<lambda>c k P u n. case c k of None \<Rightarrow> Inr (n, c(k \<mapsto> n))
      | Some d \<Rightarrow> if P d then Inr (u d, c(k \<mapsto> u d)) else Inl DuplicateKeyError),
    update_many = (\<lambda>c P u k. map_option (\<lambda>d. if P d then u d else d) (c k)),
    find_many = (\<lambda>c P. SOME ds. set ds = {d \<in> ran c. P d}),
    delete_one = (\<lambda>c k P. case c k of None \<Rightarrow> (Inr 0, c)
      | Some d \<Rightarrow> if P d then (Inr 1, c(k := None)) else (Inr 0, c))\<rparr>"

lemma mem_find_one [simp]:
  "find_one mem_mongo c k P = (case c k of None \<Rightarrow> None | Some d \<Rightarrow> if P d then Some d else None)"
  by (simp add: mem_mongo_def)

lemma mem_insert_one [simp]:
  "insert_one mem_mongo c k d =
    (case c k of None \<Rightarrow> Inr (c(k \<mapsto> d)) | Some _ \<Rightarrow> Inl DuplicateKeyError)"
  by (simp add: mem_mongo_def)

lemma mem_find_one_and_update [simp]:
  "find_one_and_update mem_mongo c k P u = (case c k of None \<Rightarrow> (None, c)
      | Some d \<Rightarrow> if P d then (Some (u d), c(k \<mapsto> u d)) else (None, c))"
  by (simp add: mem_mongo_def)

lemma mem_find_one_and_update_before [simp]:
  "find_one_and_update_before mem_mongo c k P u = (case c k of None \<Rightarrow> (None, c)
      | Some d \<Rightarrow> if P d then (Some d, c(k \<mapsto> u d)) else (None, c))"
  by (simp add: mem_mongo_def)

lemma mem_upsert_one [simp]:
  "upsert_one mem_mongo c k P u n = (case c k of None \<Rightarrow> Inr (n, c(k \<mapsto> n))
      | Some d \<Rightarrow> if P d then Inr (u d, c(k \<mapsto> u d)) else Inl DuplicateKeyError)"
  by (simp add: mem_mongo_def)

lemma mem_delete_one [simp]:
  "delete_one mem_mongo c k P = (case c k of None \<Rightarrow> (Inr 0, c)
      | Some d \<Rightarrow> if P d then (Inr 1, c(k := None)) else (Inr 0, c))"
  by (simp add: mem_mongo_def)

lemma mem_update_many [simp]:
  "update_many mem_mongo c P u = (\<lambda>k. map_option (\<lambda>d. if P d then u d else d) (c k))"
  by (simp add: mem_mongo_def)

lemma mem_find_many:
  assumes "finite (dom c)"
  shows "set (find_many mem_mongo c P) = {d \<in> ran c. P d}"
proof -
  have "finite {d \<in> ran c. P d}" using finite_ran [OF assms] by simp
  then have "\<exists>ds. set ds = {d \<in> ran c. P d}" by (rule finite_list)
  then have "set (SOME ds. set ds = {d \<in> ran c. P d}) = {d \<in> ran c. P d}" by (rule someI_ex)
  then show ?thesis by (simp add: mem_mongo_def)
qed

lemma mem_find_where: "find_where mem_mongo c P =
    (if \<exists>d \<in> ran c. P d then Some (SOME d. d \<in> ran c \<and> P d) else None)"
  by (simp add: mem_mongo_def)

interpretation mem: mongo_collection mem_mongo
proof unfold_locales
  show "find_where mem_mongo c P = Some d \<Longrightarrow> P d \<and> d \<in> ran c" for c P and d :: 'b
    by (auto simp: mem_find_where dest: someI_ex split: if_splits)
       (metis (mono_tags, lifting) someI_ex)+
  show "find_where mem_mongo c P = None \<Longrightarrow> d \<in> ran c \<Longrightarrow> \<not> P d" for c P and d :: 'b
    by (auto simp: mem_find_where split: if_splits)
  show "finite (dom c) \<Longrightarrow> set (find_many mem_mongo c P) = {d \<in> ran c. P d}" for c :: "'b coll" and P
    by (rule mem_find_many)
qed (auto simp: matches_def split: option.splits)

end
