(* ===== verification/Idempotency.thy ===== *)
theory Idempotency
  imports MongoCollection
begin

text \<open>
  The completed-event marker, \<^verbatim>\<open>core/src/zeler_platform_core/events/idempotency.py\<close>.
  A document of \<^verbatim>\<open>processed_events\<close> says that one idempotency key was processed within one
  scope (a consumer, or a module); it counts only until its \<^verbatim>\<open>expires_at\<close>. Documents written by
  older releases are keyed by the bare idempotency key and may lack fields.
\<close>

section \<open>Documents and the store\<close>

text \<open>
  \<open>pd_consumer_id\<close> tells an absent field (\<open>None\<close>) from a null one (\<open>Some None\<close>);
  \<open>pd_expires_at\<close> is \<open>None\<close> when the field is absent or not a date.
\<close>

record processed_doc =
  pd_idempotency_key :: "string option"
  pd_module_id :: "string option"
  pd_consumer_id :: "string option option"
  pd_processed_at :: "instant option"
  pd_expires_at :: "instant option"
  pd_schema_version :: int

record idempotency_store =
  is_collection :: "processed_doc mongo"
  is_retention :: duration

definition default_retention :: duration where
  "default_retention = hours_us 48"

definition scoped_processed_event_id :: "string \<Rightarrow> string \<Rightarrow> string" where
  "scoped_processed_event_id idempotency_key scope_id = scope_id @ '':'' @ idempotency_key"

section \<open>Operations\<close>

definition document_is_active :: "instant \<Rightarrow> processed_doc option \<Rightarrow> bool" where
  "document_is_active now document =
    (case document of None \<Rightarrow> False
     | Some d \<Rightarrow> (case pd_expires_at d of None \<Rightarrow> False | Some e \<Rightarrow> e > now))"

definition is_duplicate_unscoped ::
  "idempotency_store \<Rightarrow> instant \<Rightarrow> processed_doc coll \<Rightarrow> string \<Rightarrow> bool" where
  "is_duplicate_unscoped S now c key =
    (let document = find_one (is_collection S) c key (\<lambda>_. True) in
     if document_is_active now document then True
     else document_is_active now
       (find_where (is_collection S) c (\<lambda>d. pd_idempotency_key d = Some key)))"

definition is_duplicate_scoped ::
  "idempotency_store \<Rightarrow> instant \<Rightarrow> processed_doc coll \<Rightarrow> string \<Rightarrow> string \<Rightarrow> string option \<Rightarrow> bool" where
  "is_duplicate_scoped S now c key module_id consumer_id =
    (let scope_id = or_str consumer_id module_id;
         scoped = find_one (is_collection S) c (scoped_processed_event_id key scope_id) (\<lambda>_. True)
     in if document_is_active now scoped then True
        else (case find_one (is_collection S) c key (\<lambda>_. True) of
                None \<Rightarrow> False
              | Some legacy \<Rightarrow>
                  if pd_module_id legacy \<noteq> Some module_id then False
                  else if consumer_id \<noteq> None \<and> pd_consumer_id legacy \<noteq> None \<and>
                          pd_consumer_id legacy \<noteq> Some consumer_id then False
                  else document_is_active now (Some legacy)))"

definition is_duplicate ::
  "idempotency_store \<Rightarrow> instant \<Rightarrow> processed_doc coll \<Rightarrow> string \<Rightarrow> string option \<Rightarrow> string option \<Rightarrow> bool" where
  "is_duplicate S now c key module_id consumer_id =
    (case module_id of
       None \<Rightarrow> is_duplicate_unscoped S now c key
     | Some m \<Rightarrow> is_duplicate_scoped S now c key m consumer_id)"

definition processed_marker ::
  "idempotency_store \<Rightarrow> instant \<Rightarrow> string \<Rightarrow> string \<Rightarrow> string \<Rightarrow> processed_doc" where
  "processed_marker S now key module_id scope_id = \<lparr>
     pd_idempotency_key = Some key, pd_module_id = Some module_id,
     pd_consumer_id = Some (Some scope_id), pd_processed_at = Some now,
     pd_expires_at = Some (now + is_retention S), pd_schema_version = 2\<rparr>"

text \<open>
  The handler of \<^verbatim>\<open>mark_processed\<close> turns any exception whose text contains \<^verbatim>\<open>duplicate\<close> into
  \<open>False\<close> and re-raises the others.
\<close>

definition mark_processed ::
  "idempotency_store \<Rightarrow> instant \<Rightarrow> processed_doc coll \<Rightarrow> string \<Rightarrow> string \<Rightarrow> string option \<Rightarrow>
    (mongo_error, bool) result \<times> processed_doc coll" where
  "mark_processed S now c key module_id consumer_id =
    (let scope_id = or_str consumer_id module_id in
     case insert_one (is_collection S) c (scoped_processed_event_id key scope_id)
            (processed_marker S now key module_id scope_id) of
       Inr c' \<Rightarrow> (Inr True, c')
     | Inl DuplicateKeyError \<Rightarrow> (Inr False, c)
     | Inl PyMongoError \<Rightarrow> (Inl PyMongoError, c))"

lemmas idempotency_defs =
  document_is_active_def is_duplicate_unscoped_def is_duplicate_scoped_def is_duplicate_def
  processed_marker_def mark_processed_def

section \<open>Facts\<close>

lemma scoped_id_inject:
  "scoped_processed_event_id k s = scoped_processed_event_id k' s \<longleftrightarrow> k = k'"
  by (simp add: scoped_processed_event_id_def)

text \<open>
  Two scopes may share an identifier only when one of them contains a colon, so distinct
  module and queue names (which contain none) never collide.
\<close>

lemma scoped_id_scope:
  assumes "scoped_processed_event_id k s = scoped_processed_event_id k' s'"
    and "CHR '':'' \<notin> set s" and "CHR '':'' \<notin> set s'"
  shows "s = s' \<and> k = k'"
  using assms
proof (induction s arbitrary: s')
  case Nil
  then show ?case by (cases s') (auto simp: scoped_processed_event_id_def)
next
  case (Cons c s)
  then show ?case by (cases s') (auto simp: scoped_processed_event_id_def)
qed

lemma document_is_active_expiry:
  "document_is_active now (Some (processed_marker S t key m s)) \<longleftrightarrow> now < t + is_retention S"
  by (auto simp: document_is_active_def processed_marker_def)

lemma document_is_active_antimono:
  "document_is_active now d \<Longrightarrow> now' \<le> now \<Longrightarrow> document_is_active now' d"
  by (auto simp: document_is_active_def split: option.splits)

end
