(* ===== verification/EventClaims.thy ===== *)
theory EventClaims
  imports Idempotency
begin

text \<open>
  The exclusive lease per scoped idempotency key,
  \<^verbatim>\<open>core/src/zeler_platform_core/events/claims.py\<close>. A claim document with an unexpired
  \<^verbatim>\<open>expires_at\<close> is a live lease of the owner whose token it carries. The clock is part of the
  state (\<^verbatim>\<open>now_fn\<close>), and an \<open>env\<close> argument is what other processes and the passing of time do
  to the two collections at each suspension point of \<^verbatim>\<open>claim\<close>.
\<close>

section \<open>Data\<close>

datatype claim_outcome = CLAIMED | COMPLETED | TIMED_OUT

record claim_doc =
  cd_idempotency_key :: string
  cd_module_id :: string
  cd_consumer_id :: string
  cd_owner_token :: string
  cd_claimed_at :: instant
  cd_expires_at :: instant
  cd_history_dispatch_fence :: "int option"

record event_store =
  es_claims :: "claim_doc coll"
  es_processed :: "processed_doc coll"
  es_now :: instant

record claim_store =
  cs_claims :: "claim_doc mongo"
  cs_completed :: idempotency_store
  cs_lease :: duration
  cs_wait :: duration
  cs_poll :: duration

record claim_request =
  rq_key :: string
  rq_module :: string
  rq_consumer :: "string option"
  rq_owner :: string

definition default_claim_store :: "claim_doc mongo \<Rightarrow> idempotency_store \<Rightarrow> claim_store" where
  "default_claim_store M I = \<lparr>cs_claims = M, cs_completed = I, cs_lease = seconds 120,
     cs_wait = seconds 30, cs_poll = 250000\<rparr>"

definition rq_scope :: "claim_request \<Rightarrow> string" where
  "rq_scope r = or_str (rq_consumer r) (rq_module r)"

definition rq_id :: "claim_request \<Rightarrow> string" where
  "rq_id r = scoped_processed_event_id (rq_key r) (rq_scope r)"

section \<open>Operations\<close>

definition claim_fields :: "claim_request \<Rightarrow> instant \<Rightarrow> duration \<Rightarrow> claim_doc \<Rightarrow> claim_doc" where
  "claim_fields r now lease d = d\<lparr>
     cd_idempotency_key := rq_key r, cd_module_id := rq_module r, cd_consumer_id := rq_scope r,
     cd_owner_token := rq_owner r, cd_claimed_at := now, cd_expires_at := now + lease\<rparr>"

definition new_claim :: "claim_request \<Rightarrow> instant \<Rightarrow> duration \<Rightarrow> claim_doc" where
  "new_claim r now lease = \<lparr>
     cd_idempotency_key = rq_key r, cd_module_id = rq_module r, cd_consumer_id = rq_scope r,
     cd_owner_token = rq_owner r, cd_claimed_at = now, cd_expires_at = now + lease,
     cd_history_dispatch_fence = None\<rparr>"

definition acquire ::
  "claim_store \<Rightarrow> claim_request \<Rightarrow> duration \<Rightarrow> event_store \<Rightarrow>
   (mongo_error, bool) result \<times> event_store" where
  "acquire S r lease s =
    (case upsert_one (cs_claims S) (es_claims s) (rq_id r)
            (\<lambda>d. cd_expires_at d \<le> es_now s)
            (claim_fields r (es_now s) lease) (new_claim r (es_now s) lease) of
       Inr (_, c) \<Rightarrow> (Inr True, s\<lparr>es_claims := c\<rparr>)
     | Inl DuplicateKeyError \<Rightarrow> (Inr False, s)
     | Inl PyMongoError \<Rightarrow> (Inl PyMongoError, s))"

definition owned_claim_filter :: "claim_request \<Rightarrow> claim_doc \<Rightarrow> bool" where
  "owned_claim_filter r d = (cd_owner_token d = rq_owner r)"

definition release ::
  "claim_store \<Rightarrow> claim_request \<Rightarrow> event_store \<Rightarrow> (mongo_error, bool) result \<times> event_store" where
  "release S r s =
    (case delete_one (cs_claims S) (es_claims s) (rq_id r) (owned_claim_filter r) of
       (Inr n, c) \<Rightarrow> (Inr (n \<noteq> 0), s\<lparr>es_claims := c\<rparr>)
     | (Inl e, c) \<Rightarrow> (Inl e, s\<lparr>es_claims := c\<rparr>))"

definition already_completed :: "claim_store \<Rightarrow> claim_request \<Rightarrow> event_store \<Rightarrow> bool" where
  "already_completed S r s =
    is_duplicate (cs_completed S) (es_now s) (es_processed s) (rq_key r)
      (Some (rq_module r)) (rq_consumer r)"

definition max_attempts :: "claim_store \<Rightarrow> duration \<Rightarrow> nat" where
  "max_attempts S effective_wait =
    (if cs_poll S > 0 then nat (max 1 (ceil_div effective_wait (cs_poll S)) + 1) else 1)"

text \<open>
  One pass of the loop body for each unit of \<open>left\<close>, the attempts that remain.
  \<open>env i\<close> runs at the \<open>i\<close>-th suspension point.
\<close>

fun claim_loop ::
  "claim_store \<Rightarrow> claim_request \<Rightarrow> duration \<Rightarrow> instant \<Rightarrow> (nat \<Rightarrow> event_store \<Rightarrow> event_store) \<Rightarrow>
   nat \<Rightarrow> nat \<Rightarrow> event_store \<Rightarrow> (mongo_error, claim_outcome) result \<times> event_store" where
  "claim_loop S r lease deadline env i 0 s = (Inr TIMED_OUT, s)"
| "claim_loop S r lease deadline env i (Suc left) s =
    (let s1 = env i s in
     if already_completed S r s1 then (Inr COMPLETED, s1)
     else (case acquire S r lease (env (i + 1) s1) of
       (Inl e, s2) \<Rightarrow> (Inl e, s2)
     | (Inr acquired, s2) \<Rightarrow>
         (let s3 = env (i + 2) s2 in
          if already_completed S r s3 then
            (case release S r (env (i + 3) s3) of
               (Inl e, s4) \<Rightarrow> (Inl e, s4)
             | (Inr _, s4) \<Rightarrow> (Inr COMPLETED, s4))
          else if acquired then (Inr CLAIMED, s3)
          else if left = 0 \<or> es_now s3 \<ge> deadline then (Inr TIMED_OUT, s3)
          else claim_loop S r lease deadline env (i + 4) left s3)))"

definition claim ::
  "claim_store \<Rightarrow> claim_request \<Rightarrow> duration option \<Rightarrow> duration option \<Rightarrow>
   (nat \<Rightarrow> event_store \<Rightarrow> event_store) \<Rightarrow> event_store \<Rightarrow>
   (mongo_error, claim_outcome) result \<times> event_store" where
  "claim S r lease wait env s =
    (let effective_lease = (case lease of None \<Rightarrow> cs_lease S | Some l \<Rightarrow> l);
         effective_wait = (case wait of None \<Rightarrow> cs_wait S | Some w \<Rightarrow> w)
     in claim_loop S r effective_lease (es_now s + effective_wait) env 0
          (max_attempts S effective_wait) s)"

text \<open>
  \<^verbatim>\<open>complete\<close> checks that the lease is still owned, writes the completed marker, then deletes
  the claim; the delete is best effort. Each of the three is one definition, so that the
  interleavings of the protocol theory can suspend between them.
\<close>

definition owns_claim :: "claim_store \<Rightarrow> claim_request \<Rightarrow> event_store \<Rightarrow> bool" where
  "owns_claim S r s =
    (find_one (cs_claims S) (es_claims s) (rq_id r) (owned_claim_filter r) \<noteq> None)"

definition write_marker ::
  "claim_store \<Rightarrow> claim_request \<Rightarrow> event_store \<Rightarrow> (mongo_error, bool) result \<times> event_store" where
  "write_marker S r s =
    (case mark_processed (cs_completed S) (es_now s) (es_processed s)
            (rq_key r) (rq_module r) (rq_consumer r) of
       (marked, p) \<Rightarrow> (marked, s\<lparr>es_processed := p\<rparr>))"

definition drop_claim :: "claim_store \<Rightarrow> claim_request \<Rightarrow> event_store \<Rightarrow> event_store" where
  "drop_claim S r s =
    s\<lparr>es_claims := snd (delete_one (cs_claims S) (es_claims s) (rq_id r) (owned_claim_filter r))\<rparr>"

definition complete ::
  "claim_store \<Rightarrow> claim_request \<Rightarrow> (nat \<Rightarrow> event_store \<Rightarrow> event_store) \<Rightarrow> event_store \<Rightarrow>
   (mongo_error, bool) result \<times> event_store" where
  "complete S r env s =
    (if \<not> owns_claim S r s then (Inr False, s)
     else (case write_marker S r (env 0 s) of
             (Inl e, s1) \<Rightarrow> (Inl e, s1)
           | (Inr marked, s1) \<Rightarrow> (Inr marked, drop_claim S r (env 1 s1))))"

lemmas claim_defs [store_defs] =
  acquire_def release_def already_completed_def owns_claim_def write_marker_def drop_claim_def
  claim_fields_def new_claim_def owned_claim_filter_def

section \<open>Conditions on the environment\<close>

text \<open>
  The rely condition of one claim: time does not run backwards and nobody else changes a claim
  document that the owner still holds.
\<close>

definition lease_respecting ::
  "claim_request \<Rightarrow> (nat \<Rightarrow> event_store \<Rightarrow> event_store) \<Rightarrow> bool" where
  "lease_respecting r env \<longleftrightarrow>
    (\<forall>i s. es_now s \<le> es_now (env i s) \<and>
      (\<forall>d. es_claims s (rq_id r) = Some d \<and> cd_owner_token d = rq_owner r \<and>
           es_now (env i s) < cd_expires_at d \<longrightarrow> es_claims (env i s) (rq_id r) = Some d))"

definition held_elsewhere :: "claim_store \<Rightarrow> claim_request \<Rightarrow> event_store \<Rightarrow> bool" where
  "held_elsewhere S r s \<longleftrightarrow> \<not> already_completed S r s \<and>
    (\<exists>d. es_claims s (rq_id r) = Some d \<and> cd_owner_token d \<noteq> rq_owner r \<and>
         es_now s < cd_expires_at d)"

section \<open>The store over the two collections\<close>

text \<open>
  \<open>event_claim_store S\<close> says that the two collections of \<open>S\<close> keep the contract of
  \<open>mongo_collection\<close>. Its lemmas say what each operation does to the lease of one scoped key.
\<close>

locale event_claim_store =
  cl: mongo_collection "cs_claims S" + pr: mongo_collection "is_collection (cs_completed S)"
  for S :: claim_store
begin

lemma acquire_eq: "acquire S r lease s =
  (case es_claims s (rq_id r) of
     None \<Rightarrow> (Inr True, s\<lparr>es_claims := (es_claims s)(rq_id r \<mapsto> new_claim r (es_now s) lease)\<rparr>)
   | Some d \<Rightarrow> if cd_expires_at d \<le> es_now s
       then (Inr True, s\<lparr>es_claims := (es_claims s)(rq_id r \<mapsto> claim_fields r (es_now s) lease d)\<rparr>)
       else (Inr False, s))"
  by (auto simp: acquire_def cl.upsert_one_law matches_def split: option.splits)

lemma acquire_now [simp]: "es_now (snd (acquire S r lease s)) = es_now s"
  by (auto simp: acquire_eq split: option.splits)

lemma acquire_processed [simp]: "es_processed (snd (acquire S r lease s)) = es_processed s"
  by (auto simp: acquire_eq split: option.splits)

lemma acquire_other: "k \<noteq> rq_id r \<Longrightarrow> es_claims (snd (acquire S r lease s)) k = es_claims s k"
  by (auto simp: acquire_eq split: option.splits)

lemma acquire_True:
  assumes "fst (acquire S r lease s) = Inr True"
  obtains d where "es_claims (snd (acquire S r lease s)) (rq_id r) = Some d"
    and "cd_owner_token d = rq_owner r" and "cd_expires_at d = es_now s + lease"
    and "\<And>d0. es_claims s (rq_id r) = Some d0 \<Longrightarrow> cd_expires_at d0 \<le> es_now s"
  using assms that
  by (auto simp: acquire_eq new_claim_def claim_fields_def split: option.splits if_splits)

lemma acquire_False:
  assumes "fst (acquire S r lease s) = Inr False"
  shows "snd (acquire S r lease s) = s"
    and "\<exists>d. es_claims s (rq_id r) = Some d \<and> es_now s < cd_expires_at d"
  using assms by (auto simp: acquire_eq split: option.splits if_splits)

lemma acquire_no_error: "fst (acquire S r lease s) = Inr b \<longleftrightarrow>
  b = (case es_claims s (rq_id r) of None \<Rightarrow> True | Some d \<Rightarrow> cd_expires_at d \<le> es_now s)"
  by (auto simp: acquire_eq split: option.splits)

lemma acquire_returns: "\<exists>b s'. acquire S r lease s = (Inr b, s')"
  by (auto simp: acquire_eq split: option.splits)

lemma release_state: "snd (release S r s) = s\<lparr>es_claims :=
    snd (delete_one (cs_claims S) (es_claims s) (rq_id r) (owned_claim_filter r))\<rparr>"
  by (auto simp: release_def split: prod.splits sum.splits)

lemma drop_claim_state: "drop_claim S r s = snd (release S r s)"
  by (simp add: release_state drop_claim_def)

lemma release_now [simp]: "es_now (snd (release S r s)) = es_now s"
  and release_processed [simp]: "es_processed (snd (release S r s)) = es_processed s"
  by (simp_all add: release_state)

lemma release_keeps:
  assumes "es_claims s k = Some d" and "k = rq_id r \<Longrightarrow> cd_owner_token d \<noteq> rq_owner r"
  shows "es_claims (snd (release S r s)) k = Some d"
proof (cases "k = rq_id r")
  case True
  with assms have "\<not> matches (es_claims s) (rq_id r) (owned_claim_filter r)"
    by (simp add: owned_claim_filter_def)
  from cl.delete_one_kept [OF this] assms(1) show ?thesis by (simp add: release_state)
next
  case False
  with assms(1) show ?thesis by (simp add: release_state cl.delete_one_other)
qed

lemma release_sub: "es_claims (snd (release S r s)) k = Some d \<Longrightarrow> es_claims s k = Some d"
  by (auto simp: release_state dest: cl.delete_one_sub)

lemma owns_claim_iff:
  "owns_claim S r s \<longleftrightarrow> (\<exists>d. es_claims s (rq_id r) = Some d \<and> cd_owner_token d = rq_owner r)"
  by (auto simp: owns_claim_def cl.find_one_law matches_def owned_claim_filter_def
      split: option.splits)

lemma write_marker_eq: "write_marker S r s =
  (case es_processed s (rq_id r) of
     None \<Rightarrow> (Inr True, s\<lparr>es_processed := (es_processed s)(rq_id r \<mapsto>
        processed_marker (cs_completed S) (es_now s) (rq_key r) (rq_module r) (rq_scope r))\<rparr>)
   | Some _ \<Rightarrow> (Inr False, s))"
  by (auto simp: write_marker_def mark_processed_def pr.insert_one_law rq_id_def rq_scope_def
      Let_def split: option.splits)

lemma completed_by_marker:
  assumes "es_processed s (rq_id r) = Some d" and "document_is_active (es_now s) (Some d)"
  shows "already_completed S r s"
  using assms
  by (simp add: already_completed_def is_duplicate_def is_duplicate_scoped_def Let_def
      pr.find_one_law rq_id_def rq_scope_def)

lemma already_completed_cong:
  "es_processed s = es_processed t \<Longrightarrow> es_now s = es_now t \<Longrightarrow>
    already_completed S r s = already_completed S r t"
  by (simp add: already_completed_def)

lemma claim_loop_claimed:
  assumes "lease_respecting r env"
    and "claim_loop S r lease deadline env i n s = (Inr CLAIMED, s')"
  shows "\<not> already_completed S r s' \<and> es_now s \<le> es_now s' \<and>
    (\<exists>t. es_now s \<le> t \<and> t \<le> es_now s' \<and> (es_now s' < t + lease \<longrightarrow>
      (\<exists>d. es_claims s' (rq_id r) = Some d \<and> cd_owner_token d = rq_owner r \<and>
           cd_expires_at d = t + lease)))"
  using assms(2)
proof (induction n arbitrary: i s)
  case 0
  then show ?case by simp
next
  case (Suc left)
  define s1 where "s1 = env (i + 1) (env i s)"
  have mono: "es_now x \<le> es_now (env j x)" for j x
    using assms(1) by (simp add: lease_respecting_def)
  have now1: "es_now s \<le> es_now s1"
    using order_trans [OF mono [of s i] mono [of "env i s" "i + 1"]] by (simp add: s1_def)
  obtain b s2 where acq: "acquire S r lease s1 = (Inr b, s2)"
    using acquire_returns by blast
  have now2: "es_now s2 = es_now s1" using acquire_now [of r lease s1] acq by simp
  define s3 where "s3 = env (i + 2) s2"
  have now3: "es_now s1 \<le> es_now s3" using mono [of s2 "i + 2"] now2 by (simp add: s3_def)
  from Suc.prems acq have nd: "\<not> already_completed S r (env i s)"
    by (auto simp: Let_def split: if_splits)
  from Suc.prems acq nd have nd3: "\<not> already_completed S r s3"
    by (auto simp: Let_def s1_def s3_def
        split: if_splits prod.splits sum.splits)
  show ?case
  proof (cases b)
    case True
    with Suc.prems acq nd nd3 have s': "s' = s3"
      by (auto simp: Let_def s1_def s3_def)
    from acq True have "fst (acquire S r lease s1) = Inr True" by simp
    then obtain d where d: "es_claims s2 (rq_id r) = Some d" "cd_owner_token d = rq_owner r"
      "cd_expires_at d = es_now s1 + lease"
      by (rule acquire_True) (use acq in auto)
    have "es_now s3 < es_now s1 + lease \<Longrightarrow> es_claims s3 (rq_id r) = Some d"
      using assms(1) d by (simp add: lease_respecting_def s3_def)
    with d nd3 now1 now3 s' show ?thesis by (auto intro!: exI [of _ "es_now s1"])
  next
    case False
    with Suc.prems acq nd nd3
    have rec: "claim_loop S r lease deadline env (i + 4) left s3 = (Inr CLAIMED, s')"
      by (auto simp: Let_def s1_def s3_def split: if_splits)
    from Suc.IH [OF rec] now1 now3 show ?thesis by (meson order_trans)
  qed
qed

lemma claim_loop_busy:
  assumes busy: "\<And>j x. held_elsewhere S r (env j x)"
    and "0 < n"
  shows "fst (claim_loop S r lease deadline env i n s) = Inr TIMED_OUT"
  using assms(2)
proof (induction n arbitrary: i s)
  case 0
  then show ?case by simp
next
  case (Suc left)
  have "held_elsewhere S r (env i s)" and h: "held_elsewhere S r (env (i + 1) (env i s))"
    by (rule busy)+
  then have nd: "\<not> already_completed S r (env i s)"
    and acq: "acquire S r lease (env (i + 1) (env i s)) = (Inr False, env (i + 1) (env i s))"
    by (auto simp: held_elsewhere_def acquire_eq)
  have "held_elsewhere S r (env (i + 2) (env (i + 1) (env i s)))" by (rule busy)
  then have "\<not> already_completed S r (env (i + 2) (env (i + 1) (env i s)))"
    by (simp add: held_elsewhere_def)
  with nd acq Suc.IH show ?case by (cases left) (simp_all add: Let_def)
qed

end

text \<open>The default collections of the tests give a store.\<close>

definition mem_idempotency :: idempotency_store where
  "mem_idempotency = \<lparr>is_collection = mem_mongo, is_retention = default_retention\<rparr>"

definition mem_claim_store :: claim_store where
  "mem_claim_store = default_claim_store mem_mongo mem_idempotency"

lemma mem_claim_store_simps [simp]:
  "cs_claims mem_claim_store = mem_mongo"
  "cs_completed mem_claim_store = mem_idempotency"
  "is_collection mem_idempotency = mem_mongo"
  "is_retention mem_idempotency = 172800000000"
  "cs_lease mem_claim_store = 120000000"
  "cs_wait mem_claim_store = 30000000"
  "cs_poll mem_claim_store = 250000"
  by (simp_all add: mem_claim_store_def mem_idempotency_def default_claim_store_def
      default_retention_def time_defs)

interpretation mem_claims: event_claim_store mem_claim_store
  by (intro event_claim_store.intro) (simp_all add: mem.mongo_collection_axioms)

lemma max_attempts_pos: "0 < max_attempts S w"
  by (auto simp: max_attempts_def max_def)

section \<open>Properties\<close>

text \<open>
  When \<^verbatim>\<open>claim\<close> reports \<open>CLAIMED\<close>, no active completed marker exists for the key at that
  moment, and the lease was taken at some instant \<open>t\<close> of the call: until it expires at
  \<open>t\<close> plus the lease time, the claim document carries this owner's token. The environment may do
  anything that keeps time monotone and leaves a lease that is still held alone.
\<close>

theorem claim_grants_lease:
  assumes "event_claim_store S" and "lease_respecting r env"
    and "claim S r lease wait env s = (Inr CLAIMED, s')"
  shows "\<not> already_completed S r s' \<and>
    (\<exists>t. es_now s \<le> t \<and> t \<le> es_now s' \<and>
      (es_now s' < t + (case lease of None \<Rightarrow> cs_lease S | Some l \<Rightarrow> l) \<longrightarrow>
        (\<exists>d. es_claims s' (rq_id r) = Some d \<and> cd_owner_token d = rq_owner r \<and>
             cd_expires_at d = t + (case lease of None \<Rightarrow> cs_lease S | Some l \<Rightarrow> l))))"
  using event_claim_store.claim_loop_claimed [OF assms(1,2)] assms(3)
  unfolding claim_def Let_def by blast

definition demo_request :: claim_request where
  "demo_request = \<lparr>rq_key = ''items:1'', rq_module = ''repricer'',
     rq_consumer = Some ''zeler.repricer.items'', rq_owner = ''a1''\<rparr>"

definition empty_store :: "instant \<Rightarrow> event_store" where
  "empty_store t = \<lparr>es_claims = Map.empty, es_processed = Map.empty, es_now = t\<rparr>"

lemma demo_claim: "claim mem_claim_store demo_request None None (\<lambda>_ s. s) (empty_store 0) =
  (Inr CLAIMED, (empty_store 0)\<lparr>es_claims := [rq_id demo_request \<mapsto> new_claim demo_request 0 120000000]\<rparr>)"
  using max_attempts_pos [of mem_claim_store 30000000]
  by (cases "max_attempts mem_claim_store 30000000")
     (simp_all add: claim_def Let_def mem_claims.acquire_eq already_completed_def is_duplicate_def
       is_duplicate_scoped_def document_is_active_def empty_store_def)

theorem claim_grants_lease_witness:
  "\<not> already_completed mem_claim_store demo_request
      (snd (claim mem_claim_store demo_request None None (\<lambda>_ s. s) (empty_store 0)))"
proof -
  have "lease_respecting demo_request (\<lambda>_ s. s)" by (simp add: lease_respecting_def)
  from claim_grants_lease [OF mem_claims.event_claim_store_axioms this demo_claim]
  show ?thesis by (simp add: demo_claim)
qed

text \<open>
  A lease that another owner keeps holding (and no completed marker) makes \<^verbatim>\<open>claim\<close> return
  \<open>TIMED_OUT\<close>: it ends after at most \<^verbatim>\<open>max_attempts\<close> passes even if the clock stands still.
\<close>

theorem claim_busy_times_out:
  assumes "event_claim_store S" and "\<And>j x. held_elsewhere S r (env j x)"
  shows "fst (claim S r lease wait env s) = Inr TIMED_OUT"
  using event_claim_store.claim_loop_busy [OF assms max_attempts_pos]
  by (simp add: claim_def Let_def)

definition demo_held :: event_store where
  "demo_held = (empty_store 0)\<lparr>es_claims :=
     [rq_id demo_request \<mapsto> new_claim (demo_request\<lparr>rq_owner := ''b2''\<rparr>) 0 120000000]\<rparr>"

theorem claim_busy_times_out_witness:
  "fst (claim mem_claim_store demo_request None None (\<lambda>_ _. demo_held) demo_held) = Inr TIMED_OUT"
proof -
  have "held_elsewhere mem_claim_store demo_request demo_held"
    by (simp add: held_elsewhere_def demo_held_def empty_store_def new_claim_def demo_request_def
        already_completed_def is_duplicate_def is_duplicate_scoped_def document_is_active_def)
  then show ?thesis
    by (intro claim_busy_times_out mem_claims.event_claim_store_axioms)
qed

text \<open>
  The attempt budget never cuts the configured wait short: the passes that may follow the
  first one, each after one poll interval, cover the whole wait, with less than two polls to spare.
\<close>

lemma attempt_budget_covers_wait:
  assumes "0 < cs_poll S" and "0 \<le> w"
  shows "w \<le> (int (max_attempts S w) - 1) * cs_poll S \<and>
    (int (max_attempts S w) - 1) * cs_poll S < w + 2 * cs_poll S"
proof -
  let ?c = "ceil_div w (cs_poll S)"
  from assms have m: "int (max_attempts S w) - 1 = max 1 ?c" by (simp add: max_attempts_def)
  have "w \<le> ?c * cs_poll S" using assms(1) by (rule ceil_div_ge)
  also have "\<dots> \<le> max 1 ?c * cs_poll S" using assms(1) by (simp add: mult_right_mono)
  finally have lower: "w \<le> max 1 ?c * cs_poll S" .
  have "(?c - 1) * cs_poll S < w" using assms(1) by (rule ceil_div_less)
  then have upper: "max 1 ?c * cs_poll S < w + 2 * cs_poll S"
    using assms by (cases "1 \<le> ?c") (auto simp: max_def left_diff_distrib)
  from lower upper show ?thesis by (simp only: m)
qed

end
