(* ===== verification/ClaimProtocol.thy ===== *)
theory ClaimProtocol
  imports EventClaims
begin

text \<open>
  Concurrent deliveries over one pair of collections. Every delivery is a worker (numbered by
  \<open>nat\<close>) with its own request and a fresh owner token; a worker runs \<^verbatim>\<open>claim\<close>, then its side
  effects, then \<^verbatim>\<open>complete\<close> or \<^verbatim>\<open>release\<close>, and may be suspended between any two of its database
  calls. The calls are the definitions of \<^verbatim>\<open>claims.py\<close> in the theory of event claims, one step
  each. The environment lets time pass, expires documents through the TTL index on
  \<^verbatim>\<open>expires_at\<close> and kills workers.
\<close>

section \<open>State\<close>

text \<open>
  \<open>Running e t\<close>: \<^verbatim>\<open>claim\<close> returned \<open>CLAIMED\<close> at \<open>t\<close> on a lease that expires at \<open>e\<close>;
  \<open>Marking e t\<close>: the ownership check of \<^verbatim>\<open>complete\<close> passed; \<open>Dropping\<close>: the marker call returned.
\<close>

datatype worker =
    Start
  | Acquire
  | Recheck "instant option"
  | Release
  | Running instant instant
  | Marking instant instant
  | Dropping
  | Done

text \<open>\<open>pw_marks w = Some (m, e)\<close> records that worker \<open>w\<close> wrote the marker at \<open>m\<close> on a lease until \<open>e\<close>.\<close>

record protocol =
  pw_store :: event_store
  pw_pc :: "nat \<Rightarrow> worker"
  pw_marks :: "nat \<Rightarrow> (instant \<times> instant) option"

definition goto :: "protocol \<Rightarrow> nat \<Rightarrow> worker \<Rightarrow> event_store \<Rightarrow> protocol" where
  "goto W w p s = W\<lparr>pw_store := s, pw_pc := (pw_pc W)(w := p)\<rparr>"

definition initial :: "event_store \<Rightarrow> protocol" where
  "initial s = \<lparr>pw_store = s, pw_pc = (\<lambda>_. Start), pw_marks = (\<lambda>_. None)\<rparr>"

lemma goto_simps [simp]:
  "pw_store (goto W w p s) = s"
  "pw_pc (goto W w p s) = (pw_pc W)(w := p)"
  "pw_marks (goto W w p s) = pw_marks W"
  by (simp_all add: goto_def)

section \<open>Steps\<close>

inductive protocol_step :: "claim_store \<Rightarrow> (nat \<Rightarrow> claim_request) \<Rightarrow> protocol \<Rightarrow> protocol \<Rightarrow> bool"
  for S :: claim_store and rq :: "nat \<Rightarrow> claim_request" where
  first_check_completed:
    "pw_pc W w = Start \<Longrightarrow> already_completed S (rq w) (pw_store W) \<Longrightarrow>
     protocol_step S rq W (goto W w Done (pw_store W))"
| first_check_open:
    "pw_pc W w = Start \<Longrightarrow> \<not> already_completed S (rq w) (pw_store W) \<Longrightarrow>
     protocol_step S rq W (goto W w Acquire (pw_store W))"
| acquired:
    "pw_pc W w = Acquire \<Longrightarrow> acquire S (rq w) (cs_lease S) (pw_store W) = (Inr True, s) \<Longrightarrow>
     protocol_step S rq W (goto W w (Recheck (Some (es_now (pw_store W) + cs_lease S))) s)"
| collided:
    "pw_pc W w = Acquire \<Longrightarrow> acquire S (rq w) (cs_lease S) (pw_store W) = (Inr False, s) \<Longrightarrow>
     protocol_step S rq W (goto W w (Recheck None) s)"
| second_check_completed:
    "pw_pc W w = Recheck x \<Longrightarrow> already_completed S (rq w) (pw_store W) \<Longrightarrow>
     protocol_step S rq W (goto W w Release (pw_store W))"
| claimed:
    "pw_pc W w = Recheck (Some e) \<Longrightarrow> \<not> already_completed S (rq w) (pw_store W) \<Longrightarrow>
     protocol_step S rq W (goto W w (Running e (es_now (pw_store W))) (pw_store W))"
| retry:
    "pw_pc W w = Recheck None \<Longrightarrow> \<not> already_completed S (rq w) (pw_store W) \<Longrightarrow>
     protocol_step S rq W (goto W w Start (pw_store W))"
| timed_out:
    "pw_pc W w = Recheck None \<Longrightarrow> \<not> already_completed S (rq w) (pw_store W) \<Longrightarrow>
     protocol_step S rq W (goto W w Done (pw_store W))"
| released:
    "pw_pc W w = Release \<Longrightarrow>
     protocol_step S rq W (goto W w Done (snd (release S (rq w) (pw_store W))))"
| aborted:
    "pw_pc W w = Running e t \<Longrightarrow>
     protocol_step S rq W (goto W w Done (snd (release S (rq w) (pw_store W))))"
| complete_owned:
    "pw_pc W w = Running e t \<Longrightarrow> owns_claim S (rq w) (pw_store W) \<Longrightarrow>
     protocol_step S rq W (goto W w (Marking e t) (pw_store W))"
| complete_lost:
    "pw_pc W w = Running e t \<Longrightarrow> \<not> owns_claim S (rq w) (pw_store W) \<Longrightarrow>
     protocol_step S rq W (goto W w Done (pw_store W))"
| marked:
    "pw_pc W w = Marking e t \<Longrightarrow> write_marker S (rq w) (pw_store W) = (Inr True, s) \<Longrightarrow>
     protocol_step S rq W
       ((goto W w Dropping s)\<lparr>pw_marks := (pw_marks W)(w \<mapsto> (es_now (pw_store W), e))\<rparr>)"
| mark_refused:
    "pw_pc W w = Marking e t \<Longrightarrow> write_marker S (rq w) (pw_store W) = (Inr False, s) \<Longrightarrow>
     protocol_step S rq W (goto W w Dropping s)"
| dropped:
    "pw_pc W w = Dropping \<Longrightarrow>
     protocol_step S rq W (goto W w Done (drop_claim S (rq w) (pw_store W)))"
| crashed:
    "protocol_step S rq W (goto W w Done (pw_store W))"
| time_passes:
    "es_now (pw_store W) \<le> t \<Longrightarrow>
     protocol_step S rq W (W\<lparr>pw_store := (pw_store W)\<lparr>es_now := t\<rparr>\<rparr>)"
| ttl_claim:
    "es_claims (pw_store W) k = Some d \<Longrightarrow> cd_expires_at d \<le> es_now (pw_store W) \<Longrightarrow>
     protocol_step S rq W
       (W\<lparr>pw_store := (pw_store W)\<lparr>es_claims := (es_claims (pw_store W))(k := None)\<rparr>\<rparr>)"
| ttl_marker:
    "es_processed (pw_store W) k = Some d \<Longrightarrow> pd_expires_at d = Some e \<Longrightarrow>
     e \<le> es_now (pw_store W) \<Longrightarrow>
     protocol_step S rq W
       (W\<lparr>pw_store := (pw_store W)\<lparr>es_processed := (es_processed (pw_store W))(k := None)\<rparr>\<rparr>)"

inductive protocol_reachable ::
  "claim_store \<Rightarrow> (nat \<Rightarrow> claim_request) \<Rightarrow> event_store \<Rightarrow> protocol \<Rightarrow> bool"
  for S :: claim_store and rq :: "nat \<Rightarrow> claim_request" and s :: event_store where
  start: "protocol_reachable S rq s (initial s)"
| step: "protocol_reachable S rq s W \<Longrightarrow> protocol_step S rq W W' \<Longrightarrow> protocol_reachable S rq s W'"

section \<open>Invariant\<close>

text \<open>
  The lease a worker believes in, while it holds one. A worker that only has to delete its claim
  no longer relies on it.
\<close>

fun lease_of :: "worker \<Rightarrow> instant option" where
  "lease_of (Recheck (Some e)) = Some e"
| "lease_of (Running e t) = Some e"
| "lease_of (Marking e t) = Some e"
| "lease_of _ = None"

fun running_since :: "worker \<Rightarrow> (instant \<times> instant) option" where
  "running_since (Running e t) = Some (e, t)"
| "running_since (Marking e t) = Some (e, t)"
| "running_since _ = None"

text \<open>A lease that has not expired is in the collection, under the token of the worker.\<close>

definition leases_backed :: "(nat \<Rightarrow> claim_request) \<Rightarrow> protocol \<Rightarrow> bool" where
  "leases_backed rq W \<longleftrightarrow> (\<forall>w e. lease_of (pw_pc W w) = Some e \<and> es_now (pw_store W) < e \<longrightarrow>
     (\<exists>d. es_claims (pw_store W) (rq_id (rq w)) = Some d \<and>
          cd_owner_token d = rq_owner (rq w) \<and> cd_expires_at d = e))"

text \<open>
  A marker written on a live lease at \<open>m\<close> stays until its retention ends, and until then no other
  worker runs the same key on a lease that reaches beyond \<open>m\<close>.
\<close>

definition marks_final :: "claim_store \<Rightarrow> (nat \<Rightarrow> claim_request) \<Rightarrow> protocol \<Rightarrow> bool" where
  "marks_final S rq W \<longleftrightarrow> (\<forall>w m e. pw_marks W w = Some (m, e) \<longrightarrow> m \<le> es_now (pw_store W) \<and>
     (es_now (pw_store W) < m + is_retention (cs_completed S) \<longrightarrow>
        (\<exists>d. es_processed (pw_store W) (rq_id (rq w)) = Some d \<and>
             pd_expires_at d = Some (m + is_retention (cs_completed S)))) \<and>
     (m < e \<longrightarrow> (\<forall>w' e' t'. w' \<noteq> w \<and> rq_id (rq w') = rq_id (rq w) \<and>
        running_since (pw_pc W w') = Some (e', t') \<longrightarrow>
        e' \<le> m \<or> m + is_retention (cs_completed S) \<le> t')))"

definition protocol_inv :: "claim_store \<Rightarrow> (nat \<Rightarrow> claim_request) \<Rightarrow> protocol \<Rightarrow> bool" where
  "protocol_inv S rq W \<longleftrightarrow> leases_backed rq W \<and> marks_final S rq W"

lemma lease_of_running: "running_since p = Some (e, t) \<Longrightarrow> lease_of p = Some e"
  by (cases p rule: running_since.cases) auto

text \<open>Steps that neither take a lease nor touch somebody else's live claim keep the leases backed.\<close>

lemma leases_backed_frame:
  assumes "leases_backed rq W" and "es_now (pw_store W) \<le> es_now (pw_store W')"
    and "\<And>w e. lease_of (pw_pc W' w) = Some e \<Longrightarrow> lease_of (pw_pc W w) = Some e"
    and "\<And>w d. lease_of (pw_pc W' w) = Some (cd_expires_at d) \<Longrightarrow>
      es_claims (pw_store W) (rq_id (rq w)) = Some d \<Longrightarrow> cd_owner_token d = rq_owner (rq w) \<Longrightarrow>
      es_now (pw_store W') < cd_expires_at d \<Longrightarrow> es_claims (pw_store W') (rq_id (rq w)) = Some d"
  shows "leases_backed rq W'"
  unfolding leases_backed_def
proof (intro allI impI)
  fix w e
  assume lw: "lease_of (pw_pc W' w) = Some e \<and> es_now (pw_store W') < e"
  with assms(2,3) have "lease_of (pw_pc W w) = Some e \<and> es_now (pw_store W) < e" by auto
  with assms(1) obtain d where d: "es_claims (pw_store W) (rq_id (rq w)) = Some d"
    "cd_owner_token d = rq_owner (rq w)" "cd_expires_at d = e"
    unfolding leases_backed_def by blast
  with lw have "es_claims (pw_store W') (rq_id (rq w)) = Some d" by (intro assms(4)) auto
  with d show "\<exists>d. es_claims (pw_store W') (rq_id (rq w)) = Some d \<and>
    cd_owner_token d = rq_owner (rq w) \<and> cd_expires_at d = e" by blast
qed

lemma marks_final_frame:
  assumes "marks_final S rq W" and "es_now (pw_store W) \<le> es_now (pw_store W')"
    and "pw_marks W' = pw_marks W"
    and "\<And>w x. running_since (pw_pc W' w) = Some x \<Longrightarrow> running_since (pw_pc W w) = Some x"
    and "\<And>k d e. es_processed (pw_store W) k = Some d \<Longrightarrow> pd_expires_at d = Some e \<Longrightarrow>
      es_now (pw_store W') < e \<Longrightarrow> es_processed (pw_store W') k = Some d"
  shows "marks_final S rq W'"
  unfolding marks_final_def
proof (intro allI impI conjI)
  fix w m e
  assume mk: "pw_marks W' w = Some (m, e)"
  with assms(3) have mk0: "pw_marks W w = Some (m, e)" by simp
  then show "m \<le> es_now (pw_store W')"
    using assms(1,2) unfolding marks_final_def by (meson order_trans)
  show "\<exists>d. es_processed (pw_store W') (rq_id (rq w)) = Some d \<and>
      pd_expires_at d = Some (m + is_retention (cs_completed S))"
    if "es_now (pw_store W') < m + is_retention (cs_completed S)"
  proof -
    from that assms(2) have "es_now (pw_store W) < m + is_retention (cs_completed S)" by simp
    with assms(1) mk0 obtain d where "es_processed (pw_store W) (rq_id (rq w)) = Some d"
      "pd_expires_at d = Some (m + is_retention (cs_completed S))"
      unfolding marks_final_def by blast
    with assms(5) that show ?thesis by blast
  qed
  show "e' \<le> m \<or> m + is_retention (cs_completed S) \<le> t'"
    if "m < e" and "w' \<noteq> w \<and> rq_id (rq w') = rq_id (rq w) \<and>
      running_since (pw_pc W' w') = Some (e', t')" for w' e' t'
    using that mk0 assms(1,4) unfolding marks_final_def by blast
qed

lemma marks_final_doc:
  assumes "marks_final S rq W" and "pw_marks W w = Some (m, e)"
    and "es_now (pw_store W) < m + is_retention (cs_completed S)"
  shows "\<exists>d. es_processed (pw_store W) (rq_id (rq w)) = Some d \<and>
    pd_expires_at d = Some (m + is_retention (cs_completed S))"
  using assms unfolding marks_final_def by blast

section \<open>Preservation\<close>

text \<open>Owner tokens are fresh: two deliveries of one key never share one (\<^verbatim>\<open>uuid4().hex\<close>).\<close>

locale claim_protocol = event_claim_store S for S :: claim_store +
  fixes rq :: "nat \<Rightarrow> claim_request"
  assumes fresh_tokens: "rq_id (rq w) = rq_id (rq w') \<Longrightarrow> w \<noteq> w' \<Longrightarrow> rq_owner (rq w) \<noteq> rq_owner (rq w')"
begin

lemma leases_exclusive:
  assumes "leases_backed rq W" and "rq_id (rq w) = rq_id (rq w')"
    and "lease_of (pw_pc W w) = Some e" and "lease_of (pw_pc W w') = Some e'"
    and "es_now (pw_store W) < e" and "es_now (pw_store W) < e'"
  shows "w = w'"
proof (rule ccontr)
  assume "w \<noteq> w'"
  with assms(2) have "rq_owner (rq w) \<noteq> rq_owner (rq w')" by (rule fresh_tokens)
  with assms show False unfolding leases_backed_def by (metis option.inject)
qed

lemma release_frame:
  assumes "leases_backed rq W" and "lease_of p = None"
  shows "leases_backed rq (goto W w p (snd (release S (rq w) (pw_store W))))"
proof (rule leases_backed_frame [OF assms(1)])
  fix v and d :: claim_doc
  assume "lease_of (pw_pc (goto W w p (snd (release S (rq w) (pw_store W)))) v) = Some (cd_expires_at d)"
  with assms(2) have "v \<noteq> w" by auto
  assume d: "es_claims (pw_store W) (rq_id (rq v)) = Some d" "cd_owner_token d = rq_owner (rq v)"
  have "es_claims (snd (release S (rq w) (pw_store W))) (rq_id (rq v)) = Some d"
    using d(1) fresh_tokens [of v w] \<open>v \<noteq> w\<close> d(2) by (intro release_keeps) auto
  then show "es_claims (pw_store (goto W w p (snd (release S (rq w) (pw_store W))))) (rq_id (rq v))
    = Some d" by simp
qed (use assms(2) in \<open>auto split: if_splits\<close>)

lemma acquired_leases:
  assumes inv: "leases_backed rq W"
    and acq: "acquire S (rq w) (cs_lease S) (pw_store W) = (Inr True, s)"
  shows "leases_backed rq (goto W w (Recheck (Some (es_now (pw_store W) + cs_lease S))) s)"
    (is "leases_backed rq ?W'")
  unfolding leases_backed_def
proof (intro allI impI)
  fix v e
  assume le: "lease_of (pw_pc ?W' v) = Some e \<and> es_now (pw_store ?W') < e"
  obtain d where d: "es_claims s (rq_id (rq w)) = Some d" "cd_owner_token d = rq_owner (rq w)"
      "cd_expires_at d = es_now (pw_store W) + cs_lease S"
      "\<And>d0. es_claims (pw_store W) (rq_id (rq w)) = Some d0 \<Longrightarrow> cd_expires_at d0 \<le> es_now (pw_store W)"
    by (rule acquire_True [of "rq w" "cs_lease S" "pw_store W"]) (use acq in auto)
  have now: "es_now s = es_now (pw_store W)"
    using acquire_now [of "rq w" "cs_lease S" "pw_store W"] acq by simp
  show "\<exists>d. es_claims (pw_store ?W') (rq_id (rq v)) = Some d \<and>
      cd_owner_token d = rq_owner (rq v) \<and> cd_expires_at d = e"
  proof (cases "v = w")
    case True
    with le d show ?thesis by auto
  next
    case False
    with le have "lease_of (pw_pc W v) = Some e" "es_now (pw_store W) < e" using now by auto
    with inv obtain dv where dv: "es_claims (pw_store W) (rq_id (rq v)) = Some dv"
      "cd_owner_token dv = rq_owner (rq v)" "cd_expires_at dv = e"
      unfolding leases_backed_def by blast
    with \<open>es_now (pw_store W) < e\<close> d(4) have "rq_id (rq v) \<noteq> rq_id (rq w)" by auto
    then have "es_claims s (rq_id (rq v)) = Some dv"
      using acquire_other [of "rq_id (rq v)" "rq w" "cs_lease S" "pw_store W"] acq dv(1) by simp
    with dv show ?thesis by auto
  qed
qed

lemma step_leases:
  assumes "protocol_step S rq W W'" and "leases_backed rq W"
  shows "leases_backed rq W'"
  using assms
proof (induction rule: protocol_step.induct)
  case (acquired W w s)
  then show ?case by (intro acquired_leases)
next
  case (collided W w s)
  then have "s = pw_store W" using acquire_False(1) [of "rq w" "cs_lease S" "pw_store W"] by simp
  then show ?case using collided by (auto intro: leases_backed_frame split: if_splits)
next
  case (released W w)
  then show ?case by (intro release_frame) auto
next
  case (aborted W w e t)
  then show ?case by (intro release_frame) auto
next
  case (dropped W w)
  then show ?case by (simp add: drop_claim_state release_frame)
next
  case (marked W w e t s)
  then have "es_claims s = es_claims (pw_store W)" "es_now s = es_now (pw_store W)"
    by (auto simp: write_marker_eq split: option.splits)
  with marked show ?case by (auto intro!: leases_backed_frame [OF marked.prems] split: if_splits)
next
  case (mark_refused W w e t s)
  then have "es_claims s = es_claims (pw_store W)" "es_now s = es_now (pw_store W)"
    by (auto simp: write_marker_eq split: option.splits)
  with mark_refused show ?case
    by (auto intro!: leases_backed_frame [OF mark_refused.prems] split: if_splits)
next
  case (ttl_claim W k d)
  then show ?case by (auto intro!: leases_backed_frame [OF ttl_claim.prems])
qed (auto intro: leases_backed_frame split: if_splits)

lemma claimed_marks:
  assumes inv: "marks_final S rq W"
    and pc: "pw_pc W w = Recheck (Some e)" and nd: "\<not> already_completed S (rq w) (pw_store W)"
  shows "marks_final S rq (goto W w (Running e (es_now (pw_store W))) (pw_store W))"
    (is "marks_final S rq ?W'")
  unfolding marks_final_def
proof (intro allI impI conjI)
  fix v m f
  assume mk: "pw_marks ?W' v = Some (m, f)"
  let ?R = "is_retention (cs_completed S)"
  from mk inv show "m \<le> es_now (pw_store ?W')" unfolding marks_final_def by auto
  have doc: "es_now (pw_store W) < m + ?R \<Longrightarrow>
      \<exists>d. es_processed (pw_store W) (rq_id (rq v)) = Some d \<and> pd_expires_at d = Some (m + ?R)"
    using mk inv unfolding marks_final_def by auto
  then show "\<exists>d. es_processed (pw_store ?W') (rq_id (rq v)) = Some d \<and>
      pd_expires_at d = Some (m + ?R)" if "es_now (pw_store ?W') < m + ?R"
    using that by simp
  show "e' \<le> m \<or> m + ?R \<le> t'"
    if "m < f" and u: "u \<noteq> v \<and> rq_id (rq u) = rq_id (rq v) \<and>
      running_since (pw_pc ?W' u) = Some (e', t')" for u e' t'
  proof (cases "u = w")
    case False
    with that mk inv show ?thesis unfolding marks_final_def by auto
  next
    case True
    have "\<not> es_now (pw_store W) < m + ?R"
    proof
      assume "es_now (pw_store W) < m + ?R"
      with doc u True obtain d where "es_processed (pw_store W) (rq_id (rq w)) = Some d"
        "pd_expires_at d = Some (m + ?R)" by auto
      with \<open>es_now (pw_store W) < m + ?R\<close> have "already_completed S (rq w) (pw_store W)"
        by (intro completed_by_marker) (auto simp: document_is_active_def)
      with nd show False ..
    qed
    with u True show ?thesis by simp
  qed
qed

lemma marked_marks:
  assumes inv: "marks_final S rq W" and leases: "leases_backed rq W"
    and pc: "pw_pc W w = Marking e t" and wr: "write_marker S (rq w) (pw_store W) = (Inr True, s)"
  shows "marks_final S rq
    ((goto W w Dropping s)\<lparr>pw_marks := (pw_marks W)(w \<mapsto> (es_now (pw_store W), e))\<rparr>)"
    (is "marks_final S rq ?W'")
  unfolding marks_final_def
proof (intro allI impI conjI)
  fix v m f
  let ?R = "is_retention (cs_completed S)"
  assume mk: "pw_marks ?W' v = Some (m, f)"
  from wr have fresh: "es_processed (pw_store W) (rq_id (rq w)) = None"
    and now: "es_now s = es_now (pw_store W)"
    and s: "es_processed s = (es_processed (pw_store W))(rq_id (rq w) \<mapsto>
        processed_marker (cs_completed S) (es_now (pw_store W)) (rq_key (rq w)) (rq_module (rq w))
          (rq_scope (rq w)))"
    by (auto simp: write_marker_eq split: option.splits)
  show "m \<le> es_now (pw_store ?W')"
    using mk inv now unfolding marks_final_def by (auto split: if_splits)
  show "\<exists>d. es_processed (pw_store ?W') (rq_id (rq v)) = Some d \<and> pd_expires_at d = Some (m + ?R)"
    if "es_now (pw_store ?W') < m + ?R"
  proof (cases "v = w")
    case True
    with mk s show ?thesis by (auto simp: processed_marker_def)
  next
    case False
    with mk have "pw_marks W v = Some (m, f)" by simp
    moreover from that now have "es_now (pw_store W) < m + ?R" by simp
    ultimately obtain d where d: "es_processed (pw_store W) (rq_id (rq v)) = Some d"
      "pd_expires_at d = Some (m + ?R)" using marks_final_doc [OF inv] by blast
    with fresh have "rq_id (rq v) \<noteq> rq_id (rq w)" by auto
    with d s show ?thesis by auto
  qed
  show "e' \<le> m \<or> m + ?R \<le> t'"
    if "m < f" and u: "u \<noteq> v \<and> rq_id (rq u) = rq_id (rq v) \<and>
      running_since (pw_pc ?W' u) = Some (e', t')" for u e' t'
  proof (cases "v = w")
    case False
    with that mk inv show ?thesis unfolding marks_final_def by (auto split: if_splits)
  next
    case True
    with mk have "m = es_now (pw_store W)" "f = e" by auto
    have "es_now (pw_store W) \<ge> e'"
    proof (rule ccontr)
      assume "\<not> es_now (pw_store W) \<ge> e'"
      moreover have "lease_of (pw_pc W u) = Some e'" using u True
        by (auto dest: lease_of_running split: if_splits)
      ultimately have "u = w"
        using leases_exclusive [OF leases, of u w e' e] u True pc \<open>m < f\<close> \<open>m = _\<close> \<open>f = e\<close> by auto
      with u True show False by simp
    qed
    with \<open>m = _\<close> show ?thesis by simp
  qed
qed

lemma step_marks:
  assumes "protocol_step S rq W W'" and "marks_final S rq W" and "leases_backed rq W"
  shows "marks_final S rq W'"
  using assms
proof (induction rule: protocol_step.induct)
  case (acquired W w s)
  then have "es_processed s = es_processed (pw_store W)" "es_now s = es_now (pw_store W)"
    using acquire_processed [of "rq w" "cs_lease S" "pw_store W"]
      acquire_now [of "rq w" "cs_lease S" "pw_store W"] by simp_all
  with acquired show ?case by (auto intro!: marks_final_frame [OF acquired.prems(1)] split: if_splits)
next
  case (collided W w s)
  then have "s = pw_store W" using acquire_False(1) [of "rq w" "cs_lease S" "pw_store W"] by simp
  then show ?case using collided
    by (auto intro!: marks_final_frame [OF collided.prems(1)] split: if_splits)
next
  case (claimed W w e)
  then show ?case by (intro claimed_marks)
next
  case (marked W w e t s)
  then show ?case by (intro marked_marks)
next
  case (mark_refused W w e t s)
  then have "s = pw_store W" by (auto simp: write_marker_eq split: option.splits)
  with mark_refused show ?case
    by (auto intro!: marks_final_frame [OF mark_refused.prems(1)] split: if_splits)
next
  case (dropped W w)
  then show ?case
    by (auto simp: drop_claim_state intro!: marks_final_frame [OF dropped.prems(1)] split: if_splits)
next
  case (ttl_marker W k d e)
  then show ?case by (auto intro!: marks_final_frame [OF ttl_marker.prems(1)])
qed (auto intro: marks_final_frame split: if_splits)

lemma reachable_inv: "protocol_reachable S rq s W \<Longrightarrow> protocol_inv S rq W"
proof (induction rule: protocol_reachable.induct)
  case start
  show ?case
    by (simp add: protocol_inv_def leases_backed_def marks_final_def initial_def)
next
  case (step W W')
  then show ?case unfolding protocol_inv_def by (blast intro: step_leases step_marks)
qed

text \<open>A worker whose key is free gets to run: the three steps of an uncontended \<^verbatim>\<open>claim\<close>.\<close>

lemma run_to_claim:
  assumes "protocol_reachable S rq s W" and "pw_pc W w = Start"
    and nd: "\<not> already_completed S (rq w) (pw_store W)"
    and free: "\<And>d. es_claims (pw_store W) (rq_id (rq w)) = Some d \<Longrightarrow> cd_expires_at d \<le> es_now (pw_store W)"
  shows "\<exists>W'. protocol_reachable S rq s W' \<and>
    pw_pc W' = (pw_pc W)(w := Running (es_now (pw_store W) + cs_lease S) (es_now (pw_store W))) \<and>
    pw_marks W' = pw_marks W \<and> es_now (pw_store W') = es_now (pw_store W) \<and>
    es_processed (pw_store W') = es_processed (pw_store W) \<and>
    (\<exists>d. es_claims (pw_store W') (rq_id (rq w)) = Some d \<and> cd_owner_token d = rq_owner (rq w) \<and>
       cd_expires_at d = es_now (pw_store W) + cs_lease S)"
proof -
  define W1 where "W1 = goto W w Acquire (pw_store W)"
  have r1: "protocol_reachable S rq s W1"
    using assms(1) first_check_open [of W w S rq] assms(2) nd
    by (auto simp: W1_def intro: protocol_reachable.step)
  have "fst (acquire S (rq w) (cs_lease S) (pw_store W)) = Inr True"
    using free by (auto simp: acquire_no_error split: option.splits)
  then obtain s2 where acq: "acquire S (rq w) (cs_lease S) (pw_store W) = (Inr True, s2)"
    by (metis prod.collapse)
  have now2: "es_now s2 = es_now (pw_store W)" and proc2: "es_processed s2 = es_processed (pw_store W)"
    using acquire_now [of "rq w" "cs_lease S" "pw_store W"]
      acquire_processed [of "rq w" "cs_lease S" "pw_store W"] acq by simp_all
  obtain d where d: "es_claims s2 (rq_id (rq w)) = Some d" "cd_owner_token d = rq_owner (rq w)"
    "cd_expires_at d = es_now (pw_store W) + cs_lease S"
    by (rule acquire_True [of "rq w" "cs_lease S" "pw_store W"]) (use acq in auto)
  define W2 where "W2 = goto W1 w (Recheck (Some (es_now (pw_store W) + cs_lease S))) s2"
  have r2: "protocol_reachable S rq s W2"
    using protocol_reachable.step [OF r1 protocol_step.acquired [of W1 w S rq s2]] acq
    by (simp add: W1_def W2_def)
  have nd2: "\<not> already_completed S (rq w) s2"
    using nd already_completed_cong [OF proc2 now2] by simp
  have "protocol_reachable S rq s
      (goto W2 w (Running (es_now (pw_store W) + cs_lease S) (es_now s2)) s2)"
    using protocol_reachable.step [OF r2 protocol_step.claimed [of W2 w _ S rq]] nd2
    by (simp add: W2_def)
  with d now2 proc2 show ?thesis
    by (intro exI [of _ "goto W2 w (Running (es_now (pw_store W) + cs_lease S) (es_now s2)) s2"])
       (simp add: W2_def W1_def)
qed

lemma run_time:
  "protocol_reachable S rq s W \<Longrightarrow> es_now (pw_store W) \<le> t \<Longrightarrow>
    protocol_reachable S rq s (W\<lparr>pw_store := (pw_store W)\<lparr>es_now := t\<rparr>\<rparr>)"
  by (blast intro: protocol_reachable.step protocol_step.time_passes)

lemma run_to_mark:
  assumes r: "protocol_reachable S rq s W" and pc: "pw_pc W w = Running e t"
    and own: "owns_claim S (rq w) (pw_store W)"
    and fresh: "es_processed (pw_store W) (rq_id (rq w)) = None"
  shows "\<exists>W'. protocol_reachable S rq s W' \<and> pw_pc W' = (pw_pc W)(w := Dropping) \<and>
    pw_marks W' = (pw_marks W)(w \<mapsto> (es_now (pw_store W), e)) \<and>
    es_now (pw_store W') = es_now (pw_store W)"
proof -
  define W1 where "W1 = goto W w (Marking e t) (pw_store W)"
  have r1: "protocol_reachable S rq s W1"
    using protocol_reachable.step [OF r protocol_step.complete_owned [of W w e t S rq, OF pc own]]
    by (simp add: W1_def)
  obtain s' where wr: "write_marker S (rq w) (pw_store W) = (Inr True, s')"
    and now: "es_now s' = es_now (pw_store W)"
    using fresh by (auto simp: write_marker_eq)
  have "protocol_reachable S rq s
      ((goto W1 w Dropping s')\<lparr>pw_marks := (pw_marks W1)(w \<mapsto> (es_now (pw_store W1), e))\<rparr>)"
    using wr by (intro protocol_reachable.step [OF r1] protocol_step.marked [of W1 w e t])
      (simp_all add: W1_def)
  then show ?thesis
    by (rule exI [where P = "\<lambda>V. protocol_reachable S rq s V \<and> _ V", OF conjI])
       (simp add: W1_def now)
qed

end

section \<open>A concrete system\<close>

definition demo_rq :: "nat \<Rightarrow> claim_request" where
  "demo_rq w = demo_request\<lparr>rq_owner := replicate w (CHR ''x'')\<rparr>"

lemma demo_rq_simps [simp]:
  "rq_owner (demo_rq w) = replicate w (CHR ''x'')"
  "rq_id (demo_rq w) = rq_id demo_request"
  "rq_key (demo_rq w) = rq_key demo_request"
  "rq_module (demo_rq w) = rq_module demo_request"
  "rq_consumer (demo_rq w) = rq_consumer demo_request"
  by (simp_all add: demo_rq_def rq_id_def rq_scope_def)

interpretation demo: claim_protocol mem_claim_store demo_rq
  by unfold_locales (auto dest: arg_cong [of _ _ length])

lemma nothing_completed: "es_processed s = Map.empty \<Longrightarrow> \<not> already_completed mem_claim_store r s"
  by (simp add: already_completed_def is_duplicate_def is_duplicate_scoped_def document_is_active_def)

text \<open>
  Delivery 0 claims at time 0 and stalls past its lease of 120 s; delivery 1 takes the key over.
\<close>

lemma demo_takeover:
  "\<exists>W. protocol_reachable mem_claim_store demo_rq (empty_store 0) W \<and>
    pw_pc W 0 = Running 120000000 0 \<and> pw_pc W 1 = Running 240000000 120000000 \<and>
    es_now (pw_store W) = 120000000 \<and> es_processed (pw_store W) = Map.empty \<and>
    owns_claim mem_claim_store (demo_rq 1) (pw_store W)"
proof -
  let ?reach = "protocol_reachable mem_claim_store demo_rq (empty_store 0)"
  have "?reach (initial (empty_store 0))" by (rule protocol_reachable.start)
  then obtain W where W: "?reach W" "pw_pc W = (\<lambda>_. Start)(0 := Running 120000000 0)"
    "es_now (pw_store W) = 0" "es_processed (pw_store W) = Map.empty"
    "\<exists>d. es_claims (pw_store W) (rq_id demo_request) = Some d \<and> cd_expires_at d = 120000000"
    using demo.run_to_claim [of "empty_store 0" "initial (empty_store 0)" 0]
    by (fastforce simp: initial_def empty_store_def nothing_completed)
  let ?V = "W\<lparr>pw_store := (pw_store W)\<lparr>es_now := 120000000\<rparr>\<rparr>"
  have "?reach ?V" using W by (intro demo.run_time) simp_all
  then show ?thesis
    using demo.run_to_claim [of "empty_store 0" ?V 1] W
    by (fastforce simp: nothing_completed mem_claims.owns_claim_iff)
qed

section \<open>Properties\<close>

text \<open>
  C1. Exclusive leases: in every interleaving of deliveries, crashes, TTL expiry and passing time,
  while one delivery runs its side effects on a lease that has not expired, every other delivery
  of the same scoped key that still believes it holds the claim has an expired lease.
\<close>

theorem side_effects_exclusive:
  assumes "event_claim_store S"
    and "\<And>v v'. rq_id (rq v) = rq_id (rq v') \<Longrightarrow> v \<noteq> v' \<Longrightarrow> rq_owner (rq v) \<noteq> rq_owner (rq v')"
    and "protocol_reachable S rq s W"
    and "w' \<noteq> w" and "rq_id (rq w') = rq_id (rq w)"
    and "running_since (pw_pc W w) = Some (e, t)" and "es_now (pw_store W) < e"
    and "running_since (pw_pc W w') = Some (e', t')"
  shows "e' \<le> es_now (pw_store W)"
proof (rule ccontr)
  assume late: "\<not> e' \<le> es_now (pw_store W)"
  have P: "claim_protocol S rq"
    using assms(1,2) by (intro claim_protocol.intro claim_protocol_axioms.intro)
  have "leases_backed rq W"
    using claim_protocol.reachable_inv [OF P assms(3)] by (simp add: protocol_inv_def)
  from claim_protocol.leases_exclusive [OF P this assms(5) lease_of_running [OF assms(8)]
      lease_of_running [OF assms(6)]] assms(4,7) late show False
    by simp
qed

theorem side_effects_exclusive_witness:
  "\<exists>W. protocol_reachable mem_claim_store demo_rq (empty_store 0) W \<and>
    running_since (pw_pc W 1) = Some (240000000, 120000000) \<and> es_now (pw_store W) < 240000000 \<and>
    running_since (pw_pc W 0) = Some (120000000, 0) \<and> 120000000 \<le> es_now (pw_store W)"
proof -
  obtain W where W: "protocol_reachable mem_claim_store demo_rq (empty_store 0) W"
    "pw_pc W 0 = Running 120000000 0" "pw_pc W 1 = Running 240000000 120000000"
    "es_now (pw_store W) = 120000000" using demo_takeover by blast
  have "120000000 \<le> es_now (pw_store W)"
    by (rule side_effects_exclusive [OF mem_claims.event_claim_store_axioms demo.fresh_tokens W(1),
          of 0 1 240000000 120000000 120000000 0]) (use W in simp_all)
  with W show ?thesis by auto
qed

text \<open>
  C2. Completion is final: once a delivery has written the completed marker at \<open>m\<close> while its
  lease was live, any other delivery of the same scoped key that runs side effects either holds a
  lease that had already expired at \<open>m\<close> (it was fenced out) or started after the marker's
  retention ended.
\<close>

theorem completion_is_final:
  assumes "event_claim_store S"
    and "\<And>v v'. rq_id (rq v) = rq_id (rq v') \<Longrightarrow> v \<noteq> v' \<Longrightarrow> rq_owner (rq v) \<noteq> rq_owner (rq v')"
    and "protocol_reachable S rq s W"
    and "pw_marks W w = Some (m, e)" and "m < e"
    and "w' \<noteq> w" and "rq_id (rq w') = rq_id (rq w)"
    and "running_since (pw_pc W w') = Some (e', t')"
  shows "e' \<le> m \<or> m + is_retention (cs_completed S) \<le> t'"
proof -
  have P: "claim_protocol S rq"
    using assms(1,2) by (intro claim_protocol.intro claim_protocol_axioms.intro)
  have "marks_final S rq W"
    using claim_protocol.reachable_inv [OF P assms(3)] by (simp add: protocol_inv_def)
  with assms(4-8) show ?thesis unfolding marks_final_def by blast
qed

theorem completion_is_final_witness:
  "\<exists>W. protocol_reachable mem_claim_store demo_rq (empty_store 0) W \<and>
    pw_marks W 1 = Some (120000000, 240000000) \<and>
    running_since (pw_pc W 0) = Some (120000000, 0) \<and>
    ((120000000::int) \<le> 120000000 \<or> 120000000 + is_retention (cs_completed mem_claim_store) \<le> (0::int))"
proof -
  obtain V where V: "protocol_reachable mem_claim_store demo_rq (empty_store 0) V"
    "pw_pc V 0 = Running 120000000 0" "pw_pc V 1 = Running 240000000 120000000"
    "es_now (pw_store V) = 120000000" "es_processed (pw_store V) = Map.empty"
    "owns_claim mem_claim_store (demo_rq 1) (pw_store V)" using demo_takeover by blast
  obtain W where W: "protocol_reachable mem_claim_store demo_rq (empty_store 0) W"
    "pw_marks W 1 = Some (120000000, 240000000)" "pw_pc W 0 = Running 120000000 0"
    using demo.run_to_mark [OF V(1,3,6)] V by auto
  from completion_is_final [OF mem_claims.event_claim_store_axioms demo.fresh_tokens W(1,2),
      of 0 120000000 0] W
  show ?thesis by auto
qed

end
