(* ===== verification/ClaimGate.thy ===== *)
theory ClaimGate
  imports EventClaims
begin

text \<open>
  The delivery gates in front of the completed-event marker,
  \<^verbatim>\<open>core/src/zeler_platform_core/events/claim_gate.py\<close>. A module's consumer asks its gate for a
  handle per delivery key; the handle completes or releases the delivery. The interface the
  consumers rely on is the locale \<open>event_gate\<close>; the lease gate (\<open>EventClaimGate\<close>) and the
  check-then-act gate (\<open>LegacyEventGate\<close>) both provide it.
\<close>

section \<open>The interface\<close>

datatype gate_error = EventClaimTimeoutError | GateStoreError mongo_error

record ('g, 'h) gate =
  gate_claim :: "string \<Rightarrow> 'g \<Rightarrow> (gate_error, 'h option) result \<times> 'g"
  gate_complete :: "'h \<Rightarrow> 'g \<Rightarrow> (mongo_error, bool) result \<times> 'g"
  gate_release :: "'h \<Rightarrow> 'g \<Rightarrow> (mongo_error, bool) result \<times> 'g"

text \<open>
  What a consumer may assume of a gate between two of its own calls: no handle is given out for a
  key that is already done, and a refused key is done. A gate that also marks is one whose
  successful completion makes the key of a handle it gave out done.
\<close>

locale event_gate =
  fixes G :: "('g, 'h) gate"
    and done_key :: "'g \<Rightarrow> string \<Rightarrow> bool"
    and handle_key :: "'h \<Rightarrow> string"
    and valid_handle :: "'h \<Rightarrow> bool"
  assumes claim_refused: "gate_claim G key g = (Inr None, g') \<Longrightarrow> done_key g' key"
    and claim_granted: "gate_claim G key g = (Inr (Some h), g') \<Longrightarrow>
      \<not> done_key g' key \<and> handle_key h = key \<and> valid_handle h"
    and claim_when_done: "done_key g key \<Longrightarrow> fst (gate_claim G key g) = Inr None"
begin

lemma claim_cases:
  obtains (refused) g' where "gate_claim G key g = (Inr None, g')" and "done_key g' key"
  | (granted) h g' where "gate_claim G key g = (Inr (Some h), g')" and "handle_key h = key"
      and "valid_handle h" and "\<not> done_key g key"
  | (failed) e g' where "gate_claim G key g = (Inl e, g')" and "\<not> done_key g key"
proof (cases "gate_claim G key g")
  case (Pair res g')
  show ?thesis
  proof (cases res)
    case (Inl e)
    with Pair claim_when_done [of g key] failed show ?thesis by auto
  next
    case (Inr x)
    with Pair claim_refused claim_granted claim_when_done [of g key] refused granted
    show ?thesis by (cases x) auto
  qed
qed

end

locale marking_gate = event_gate +
  assumes complete_marks: "valid_handle h \<Longrightarrow> gate_complete G h g = (Inr True, g') \<Longrightarrow>
    done_key g' (handle_key h)"

section \<open>EventClaimGate\<close>

text \<open>
  The handle is the request the gate was granted for (key, module, consumer, owner token);
  \<open>token\<close> is the fresh \<^verbatim>\<open>uuid4().hex\<close> of the call.
\<close>

definition event_gate_claim ::
  "claim_store \<Rightarrow> string \<Rightarrow> string \<Rightarrow> string \<Rightarrow> (nat \<Rightarrow> event_store \<Rightarrow> event_store) \<Rightarrow>
   string \<Rightarrow> event_store \<Rightarrow> (gate_error, claim_request option) result \<times> event_store" where
  "event_gate_claim S module_id consumer_id token env key s =
    (let r = \<lparr>rq_key = key, rq_module = module_id, rq_consumer = Some consumer_id, rq_owner = token\<rparr>
     in case claim S r None None env s of
          (Inl e, s') \<Rightarrow> (Inl (GateStoreError e), s')
        | (Inr CLAIMED, s') \<Rightarrow> (Inr (Some r), s')
        | (Inr COMPLETED, s') \<Rightarrow> (Inr None, s')
        | (Inr TIMED_OUT, s') \<Rightarrow> (Inl EventClaimTimeoutError, s'))"

definition handle_complete ::
  "claim_store \<Rightarrow> (nat \<Rightarrow> event_store \<Rightarrow> event_store) \<Rightarrow> claim_request \<Rightarrow> event_store \<Rightarrow>
   (mongo_error, bool) result \<times> event_store" where
  "handle_complete S env r s = complete S r env s"

definition handle_release ::
  "claim_store \<Rightarrow> claim_request \<Rightarrow> event_store \<Rightarrow> (mongo_error, bool) result \<times> event_store" where
  "handle_release S r s = release S r s"

definition history_identity :: "claim_request \<Rightarrow> (string \<times> string) list" where
  "history_identity r =
    [(''processing_key'', rq_key r), (''owner_token'', rq_owner r),
     (''module_id'', rq_module r), (''consumer_id'', or_str (rq_consumer r) [])]"

definition EventClaimGate ::
  "claim_store \<Rightarrow> string \<Rightarrow> string \<Rightarrow> string \<Rightarrow> (nat \<Rightarrow> event_store \<Rightarrow> event_store) \<Rightarrow>
   (event_store, claim_request) gate" where
  "EventClaimGate S module_id consumer_id token env = \<lparr>
     gate_claim = event_gate_claim S module_id consumer_id token env,
     gate_complete = handle_complete S env,
     gate_release = handle_release S\<rparr>"

section \<open>LegacyEventGate\<close>

text \<open>
  The wrapped store is the module's idempotency adapter: the core store with the module and the
  consumer fixed. The adapter drops the result of \<^verbatim>\<open>mark_processed\<close>.
\<close>

definition legacy_is_duplicate ::
  "claim_store \<Rightarrow> string \<Rightarrow> string \<Rightarrow> string \<Rightarrow> event_store \<Rightarrow> bool" where
  "legacy_is_duplicate S module_id consumer_id key s =
    is_duplicate (cs_completed S) (es_now s) (es_processed s) key (Some module_id) (Some consumer_id)"

definition legacy_claim ::
  "claim_store \<Rightarrow> string \<Rightarrow> string \<Rightarrow> string \<Rightarrow> event_store \<Rightarrow>
   (gate_error, string option) result \<times> event_store" where
  "legacy_claim S module_id consumer_id key s =
    (if legacy_is_duplicate S module_id consumer_id key s then (Inr None, s)
     else (Inr (Some key), s))"

definition legacy_complete ::
  "claim_store \<Rightarrow> string \<Rightarrow> string \<Rightarrow> string \<Rightarrow> event_store \<Rightarrow>
   (mongo_error, bool) result \<times> event_store" where
  "legacy_complete S module_id consumer_id key s =
    (case mark_processed (cs_completed S) (es_now s) (es_processed s) key module_id (Some consumer_id) of
       (Inl e, p) \<Rightarrow> (Inl e, s\<lparr>es_processed := p\<rparr>)
     | (Inr _, p) \<Rightarrow> (Inr True, s\<lparr>es_processed := p\<rparr>))"

definition legacy_release :: "string \<Rightarrow> event_store \<Rightarrow> (mongo_error, bool) result \<times> event_store" where
  "legacy_release key s = (Inr False, s)"

definition LegacyEventGate ::
  "claim_store \<Rightarrow> string \<Rightarrow> string \<Rightarrow> (event_store, string) gate" where
  "LegacyEventGate S module_id consumer_id = \<lparr>
     gate_claim = legacy_claim S module_id consumer_id,
     gate_complete = legacy_complete S module_id consumer_id,
     gate_release = legacy_release\<rparr>"

lemma EventClaimGate_simps [simp]:
  "gate_claim (EventClaimGate S m c token env) = event_gate_claim S m c token env"
  "gate_complete (EventClaimGate S m c token env) = handle_complete S env"
  "gate_release (EventClaimGate S m c token env) = handle_release S"
  by (simp_all add: EventClaimGate_def)

lemma LegacyEventGate_simps [simp]:
  "gate_claim (LegacyEventGate S m c) = legacy_claim S m c"
  "gate_complete (LegacyEventGate S m c) = legacy_complete S m c"
  "gate_release (LegacyEventGate S m c) = legacy_release"
  by (simp_all add: LegacyEventGate_def)

abbreviation quiet :: "nat \<Rightarrow> event_store \<Rightarrow> event_store" where
  "quiet \<equiv> \<lambda>_ s. s"

section \<open>The gates keep the interface\<close>

text \<open>
  \<open>lease_gate\<close>: collections that keep their contract and a positive retention. Between the calls of
  one delivery nothing else runs (the interleavings are the subject of the protocol theory).
\<close>

locale lease_gate = event_claim_store +
  fixes module_id consumer_id :: string
  assumes retention_pos: "0 < is_retention (cs_completed S)"
begin

lemma claim_loop_quiet:
  assumes "claim_loop S r lease deadline quiet i n s = (res, s')" and "0 < n"
  shows "res = Inr COMPLETED \<and> already_completed S r s' \<or>
    res = Inr CLAIMED \<and> \<not> already_completed S r s' \<or>
    res = Inr TIMED_OUT \<and> \<not> already_completed S r s"
  using assms
proof (induction n arbitrary: i s)
  case 0
  then show ?case by simp
next
  case (Suc left)
  obtain b s2 where acq: "acquire S r lease s = (Inr b, s2)" using acquire_returns by blast
  have same: "already_completed S r s2 = already_completed S r s"
    using acquire_now [of r lease s] acquire_processed [of r lease s] acq
    by (intro already_completed_cong) simp_all
  show ?case
  proof (cases "already_completed S r s")
    case True
    with Suc.prems show ?thesis by (auto simp: Let_def)
  next
    case False
    show ?thesis
    proof (cases "\<not> b \<and> left \<noteq> 0 \<and> es_now s2 < deadline")
      case True
      with acq have "s2 = s" using acquire_False(1) [of r lease s] by simp
      with Suc.prems acq True False same Suc.IH show ?thesis by (auto simp: Let_def)
    next
      case stop: False
      with Suc.prems acq False same show ?thesis by (cases b) (auto simp: Let_def split: if_splits)
    qed
  qed
qed

lemma claim_loop_done:
  assumes "already_completed S r s" and "0 < n"
  shows "claim_loop S r lease deadline quiet i n s = (Inr COMPLETED, s)"
  using assms by (cases n) (simp_all add: Let_def)

lemma marker_done:
  assumes "fst (write_marker S r s) = Inr True"
  shows "already_completed S r (snd (write_marker S r s))"
  using assms retention_pos
  by (auto simp: write_marker_eq document_is_active_expiry intro!: completed_by_marker
      split: option.splits)

end

text \<open>The key of a request is done when the scoped duplicate check says so; the token plays no part.\<close>

lemma already_completed_scoped:
  "rq_consumer r = Some c \<Longrightarrow> already_completed S r s = legacy_is_duplicate S (rq_module r) c (rq_key r) s"
  by (simp add: already_completed_def legacy_is_duplicate_def)

sublocale lease_gate \<subseteq> leased: marking_gate "EventClaimGate S module_id consumer_id token quiet"
    "\<lambda>s key. legacy_is_duplicate S module_id consumer_id key s" rq_key
    "\<lambda>r. rq_module r = module_id \<and> rq_consumer r = Some consumer_id"
  for token
proof unfold_locales
  fix key g g'
  let ?r = "\<lparr>rq_key = key, rq_module = module_id, rq_consumer = Some consumer_id, rq_owner = token\<rparr>"
  obtain res s' where cl: "claim S ?r None None quiet g = (res, s')" by (cases "claim S ?r None None quiet g")
  have q: "res = Inr COMPLETED \<and> already_completed S ?r s' \<or>
      res = Inr CLAIMED \<and> \<not> already_completed S ?r s' \<or>
      res = Inr TIMED_OUT \<and> \<not> already_completed S ?r g"
  proof (rule claim_loop_quiet [OF _ max_attempts_pos])
    show "claim_loop S ?r (cs_lease S) (es_now g + cs_wait S) quiet 0 (max_attempts S (cs_wait S)) g
      = (res, s')" using cl by (simp add: claim_def Let_def)
  qed
  show "legacy_is_duplicate S module_id consumer_id key g'"
    if "gate_claim (EventClaimGate S module_id consumer_id token quiet) key g = (Inr None, g')"
    using that q cl by (auto simp: event_gate_claim_def Let_def already_completed_scoped)
  show "\<not> legacy_is_duplicate S module_id consumer_id key g' \<and> rq_key h = key \<and>
      rq_module h = module_id \<and> rq_consumer h = Some consumer_id"
    if "gate_claim (EventClaimGate S module_id consumer_id token quiet) key g = (Inr (Some h), g')" for h
    using that q cl by (auto simp: event_gate_claim_def Let_def already_completed_scoped)
  show "fst (gate_claim (EventClaimGate S module_id consumer_id token quiet) key g) = Inr None"
    if "legacy_is_duplicate S module_id consumer_id key g"
    using that max_attempts_pos
    by (simp add: event_gate_claim_def Let_def claim_def claim_loop_done already_completed_scoped)
next
  fix h :: claim_request and g g'
  assume v: "rq_module h = module_id \<and> rq_consumer h = Some consumer_id"
    and "gate_complete (EventClaimGate S module_id consumer_id token quiet) h g = (Inr True, g')"
  then have w: "fst (write_marker S h g) = Inr True" and g': "g' = drop_claim S h (snd (write_marker S h g))"
    by (auto simp: handle_complete_def complete_def split: if_splits prod.splits sum.splits)
  from marker_done [OF w] have "already_completed S h g'"
    by (subst already_completed_cong) (auto simp: g' drop_claim_state)
  with v show "legacy_is_duplicate S module_id consumer_id (rq_key h) g'"
    by (simp add: already_completed_scoped)
qed

context lease_gate
begin

lemma suppressed:
  assumes "event_gate_claim S module_id consumer_id token quiet key s = (Inr (Some h), s1)"
    and "handle_complete S quiet h s1 = (Inr True, s2)"
  shows "fst (event_gate_claim S module_id consumer_id token' quiet key s2) = Inr None"
proof -
  from leased.claim_granted [of token key s h s1] assms(1)
  have h: "rq_key h = key" "rq_module h = module_id" "rq_consumer h = Some consumer_id"
    by simp_all
  with leased.complete_marks [of h token s1 s2] assms(2)
  have "legacy_is_duplicate S module_id consumer_id key s2" by simp
  from leased.claim_when_done [OF this, of token'] show ?thesis by simp
qed

end

context lease_gate
begin

lemma claim_loop_quiet_state:
  "claim_loop S r lease deadline quiet i n s = (Inr CLAIMED, s') \<Longrightarrow>
    es_now s' = es_now s \<and> es_processed s' = es_processed s"
proof (induction n arbitrary: i s)
  case 0
  then show ?case by simp
next
  case (Suc left)
  obtain b s2 where acq: "acquire S r lease s = (Inr b, s2)" using acquire_returns by blast
  have "es_now s2 = es_now s" "es_processed s2 = es_processed s"
    using acquire_now [of r lease s] acquire_processed [of r lease s] acq by simp_all
  with Suc acq show ?case by (auto simp: Let_def split: if_splits prod.splits sum.splits)
qed

text \<open>A granted delivery that nothing disturbs completes with \<open>True\<close> unless an old marker lingers.\<close>

lemma granted_completes:
  assumes "event_gate_claim S module_id consumer_id token quiet key s = (Inr (Some h), s1)"
    and "0 < cs_lease S"
    and "es_processed s (scoped_processed_event_id key (or_str (Some consumer_id) module_id)) = None"
  shows "\<exists>s2. handle_complete S quiet h s1 = (Inr True, s2)"
proof -
  from assms(1) have cl: "claim S h None None quiet s = (Inr CLAIMED, s1)"
    and id: "rq_id h = scoped_processed_event_id key (or_str (Some consumer_id) module_id)"
    by (auto simp: event_gate_claim_def Let_def rq_id_def rq_scope_def
        split: prod.splits sum.splits claim_outcome.splits)
  have st: "es_now s1 = es_now s" "es_processed s1 = es_processed s"
    using cl claim_loop_quiet_state by (auto simp: claim_def Let_def)
  have "lease_respecting h quiet" by (simp add: lease_respecting_def)
  from claim_loop_claimed [OF this] cl obtain t where "es_now s \<le> t" "t \<le> es_now s1"
    "es_now s1 < t + cs_lease S \<longrightarrow> (\<exists>d. es_claims s1 (rq_id h) = Some d \<and> cd_owner_token d = rq_owner h)"
    by (force simp: claim_def Let_def)
  with st assms(2) have "owns_claim S h s1" by (auto simp: owns_claim_iff)
  with st id assms(3) show ?thesis
    by (auto simp: handle_complete_def complete_def write_marker_eq)
qed

end

interpretation mem_gate: lease_gate mem_claim_store module_id consumer_id for module_id consumer_id
  by unfold_locales simp

text \<open>
  The check-then-act gate only keeps the weaker interface: its completion reports success even
  when the marker insert was refused.
\<close>

interpretation legacy: event_gate "LegacyEventGate S module_id consumer_id"
    "\<lambda>s key. legacy_is_duplicate S module_id consumer_id key s" "\<lambda>key. key" "\<lambda>_. True"
  for S module_id consumer_id
  by unfold_locales (auto simp: legacy_claim_def split: if_splits)

section \<open>Properties\<close>

text \<open>
  A delivery that the lease gate granted and that completed with \<open>True\<close> is suppressed from
  then on: the gate answers the next delivery of the key, whatever its token, with no handle.
\<close>

theorem completed_delivery_suppressed:
  assumes "event_claim_store S" and "0 < is_retention (cs_completed S)"
    and "event_gate_claim S m c token quiet key s = (Inr (Some h), s1)"
    and "handle_complete S quiet h s1 = (Inr True, s2)"
  shows "fst (event_gate_claim S m c token' quiet key s2) = Inr None"
proof -
  have "lease_gate S" using assms(1,2) by (intro lease_gate.intro lease_gate_axioms.intro)
  from lease_gate.suppressed [OF this assms(3,4)] show ?thesis .
qed

text \<open>One delivery of the repricer through the gate: granted, completed, then refused.\<close>

lemma demo_gate:
  "event_gate_claim mem_claim_store ''repricer'' ''zeler.repricer.items'' ''a1'' quiet ''items:1'' (empty_store 0) =
    (Inr (Some demo_request),
     (empty_store 0)\<lparr>es_claims := [rq_id demo_request \<mapsto> new_claim demo_request 0 120000000]\<rparr>)"
  using demo_claim by (simp add: event_gate_claim_def Let_def demo_request_def)

theorem completed_delivery_suppressed_witness:
  "\<exists>s1 s2. event_gate_claim mem_claim_store ''repricer'' ''zeler.repricer.items'' ''a1'' quiet
        ''items:1'' (empty_store 0) = (Inr (Some demo_request), s1) \<and>
     handle_complete mem_claim_store quiet demo_request s1 = (Inr True, s2) \<and>
     fst (event_gate_claim mem_claim_store ''repricer'' ''zeler.repricer.items'' ''b2'' quiet
        ''items:1'' s2) = Inr None"
proof -
  let ?s1 = "(empty_store 0)\<lparr>es_claims := [rq_id demo_request \<mapsto> new_claim demo_request 0 120000000]\<rparr>"
  obtain s2 where "handle_complete mem_claim_store quiet demo_request ?s1 = (Inr True, s2)"
    by (auto simp: handle_complete_def complete_def mem_claims.owns_claim_iff new_claim_def
        mem_claims.write_marker_eq empty_store_def)
  with completed_delivery_suppressed [OF mem_claims.event_claim_store_axioms _ demo_gate this]
  show ?thesis using demo_gate by auto
qed

end
