(* ===== verification/RepricerEngine.thy ===== *)
theory RepricerEngine
  imports Complex_Main Prelude
begin

text \<open>
  The pricing decision, \<^verbatim>\<open>modules/repricer/src/zeler_repricer/engine.py\<close>, over the rule, limit and
  ally documents of \<^verbatim>\<open>core/src/zeler_platform_core/models/operational.py\<close>. Prices are finite
  decimals, modelled as rationals.
\<close>

section \<open>Documents\<close>

datatype strategy = Min_price | Competitive | Maximize

record repricer_rule =
  rr_item_id :: string
  rr_strategy :: strategy
  rr_min_price :: rat
  rr_max_price :: rat
  rr_active :: bool

record catalog_rule =
  cr_id :: string
  cr_seller_id :: string
  cr_account_id :: string
  cr_item_id :: string
  cr_strategy :: strategy
  cr_min_price :: rat
  cr_max_price :: rat
  cr_active :: bool

record repricer_limits =
  rl_account_id :: string
  rl_enabled :: bool
  rl_min_price_limit :: rat
  rl_max_price_limit :: rat
  rl_undercut_delta :: rat
  rl_pause_competition :: bool
  rl_escalate_to_manual_review :: bool

record ally_account =
  aa_account_id :: string
  aa_nickname :: "string option"
  aa_item_id :: "string option"

record repricer_allies =
  ra_allies :: "ally_account list"

section \<open>Decisions\<close>

datatype decision = SetPrice (new_price: rat) (set_reason: string)
  | NoAction (no_action_reason: string) (candidate_price: "rat option")

definition reason :: "strategy \<Rightarrow> string" where
  "reason s = (case s of Competitive \<Rightarrow> ''track_buybox'' | Min_price \<Rightarrow> ''min_price''
     | Maximize \<Rightarrow> ''maximize'')"

definition candidate_price_of :: "repricer_rule \<Rightarrow> rat \<Rightarrow> rat option \<Rightarrow> rat option" where
  "candidate_price_of rule current_price buybox_price =
    (case rr_strategy rule of
       Min_price \<Rightarrow> Some (if current_price < rr_min_price rule then rr_min_price rule else current_price)
     | Maximize \<Rightarrow> Some (rr_max_price rule)
     | Competitive \<Rightarrow> buybox_price)"

definition evaluate_rule :: "repricer_rule \<Rightarrow> rat \<Rightarrow> rat option \<Rightarrow> decision" where
  "evaluate_rule rule current_price buybox_price =
    (case candidate_price_of rule current_price buybox_price of
       None \<Rightarrow> NoAction ''missing_buybox'' None
     | Some candidate \<Rightarrow>
         if candidate < rr_min_price rule then NoAction ''below_floor'' (Some candidate)
         else
           let bounded_candidate = min candidate (rr_max_price rule) in
           if bounded_candidate = current_price then NoAction ''already_optimal'' (Some bounded_candidate)
           else SetPrice bounded_candidate (reason (rr_strategy rule)))"

definition catalog_candidate_price ::
  "catalog_rule \<Rightarrow> rat \<Rightarrow> rat option \<Rightarrow> repricer_limits option \<Rightarrow> rat option" where
  "catalog_candidate_price rule current_price buybox_price limits =
    (case cr_strategy rule of
       Min_price \<Rightarrow> Some (if current_price < cr_min_price rule then cr_min_price rule else current_price)
     | Maximize \<Rightarrow> Some (cr_max_price rule)
     | Competitive \<Rightarrow>
         (case buybox_price of
            None \<Rightarrow> None
          | Some b \<Rightarrow> (case limits of
              Some l \<Rightarrow> if rl_enabled l then Some (b - rl_undercut_delta l) else Some b
            | None \<Rightarrow> Some b)))"

definition effective_floor :: "catalog_rule \<Rightarrow> repricer_limits option \<Rightarrow> rat" where
  "effective_floor rule limits =
    (case limits of
       None \<Rightarrow> cr_min_price rule
     | Some l \<Rightarrow> if rl_enabled l then max (cr_min_price rule) (rl_min_price_limit l)
                else cr_min_price rule)"

definition effective_ceiling :: "catalog_rule \<Rightarrow> repricer_limits option \<Rightarrow> rat" where
  "effective_ceiling rule limits =
    (case limits of
       None \<Rightarrow> cr_max_price rule
     | Some l \<Rightarrow> if rl_enabled l then min (cr_max_price rule) (rl_max_price_limit l)
                else cr_max_price rule)"

definition is_ally_competitor :: "repricer_allies option \<Rightarrow> string option \<Rightarrow> bool" where
  "is_ally_competitor allies competitor_account_id =
    (case (allies, competitor_account_id) of
       (Some a, Some c) \<Rightarrow> list_ex (\<lambda>ally. aa_account_id ally = c) (ra_allies a)
     | _ \<Rightarrow> False)"

definition evaluate_catalog_rule ::
  "catalog_rule \<Rightarrow> rat \<Rightarrow> rat option \<Rightarrow> repricer_limits option \<Rightarrow> repricer_allies option \<Rightarrow>
   string option \<Rightarrow> decision" where
  "evaluate_catalog_rule rule current_price buybox_price limits allies competitor_account_id =
    (if \<not> cr_active rule then NoAction ''paused'' None
     else if (case limits of Some l \<Rightarrow> rl_enabled l \<and> rl_pause_competition l | None \<Rightarrow> False)
     then NoAction ''competition_paused'' None
     else if (case limits of Some l \<Rightarrow> rl_enabled l \<and> rl_escalate_to_manual_review l | None \<Rightarrow> False)
     then NoAction ''manual_review_required'' None
     else (case catalog_candidate_price rule current_price buybox_price limits of
         None \<Rightarrow> NoAction ''missing_buybox'' None
       | Some candidate \<Rightarrow>
           if is_ally_competitor allies competitor_account_id
           then NoAction ''ally_competitor'' (Some candidate)
           else
             let floor_price = effective_floor rule limits;
                 ceiling_price = effective_ceiling rule limits
             in if candidate < floor_price then NoAction ''below_floor'' (Some candidate)
                else
                  let bounded_candidate = min candidate ceiling_price in
                  if bounded_candidate = current_price
                  then NoAction ''already_optimal'' (Some bounded_candidate)
                  else SetPrice bounded_candidate (reason (cr_strategy rule))))"

lemmas engine_defs = evaluate_rule_def candidate_price_of_def evaluate_catalog_rule_def
  catalog_candidate_price_def effective_floor_def effective_ceiling_def is_ally_competitor_def

section \<open>Facts\<close>

lemma evaluate_catalog_rule_SetPrice:
  assumes "evaluate_catalog_rule rule p b limits allies rival = SetPrice q r"
  obtains c where "catalog_candidate_price rule p b limits = Some c"
    and "effective_floor rule limits \<le> c" and "q = min c (effective_ceiling rule limits)"
    and "q \<noteq> p" and "cr_active rule" and "\<not> is_ally_competitor allies rival"
    and "r = reason (cr_strategy rule)"
    and "\<And>l. limits = Some l \<Longrightarrow> rl_enabled l \<Longrightarrow>
      \<not> rl_pause_competition l \<and> \<not> rl_escalate_to_manual_review l"
  using assms that
  by (auto simp: evaluate_catalog_rule_def Let_def not_less split: if_splits option.splits)

lemma evaluate_rule_SetPrice:
  assumes "evaluate_rule rule p b = SetPrice q r"
  obtains c where "candidate_price_of rule p b = Some c" and "rr_min_price rule \<le> c"
    and "q = min c (rr_max_price rule)" and "q \<noteq> p"
  using assms that
  by (auto simp: evaluate_rule_def Let_def not_less split: if_splits option.splits)

section \<open>Properties\<close>

text \<open>
  C3. Price corridor: when the effective floor does not exceed the effective ceiling, a price the
  catalog engine sets lies between them, differs from the current price, and is only set for an
  active rule, never against an ally, and never while enabled limits pause or escalate.
\<close>

theorem catalog_price_in_corridor:
  assumes "evaluate_catalog_rule rule p b limits allies rival = SetPrice q r"
    and "effective_floor rule limits \<le> effective_ceiling rule limits"
  shows "effective_floor rule limits \<le> q \<and> q \<le> effective_ceiling rule limits \<and>
    cr_min_price rule \<le> q \<and> q \<le> cr_max_price rule \<and> q \<noteq> p \<and>
    cr_active rule \<and> \<not> is_ally_competitor allies rival"
proof -
  from assms(1) obtain c where c: "effective_floor rule limits \<le> c"
    "q = min c (effective_ceiling rule limits)" "q \<noteq> p" "cr_active rule"
    "\<not> is_ally_competitor allies rival" by (rule evaluate_catalog_rule_SetPrice)
  have "cr_min_price rule \<le> effective_floor rule limits"
    and "effective_ceiling rule limits \<le> cr_max_price rule"
    by (auto simp: effective_floor_def effective_ceiling_def split: option.splits)
  with c assms(2) show ?thesis by (auto intro: order_trans)
qed

definition demo_catalog_rule :: catalog_rule where
  "demo_catalog_rule = \<lparr>cr_id = ''r1'', cr_seller_id = ''1'', cr_account_id = ''a'',
     cr_item_id = ''MLA1'', cr_strategy = Competitive, cr_min_price = 10, cr_max_price = 20,
     cr_active = True\<rparr>"

definition demo_limits :: "rat \<Rightarrow> rat \<Rightarrow> repricer_limits" where
  "demo_limits lo hi = \<lparr>rl_account_id = ''a'', rl_enabled = True, rl_min_price_limit = lo,
     rl_max_price_limit = hi, rl_undercut_delta = 1, rl_pause_competition = False,
     rl_escalate_to_manual_review = False\<rparr>"

theorem catalog_price_in_corridor_witness:
  "evaluate_catalog_rule demo_catalog_rule 12 (Some 16) (Some (demo_limits 8 18)) None None =
     SetPrice 15 ''track_buybox'' \<and> (10::rat) \<le> 15 \<and> (15::rat) \<le> 18"
proof -
  have e: "evaluate_catalog_rule demo_catalog_rule 12 (Some 16) (Some (demo_limits 8 18)) None None =
      SetPrice 15 ''track_buybox''"
    by (simp add: engine_defs demo_catalog_rule_def demo_limits_def reason_def)
  from catalog_price_in_corridor [OF e] show ?thesis
    using e by (simp add: effective_floor_def effective_ceiling_def demo_catalog_rule_def demo_limits_def)
qed

text \<open>
  The floor is not a guarantee when it exceeds the ceiling: with valid rule bounds and valid
  limit bounds whose intervals do not overlap, the engine sets the ceiling, a price below the
  minimum price of the rule, instead of taking no action.
\<close>

theorem disjoint_limits_break_floor:
  assumes "cr_active rule" and "cr_min_price rule \<le> cr_max_price rule"
    and "rl_enabled l" and "\<not> rl_pause_competition l" and "\<not> rl_escalate_to_manual_review l"
    and "rl_min_price_limit l \<le> rl_max_price_limit l" and "rl_max_price_limit l < cr_min_price rule"
    and "cr_strategy rule = Maximize" and "p \<noteq> rl_max_price_limit l"
  shows "evaluate_catalog_rule rule p b (Some l) None rival = SetPrice (rl_max_price_limit l) ''maximize'' \<and>
    rl_max_price_limit l < cr_min_price rule"
  using assms by (auto simp: engine_defs reason_def Let_def min_def max_def)

theorem disjoint_limits_break_floor_witness:
  "evaluate_catalog_rule (demo_catalog_rule\<lparr>cr_strategy := Maximize\<rparr>) 12 None (Some (demo_limits 1 5))
     None None = SetPrice 5 ''maximize'' \<and> (5::rat) < 10"
  using disjoint_limits_break_floor [of "demo_catalog_rule\<lparr>cr_strategy := Maximize\<rparr>" "demo_limits 1 5"
      12 None None]
  by (simp add: demo_catalog_rule_def demo_limits_def)

text \<open>
  The plain engine keeps its bounds: a price it sets lies in the interval of a rule with ordered
  bounds and differs from the current price; re-evaluating at the new price, with the same buy box,
  takes no further action.
\<close>

theorem evaluate_rule_stable:
  assumes "evaluate_rule rule p b = SetPrice q r" and "rr_min_price rule \<le> rr_max_price rule"
  shows "rr_min_price rule \<le> q \<and> q \<le> rr_max_price rule \<and> q \<noteq> p \<and>
    evaluate_rule rule q b = NoAction ''already_optimal'' (Some q)"
proof -
  from assms(1) obtain c where c: "candidate_price_of rule p b = Some c" "rr_min_price rule \<le> c"
    "q = min c (rr_max_price rule)" "q \<noteq> p" by (rule evaluate_rule_SetPrice)
  have "\<exists>c'. candidate_price_of rule q b = Some c' \<and> min c' (rr_max_price rule) = q \<and>
      rr_min_price rule \<le> c'"
    using c assms(2) by (auto simp: candidate_price_of_def min_def split: strategy.splits if_splits)
  then have "evaluate_rule rule q b = NoAction ''already_optimal'' (Some q)"
    by (auto simp: evaluate_rule_def Let_def)
  with c assms(2) show ?thesis by auto
qed

theorem evaluate_rule_stable_witness:
  "evaluate_rule \<lparr>rr_item_id = ''i'', rr_strategy = Competitive, rr_min_price = 5, rr_max_price = 9,
     rr_active = True\<rparr> 9 (Some 7) = SetPrice 7 ''track_buybox'' \<and> (5::rat) \<le> 7"
proof -
  let ?rule = "\<lparr>rr_item_id = ''i'', rr_strategy = Competitive, rr_min_price = 5, rr_max_price = 9,
     rr_active = True\<rparr>"
  have e: "evaluate_rule ?rule 9 (Some 7) = SetPrice 7 ''track_buybox''"
    by (simp add: engine_defs reason_def)
  from evaluate_rule_stable [OF e] show ?thesis using e by simp
qed

end
