(* ===== verification/RepricerHandler.thy ===== *)
theory RepricerHandler
  imports ClaimGate RepricerEngine PyStrings
begin

text \<open>
  The event handler and the broker wrapper of the repricer worker,
  \<^verbatim>\<open>modules/repricer/src/zeler_repricer/consumer.py\<close>. The handler takes its gate as an argument
  (the interface \<open>event_gate\<close>), its database reads and the marketplace gateway as a record of
  functions, and records what it did to the outside world as a list of effects.
\<close>

section \<open>Data\<close>

record repricer_event =
  ev_event_id :: string
  ev_event_type :: string
  ev_seller_id :: int
  ev_resource :: string
  ev_idempotency_key :: string
  ev_buybox_price :: "rat option"
  ev_competitor_account_id :: "string option"

record item =
  it_id :: string
  it_price :: rat

record history_doc =
  hd_seller_id :: string
  hd_item_id :: string
  hd_old_price :: rat
  hd_new_price :: rat
  hd_reason :: string
  hd_applied_at :: instant
  hd_gateway_status :: "int option"
  hd_gateway_latency_ms :: "int option"
  hd_event_id :: string
  hd_account_id :: "string option"
  hd_rule_id :: "string option"

record execution_state =
  xs_last_outcome :: string
  xs_last_event_at :: instant
  xs_last_applied_price :: "rat option"
  xs_last_competitor :: "string option"

datatype effect =
    UpdatePrice int string rat string
  | WriteHistory history_doc
  | UpdateExecution string string execution_state

text \<open>Exceptions that reach the broker wrapper, by the classes it distinguishes.\<close>

datatype handler_error =
    GatewayRateLimitError int
  | HTTPStatusError int
  | ConnectError
  | TimeoutException
  | ClaimTimeout
  | RuntimeError
  | JSONDecodeError
  | DataError
  | OtherError

definition gate_exception :: "gate_error \<Rightarrow> handler_error" where
  "gate_exception e = (case e of EventClaimTimeoutError \<Rightarrow> ClaimTimeout | GateStoreError _ \<Rightarrow> OtherError)"

text \<open>
  The reads of the handler and its gateway. \<open>None\<close> for a rule, limit or ally collection is the
  \<^verbatim>\<open>KeyError\<close> of a database without it.
\<close>

record repricer_world =
  rw_find_item :: "string \<Rightarrow> string \<Rightarrow> item option"
  rw_catalog_rules :: "(string \<Rightarrow> string \<Rightarrow> catalog_rule option) option"
  rw_find_rule :: "string \<Rightarrow> string \<Rightarrow> repricer_rule option"
  rw_limits :: "(string \<Rightarrow> string \<Rightarrow> repricer_limits option) option"
  rw_allies :: "(string \<Rightarrow> repricer_allies option) option"
  rw_update_price :: "int \<Rightarrow> string \<Rightarrow> rat \<Rightarrow> string \<Rightarrow> (handler_error, int \<times> int) result"
  rw_clock :: instant

record 'g handler_state =
  hs_gate :: 'g
  hs_effects :: "effect list"

section \<open>Helpers\<close>

fun item_id_from_parts :: "string list \<Rightarrow> string option" where
  "item_id_from_parts (p # q # ps) = (if p = ''items'' then Some q else item_id_from_parts (q # ps))"
| "item_id_from_parts _ = None"

definition item_id_from_resource :: "string \<Rightarrow> (handler_error, string) result" where
  "item_id_from_resource resource =
    (case item_id_from_parts (filter (\<lambda>p. p \<noteq> []) (split_on (CHR ''/'') resource)) of
       Some i \<Rightarrow> Inr i | None \<Rightarrow> Inl DataError)"

definition execution_outcome :: "string \<Rightarrow> string" where
  "execution_outcome r =
    (if r \<in> {''paused'', ''competition_paused''} then ''paused''
     else if r \<in> {''below_floor'', ''manual_review_required''} then ''guard_blocked''
     else ''no_action'')"

definition write_history ::
  "repricer_world \<Rightarrow> repricer_event \<Rightarrow> item \<Rightarrow> rat \<Rightarrow> string \<Rightarrow> int option \<Rightarrow> int option \<Rightarrow>
   catalog_rule option \<Rightarrow> effect" where
  "write_history D ev it price r status latency rule = WriteHistory \<lparr>
     hd_seller_id = int_str (ev_seller_id ev), hd_item_id = it_id it, hd_old_price = it_price it,
     hd_new_price = price, hd_reason = r, hd_applied_at = rw_clock D, hd_gateway_status = status,
     hd_gateway_latency_ms = latency, hd_event_id = ev_event_id ev,
     hd_account_id = map_option cr_account_id rule, hd_rule_id = map_option cr_id rule\<rparr>"

definition update_catalog_execution_state ::
  "repricer_world \<Rightarrow> catalog_rule \<Rightarrow> string \<Rightarrow> rat option \<Rightarrow> string option \<Rightarrow> effect" where
  "update_catalog_execution_state D rule outcome price competitor =
    UpdateExecution (cr_id rule) (cr_seller_id rule) \<lparr>xs_last_outcome = outcome,
      xs_last_event_at = rw_clock D, xs_last_applied_price = price, xs_last_competitor = competitor\<rparr>"

definition find_catalog_rule ::
  "repricer_world \<Rightarrow> int \<Rightarrow> string \<Rightarrow> catalog_rule option \<times> bool" where
  "find_catalog_rule D seller_id item_id =
    (case rw_catalog_rules D of
       None \<Rightarrow> (None, True)
     | Some look \<Rightarrow> (look (int_str seller_id) item_id, False))"

definition find_limits :: "repricer_world \<Rightarrow> int \<Rightarrow> string \<Rightarrow> repricer_limits option" where
  "find_limits D seller_id account_id =
    (case rw_limits D of None \<Rightarrow> None | Some look \<Rightarrow> look (int_str seller_id) account_id)"

definition find_allies :: "repricer_world \<Rightarrow> int \<Rightarrow> repricer_allies option" where
  "find_allies D seller_id = (case rw_allies D of None \<Rightarrow> None | Some look \<Rightarrow> look (int_str seller_id))"

definition log_effects :: "effect list \<Rightarrow> 'g handler_state \<Rightarrow> 'g handler_state" where
  "log_effects es st = st\<lparr>hs_effects := hs_effects st @ es\<rparr>"

text \<open>A \<open>False\<close> completion (lost lease) is logged and otherwise ignored; an exception propagates.\<close>

definition complete_claim ::
  "('g, 'h) gate \<Rightarrow> 'h \<Rightarrow> string \<Rightarrow> 'g handler_state \<Rightarrow>
   (handler_error, string) result \<times> 'g handler_state" where
  "complete_claim G h outcome st =
    (case gate_complete G h (hs_gate st) of
       (Inl e, g) \<Rightarrow> (Inl OtherError, st\<lparr>hs_gate := g\<rparr>)
     | (Inr _, g) \<Rightarrow> (Inr outcome, st\<lparr>hs_gate := g\<rparr>))"

definition release_claim ::
  "('g, 'h) gate \<Rightarrow> 'h \<Rightarrow> string \<Rightarrow> 'g handler_state \<Rightarrow>
   (handler_error, string) result \<times> 'g handler_state" where
  "release_claim G h outcome st =
    (case gate_release G h (hs_gate st) of
       (Inl e, g) \<Rightarrow> (Inl OtherError, st\<lparr>hs_gate := g\<rparr>)
     | (Inr _, g) \<Rightarrow> (Inr outcome, st\<lparr>hs_gate := g\<rparr>))"

section \<open>The handler\<close>

definition handle_catalog_rule ::
  "('g, 'h) gate \<Rightarrow> repricer_world \<Rightarrow> repricer_event \<Rightarrow> item \<Rightarrow> catalog_rule \<Rightarrow> 'h \<Rightarrow>
   'g handler_state \<Rightarrow> (handler_error, string) result \<times> 'g handler_state" where
  "handle_catalog_rule G D ev it rule h st =
    (case evaluate_catalog_rule rule (it_price it) (ev_buybox_price ev)
            (find_limits D (ev_seller_id ev) (cr_account_id rule)) (find_allies D (ev_seller_id ev))
            (ev_competitor_account_id ev) of
       SetPrice q r \<Rightarrow>
         (case rw_update_price D (ev_seller_id ev) (it_id it) q (ev_idempotency_key ev) of
            Inl e \<Rightarrow> (Inl e, log_effects [UpdatePrice (ev_seller_id ev) (it_id it) q (ev_idempotency_key ev)] st)
          | Inr (status, latency) \<Rightarrow>
              complete_claim G h ''set_price'' (log_effects
                [UpdatePrice (ev_seller_id ev) (it_id it) q (ev_idempotency_key ev),
                 write_history D ev it q r (Some status) (Some latency) (Some rule),
                 update_catalog_execution_state D rule ''applied'' (Some q) (ev_competitor_account_id ev)] st))
     | NoAction r _ \<Rightarrow>
         complete_claim G h ''no_action'' (log_effects
           [write_history D ev it (it_price it) r None None (Some rule),
            update_catalog_execution_state D rule (execution_outcome r) None (ev_competitor_account_id ev)] st))"

definition handle_plain_rule ::
  "('g, 'h) gate \<Rightarrow> repricer_world \<Rightarrow> repricer_event \<Rightarrow> item \<Rightarrow> repricer_rule \<Rightarrow> 'h \<Rightarrow>
   'g handler_state \<Rightarrow> (handler_error, string) result \<times> 'g handler_state" where
  "handle_plain_rule G D ev it rule h st =
    (case evaluate_rule rule (it_price it) (ev_buybox_price ev) of
       SetPrice q r \<Rightarrow>
         (case rw_update_price D (ev_seller_id ev) (it_id it) q (ev_idempotency_key ev) of
            Inl e \<Rightarrow> (Inl e, log_effects [UpdatePrice (ev_seller_id ev) (it_id it) q (ev_idempotency_key ev)] st)
          | Inr (status, latency) \<Rightarrow>
              complete_claim G h ''set_price'' (log_effects
                [UpdatePrice (ev_seller_id ev) (it_id it) q (ev_idempotency_key ev),
                 write_history D ev it q r (Some status) (Some latency) None] st))
     | NoAction r _ \<Rightarrow>
         complete_claim G h ''no_action'' (log_effects
           [write_history D ev it (it_price it) r None None None] st))"

definition handle_claimed ::
  "('g, 'h) gate \<Rightarrow> repricer_world \<Rightarrow> repricer_event \<Rightarrow> 'h \<Rightarrow>
   'g handler_state \<Rightarrow> (handler_error, string) result \<times> 'g handler_state" where
  "handle_claimed G D ev h st =
    (case item_id_from_resource (ev_resource ev) of
       Inl e \<Rightarrow> (Inl e, st)
     | Inr item_id \<Rightarrow>
         (case rw_find_item D item_id (int_str (ev_seller_id ev)) of
            None \<Rightarrow> release_claim G h ''item_missing'' st
          | Some it \<Rightarrow>
              (case find_catalog_rule D (ev_seller_id ev) (it_id it) of
                 (Some rule, _) \<Rightarrow> handle_catalog_rule G D ev it rule h st
               | (None, False) \<Rightarrow> release_claim G h ''rule_missing'' st
               | (None, True) \<Rightarrow>
                   (case rw_find_rule D (int_str (ev_seller_id ev)) (it_id it) of
                      None \<Rightarrow> release_claim G h ''rule_missing'' st
                    | Some rule \<Rightarrow> handle_plain_rule G D ev it rule h st))))"

text \<open>A failure of the claimed part frees the lease, best effort, and re-raises.\<close>

definition handle ::
  "('g, 'h) gate \<Rightarrow> repricer_world \<Rightarrow> repricer_event \<Rightarrow> 'g handler_state \<Rightarrow>
   (handler_error, string) result \<times> 'g handler_state" where
  "handle G D ev st =
    (case gate_claim G (ev_idempotency_key ev) (hs_gate st) of
       (Inl e, g) \<Rightarrow> (Inl (gate_exception e), st\<lparr>hs_gate := g\<rparr>)
     | (Inr None, g) \<Rightarrow> (Inr ''duplicate'', st\<lparr>hs_gate := g\<rparr>)
     | (Inr (Some h), g) \<Rightarrow>
         (case handle_claimed G D ev h (st\<lparr>hs_gate := g\<rparr>) of
            (Inl e, st') \<Rightarrow> (Inl e, st'\<lparr>hs_gate := snd (gate_release G h (hs_gate st'))\<rparr>)
          | (Inr r, st') \<Rightarrow> (Inr r, st')))"

section \<open>The broker wrapper\<close>

datatype broker_action = Ack | Nack bool | DelayThenAck int | Escapes

definition permanent_http :: "int \<Rightarrow> bool" where
  "permanent_http c \<longleftrightarrow> c \<in> {401, 403, 404, 422}"

definition retriable_http :: "int \<Rightarrow> bool" where
  "retriable_http c \<longleftrightarrow> c \<in> {408, 429}"

text \<open>\<open>delays\<close>: whether the runner has a retry-delay publisher.\<close>

definition on_exception :: "bool \<Rightarrow> handler_error \<Rightarrow> broker_action" where
  "on_exception delays e =
    (case e of
       GatewayRateLimitError s \<Rightarrow> if delays then DelayThenAck (s * 1000) else Nack True
     | HTTPStatusError c \<Rightarrow>
         if permanent_http c then Nack False
         else if c \<ge> 500 \<or> retriable_http c then Nack True
         else Escapes
     | ConnectError \<Rightarrow> Nack True
     | TimeoutException \<Rightarrow> Nack True
     | ClaimTimeout \<Rightarrow> if delays then DelayThenAck 1000 else Nack True
     | RuntimeError \<Rightarrow> Nack False
     | JSONDecodeError \<Rightarrow> Nack False
     | DataError \<Rightarrow> Nack False
     | OtherError \<Rightarrow> Nack False)"

text \<open>An \<^verbatim>\<open>x-death\<close> entry: queue and count, \<open>None\<close> where the field is absent or not an integer.\<close>

record death =
  de_queue :: "string option"
  de_count :: "int option"

fun x_death_count :: "string \<Rightarrow> death option list \<Rightarrow> int" where
  "x_death_count queue_name [] = 0"
| "x_death_count queue_name (None # ds) = x_death_count queue_name ds"
| "x_death_count queue_name (Some d # ds) =
    (if de_queue d \<in> {Some queue_name, None}
     then (case de_count d of Some n \<Rightarrow> n | None \<Rightarrow> 0)
     else x_death_count queue_name ds)"

text \<open>Account status with the 30 s cache: the status read, and the cache after it.\<close>

definition account_is_paused ::
  "(int \<Rightarrow> string option) option \<Rightarrow> instant \<Rightarrow> int \<Rightarrow> (int \<rightharpoonup> string option \<times> instant) \<Rightarrow>
   bool \<times> (int \<rightharpoonup> string option \<times> instant)" where
  "account_is_paused source now seller cache =
    (case source of
       None \<Rightarrow> (False, cache)
     | Some read_status \<Rightarrow>
         (case cache seller of
            Some (Some status, cached_at) \<Rightarrow>
              if now - cached_at \<le> seconds 30 then (status = ''paused'', cache)
              else (read_status seller = Some ''paused'', cache(seller \<mapsto> (read_status seller, now)))
          | _ \<Rightarrow> (read_status seller = Some ''paused'', cache(seller \<mapsto> (read_status seller, now)))))"

text \<open>
  One message: over the delivery limit it goes to the dead-letter queue unread; a message that does
  not parse, a paused account and the handler's outcome decide the rest.
\<close>

definition handle_message ::
  "('g, 'h) gate \<Rightarrow> repricer_world \<Rightarrow> bool \<Rightarrow> int \<Rightarrow> string \<Rightarrow> (int \<Rightarrow> string option) option \<Rightarrow> instant \<Rightarrow>
   (int \<rightharpoonup> string option \<times> instant) \<Rightarrow> death option list \<Rightarrow> (handler_error, repricer_event) result \<Rightarrow>
   'g handler_state \<Rightarrow> broker_action \<times> (int \<rightharpoonup> string option \<times> instant) \<times> 'g handler_state" where
  "handle_message G D delays delivery_limit queue_name source now cache deaths parsed st =
    (if x_death_count queue_name deaths \<ge> delivery_limit then (Nack False, cache, st)
     else (case parsed of
        Inl e \<Rightarrow> (on_exception delays e, cache, st)
      | Inr ev \<Rightarrow>
          (case account_is_paused source now (ev_seller_id ev) cache of
             (True, cache') \<Rightarrow> (Ack, cache', st)
           | (False, cache') \<Rightarrow>
               (case handle G D ev st of
                  (Inl e, st') \<Rightarrow> (on_exception delays e, cache', st')
                | (Inr _, st') \<Rightarrow> (Ack, cache', st')))))"

lemmas handler_defs = handle_def handle_claimed_def handle_catalog_rule_def handle_plain_rule_def
  complete_claim_def release_claim_def log_effects_def

section \<open>The stored execution state\<close>

text \<open>
  Reading a stored price back, \<^verbatim>\<open>PriceMixin._coerce_decimal\<close>: the validator runs before the type
  check on every field that is present, so a stored null reaches \<^verbatim>\<open>Decimal(str(None))\<close>.
\<close>

datatype stored_price = Null | Number rat

definition coerce_decimal :: "stored_price \<Rightarrow> (handler_error, rat) result" where
  "coerce_decimal v = (case v of Null \<Rightarrow> Inl OtherError | Number q \<Rightarrow> Inr q)"

definition stored_applied_price :: "execution_state \<Rightarrow> stored_price" where
  "stored_applied_price x = (case xs_last_applied_price x of None \<Rightarrow> Null | Some q \<Rightarrow> Number q)"

section \<open>Facts\<close>

definition price_updates :: "effect list \<Rightarrow> effect list" where
  "price_updates es = filter (\<lambda>e. case e of UpdatePrice _ _ _ _ \<Rightarrow> True | _ \<Rightarrow> False) es"

lemma price_updates_simps [simp]:
  "price_updates [] = []"
  "price_updates (UpdatePrice s i q k # es) = UpdatePrice s i q k # price_updates es"
  "price_updates (WriteHistory d # es) = price_updates es"
  "price_updates (UpdateExecution r seller x # es) = price_updates es"
  "price_updates (write_history D ev it q r a b c # es) = price_updates es"
  "price_updates (update_catalog_execution_state D rule oc p cp # es) = price_updates es"
  by (simp_all add: price_updates_def write_history_def update_catalog_execution_state_def)

lemma log_effects_simps [simp]:
  "hs_gate (log_effects es st) = hs_gate st"
  "hs_effects (log_effects es st) = hs_effects st @ es"
  by (simp_all add: log_effects_def)

lemma complete_claim_effects [simp]: "hs_effects (snd (complete_claim G h r st)) = hs_effects st"
  by (auto simp: complete_claim_def split: prod.splits sum.splits)

lemma release_claim_effects [simp]: "hs_effects (snd (release_claim G h r st)) = hs_effects st"
  by (auto simp: release_claim_def split: prod.splits sum.splits)

lemma complete_claim_Inr:
  "complete_claim G h r st = (Inr r', st') \<Longrightarrow>
    r' = r \<and> (\<exists>b. gate_complete G h (hs_gate st) = (Inr b, hs_gate st'))"
  by (auto simp: complete_claim_def split: prod.splits sum.splits)

lemma release_claim_Inr: "release_claim G h r st = (Inr r', st') \<Longrightarrow> r' = r"
  by (auto simp: release_claim_def split: prod.splits sum.splits)

text \<open>What one delivery does to the outside, on every branch of the claimed part.\<close>

definition effects_ok :: "repricer_event \<Rightarrow> (handler_error, string) result \<Rightarrow> effect list \<Rightarrow> bool" where
  "effects_ok ev res new \<longleftrightarrow>
    (price_updates new = [] \<or>
      (\<exists>item q. price_updates new = [UpdatePrice (ev_seller_id ev) item q (ev_idempotency_key ev)])) \<and>
    (\<forall>r. res = Inr r \<longrightarrow> (price_updates new \<noteq> [] \<longleftrightarrow> r = ''set_price'') \<and>
       (r \<in> {''duplicate'', ''item_missing'', ''rule_missing''} \<longrightarrow> new = []))"

lemma effects_ok_error: "effects_ok ev res new \<Longrightarrow> effects_ok ev (Inl e) new"
  by (simp add: effects_ok_def)

lemma completing_effects:
  assumes "complete_claim G h r (log_effects new st) = (res, st')" and "effects_ok ev (Inr r) new"
  shows "\<exists>new. hs_effects st' = hs_effects st @ new \<and> effects_ok ev res new"
proof -
  have "hs_effects st' = hs_effects st @ new"
    using complete_claim_effects [of G h r "log_effects new st"] assms(1) by simp
  moreover have "effects_ok ev res new"
    using assms complete_claim_Inr [of G h r "log_effects new st"]
    by (cases res) (auto intro: effects_ok_error)
  ultimately show ?thesis by blast
qed

lemma catalog_effects:
  assumes "handle_catalog_rule G D ev it rule h st = (res, st')"
  shows "\<exists>new. hs_effects st' = hs_effects st @ new \<and> effects_ok ev res new"
proof (cases "evaluate_catalog_rule rule (it_price it) (ev_buybox_price ev)
    (find_limits D (ev_seller_id ev) (cr_account_id rule)) (find_allies D (ev_seller_id ev))
    (ev_competitor_account_id ev)")
  case (SetPrice q r)
  show ?thesis
  proof (cases "rw_update_price D (ev_seller_id ev) (it_id it) q (ev_idempotency_key ev)")
    case (Inl e)
    with assms SetPrice show ?thesis by (auto simp: handle_catalog_rule_def effects_ok_def)
  next
    case (Inr p)
    with assms SetPrice show ?thesis
      by (cases p) (rule completing_effects, auto simp: handle_catalog_rule_def effects_ok_def)
  qed
next
  case (NoAction r c)
  with assms show ?thesis
    by (intro completing_effects) (auto simp: handle_catalog_rule_def effects_ok_def)
qed

lemma plain_effects:
  assumes "handle_plain_rule G D ev it rule h st = (res, st')"
  shows "\<exists>new. hs_effects st' = hs_effects st @ new \<and> effects_ok ev res new"
proof (cases "evaluate_rule rule (it_price it) (ev_buybox_price ev)")
  case (SetPrice q r)
  show ?thesis
  proof (cases "rw_update_price D (ev_seller_id ev) (it_id it) q (ev_idempotency_key ev)")
    case (Inl e)
    with assms SetPrice show ?thesis by (auto simp: handle_plain_rule_def effects_ok_def)
  next
    case (Inr p)
    with assms SetPrice show ?thesis
      by (cases p) (rule completing_effects, auto simp: handle_plain_rule_def effects_ok_def)
  qed
next
  case (NoAction r c)
  with assms show ?thesis
    by (intro completing_effects) (auto simp: handle_plain_rule_def effects_ok_def)
qed

lemma release_effects:
  "release_claim G h r st = (res, st') \<Longrightarrow> r \<in> {''item_missing'', ''rule_missing''} \<Longrightarrow>
    \<exists>new. hs_effects st' = hs_effects st @ new \<and> effects_ok ev res new"
  using release_claim_effects [of G h r st]
  by (auto simp: effects_ok_def dest: release_claim_Inr)

text \<open>The claimed part ends in an error before any effect, a release, or one of the two rule handlers.\<close>

lemma handle_claimed_cases:
  obtains (bad_resource) e where "handle_claimed G D ev h st = (Inl e, st)"
  | (missing) r where "r \<in> {''item_missing'', ''rule_missing''}"
      "handle_claimed G D ev h st = release_claim G h r st"
  | (catalog) it rule where "handle_claimed G D ev h st = handle_catalog_rule G D ev it rule h st"
  | (plain) it rule where "handle_claimed G D ev h st = handle_plain_rule G D ev it rule h st"
proof (cases "item_id_from_resource (ev_resource ev)")
  case (Inl e)
  then show ?thesis using bad_resource by (simp add: handle_claimed_def)
next
  case (Inr i)
  show ?thesis
  proof (cases "rw_find_item D i (int_str (ev_seller_id ev))")
    case None
    with Inr show ?thesis using missing [of "''item_missing''"] by (simp add: handle_claimed_def)
  next
    case (Some it)
    note found = Inr Some
    obtain cr fb where f: "find_catalog_rule D (ev_seller_id ev) (it_id it) = (cr, fb)" by fastforce
    show ?thesis
    proof (cases cr)
      case (Some rule)
      with found f show ?thesis using catalog by (simp add: handle_claimed_def)
    next
      case None
      with found f show ?thesis using missing [of "''rule_missing''"] plain
        by (cases fb; cases "rw_find_rule D (int_str (ev_seller_id ev)) (it_id it)")
           (simp_all add: handle_claimed_def)
    qed
  qed
qed

lemma claimed_effects:
  assumes "handle_claimed G D ev h st = (res, st')"
  shows "\<exists>new. hs_effects st' = hs_effects st @ new \<and> effects_ok ev res new"
proof (cases G D ev h st rule: handle_claimed_cases)
  case (bad_resource e)
  with assms show ?thesis by (auto simp: effects_ok_def)
next
  case (missing r)
  with assms release_effects show ?thesis by metis
next
  case (catalog it rule)
  with assms catalog_effects show ?thesis by metis
next
  case (plain it rule)
  with assms plain_effects show ?thesis by metis
qed

lemma catalog_completes:
  "handle_catalog_rule G D ev it rule h st = (Inr r, st') \<Longrightarrow>
    \<exists>b. gate_complete G h (hs_gate st) = (Inr b, hs_gate st')"
  by (auto simp: handle_catalog_rule_def dest!: complete_claim_Inr
      split: decision.splits sum.splits prod.splits)

lemma plain_completes:
  "handle_plain_rule G D ev it rule h st = (Inr r, st') \<Longrightarrow>
    \<exists>b. gate_complete G h (hs_gate st) = (Inr b, hs_gate st')"
  by (auto simp: handle_plain_rule_def dest!: complete_claim_Inr
      split: decision.splits sum.splits prod.splits)

lemma claimed_terminal:
  assumes "handle_claimed G D ev h st = (Inr r, st')" and "r \<in> {''set_price'', ''no_action''}"
  shows "\<exists>b. gate_complete G h (hs_gate st) = (Inr b, hs_gate st')"
proof (cases G D ev h st rule: handle_claimed_cases)
  case (bad_resource e)
  with assms show ?thesis by simp
next
  case (missing r')
  with assms show ?thesis by (auto dest: release_claim_Inr)
next
  case (catalog it rule)
  with assms catalog_completes show ?thesis by metis
next
  case (plain it rule)
  with assms plain_completes show ?thesis by metis
qed

lemma handle_terminal:
  assumes "handle G D ev st = (Inr r, st')" and "r \<in> {''set_price'', ''no_action''}"
  shows "\<exists>h g b. gate_claim G (ev_idempotency_key ev) (hs_gate st) = (Inr (Some h), g) \<and>
    gate_complete G h g = (Inr b, hs_gate st')"
proof (cases "gate_claim G (ev_idempotency_key ev) (hs_gate st)")
  case (Pair out g)
  with assms obtain h where h: "out = Inr (Some h)"
    by (auto simp: handle_def split: sum.splits option.splits)
  obtain res s where c: "handle_claimed G D ev h (st\<lparr>hs_gate := g\<rparr>) = (res, s)" by fastforce
  with assms(1) Pair h have "res = Inr r" "s = st'" by (auto simp: handle_def split: sum.splits)
  with claimed_terminal [of G D ev h _ r st'] c assms(2) Pair h show ?thesis by fastforce
qed

context event_gate
begin

lemma handle_done:
  assumes "done_key (hs_gate st) (ev_idempotency_key ev)"
  shows "fst (handle G D ev st) = Inr ''duplicate'' \<and> hs_effects (snd (handle G D ev st)) = hs_effects st"
  using claim_when_done [OF assms]
  by (auto simp: handle_def split: prod.splits)

end

section \<open>Properties\<close>


text \<open>
  Redelivery is harmless: behind the lease gate, once a delivery has ended in
  \<^verbatim>\<open>set_price\<close> or \<^verbatim>\<open>no_action\<close> (with no expired marker of the key left in the collection), the
  same event delivered again, by any worker and whatever the database then says, is reported as
  a duplicate and has no effect.
\<close>

theorem redelivery_is_duplicate:
  assumes "event_claim_store S" and "0 < is_retention (cs_completed S)" and "0 < cs_lease S"
    and "es_processed (hs_gate st)
      (scoped_processed_event_id (ev_idempotency_key ev) (or_str (Some c) m)) = None"
    and "handle (EventClaimGate S m c token quiet) D ev st = (Inr r, st1)"
    and "r = ''set_price'' \<or> r = ''no_action''"
  shows "fst (handle (EventClaimGate S m c token' quiet) D' ev st1) = Inr ''duplicate'' \<and>
    hs_effects (snd (handle (EventClaimGate S m c token' quiet) D' ev st1)) = hs_effects st1"
proof -
  have L: "lease_gate S" using assms(1,2) by (intro lease_gate.intro lease_gate_axioms.intro)
  from handle_terminal [OF assms(5)] assms(6) obtain h g b
    where cl: "event_gate_claim S m c token quiet (ev_idempotency_key ev) (hs_gate st) = (Inr (Some h), g)"
      and co: "handle_complete S quiet h g = (Inr b, hs_gate st1)" by auto
  from lease_gate.granted_completes [OF L cl assms(3,4)] co have "b = True" by auto
  with lease_gate.suppressed [OF L cl] co
  have "fst (event_gate_claim S m c token' quiet (ev_idempotency_key ev) (hs_gate st1)) = Inr None"
    by simp
  then show ?thesis by (auto simp: handle_def split: prod.splits)
qed

definition demo_event :: repricer_event where
  "demo_event = \<lparr>ev_event_id = ''e1'', ev_event_type = ''items.updated'', ev_seller_id = 1,
     ev_resource = ''/items/MLA1'', ev_idempotency_key = ''items:1'', ev_buybox_price = Some 15,
     ev_competitor_account_id = None\<rparr>"

definition demo_world :: repricer_world where
  "demo_world = \<lparr>rw_find_item = (\<lambda>i s. Some \<lparr>it_id = i, it_price = 12\<rparr>),
     rw_catalog_rules = Some (\<lambda>s i. Some demo_catalog_rule), rw_find_rule = (\<lambda>s i. None),
     rw_limits = None, rw_allies = None, rw_update_price = (\<lambda>s i q k. Inr (200, 5)), rw_clock = 0\<rparr>"

definition demo_state :: "event_store handler_state" where
  "demo_state = \<lparr>hs_gate = empty_store 0, hs_effects = []\<rparr>"

abbreviation demo_gate_of :: "string \<Rightarrow> (event_store, claim_request) gate" where
  "demo_gate_of token \<equiv>
    EventClaimGate mem_claim_store ''repricer'' ''zeler.repricer.items'' token quiet"

lemma demo_completes: "\<exists>g. handle_complete mem_claim_store quiet demo_request
    ((empty_store 0)\<lparr>es_claims := [rq_id demo_request \<mapsto> new_claim demo_request 0 120000000]\<rparr>) =
    (Inr True, g)"
  by (auto simp: handle_complete_def EventClaims.complete_def mem_claims.owns_claim_iff new_claim_def
      mem_claims.write_marker_eq empty_store_def)

lemma demo_handle: "\<exists>st1. handle (demo_gate_of ''a1'') demo_world demo_event demo_state = (Inr ''set_price'', st1)"
proof -
  obtain g where "handle_complete mem_claim_store quiet demo_request
    ((empty_store 0)\<lparr>es_claims := [rq_id demo_request \<mapsto> new_claim demo_request 0 120000000]\<rparr>) =
    (Inr True, g)" using demo_completes by blast
  then show ?thesis
    by (simp add: handle_def demo_event_def demo_state_def demo_gate handle_claimed_def
        item_id_from_resource_def demo_world_def find_catalog_rule_def handle_catalog_rule_def
        find_limits_def find_allies_def engine_defs demo_catalog_rule_def complete_claim_def reason_def)
qed

theorem redelivery_is_duplicate_witness:
  "\<exists>st1. handle (demo_gate_of ''a1'') demo_world demo_event demo_state = (Inr ''set_price'', st1) \<and>
    fst (handle (demo_gate_of ''b2'') demo_world demo_event st1) = Inr ''duplicate''"
proof -
  obtain st1 where h: "handle (demo_gate_of ''a1'') demo_world demo_event demo_state = (Inr ''set_price'', st1)"
    using demo_handle by blast
  from redelivery_is_duplicate [OF mem_claims.event_claim_store_axioms _ _ _ h]
  show ?thesis using h by (simp add: demo_state_def empty_store_def)
qed

text \<open>
  A busy lease is never a dead letter: when the gate reports a timeout, the message goes
  back to the queue (directly, or through the delay queue after one second), whatever its death
  count below the limit, and nothing was done outside the gate.
\<close>

theorem busy_lease_requeues:
  assumes "x_death_count q deaths < limit"
    and "account_is_paused source now (ev_seller_id ev) cache = (False, cache')"
    and "gate_claim G (ev_idempotency_key ev) (hs_gate st) = (Inl EventClaimTimeoutError, g)"
  shows "handle_message G D delays limit q source now cache deaths (Inr ev) st =
    ((if delays then DelayThenAck 1000 else Nack True), cache', st\<lparr>hs_gate := g\<rparr>)"
  using assms by (simp add: handle_message_def handle_def gate_exception_def on_exception_def)

theorem busy_lease_requeues_witness:
  "fst (handle_message (demo_gate_of ''a1'') demo_world False 5 ''zeler.repricer.items'' None 0
      Map.empty [] (Inr demo_event)
      \<lparr>hs_gate = demo_held, hs_effects = []\<rparr>) = Nack True"
proof -
  have "fst (claim mem_claim_store demo_request None None quiet demo_held) = Inr TIMED_OUT"
  proof -
    have "held_elsewhere mem_claim_store demo_request demo_held"
      by (simp add: held_elsewhere_def demo_held_def empty_store_def new_claim_def demo_request_def
          already_completed_def is_duplicate_def is_duplicate_scoped_def document_is_active_def)
    then have "\<not> already_completed mem_claim_store demo_request demo_held"
      "acquire mem_claim_store demo_request l demo_held = (Inr False, demo_held)" for l
      by (auto simp: held_elsewhere_def mem_claims.acquire_eq)
    then have "claim_loop mem_claim_store demo_request l t quiet i n demo_held = (Inr TIMED_OUT, demo_held)"
      for l t i n by (induction n arbitrary: i) (auto simp: Let_def)
    then show ?thesis by (simp add: claim_def Let_def)
  qed
  then have "fst (gate_claim (demo_gate_of ''a1'') (ev_idempotency_key demo_event) demo_held) =
      Inl EventClaimTimeoutError"
    by (auto simp: event_gate_claim_def Let_def demo_event_def demo_request_def split: prod.splits)
  then obtain g where "gate_claim (demo_gate_of ''a1'') (ev_idempotency_key demo_event)
      (hs_gate \<lparr>hs_gate = demo_held, hs_effects = []\<rparr>) = (Inl EventClaimTimeoutError, g)"
    by (metis prod.collapse handler_state.select_convs(1))
  from busy_lease_requeues [OF _ _ this] show ?thesis by (simp add: account_is_paused_def)
qed

text \<open>
  The execution state a catalog decision without a price change stores cannot be read back:
  its last applied price is a stored null, which the price validator of the model rejects, so the
  next event of the same rule fails while the rule document is loaded.
\<close>

theorem no_action_state_unreadable:
  assumes "handle_catalog_rule G D ev it rule h st = (Inr ''no_action'', st')"
  shows "\<exists>x. UpdateExecution (cr_id rule) (cr_seller_id rule) x \<in> set (hs_effects st') \<and>
    coerce_decimal (stored_applied_price x) = Inl OtherError"
proof (cases "evaluate_catalog_rule rule (it_price it) (ev_buybox_price ev)
    (find_limits D (ev_seller_id ev) (cr_account_id rule)) (find_allies D (ev_seller_id ev))
    (ev_competitor_account_id ev)")
  case (SetPrice q r)
  with assms show ?thesis
    by (auto simp: handle_catalog_rule_def dest: complete_claim_Inr split: sum.splits)
next
  case (NoAction r c)
  let ?x = "\<lparr>xs_last_outcome = execution_outcome r, xs_last_event_at = rw_clock D,
    xs_last_applied_price = None, xs_last_competitor = ev_competitor_account_id ev\<rparr>"
  from NoAction assms have "hs_effects st' = hs_effects st @
      [write_history D ev it (it_price it) r None None (Some rule),
       UpdateExecution (cr_id rule) (cr_seller_id rule) ?x]"
    by (auto simp: handle_catalog_rule_def update_catalog_execution_state_def
        dest: arg_cong [where f = "\<lambda>p. hs_effects (snd p)"])
  then show ?thesis
    by (intro exI [of _ ?x]) (simp add: stored_applied_price_def coerce_decimal_def)
qed

definition demo_item :: item where
  "demo_item = \<lparr>it_id = ''MLA1'', it_price = 15\<rparr>"

theorem no_action_state_unreadable_witness:
  "\<exists>st' x. handle_catalog_rule (LegacyEventGate mem_claim_store ''repricer'' ''q'') demo_world demo_event
      demo_item demo_catalog_rule ''items:1'' demo_state = (Inr ''no_action'', st') \<and>
    UpdateExecution ''r1'' ''1'' x \<in> set (hs_effects st') \<and>
    coerce_decimal (stored_applied_price x) = Inl OtherError"
proof -
  obtain st' where h: "handle_catalog_rule (LegacyEventGate mem_claim_store ''repricer'' ''q'')
      demo_world demo_event demo_item demo_catalog_rule ''items:1'' demo_state = (Inr ''no_action'', st')"
    by (simp add: handle_catalog_rule_def demo_event_def demo_item_def demo_world_def find_limits_def
        find_allies_def engine_defs demo_catalog_rule_def complete_claim_def legacy_complete_def
        mark_processed_def demo_state_def empty_store_def Let_def)
  from no_action_state_unreadable [OF h] h show ?thesis by (auto simp: demo_catalog_rule_def)
qed

end
