(* ===== verification/RateLimit.thy ===== *)
theory RateLimit
  imports MongoCollection PyStrings
begin

text \<open>
  The gateway's fixed-window counter per module and seller,
  \<^verbatim>\<open>gateway/src/zeler_gateway/proxy/rate_limit.py\<close>. One call is one atomic upsert of the
  counter document whose update pipeline resets the count when the window changed; the count
  decides whether the request passes.
\<close>

section \<open>The counter\<close>

record rate_counter =
  rc_module_id :: string
  rc_seller_id :: int
  rc_window_start :: instant
  rc_count :: int
  rc_updated_at :: instant

record limiter =
  lm_collection :: "rate_counter mongo"
  lm_default_limit :: int
  lm_window_s :: int

definition default_limiter :: "rate_counter mongo \<Rightarrow> limiter" where
  "default_limiter M = \<lparr>lm_collection = M, lm_default_limit = 600, lm_window_s = 60\<rparr>"

record limit_request =
  lr_module_id :: string
  lr_seller_id :: int
  lr_now :: instant

text \<open>\<^verbatim>\<open>int(value.timestamp())\<close> truncates towards zero.\<close>

definition unix_seconds :: "instant \<Rightarrow> int" where
  "unix_seconds v = (if v \<ge> 0 then v div 1000000 else - ((- v) div 1000000))"

definition fixed_window_start :: "instant \<Rightarrow> int \<Rightarrow> instant" where
  "fixed_window_start v window_s =
    (let unix_s = unix_seconds v in seconds (unix_s - unix_s mod window_s))"

definition lr_key :: "limit_request \<Rightarrow> string" where
  "lr_key r = lr_module_id r @ '':'' @ int_str (lr_seller_id r)"

definition window_of :: "limiter \<Rightarrow> limit_request \<Rightarrow> instant" where
  "window_of L r = fixed_window_start (lr_now r) (lm_window_s L)"

datatype limit_error = RateLimitExceeded duration | LimiterStoreError

definition bump_counter :: "limit_request \<Rightarrow> instant \<Rightarrow> rate_counter \<Rightarrow> rate_counter" where
  "bump_counter r ws d = d\<lparr>rc_module_id := lr_module_id r, rc_seller_id := lr_seller_id r,
     rc_window_start := (if rc_window_start d = ws then rc_window_start d else ws),
     rc_count := (if rc_window_start d = ws then rc_count d + 1 else 1),
     rc_updated_at := lr_now r\<rparr>"

definition first_counter :: "limit_request \<Rightarrow> instant \<Rightarrow> rate_counter" where
  "first_counter r ws = \<lparr>rc_module_id = lr_module_id r, rc_seller_id = lr_seller_id r,
     rc_window_start = ws, rc_count = 1, rc_updated_at = lr_now r\<rparr>"

definition check_and_increment ::
  "limiter \<Rightarrow> limit_request \<Rightarrow> rate_counter coll \<Rightarrow> (limit_error, unit) result \<times> rate_counter coll" where
  "check_and_increment L r c =
    (let ws = window_of L r in
     case upsert_one (lm_collection L) c (lr_key r) (\<lambda>_. True) (bump_counter r ws) (first_counter r ws) of
       Inl _ \<Rightarrow> (Inl LimiterStoreError, c)
     | Inr (doc, c') \<Rightarrow>
         if rc_count doc > lm_default_limit L
         then (Inl (RateLimitExceeded (max (seconds 1) (ws + seconds (lm_window_s L) - lr_now r))), c')
         else (Inr (), c'))"

text \<open>A sequence of calls against one collection, in the order the server serialises them.\<close>

fun run_limiter ::
  "limiter \<Rightarrow> limit_request list \<Rightarrow> rate_counter coll \<Rightarrow> (limit_request \<times> (limit_error, unit) result) list" where
  "run_limiter L [] c = []"
| "run_limiter L (r # rs) c =
    (case check_and_increment L r c of (res, c') \<Rightarrow> (r, res) # run_limiter L rs c')"

section \<open>Facts\<close>

definition calls_in :: "limiter \<Rightarrow> string \<Rightarrow> instant \<Rightarrow> limit_request list \<Rightarrow> nat" where
  "calls_in L k w rs = length (filter (\<lambda>r. lr_key r = k \<and> window_of L r = w) rs)"

definition passed_in :: "limiter \<Rightarrow> string \<Rightarrow> instant \<Rightarrow> (limit_request \<times> (limit_error, unit) result) list \<Rightarrow> nat" where
  "passed_in L k w ls = length (filter (\<lambda>(r, res). lr_key r = k \<and> window_of L r = w \<and> res = Inr ()) ls)"

text \<open>The calls a collection has already counted for a key in a window.\<close>

definition counted :: "string \<Rightarrow> instant \<Rightarrow> rate_counter coll \<Rightarrow> int" where
  "counted k w c = (case c k of None \<Rightarrow> 0 | Some d \<Rightarrow> if rc_window_start d = w then rc_count d else 0)"

lemma calls_in_simps [simp]:
  "calls_in L k w [] = 0"
  "calls_in L k w (r # rs) = (if lr_key r = k \<and> window_of L r = w then 1 else 0) + calls_in L k w rs"
  by (simp_all add: calls_in_def)

lemma passed_in_simps [simp]:
  "passed_in L k w [] = 0"
  "passed_in L k w ((r, res) # ls) =
    (if lr_key r = k \<and> window_of L r = w \<and> res = Inr () then 1 else 0) + passed_in L k w ls"
  by (simp_all add: passed_in_def)

lemma unix_seconds_mono: "v \<le> v' \<Longrightarrow> unix_seconds v \<le> unix_seconds v'"
proof -
  assume le: "v \<le> v'"
  show ?thesis
  proof (cases "0 \<le> v")
    case True
    with le show ?thesis by (simp add: unix_seconds_def zdiv_mono1)
  next
    case False
    have "0 \<le> (- v) div 1000000" using False by (simp add: pos_imp_zdiv_nonneg_iff)
    moreover have "(- v') div 1000000 \<le> (- v) div 1000000" using le by (simp add: zdiv_mono1)
    moreover have "0 \<le> v' \<Longrightarrow> 0 \<le> v' div 1000000" by (simp add: pos_imp_zdiv_nonneg_iff)
    ultimately show ?thesis using False by (auto simp: unix_seconds_def)
  qed
qed

lemma fixed_window_start_mono:
  assumes "0 < w" and "v \<le> v'"
  shows "fixed_window_start v w \<le> fixed_window_start v' w"
proof -
  have "unix_seconds v div w \<le> unix_seconds v' div w"
    using assms unix_seconds_mono by (simp add: zdiv_mono1)
  then have "unix_seconds v div w * w \<le> unix_seconds v' div w * w"
    using assms(1) by (simp add: mult_right_mono)
  then show ?thesis
    by (simp add: fixed_window_start_def Let_def time_defs minus_mod_eq_div_mult)
qed

text \<open>The window holds the instant: it starts at or before it and ends after it.\<close>

lemma fixed_window_bounds:
  assumes "0 < w" and "0 \<le> v"
  shows "fixed_window_start v w \<le> v \<and> v < fixed_window_start v w + seconds w"
proof -
  define u where "u = v div 1000000"
  define m where "m = u mod w"
  have m: "0 \<le> m" "m \<le> w - 1" using assms(1) by (simp_all add: m_def)
  have u: "u * 1000000 \<le> v" "v < u * 1000000 + 1000000"
    using div_block [of 1000000 v] unfolding u_def by simp_all
  have "fixed_window_start v w = (u - m) * 1000000"
    using assms(2) by (simp add: fixed_window_start_def unix_seconds_def Let_def time_defs u_def m_def)
  with m u show ?thesis by (simp add: time_defs)
qed

locale rate_limiter = mongo_collection "lm_collection L" for L :: limiter +
  assumes window_pos: "0 < lm_window_s L" and limit_nonneg: "0 \<le> lm_default_limit L"
begin

lemma check_eq: "check_and_increment L r c =
  (let d = (case c (lr_key r) of None \<Rightarrow> first_counter r (window_of L r)
            | Some d \<Rightarrow> bump_counter r (window_of L r) d)
   in ((if rc_count d > lm_default_limit L
        then Inl (RateLimitExceeded (max (seconds 1) (window_of L r + seconds (lm_window_s L) - lr_now r)))
        else Inr ()), c(lr_key r \<mapsto> d)))"
  by (auto simp: check_and_increment_def upsert_one_law Let_def split: option.splits)

lemma run_passes:
  assumes "\<And>d. c k = Some d \<Longrightarrow> 0 \<le> rc_count d \<and> (\<forall>r \<in> set rs. rc_window_start d \<le> window_of L r)"
    and "sorted (map (window_of L) rs)"
    and "\<And>d. c k = Some d \<Longrightarrow> w < rc_window_start d \<Longrightarrow> calls_in L k w rs = 0"
  shows "int (passed_in L k w (run_limiter L rs c)) =
    min (int (calls_in L k w rs)) (max 0 (lm_default_limit L - counted k w c))"
  using assms
proof (induction rs arbitrary: c)
  case Nil
  then show ?case by simp
next
  case (Cons r rs)
  define d where "d = (case c (lr_key r) of None \<Rightarrow> first_counter r (window_of L r)
    | Some d \<Rightarrow> bump_counter r (window_of L r) d)"
  define c' where "c' = c(lr_key r \<mapsto> d)"
  have run: "run_limiter L (r # rs) c =
    (r, if rc_count d > lm_default_limit L
        then Inl (RateLimitExceeded (max (seconds 1) (window_of L r + seconds (lm_window_s L) - lr_now r)))
        else Inr ()) # run_limiter L rs c'"
    by (simp add: check_eq Let_def d_def c'_def)
  have dw: "rc_window_start d = window_of L r"
    by (auto simp: d_def first_counter_def bump_counter_def split: option.splits)
  have later: "\<forall>r' \<in> set rs. window_of L r \<le> window_of L r'" using Cons.prems(2) by auto
  have IH: "int (passed_in L k w (run_limiter L rs c')) =
      min (int (calls_in L k w rs)) (max 0 (lm_default_limit L - counted k w c'))"
  proof (rule Cons.IH)
    fix e assume e: "c' k = Some e"
    show "0 \<le> rc_count e \<and> (\<forall>r \<in> set rs. rc_window_start e \<le> window_of L r)"
    proof (cases "lr_key r = k")
      case True
      with e have "e = d" by (simp add: c'_def)
      with True Cons.prems(1) dw later show ?thesis
        by (auto simp: d_def first_counter_def bump_counter_def split: option.splits)
    next
      case False
      with e Cons.prems(1) show ?thesis by (auto simp: c'_def)
    qed
    show "w < rc_window_start e \<Longrightarrow> calls_in L k w rs = 0"
    proof (cases "lr_key r = k")
      case True
      assume "w < rc_window_start e"
      with e True dw later show ?thesis by (auto simp: c'_def calls_in_def filter_empty_conv)
    next
      case False
      assume "w < rc_window_start e"
      with e False Cons.prems(3) show ?thesis by (auto simp: c'_def)
    qed
  qed (use Cons.prems(2) in simp)
  show ?case
  proof (cases "lr_key r = k \<and> window_of L r = w")
    case True
    then have cnt: "rc_count d = counted k w c + 1" "counted k w c' = rc_count d"
      using dw by (auto simp: counted_def d_def c'_def first_counter_def bump_counter_def split: option.splits)
    with True IH run show ?thesis by auto
  next
    case False
    have "counted k w c' = counted k w c \<or> calls_in L k w rs = 0"
    proof (cases "lr_key r = k")
      case False
      then show ?thesis by (simp add: c'_def counted_def)
    next
      case True
      with False have ne: "window_of L r \<noteq> w" by simp
      show ?thesis
      proof (cases "w < window_of L r")
        case True
        with later show ?thesis by (auto simp: calls_in_def filter_empty_conv)
      next
        case False
        with ne have "window_of L r < w" by simp
        moreover have "counted k w c = 0" "counted k w c' = 0"
          using Cons.prems(1) True dw \<open>window_of L r < w\<close>
          by (fastforce simp: counted_def c'_def split: option.splits)+
        ultimately show ?thesis by simp
      qed
    qed
    with False IH run limit_nonneg show ?thesis by auto
  qed
qed

end

definition mem_limiter :: limiter where
  "mem_limiter = default_limiter mem_mongo"

lemma mem_limiter_simps [simp]:
  "lm_collection mem_limiter = mem_mongo" "lm_default_limit mem_limiter = 600" "lm_window_s mem_limiter = 60"
  by (simp_all add: mem_limiter_def default_limiter_def)

interpretation mem_rate: rate_limiter mem_limiter
  by (intro rate_limiter.intro rate_limiter_axioms.intro) (simp_all add: mem.mongo_collection_axioms)

section \<open>Properties\<close>


definition demo_call :: "instant \<Rightarrow> limit_request" where
  "demo_call t = \<lparr>lr_module_id = ''sheets'', lr_seller_id = 7, lr_now = t\<rparr>"


text \<open>
  A refused call says when to come back: the delay is at least one second and never longer
  than the window, and waiting for it reaches the next window or the minimum of one second.
\<close>

theorem retry_after_bounds:
  assumes "0 < lm_window_s L" and "0 \<le> lr_now r"
    and "fst (check_and_increment L r c) = Inl (RateLimitExceeded d)"
  shows "seconds 1 \<le> d \<and> d \<le> seconds (lm_window_s L) \<and>
    window_of L r + seconds (lm_window_s L) \<le> lr_now r + d"
proof -
  have d: "d = max (seconds 1) (window_of L r + seconds (lm_window_s L) - lr_now r)"
    using assms(3) by (auto simp: check_and_increment_def Let_def split: sum.splits if_splits)
  from fixed_window_bounds [OF assms(1,2)] assms(1) show ?thesis
    by (auto simp: d window_of_def time_defs)
qed

theorem retry_after_bounds_witness:
  "seconds 1 \<le> (59::int) * 1000000 \<and>
    fst (check_and_increment (mem_limiter\<lparr>lm_default_limit := 0\<rparr>) (demo_call 1000000) Map.empty) =
      Inl (RateLimitExceeded 59000000)"
proof -
  have e: "fst (check_and_increment (mem_limiter\<lparr>lm_default_limit := 0\<rparr>) (demo_call 1000000) Map.empty) =
      Inl (RateLimitExceeded 59000000)"
    by (simp add: check_and_increment_def demo_call_def window_of_def fixed_window_start_def
        unix_seconds_def time_defs first_counter_def Let_def)
  from retry_after_bounds [OF _ _ e] e show ?thesis by (simp add: demo_call_def time_defs)
qed

end
