(* ===== verification/Retry.thy ===== *)
theory Retry
  imports Complex_Main PyStrings
begin

text \<open>
  The retry loop of the marketplace proxy, \<^verbatim>\<open>gateway/src/zeler_gateway/proxy/retry.py\<close>. The HTTP
  client, the random generator, the clock and the parser of HTTP dates are arguments; the model
  records every request it sends and every sleep, in order. Seconds are rationals, where the code
  has floats.
\<close>

section \<open>Data\<close>

datatype httpx_error = HttpTimeout | HttpConnect | HttpRead | HttpOther string

definition retryable_exception :: "httpx_error \<Rightarrow> bool" where
  "retryable_exception e = (case e of HttpOther _ \<Rightarrow> False | _ \<Rightarrow> True)"

record http_response =
  hr_status :: int
  hr_retry_after :: "string option"

datatype retry_failure = Transport httpx_error | Refused string | NoResponse

record retry_config =
  rt_max_attempts :: int
  rt_base_delay_s :: rat
  rt_backoff_factor :: rat
  rt_jitter :: rat
  rt_retry_after_budget_s :: rat

definition default_retry :: retry_config where
  "default_retry = \<lparr>rt_max_attempts = 3, rt_base_delay_s = 1/2, rt_backoff_factor = 2,
     rt_jitter = 1/4, rt_retry_after_budget_s = 30\<rparr>"

text \<open>
  What happens around attempt \<open>n\<close>: whether the hook before it raises, what the client returns, what
  the generator draws between two bounds and what the clock says. \<open>tp_parse_date\<close> is
  \<^verbatim>\<open>parsedate_to_datetime\<close>, a time without zone read as UTC; \<open>None\<close> is its exception.
\<close>

record transport =
  tp_before :: "nat \<Rightarrow> string option"
  tp_send :: "nat \<Rightarrow> (httpx_error, http_response) result"
  tp_uniform :: "nat \<Rightarrow> rat \<Rightarrow> rat \<Rightarrow> rat"
  tp_now :: "nat \<Rightarrow> rat"
  tp_parse_date :: "string \<Rightarrow> rat option"

text \<open>A trace entry: the request of an attempt, or the sleep after it (with the status answered).\<close>

datatype retry_step = Sent nat | Slept nat "int option" rat

section \<open>Delays\<close>

definition should_retry_response :: "http_response \<Rightarrow> bool" where
  "should_retry_response r \<longleftrightarrow> hr_status r = 429 \<or> (500 \<le> hr_status r \<and> hr_status r \<le> 599)"

definition parse_retry_after :: "transport \<Rightarrow> nat \<Rightarrow> string option \<Rightarrow> rat option" where
  "parse_retry_after T n v = (case v of
     None \<Rightarrow> None
   | Some s \<Rightarrow> (let stripped = strip s in
       if all_digits stripped then Some (of_nat (digits_nat stripped))
       else (case tp_parse_date T stripped of
               None \<Rightarrow> None
             | Some retry_at \<Rightarrow> Some (max 0 (retry_at - tp_now T n)))))"

definition backoff_sleep_s :: "retry_config \<Rightarrow> transport \<Rightarrow> nat \<Rightarrow> rat" where
  "backoff_sleep_s C T n =
    (let delay = rt_base_delay_s C * rt_backoff_factor C ^ (n - 1);
         jitter_amount = delay * rt_jitter C
     in tp_uniform T n (delay - jitter_amount) (delay + jitter_amount))"

definition retry_sleep_s :: "retry_config \<Rightarrow> transport \<Rightarrow> http_response \<Rightarrow> nat \<Rightarrow> rat" where
  "retry_sleep_s C T r n =
    (case (if hr_status r = 429 then parse_retry_after T n (hr_retry_after r) else None) of
       Some q \<Rightarrow> q
     | None \<Rightarrow> backoff_sleep_s C T n)"

section \<open>The loop\<close>

definition raise_last :: "httpx_error option \<Rightarrow> retry_failure" where
  "raise_last e = (case e of Some e \<Rightarrow> Transport e | None \<Rightarrow> NoResponse)"

function send_from ::
  "retry_config \<Rightarrow> transport \<Rightarrow> nat \<Rightarrow> nat \<Rightarrow> rat \<Rightarrow> httpx_error option \<Rightarrow>
   (retry_failure, http_response) result \<times> retry_step list" where
  "send_from C T attempts n waited last_error =
    (if attempts < n then (Inl (raise_last last_error), [])
     else case tp_before T n of
       Some e \<Rightarrow> (Inl (Refused e), [])
     | None \<Rightarrow>
       (case tp_send T n of
          Inl e \<Rightarrow>
            if \<not> retryable_exception e \<or> attempts \<le> n then (Inl (Transport e), [Sent n])
            else let q = backoff_sleep_s C T n in
              (case send_from C T attempts (n + 1) waited (Some e) of
                 (res, tr) \<Rightarrow> (res, Sent n # Slept n None q # tr))
        | Inr r \<Rightarrow>
            if \<not> should_retry_response r \<or> attempts \<le> n then (Inr r, [Sent n])
            else let q = retry_sleep_s C T r n in
              if hr_status r = 429 \<and> waited + q > rt_retry_after_budget_s C then (Inr r, [Sent n])
              else
                (case send_from C T attempts (n + 1) (if hr_status r = 429 then waited + q else waited)
                   last_error of
                   (res, tr) \<Rightarrow> (res, Sent n # Slept n (Some (hr_status r)) q # tr))))"
  by pat_completeness auto
termination
  by (relation "measure (\<lambda>(C, T, attempts, n, _). Suc attempts - n)") auto

declare send_from.simps [simp del]

definition send_with_retry ::
  "retry_config \<Rightarrow> transport \<Rightarrow> (retry_failure, http_response) result \<times> retry_step list" where
  "send_with_retry C T = send_from C T (nat (max 1 (rt_max_attempts C))) 1 0 None"

text \<open>Methods that must not be repeated are sent once.\<close>

definition send_single_attempt :: "transport \<Rightarrow> (retry_failure, http_response) result \<times> retry_step list" where
  "send_single_attempt T = (case tp_send T 1 of
     Inl e \<Rightarrow> (Inl (Transport e), [Sent 1]) | Inr r \<Rightarrow> (Inr r, [Sent 1]))"

section \<open>Facts\<close>

definition sends :: "retry_step list \<Rightarrow> nat list" where
  "sends tr = concat (map (\<lambda>s. case s of Sent n \<Rightarrow> [n] | _ \<Rightarrow> []) tr)"

definition waited_429 :: "retry_step list \<Rightarrow> rat" where
  "waited_429 tr = (\<Sum>s \<leftarrow> tr. case s of Slept n (Some st) q \<Rightarrow> if st = 429 then q else 0 | _ \<Rightarrow> 0)"

lemma trace_simps [simp]:
  "sends [] = []" "sends (Sent n # tr) = n # sends tr" "sends (Slept n ost q # tr) = sends tr"
  "waited_429 [] = 0" "waited_429 (Sent n # tr) = waited_429 tr"
  "waited_429 (Slept n None q # tr) = waited_429 tr"
  "waited_429 (Slept n (Some st) q # tr) = (if st = 429 then q else 0) + waited_429 tr"
  by (simp_all add: sends_def waited_429_def)

text \<open>
  The outcome an attempt settles: the exception of the hook, the exception of the client, or its
  answer.
\<close>

definition outcome_at :: "transport \<Rightarrow> nat \<Rightarrow> (retry_failure, http_response) result" where
  "outcome_at T n = (case tp_before T n of Some e \<Rightarrow> Inl (Refused e)
     | None \<Rightarrow> (case tp_send T n of Inl e \<Rightarrow> Inl (Transport e) | Inr r \<Rightarrow> Inr r))"

lemma send_from_sends:
  assumes "n \<le> attempts" and "send_from C T attempts n waited le = (res, tr)"
  shows "\<exists>m. n \<le> m \<and> m \<le> attempts \<and> res = outcome_at T m \<and>
    (sends tr = [n..<m] \<and> tp_before T m \<noteq> None \<or> sends tr = [n..<Suc m] \<and> tp_before T m = None)"
  using assms
proof (induction C T attempts n waited le arbitrary: res tr rule: send_from.induct)
  case (1 C T attempts n waited le)
  let ?goal = "\<lambda>n res tr. \<exists>m. n \<le> m \<and> m \<le> attempts \<and> res = outcome_at T m \<and>
    (sends tr = [n..<m] \<and> tp_before T m \<noteq> None \<or> sends tr = [n..<Suc m] \<and> tp_before T m = None)"
  have stop: "?goal n (outcome_at T n) [Sent n]" if "tp_before T n = None"
    using 1(3) that by (intro exI [of _ n]) auto
  have go: "?goal n r (Sent n # Slept n s q # t)" if "?goal (n + 1) r t" for r s q t
  proof -
    from that obtain m where m: "n + 1 \<le> m" "m \<le> attempts" "r = outcome_at T m"
      "sends t = [n + 1..<m] \<and> tp_before T m \<noteq> None \<or> sends t = [n + 1..<Suc m] \<and> tp_before T m = None"
      by blast
    then have "n # sends t = [n..<m] \<and> tp_before T m \<noteq> None \<or> n # sends t = [n..<Suc m] \<and> tp_before T m = None"
      by (auto simp: upt_conv_Cons)
    with m show ?thesis by (intro exI [of _ m]) simp
  qed
  show ?case
  proof (cases "tp_before T n")
    case (Some e)
    with 1 show ?thesis by (intro exI [of _ n]) (auto simp: send_from.simps [of C T attempts n] outcome_at_def)
  next
    case None
    show ?thesis
    proof (cases "tp_send T n")
      case (Inl e)
      show ?thesis
      proof (cases "\<not> retryable_exception e \<or> attempts \<le> n")
        case True
        with 1(4) None Inl 1(3) have "res = outcome_at T n" "tr = [Sent n]"
          by (auto simp: send_from.simps [of C T attempts n] outcome_at_def)
        with stop None show ?thesis by simp
      next
        case False
        obtain r t where rt: "send_from C T attempts (n + 1) waited (Some e) = (r, t)" by fastforce
        with 1(4) None Inl 1(3) False have "res = r" "tr = Sent n # Slept n None (backoff_sleep_s C T n) # t"
          by (auto simp: send_from.simps [of C T attempts n] Let_def)
        with 1(1) [OF _ None Inl False refl _ rt] False 1(3) go show ?thesis by auto
      qed
    next
      case (Inr a)
      show ?thesis
      proof (cases "\<not> should_retry_response a \<or> attempts \<le> n \<or>
          hr_status a = 429 \<and> waited + retry_sleep_s C T a n > rt_retry_after_budget_s C")
        case True
        with 1(4) None Inr 1(3) have "res = outcome_at T n" "tr = [Sent n]"
          by (auto simp: send_from.simps [of C T attempts n] outcome_at_def Let_def split: if_splits)
        with stop None show ?thesis by simp
      next
        case False
        obtain r t where rt: "send_from C T attempts (n + 1)
            (if hr_status a = 429 then waited + retry_sleep_s C T a n else waited) le = (r, t)" by fastforce
        with 1(4) None Inr 1(3) False
        have "res = r" "tr = Sent n # Slept n (Some (hr_status a)) (retry_sleep_s C T a n) # t"
          by (auto simp: send_from.simps [of C T attempts n] Let_def)
        with 1(2) [OF _ None Inr _ refl _ _ rt] False 1(3) go show ?thesis by auto
      qed
    qed
  qed
qed

lemma send_from_waits:
  assumes "send_from C T attempts n waited le = (res, tr)" and "waited \<le> rt_retry_after_budget_s C"
  shows "waited + waited_429 tr \<le> rt_retry_after_budget_s C"
  using assms
proof (induction C T attempts n waited le arbitrary: res tr rule: send_from.induct)
  case (1 C T attempts n waited le)
  from 1(3) show ?case
    apply (subst (asm) send_from.simps)
    apply (auto simp: Let_def 1(4) split: if_splits option.splits sum.splits prod.splits)
    using 1 apply (fastforce simp: Let_def add.assoc)+
    done
qed

section \<open>Properties\<close>

text \<open>
  C6. The retry loop always settles on what one of its attempts said. With \<open>N = max(1, max_attempts)\<close>
  it sends attempts \<open>1, 2, ..., m\<close> in order for some \<open>m \<le> N\<close> (one fewer when the hook refuses
  attempt \<open>m\<close>) and its result is the answer or exception of attempt \<open>m\<close>; the
  \<^verbatim>\<open>RuntimeError\<close> after the loop is never raised.
\<close>

theorem retry_settles_on_an_attempt:
  "\<exists>m. 1 \<le> m \<and> int m \<le> max 1 (rt_max_attempts C) \<and>
    fst (send_with_retry C T) = outcome_at T m \<and> fst (send_with_retry C T) \<noteq> Inl NoResponse \<and>
    sends (snd (send_with_retry C T)) = (if tp_before T m = None then [1..<Suc m] else [1..<m])"
proof -
  obtain res tr where rt: "send_with_retry C T = (res, tr)" by fastforce
  then have "send_from C T (nat (max 1 (rt_max_attempts C))) 1 0 None = (res, tr)"
    by (simp add: send_with_retry_def)
  then have "\<exists>m. 1 \<le> m \<and> m \<le> nat (max 1 (rt_max_attempts C)) \<and> res = outcome_at T m \<and>
    (sends tr = [1..<m] \<and> tp_before T m \<noteq> None \<or> sends tr = [1..<Suc m] \<and> tp_before T m = None)"
    by (intro send_from_sends) auto
  then obtain m where
    "1 \<le> m" "m \<le> nat (max 1 (rt_max_attempts C))" "res = outcome_at T m"
    "sends tr = [1..<m] \<and> tp_before T m \<noteq> None \<or> sends tr = [1..<Suc m] \<and> tp_before T m = None"
    by blast
  moreover have "outcome_at T m \<noteq> Inl NoResponse"
    by (simp add: outcome_at_def split: option.splits sum.splits)
  ultimately show ?thesis using rt by (intro exI [of _ m]) auto
qed

text \<open>
  The time slept on answers with status 429 never exceeds the configured budget, whatever the
  upstream puts into \<^verbatim>\<open>Retry-After\<close>.
\<close>

theorem retry_after_budget_respected:
  assumes "0 \<le> rt_retry_after_budget_s C"
  shows "waited_429 (snd (send_with_retry C T)) \<le> rt_retry_after_budget_s C"
proof -
  obtain res tr where rt: "send_with_retry C T = (res, tr)" by fastforce
  with send_from_waits [of C T _ 1 0 None res tr] assms show ?thesis
    by (simp add: send_with_retry_def)
qed

text \<open>An upstream that answers 429 and asks for 20 seconds each time: the second wait does not fit.\<close>

definition demo_transport :: transport where
  "demo_transport = \<lparr>tp_before = (\<lambda>_. None),
     tp_send = (\<lambda>_. Inr \<lparr>hr_status = 429, hr_retry_after = Some ''20''\<rparr>),
     tp_uniform = (\<lambda>_ a b. a), tp_now = (\<lambda>_. 0), tp_parse_date = (\<lambda>_. None)\<rparr>"

theorem retry_after_budget_respected_witness:
  "snd (send_with_retry default_retry demo_transport) = [Sent 1, Slept 1 (Some 429) 20, Sent 2] \<and>
    waited_429 (snd (send_with_retry default_retry demo_transport)) \<le> 30"
proof -
  have "snd (send_with_retry default_retry demo_transport) = [Sent 1, Slept 1 (Some 429) 20, Sent 2]"
    by (simp add: send_with_retry_def send_from.simps default_retry_def demo_transport_def
        should_retry_response_def retry_sleep_s_def parse_retry_after_def strip_def is_space_def
        all_digits_def is_digit_def digits_nat_def digit_val_def Let_def)
  with retry_after_budget_respected [of default_retry demo_transport] show ?thesis
    by (simp add: default_retry_def)
qed

end
