(* ===== verification/Redaction.thy ===== *)
theory Redaction
  imports PyStrings
begin

text \<open>
  The redaction of error texts before they are stored or logged,
  \<^verbatim>\<open>_redact_error\<close> in \<^verbatim>\<open>bootstrap/src/zeler_bootstrap/state_machine.py\<close>. Its five regular
  expressions are sequences of character classes, so a pattern is a list of atoms and a match
  backtracks over the greedy repetitions in the order of Python's \<^verbatim>\<open>re\<close>.
\<close>

section \<open>Matching\<close>

text \<open>
  \<open>Rep lo hi P\<close> matches between \<open>lo\<close> and \<open>hi\<close> characters of \<open>P\<close> (no bound for \<open>None\<close>), as many as
  possible first; \<open>WordBoundary\<close> is \<^verbatim>\<open>\b\<close>.
\<close>

datatype rx_atom = Rep nat "nat option" "char \<Rightarrow> bool" | WordBoundary

definition word_char :: "char \<Rightarrow> bool" where
  "word_char c = (let n = (of_char c :: nat) in
     48 \<le> n \<and> n \<le> 57 \<or> 65 \<le> n \<and> n \<le> 90 \<or> n = 95 \<or> 97 \<le> n \<and> n \<le> 122 \<or>
     n \<in> {170, 178, 179, 181, 185, 186, 188, 189, 190} \<or> 192 \<le> n \<and> n \<noteq> 215 \<and> n \<noteq> 247)"

definition at_boundary :: "char option \<Rightarrow> string \<Rightarrow> bool" where
  "at_boundary prev rest =
    ((case prev of None \<Rightarrow> False | Some c \<Rightarrow> word_char c) \<noteq>
     (case rest of [] \<Rightarrow> False | c # _ \<Rightarrow> word_char c))"

definition char_before :: "char option \<Rightarrow> string \<Rightarrow> nat \<Rightarrow> char option" where
  "char_before prev s n = (if n = 0 then prev else Some (s ! (n - 1)))"

text \<open>The lengths the atoms of a pattern match at a position, or \<open>None\<close>.\<close>

fun rx_match :: "rx_atom list \<Rightarrow> char option \<Rightarrow> string \<Rightarrow> nat list option" where
  "rx_match [] prev s = Some []"
| "rx_match (WordBoundary # ps) prev s =
    (if at_boundary prev s then map_option ((#) 0) (rx_match ps prev s) else None)"
| "rx_match (Rep lo hi P # ps) prev s =
    (let run = length (takeWhile P s);
         most = (case hi of None \<Rightarrow> run | Some h \<Rightarrow> min h run);
         tries = rev [lo..<Suc most]
     in fold (\<lambda>n found. case found of Some _ \<Rightarrow> found
          | None \<Rightarrow> map_option ((#) n) (rx_match ps (char_before prev s n) (drop n s))) tries None)"

text \<open>
  \<^verbatim>\<open>pattern.sub\<close>: replace every match, scanning on after it. All patterns here match at least one
  character. The replacement sees the matched text and the lengths of its parts.
\<close>

function rx_sub ::
  "rx_atom list \<Rightarrow> (string \<Rightarrow> nat list \<Rightarrow> string) \<Rightarrow> char option \<Rightarrow> string \<Rightarrow> string" where
  "rx_sub ps repl prev [] = []"
| "rx_sub ps repl prev (c # cs) =
    (case rx_match ps prev (c # cs) of
       None \<Rightarrow> c # rx_sub ps repl (Some c) cs
     | Some ls \<Rightarrow> (let n = max 1 (sum_list ls) in
         repl (take n (c # cs)) ls @
         rx_sub ps repl (char_before prev (c # cs) n) (drop n (c # cs))))"
  by pat_completeness auto
termination
  by (relation "measure (\<lambda>(_, _, _, s). length s)") auto

section \<open>The patterns\<close>

definition chars :: "string \<Rightarrow> char \<Rightarrow> bool" where
  "chars s c \<longleftrightarrow> c \<in> set s"

definition lower_char :: "char \<Rightarrow> bool" where
  "lower_char c \<longleftrightarrow> 97 \<le> (of_char c :: nat) \<and> (of_char c :: nat) \<le> 122"

definition upper_char :: "char \<Rightarrow> bool" where
  "upper_char c \<longleftrightarrow> 65 \<le> (of_char c :: nat) \<and> (of_char c :: nat) \<le> 90"

definition alnum_char :: "char \<Rightarrow> bool" where
  "alnum_char c \<longleftrightarrow> lower_char c \<or> upper_char c \<or> is_digit c"

definition fold_case :: "char \<Rightarrow> char" where
  "fold_case c = (if upper_char c then char_of ((of_char c :: nat) + 32) else c)"

definition lit :: "string \<Rightarrow> rx_atom list" where
  "lit s = map (\<lambda>c. Rep 1 (Some 1) (\<lambda>d. d = c)) s"

definition lit_nocase :: "string \<Rightarrow> rx_atom list" where
  "lit_nocase s = map (\<lambda>c. Rep 1 (Some 1) (\<lambda>d. fold_case d = fold_case c)) s"

definition some_of :: "(char \<Rightarrow> bool) \<Rightarrow> rx_atom" where
  "some_of P = Rep 1 None P"

definition bearer_pattern :: "rx_atom list" where
  "bearer_pattern = lit_nocase ''bearer'' @ [some_of is_space, some_of (\<lambda>c. alnum_char c \<or> chars ''._-'' c)]"

definition scheme_part :: "rx_atom list" where
  "scheme_part = [Rep 1 (Some 1) lower_char,
     Rep 0 None (\<lambda>c. lower_char c \<or> is_digit c \<or> chars ''+.-'' c)] @ lit ''://''"

definition userinfo_pattern :: "rx_atom list" where
  "userinfo_pattern = scheme_part @ [some_of (\<lambda>c. \<not> (chars ''/:@'' c \<or> is_space c))] @ lit '':'' @
     [some_of (\<lambda>c. \<not> (chars ''/@'' c \<or> is_space c))] @ lit ''@''"

definition token_char :: "char \<Rightarrow> bool" where
  "token_char c \<longleftrightarrow> alnum_char c \<or> chars ''_-'' c"

definition jwt_pattern :: "rx_atom list" where
  "jwt_pattern = [WordBoundary] @ lit ''eyJ'' @ [some_of token_char] @ lit ''.'' @ [some_of token_char] @
     lit ''.'' @ [some_of token_char, WordBoundary]"

definition secret_pattern :: "rx_atom list" where
  "secret_pattern = [WordBoundary, Rep 40 None (\<lambda>c. alnum_char c \<or> chars ''+/_-'' c),
     Rep 0 (Some 2) (\<lambda>c. c = CHR ''=''), WordBoundary]"

definition gateway_token_pattern :: "rx_atom list" where
  "gateway_token_pattern = lit_nocase ''BOOTSTRAP_GATEWAY_TOKEN='' @ [some_of (\<lambda>c. \<not> is_space c)]"

definition redaction_patterns :: "(rx_atom list \<times> (string \<Rightarrow> nat list \<Rightarrow> string)) list" where
  "redaction_patterns = [
     (bearer_pattern, \<lambda>_ _. ''Bearer ***''),
     (userinfo_pattern, \<lambda>m ls. take (sum_list (take (length scheme_part) ls)) m @ ''***@''),
     (jwt_pattern, \<lambda>_ _. ''***''),
     (secret_pattern, \<lambda>_ _. ''***''),
     (gateway_token_pattern, \<lambda>_ _. ''BOOTSTRAP_GATEWAY_TOKEN=***'')]"

definition redact_error :: "string \<Rightarrow> string" where
  "redact_error text = take 1024 (fold (\<lambda>(p, r) s. rx_sub p r None s) redaction_patterns text)"

section \<open>Facts\<close>

lemma redact_error_length: "length (redact_error text) \<le> 1024"
  by (simp add: redact_error_def)

end
