(* ===== verification/BootstrapJobs.thy ===== *)
theory BootstrapJobs
  imports MongoCollection Redaction
begin

text \<open>
  The bootstrap job document and its state machine
  (\<^verbatim>\<open>bootstrap/src/zeler_bootstrap/state_machine.py\<close>) and the runner that drives a job through its
  stages (\<^verbatim>\<open>runner.py\<close>). The collection is the driver's own, whose \<^verbatim>\<open>find_one_and_update\<close> returns
  the document as it was before the update. Stages and the publisher are arguments, as in the code.
\<close>

section \<open>Data\<close>

record 'c job_doc =
  jb_seller_id :: string
  jb_state :: string
  jb_attempt_count :: "int option"
  jb_dispatch_attempts :: "int option"
  jb_started_at :: "instant option"
  jb_finished_at :: "instant option"
  jb_failed_at :: "instant option"
  jb_updated_at :: instant
  jb_last_error :: "string option"
  jb_current_stage :: "string option"
  jb_checkpoints :: "string \<rightharpoonup> 'c"
  jb_dag :: "string \<rightharpoonup> string"

datatype job_error =
    JobNotFound
  | UnknownState
  | InvalidTransitionError
  | IllegalTransition
  | BootstrapTerminalFailure
  | StageFailed string
  | BootstrapPublishError string
  | PublisherError string

definition count_of :: "int option \<Rightarrow> int" where
  "count_of n = (case n of None \<Rightarrow> 0 | Some i \<Rightarrow> i)"

definition inc :: "int option \<Rightarrow> int option" where
  "inc n = Some (count_of n + 1)"

section \<open>State machine\<close>

definition allowed_transitions :: "(string \<times> string list) list" where
  "allowed_transitions = [
     (''pending'', [''running'', ''cancelled'']),
     (''running'', [''paused'', ''succeeded'', ''failed'', ''cancelled'']),
     (''paused'', [''running'', ''cancelled'']),
     (''failed'', [''pending'', ''cancelled'']),
     (''succeeded'', []),
     (''cancelled'', [])]"

definition may_move :: "string \<Rightarrow> string \<Rightarrow> bool" where
  "may_move s t = (case map_of allowed_transitions s of None \<Rightarrow> False | Some ts \<Rightarrow> t \<in> set ts)"

definition load_job :: "'c job_doc mongo \<Rightarrow> string \<Rightarrow> 'c job_doc coll \<Rightarrow> (job_error, 'c job_doc) result" where
  "load_job M job_id c = (case find_one M c job_id (\<lambda>_. True) of None \<Rightarrow> Inl JobNotFound | Some d \<Rightarrow> Inr d)"

definition transition_update :: "'c job_doc \<Rightarrow> string \<Rightarrow> string option \<Rightarrow> instant \<Rightarrow> 'c job_doc \<Rightarrow> 'c job_doc" where
  "transition_update current new_state error now d = d\<lparr>
     jb_state := new_state, jb_updated_at := now,
     jb_started_at := (if new_state = ''running'' \<and> jb_started_at current = None then Some now else jb_started_at d),
     jb_finished_at := (if new_state \<in> {''succeeded'', ''failed'', ''cancelled''} then Some now else jb_finished_at d),
     jb_failed_at := (if new_state = ''failed'' then Some now else jb_failed_at d),
     jb_last_error := (case error of Some e \<Rightarrow> if new_state = ''failed'' then Some (redact_error e) else jb_last_error d
                       | None \<Rightarrow> jb_last_error d),
     jb_attempt_count := (if new_state = ''running'' then inc (jb_attempt_count d) else jb_attempt_count d)\<rparr>"

text \<open>\<open>env\<close> is what other processes do to the collection between the read and the write.\<close>

definition transition ::
  "'c job_doc mongo \<Rightarrow> ('c job_doc coll \<Rightarrow> 'c job_doc coll) \<Rightarrow> string \<Rightarrow> string \<Rightarrow> string option \<Rightarrow> instant \<Rightarrow>
   'c job_doc coll \<Rightarrow> (job_error, 'c job_doc) result \<times> 'c job_doc coll" where
  "transition M env job_id new_state error now c =
    (case load_job M job_id c of
       Inl e \<Rightarrow> (Inl e, c)
     | Inr current \<Rightarrow>
        (case map_of allowed_transitions (jb_state current) of
           None \<Rightarrow> (Inl UnknownState, c)
         | Some ts \<Rightarrow>
            if new_state \<notin> set ts then (Inl InvalidTransitionError, c)
            else (case find_one_and_update_before M (env c) job_id (\<lambda>d. jb_state d = jb_state current)
                    (transition_update current new_state error now) of
                    (None, c') \<Rightarrow> (Inl InvalidTransitionError, c')
                  | (Some d, c') \<Rightarrow> (Inr d, c'))))"

definition requeue_for_retry ::
  "'c job_doc mongo \<Rightarrow> string \<Rightarrow> int \<Rightarrow> instant \<Rightarrow> 'c job_doc coll \<Rightarrow>
   (job_error, 'c job_doc) result \<times> 'c job_doc coll" where
  "requeue_for_retry M job_id max_att now c =
    (case find_one_and_update_before M c job_id
       (\<lambda>d. jb_state d \<in> {''failed'', ''pending''} \<and> count_of (jb_attempt_count d) < max_att)
       (\<lambda>d. d\<lparr>jb_state := ''pending'', jb_updated_at := now\<rparr>) of
       (None, c') \<Rightarrow> (Inl IllegalTransition, c')
     | (Some d, c') \<Rightarrow> (Inr d, c'))"

definition update_cursor ::
  "'c job_doc mongo \<Rightarrow> string \<Rightarrow> string \<Rightarrow> 'c \<Rightarrow> instant \<Rightarrow> 'c job_doc coll \<Rightarrow>
   (job_error, 'c job_doc) result \<times> 'c job_doc coll" where
  "update_cursor M job_id stage cursor now c =
    (case find_one_and_update_before M c job_id (\<lambda>d. jb_state d \<in> {''running'', ''paused'', ''failed''})
       (\<lambda>d. d\<lparr>jb_current_stage := Some stage, jb_checkpoints := (jb_checkpoints d)(stage \<mapsto> cursor),
              jb_updated_at := now\<rparr>) of
       (None, c') \<Rightarrow> (Inl InvalidTransitionError, c')
     | (Some d, c') \<Rightarrow> (Inr d, c'))"

definition mark_stage_done ::
  "'c job_doc mongo \<Rightarrow> string \<Rightarrow> string \<Rightarrow> instant \<Rightarrow> 'c job_doc coll \<Rightarrow>
   (job_error, 'c job_doc) result \<times> 'c job_doc coll" where
  "mark_stage_done M job_id stage now c =
    (case find_one_and_update_before M c job_id (\<lambda>d. jb_state d = ''running'')
       (\<lambda>d. d\<lparr>jb_dag := (jb_dag d)(stage \<mapsto> ''done''), jb_current_stage := Some stage,
              jb_updated_at := now\<rparr>) of
       (None, c') \<Rightarrow> (Inl InvalidTransitionError, c')
     | (Some d, c') \<Rightarrow> (Inr d, c'))"

section \<open>Runner\<close>

datatype run_event = StageStarted string | StageCompleted string | PublishAttempted bool

type_synonym run_log = "run_event list"

text \<open>
  A stage reads the job and works on the job collection through the state machine; what it does may
  depend on everything that happened before. \<open>Some e\<close> is the text of the exception it raises.
\<close>

record 'c bootstrap_stage =
  sg_name :: string
  sg_run :: "run_log \<Rightarrow> 'c job_doc \<Rightarrow> 'c job_doc coll \<Rightarrow> string option \<times> 'c job_doc coll"

record 'c dag_runner =
  dr_jobs :: "'c job_doc mongo"
  dr_job_id :: string
  dr_stages :: "'c bootstrap_stage list"
  dr_publish :: "run_log \<Rightarrow> 'c job_doc \<Rightarrow> (job_error, unit) result"
  dr_max_attempts :: int
  dr_now :: "run_log \<Rightarrow> instant"

type_synonym 'c run_state = "'c job_doc coll \<times> run_log"

definition default_stage_order :: "string list" where
  "default_stage_order = [''accounts'', ''items'', ''orders'', ''questions'', ''messages'', ''shipments'', ''claims'']"

text \<open>The runner calls the state machine; nobody else writes the job while it does.\<close>

definition move :: "'c dag_runner \<Rightarrow> string \<Rightarrow> string option \<Rightarrow> 'c run_state \<Rightarrow> (job_error, 'c job_doc) result \<times> 'c run_state" where
  "move R new_state error s =
    (case transition (dr_jobs R) id (dr_job_id R) new_state error (dr_now R (snd s)) (fst s) of
       (r, c) \<Rightarrow> (r, (c, snd s)))"

definition requeue :: "'c dag_runner \<Rightarrow> 'c run_state \<Rightarrow> (job_error, 'c job_doc) result \<times> 'c run_state" where
  "requeue R s =
    (case requeue_for_retry (dr_jobs R) (dr_job_id R) (dr_max_attempts R) (dr_now R (snd s)) (fst s) of
       (r, c) \<Rightarrow> (r, (c, snd s)))"

definition enter_running_state_if_needed ::
  "'c dag_runner \<Rightarrow> 'c run_state \<Rightarrow> (job_error, 'c job_doc) result \<times> 'c run_state" where
  "enter_running_state_if_needed R s =
    (case load_job (dr_jobs R) (dr_job_id R) (fst s) of
       Inl e \<Rightarrow> (Inl e, s)
     | Inr job \<Rightarrow>
        (case (if jb_state job = ''failed''
               then (if count_of (jb_attempt_count job) \<ge> dr_max_attempts R
                     then (Inl BootstrapTerminalFailure, s)
                     else requeue R s)
               else (Inr job, s)) of
           (Inl e, s') \<Rightarrow> (Inl e, s')
         | (Inr job', s') \<Rightarrow>
            if jb_state job' \<in> {''pending'', ''paused''} then move R ''running'' None s' else (Inr job', s')))"

definition record_failure :: "'c dag_runner \<Rightarrow> string \<Rightarrow> 'c run_state \<Rightarrow> (job_error, unit) result \<times> 'c run_state" where
  "record_failure R exc s =
    (case move R ''failed'' (Some exc) s of (Inl e, s') \<Rightarrow> (Inl e, s') | (Inr _, s') \<Rightarrow> (Inr (), s'))"

fun run_stages :: "'c dag_runner \<Rightarrow> 'c bootstrap_stage list \<Rightarrow> 'c run_state \<Rightarrow> (job_error, unit) result \<times> 'c run_state" where
  "run_stages R [] s = (Inr (), s)"
| "run_stages R (st # sts) s =
    (case load_job (dr_jobs R) (dr_job_id R) (fst s) of
       Inl e \<Rightarrow> (Inl e, s)
     | Inr job \<Rightarrow>
        if jb_dag job (sg_name st) = Some ''done'' then run_stages R sts s
        else
          let log = snd s @ [StageStarted (sg_name st)] in
          (case sg_run st (snd s) job (fst s) of
             (Some exc, c) \<Rightarrow>
               (case record_failure R exc (c, log) of
                  (Inl e, s') \<Rightarrow> (Inl e, s')
                | (Inr _, s') \<Rightarrow> (Inl (StageFailed exc), s'))
           | (None, c) \<Rightarrow>
               (case mark_stage_done (dr_jobs R) (dr_job_id R) (sg_name st) (dr_now R log) c of
                  (Inl e, c') \<Rightarrow> (Inl e, (c', log))
                | (Inr _, c') \<Rightarrow> run_stages R sts (c', log @ [StageCompleted (sg_name st)]))))"

text \<open>The body of the \<^verbatim>\<open>try\<close>: the stages, the completion event, the final transition.\<close>

definition run_body :: "'c dag_runner \<Rightarrow> 'c run_state \<Rightarrow> (job_error, 'c job_doc) result \<times> 'c run_state" where
  "run_body R s =
    (case run_stages R (dr_stages R) s of
       (Inl e, s1) \<Rightarrow> (Inl e, s1)
     | (Inr _, s1) \<Rightarrow>
        (case load_job (dr_jobs R) (dr_job_id R) (fst s1) of
           Inl e \<Rightarrow> (Inl e, s1)
         | Inr final_job \<Rightarrow>
            (case dr_publish R (snd s1) final_job of
               Inl (BootstrapPublishError exc) \<Rightarrow>
                 (case record_failure R exc (fst s1, snd s1 @ [PublishAttempted False]) of
                    (Inl e, s2) \<Rightarrow> (Inl e, s2)
                  | (Inr _, s2) \<Rightarrow> (Inl (BootstrapPublishError exc), s2))
             | Inl e \<Rightarrow> (Inl e, (fst s1, snd s1 @ [PublishAttempted False]))
             | Inr _ \<Rightarrow> move R ''succeeded'' None (fst s1, snd s1 @ [PublishAttempted True]))))"

definition is_publish_error :: "job_error \<Rightarrow> bool" where
  "is_publish_error e = (case e of BootstrapPublishError _ \<Rightarrow> True | _ \<Rightarrow> False)"

text \<open>\<^verbatim>\<open>while True\<close>, by the number of passes allowed; \<open>None\<close> when they do not suffice.\<close>

fun run_job :: "'c dag_runner \<Rightarrow> nat \<Rightarrow> 'c run_state \<Rightarrow> ((job_error, 'c job_doc) result \<times> 'c run_state) option" where
  "run_job R 0 s = None"
| "run_job R (Suc passes) s =
    (case enter_running_state_if_needed R s of
       (Inl e, s1) \<Rightarrow> Some (Inl e, s1)
     | (Inr job, s1) \<Rightarrow>
        (case run_body R s1 of
           (Inr completed, s2) \<Rightarrow> Some (Inr completed, s2)
         | (Inl exc, s2) \<Rightarrow>
            (case load_job (dr_jobs R) (dr_job_id R) (fst s2) of
               Inl e \<Rightarrow> Some (Inl e, s2)
             | Inr current \<Rightarrow>
                if \<not> is_publish_error exc \<and> jb_state current = ''failed'' \<and>
                   count_of (jb_attempt_count current) < dr_max_attempts R
                then (case requeue R s2 of
                        (Inl e, s3) \<Rightarrow> Some (Inl e, s3)
                      | (Inr _, s3) \<Rightarrow> run_job R passes s3)
                else Some (Inl exc, s2))))"

section \<open>The accounts stage\<close>

text \<open>
  \<^verbatim>\<open>AccountsStage.run\<close> of \<^verbatim>\<open>stages.py\<close>: read the seller's metadata through the gateway, write it on
  the linked account (\<open>update\<close> gives the number of accounts the filter matched), checkpoint.
\<close>

definition accounts_stage ::
  "'c job_doc mongo \<Rightarrow> string \<Rightarrow> (string \<Rightarrow> (string, 'm) result) \<Rightarrow> (string \<Rightarrow> 'm \<Rightarrow> nat) \<Rightarrow>
   (string \<Rightarrow> 'c) \<Rightarrow> instant \<Rightarrow> 'c bootstrap_stage" where
  "accounts_stage M job_id fetch_user update cursor now = \<lparr>
     sg_name = ''accounts'',
     sg_run = (\<lambda>log job c.
       case fetch_user (''/users/'' @ jb_seller_id job) of
         Inl e \<Rightarrow> (Some e, c)
       | Inr metadata \<Rightarrow>
           if update (jb_seller_id job) metadata \<noteq> 1
           then (Some ''RuntimeError: linked seller account missing'', c)
           else (case update_cursor M job_id ''accounts'' (cursor (jb_seller_id job)) now c of
                   (Inl _, c') \<Rightarrow> (Some ''InvalidTransitionError'', c')
                 | (Inr _, c') \<Rightarrow> (None, c')))\<rparr>"

section \<open>Facts on the state machine\<close>

lemma may_move_simps [simp]:
  "may_move ''pending'' t \<longleftrightarrow> t \<in> {''running'', ''cancelled''}"
  "may_move ''running'' t \<longleftrightarrow> t \<in> {''paused'', ''succeeded'', ''failed'', ''cancelled''}"
  "may_move ''paused'' t \<longleftrightarrow> t \<in> {''running'', ''cancelled''}"
  "may_move ''failed'' t \<longleftrightarrow> t \<in> {''pending'', ''cancelled''}"
  "\<not> may_move ''succeeded'' t" "\<not> may_move ''cancelled'' t"
  by (auto simp: may_move_def allowed_transitions_def)

lemma may_move_cases: "may_move s t \<Longrightarrow> s \<in> {''pending'', ''running'', ''paused'', ''failed''}"
  by (auto simp: may_move_def allowed_transitions_def split: option.splits if_splits)

lemma may_move_to_failed [simp]: "may_move s ''failed'' \<longleftrightarrow> s = ''running''"
  using may_move_cases [of s "''failed''"] by auto

lemma may_move_to_succeeded [simp]: "may_move s ''succeeded'' \<longleftrightarrow> s = ''running''"
  using may_move_cases [of s "''succeeded''"] by auto

locale job_store = mongo_collection M for M :: "'c job_doc mongo"
begin

lemma load_job_eq: "load_job M k c = (case c k of None \<Rightarrow> Inl JobNotFound | Some d \<Rightarrow> Inr d)"
  by (simp add: load_job_def find_one_law matches_def split: option.splits)

end

interpretation mem_jobs: job_store mem_mongo
  by (intro job_store.intro mem.mongo_collection_axioms)

lemmas job_ops = requeue_for_retry_def update_cursor_def mark_stage_done_def

text \<open>
  Any number of processes work on the jobs at once. A transition reads the job in one state of the
  collection and writes in a later one, reached by steps of the others.
\<close>

inductive job_steps :: "'c job_doc mongo \<Rightarrow> 'c job_doc coll \<Rightarrow> 'c job_doc coll \<Rightarrow> bool" for M where
  steps_refl: "job_steps M c c"
| steps_transition: "\<lbrakk>job_steps M c c1; job_steps M c1 c2\<rbrakk> \<Longrightarrow>
    job_steps M c (snd (transition M (\<lambda>_. c2) k new_state error now c1))"
| steps_requeue: "job_steps M c c1 \<Longrightarrow> job_steps M c (snd (requeue_for_retry M k n now c1))"
| steps_cursor: "job_steps M c c1 \<Longrightarrow> job_steps M c (snd (update_cursor M k stage cursor now c1))"
| steps_done: "job_steps M c c1 \<Longrightarrow> job_steps M c (snd (mark_stage_done M k stage now c1))"

definition job_progress :: "'c job_doc coll \<Rightarrow> 'c job_doc coll \<Rightarrow> bool" where
  "job_progress c c' \<longleftrightarrow> (\<forall>k d. c k = Some d \<longrightarrow>
     (\<exists>d'. c' k = Some d' \<and> may_move\<^sup>*\<^sup>* (jb_state d) (jb_state d') \<and>
           count_of (jb_attempt_count d) \<le> count_of (jb_attempt_count d')))"

lemma job_progress_refl: "job_progress c c"
  by (simp add: job_progress_def)

lemma job_progress_trans: "job_progress a b \<Longrightarrow> job_progress b c \<Longrightarrow> job_progress a c"
  unfolding job_progress_def by (meson order_trans rtranclp_trans)

lemma job_progress_upd:
  assumes "c k = Some d" and "jb_state d' = jb_state d \<or> may_move (jb_state d) (jb_state d')"
    and "count_of (jb_attempt_count d) \<le> count_of (jb_attempt_count d')"
  shows "job_progress c (c(k \<mapsto> d'))"
  using assms by (auto simp: job_progress_def)

context job_store
begin

lemma transition_progress:
  assumes "job_progress c1 c2"
  shows "job_progress c1 (snd (transition M (\<lambda>_. c2) k new_state error now c1))"
proof (cases "c1 k")
  case None
  then show ?thesis by (simp add: transition_def load_job_eq job_progress_refl)
next
  case (Some d)
  show ?thesis
  proof (cases "may_move (jb_state d) new_state")
    case False
    with Some show ?thesis
      by (auto simp: transition_def load_job_eq may_move_def job_progress_refl split: option.splits)
  next
    case True
    then obtain ts where ts: "map_of allowed_transitions (jb_state d) = Some ts" "new_state \<in> set ts"
      by (auto simp: may_move_def split: option.splits)
    show ?thesis
    proof (cases "matches c2 k (\<lambda>e. jb_state e = jb_state d)")
      case False
      with Some ts assms show ?thesis
        by (simp add: transition_def load_job_eq find_one_and_update_before_law)
    next
      case M: True
      then obtain e where e: "c2 k = Some e" "jb_state e = jb_state d" by (elim matchesE)
      have "job_progress c2 (c2(k \<mapsto> transition_update d new_state error now e))"
        using True e by (intro job_progress_upd [of _ _ e]) (auto simp: transition_update_def inc_def count_of_def)
      with Some ts M e assms show ?thesis
        by (auto simp: transition_def load_job_eq find_one_and_update_before_law intro: job_progress_trans)
    qed
  qed
qed

lemma update_progress:
  assumes "\<And>d. c k = Some d \<Longrightarrow> P d \<Longrightarrow> (jb_state (u d) = jb_state d \<or> may_move (jb_state d) (jb_state (u d))) \<and>
    count_of (jb_attempt_count d) \<le> count_of (jb_attempt_count (u d))"
  shows "job_progress c (snd (find_one_and_update_before M c k P u))"
proof (cases "matches c k P")
  case True
  then obtain d where "c k = Some d" "P d" by (elim matchesE)
  with assms True show ?thesis by (auto simp: find_one_and_update_before_law intro: job_progress_upd)
qed (simp add: find_one_and_update_before_law job_progress_refl)

lemma job_ops_snd:
  "snd (case fu of (None, c') \<Rightarrow> (Inl e, c') | (Some d, c') \<Rightarrow> (Inr d, c')) = snd fu"
  by (cases fu; cases "fst fu") auto

lemma job_steps_progress: "job_steps M c c' \<Longrightarrow> job_progress c c'"
proof (induction rule: job_steps.induct)
  case (steps_refl c)
  show ?case by (rule job_progress_refl)
next
  case (steps_transition c c1 c2)
  then show ?case by (blast intro: job_progress_trans transition_progress)
next
  case (steps_requeue c c1 k n now)
  have "job_progress c1 (snd (requeue_for_retry M k n now c1))"
    unfolding job_ops job_ops_snd by (rule update_progress) auto
  with steps_requeue show ?case by (blast intro: job_progress_trans)
next
  case (steps_cursor c c1 k stage cursor now)
  have "job_progress c1 (snd (update_cursor M k stage cursor now c1))"
    unfolding job_ops job_ops_snd by (rule update_progress) auto
  with steps_cursor show ?case by (blast intro: job_progress_trans)
next
  case (steps_done c c1 k stage now)
  have "job_progress c1 (snd (mark_stage_done M k stage now c1))"
    unfolding job_ops job_ops_snd by (rule update_progress) auto
  with steps_done show ?case by (blast intro: job_progress_trans)
qed

end

lemma terminal_no_move: "may_move\<^sup>*\<^sup>* s t \<Longrightarrow> s \<in> {''succeeded'', ''cancelled''} \<Longrightarrow> t = s"
  by (induction rule: rtranclp_induct) auto

section \<open>Facts on the runner\<close>

text \<open>
  What a stage promises the runner: it leaves the state, the attempt count and the finished stages
  of the job alone (its only handle on the job is \<open>update_cursor\<close>).
\<close>

definition stage_keeps_job :: "string \<Rightarrow> 'c bootstrap_stage \<Rightarrow> bool" where
  "stage_keeps_job k st \<longleftrightarrow> (\<forall>log job c d. c k = Some d \<longrightarrow>
     (\<exists>d'. snd (sg_run st log job c) k = Some d' \<and> jb_state d' = jb_state d \<and>
           jb_attempt_count d' = jb_attempt_count d \<and> jb_dag d' = jb_dag d))"

text \<open>No stage starts again after it completed.\<close>

fun no_restart :: "run_log \<Rightarrow> bool" where
  "no_restart [] = True"
| "no_restart (e # es) = ((case e of StageCompleted n \<Rightarrow> StageStarted n \<notin> set es | _ \<Rightarrow> True) \<and> no_restart es)"

lemma no_restart_snoc:
  "no_restart (es @ [e]) \<longleftrightarrow> no_restart es \<and> (\<forall>n. e = StageStarted n \<longrightarrow> StageCompleted n \<notin> set es)"
  by (induction es) (auto split: run_event.splits)

definition log_matches :: "run_log \<Rightarrow> 'c job_doc \<Rightarrow> bool" where
  "log_matches log d \<longleftrightarrow> no_restart log \<and> (\<forall>n. StageCompleted n \<in> set log \<longrightarrow> jb_dag d n = Some ''done'')"

lemma log_matches_keep: "log_matches log d \<Longrightarrow> jb_dag d' = jb_dag d \<Longrightarrow> log_matches log d'"
  by (simp add: log_matches_def)

lemma log_matches_publish: "log_matches log d \<Longrightarrow> log_matches (log @ [PublishAttempted b]) d"
  by (auto simp: log_matches_def no_restart_snoc)

lemma transition_update_sel [simp]:
  "jb_state (transition_update cur t err now d) = t"
  "jb_dag (transition_update cur t err now d) = jb_dag d"
  "jb_attempt_count (transition_update cur t err now d) =
    (if t = ''running'' then inc (jb_attempt_count d) else jb_attempt_count d)"
  by (simp_all add: transition_update_def)

lemma count_of_inc [simp]: "count_of (inc n) = count_of n + 1"
  by (simp add: inc_def count_of_def)

locale job_runner = job_store "dr_jobs R" for R :: "'c dag_runner" +
  assumes stages_keep: "st \<in> set (dr_stages R) \<Longrightarrow> stage_keeps_job (dr_job_id R) st"
begin

lemma move_eq:
  assumes "c (dr_job_id R) = Some d"
  shows "move R t err (c, log) =
    (if may_move (jb_state d) t
     then (Inr d, (c(dr_job_id R \<mapsto> transition_update d t err (dr_now R log) d), log))
     else (Inl (if map_of allowed_transitions (jb_state d) = None then UnknownState else InvalidTransitionError),
           (c, log)))"
  using assms
  by (auto simp: move_def transition_def load_job_eq may_move_def find_one_and_update_before_law split: option.splits)

lemma requeue_eq:
  assumes "c (dr_job_id R) = Some d"
  shows "requeue R (c, log) =
    (if jb_state d \<in> {''failed'', ''pending''} \<and> count_of (jb_attempt_count d) < dr_max_attempts R
     then (Inr d, (c(dr_job_id R \<mapsto> d\<lparr>jb_state := ''pending'', jb_updated_at := dr_now R log\<rparr>), log))
     else (Inl IllegalTransition, (c, log)))"
  using assms by (auto simp: requeue_def requeue_for_retry_def find_one_and_update_before_law)

lemma record_failure_eq:
  assumes "c (dr_job_id R) = Some d"
  shows "record_failure R exc (c, log) =
    (if jb_state d = ''running''
     then (Inr (), (c(dr_job_id R \<mapsto> transition_update d ''failed'' (Some exc) (dr_now R log) d), log))
     else (Inl (if map_of allowed_transitions (jb_state d) = None then UnknownState else InvalidTransitionError),
           (c, log)))"
  using assms by (simp add: record_failure_def move_eq)

text \<open>
  A pass over the stages: the attempt count stays, finished stages stay finished, the job moves only
  from running to failed, and only when a stage raises.
\<close>

lemma run_stages_spec:
  assumes "set sts \<subseteq> set (dr_stages R)" and "c (dr_job_id R) = Some d" and "log_matches log d"
    and "run_stages R sts (c, log) = (r, (c', log'))"
  shows "\<exists>d'. c' (dr_job_id R) = Some d' \<and> jb_attempt_count d' = jb_attempt_count d \<and> log_matches log' d' \<and>
    (\<forall>n. jb_dag d n = Some ''done'' \<longrightarrow> jb_dag d' n = Some ''done'') \<and>
    (jb_state d' = jb_state d \<or> jb_state d = ''running'' \<and> jb_state d' = ''failed'' \<and> r \<noteq> Inr ()) \<and>
    (\<forall>e. r = Inl e \<longrightarrow> \<not> is_publish_error e) \<and>
    (r = Inr () \<longrightarrow> (\<forall>st \<in> set sts. jb_dag d' (sg_name st) = Some ''done''))"
  using assms
proof (induction sts arbitrary: c log d)
  case Nil
  then show ?case by auto
next
  case (Cons st sts)
  let ?k = "dr_job_id R"
  show ?case
  proof (cases "jb_dag d (sg_name st) = Some ''done''")
    case True
    with Cons.prems have "run_stages R sts (c, log) = (r, (c', log'))" by (simp add: load_job_eq)
    with Cons.IH [of c d log] Cons.prems True show ?thesis by fastforce
  next
    case False
    obtain x c1 where run: "sg_run st log d c = (x, c1)" by fastforce
    define log1 where "log1 = log @ [StageStarted (sg_name st)]"
    from stages_keep [of st] Cons.prems(1,2) obtain d1 where d1: "c1 ?k = Some d1"
      "jb_state d1 = jb_state d" "jb_attempt_count d1 = jb_attempt_count d" "jb_dag d1 = jb_dag d"
      unfolding stage_keeps_job_def by (metis insert_subset list.set(2) run snd_conv)
    have lm1: "log_matches log1 d1"
      using Cons.prems(3) False d1(4) by (auto simp: log_matches_def log1_def no_restart_snoc)
    have res: "run_stages R (st # sts) (c, log) =
      (case x of
         Some exc \<Rightarrow> (case record_failure R exc (c1, log1) of
              (Inl e, s') \<Rightarrow> (Inl e, s') | (Inr _, s') \<Rightarrow> (Inl (StageFailed exc), s'))
       | None \<Rightarrow> (case mark_stage_done (dr_jobs R) ?k (sg_name st) (dr_now R log1) c1 of
              (Inl e, c2) \<Rightarrow> (Inl e, (c2, log1))
            | (Inr _, c2) \<Rightarrow> run_stages R sts (c2, log1 @ [StageCompleted (sg_name st)])))"
      unfolding log1_def using Cons.prems(2) False run by (simp add: load_job_eq Let_def split: option.splits)
    show ?thesis
    proof (cases x)
      case (Some exc)
      then show ?thesis using res Cons.prems(4) d1 lm1
        by (auto simp: record_failure_eq is_publish_error_def log_matches_def split: if_splits)
    next
      case None
      show ?thesis
      proof (cases "jb_state d = ''running''")
        case False
        then have "r = Inl InvalidTransitionError" "c' = c1" "log' = log1"
          using res None Cons.prems(4) d1
          by (auto simp: mark_stage_done_def find_one_and_update_before_law)
        with d1 lm1 show ?thesis by (simp add: is_publish_error_def)
      next
        case True
        define d2 where "d2 = d1\<lparr>jb_dag := (jb_dag d1)(sg_name st \<mapsto> ''done''),
          jb_current_stage := Some (sg_name st), jb_updated_at := dr_now R log1\<rparr>"
        have step: "run_stages R sts (c1(?k \<mapsto> d2), log1 @ [StageCompleted (sg_name st)]) = (r, (c', log'))"
          using res None Cons.prems(4) d1 True
          by (simp add: mark_stage_done_def find_one_and_update_before_law d2_def)
        have "log_matches (log1 @ [StageCompleted (sg_name st)]) d2"
          using lm1 by (auto simp: log_matches_def no_restart_snoc d2_def)
        with Cons.IH [OF _ _ _ step] Cons.prems(1) obtain d' where d':
          "c' ?k = Some d'" "jb_attempt_count d' = jb_attempt_count d2" "log_matches log' d'"
          "\<forall>n. jb_dag d2 n = Some ''done'' \<longrightarrow> jb_dag d' n = Some ''done''"
          "jb_state d' = jb_state d2 \<or> jb_state d2 = ''running'' \<and> jb_state d' = ''failed'' \<and> r \<noteq> Inr ()"
          "\<forall>e. r = Inl e \<longrightarrow> \<not> is_publish_error e"
          "r = Inr () \<longrightarrow> (\<forall>st \<in> set sts. jb_dag d' (sg_name st) = Some ''done'')"
          by fastforce
        then show ?thesis using d1 by (intro exI [of _ d']) (auto simp: d2_def)
      qed
    qed
  qed
qed

text \<open>What entering a pass does, by the state the job is in.\<close>

lemma enter_eq:
  assumes "c (dr_job_id R) = Some d"
  shows "enter_running_state_if_needed R (c, log) =
    (if jb_state d = ''failed'' then
       (if count_of (jb_attempt_count d) \<ge> dr_max_attempts R then (Inl BootstrapTerminalFailure, (c, log))
        else (Inr d, (c(dr_job_id R \<mapsto> d\<lparr>jb_state := ''pending'', jb_updated_at := dr_now R log\<rparr>), log)))
     else if jb_state d \<in> {''pending'', ''paused''} then
       (Inr d, (c(dr_job_id R \<mapsto> transition_update d ''running'' None (dr_now R log) d), log))
     else (Inr d, (c, log)))"
  using assms by (auto simp: enter_running_state_if_needed_def load_job_eq requeue_eq move_eq)

lemma enter_spec:
  assumes "c (dr_job_id R) = Some d" and "enter_running_state_if_needed R (c, log) = (r, (c', log'))"
  shows "\<exists>d'. c' (dr_job_id R) = Some d' \<and> jb_dag d' = jb_dag d \<and> log' = log \<and>
    count_of (jb_attempt_count d) \<le> count_of (jb_attempt_count d') \<and>
    count_of (jb_attempt_count d') \<le> count_of (jb_attempt_count d) + 1 \<and>
    (jb_state d = ''pending'' \<longrightarrow> count_of (jb_attempt_count d') = count_of (jb_attempt_count d) + 1)"
  using assms(2) unfolding enter_eq [of c d log, OF assms(1)] using assms(1) by (auto split: if_splits)

text \<open>One pass of the loop body.\<close>

lemma run_body_spec:
  assumes "c (dr_job_id R) = Some d" and "log_matches log d"
    and "run_body R (c, log) = (r, (c', log'))"
  shows "\<exists>d'. c' (dr_job_id R) = Some d' \<and> jb_attempt_count d' = jb_attempt_count d \<and> log_matches log' d' \<and>
    (jb_state d' = jb_state d \<or> jb_state d = ''running'' \<and> jb_state d' \<in> {''failed'', ''succeeded''}) \<and>
    (\<forall>doc. r = Inr doc \<longrightarrow> jb_state d' = ''succeeded'' \<and> last log' = PublishAttempted True \<and> log' \<noteq> [] \<and>
       (\<forall>st \<in> set (dr_stages R). jb_dag d' (sg_name st) = Some ''done''))"
proof -
  obtain r1 c1 log1 where r1: "run_stages R (dr_stages R) (c, log) = (r1, (c1, log1))"
    by (metis surj_pair)
  from run_stages_spec [OF _ assms(1,2) r1] obtain d1 where d1: "c1 (dr_job_id R) = Some d1"
    "jb_attempt_count d1 = jb_attempt_count d" "log_matches log1 d1"
    "jb_state d1 = jb_state d \<or> jb_state d = ''running'' \<and> jb_state d1 = ''failed'' \<and> r1 \<noteq> Inr ()"
    "r1 = Inr () \<longrightarrow> (\<forall>st \<in> set (dr_stages R). jb_dag d1 (sg_name st) = Some ''done'')"
    by auto
  show ?thesis
  proof (cases r1)
    case (Inl e)
    with assms(3) r1 d1 show ?thesis by (auto simp: run_body_def)
  next
    case (Inr u)
    with d1 have st: "jb_state d1 = jb_state d"
      and dn: "\<forall>st \<in> set (dr_stages R). jb_dag d1 (sg_name st) = Some ''done''" by auto
    have lm: "log_matches (log1 @ [PublishAttempted b]) (transition_update d1 t err now d1)"
      "log_matches (log1 @ [PublishAttempted b]) d1" for b t err now
      using d1(3) by (auto intro: log_matches_publish log_matches_keep)
    show ?thesis
    proof (cases "dr_publish R log1 d1")
      case (Inr u')
      with assms(3) r1 d1(1) \<open>r1 = Inr u\<close> lm d1(2) st dn show ?thesis
        by (auto simp: run_body_def load_job_eq move_eq split: if_splits)
    next
      case (Inl e)
      with assms(3) r1 d1(1) \<open>r1 = Inr u\<close> lm d1(2) st show ?thesis
        by (auto simp: run_body_def load_job_eq record_failure_eq split: if_splits job_error.splits)
    qed
  qed
qed

text \<open>The whole run keeps these facts, whatever the number of passes.\<close>

lemma run_job_spec:
  assumes "c (dr_job_id R) = Some d" and "log_matches log d" and "run_job R n (c, log) = Some (r, (c', log'))"
  shows "\<exists>d'. c' (dr_job_id R) = Some d' \<and> log_matches log' d' \<and>
    count_of (jb_attempt_count d') \<le> max (count_of (jb_attempt_count d) + 1) (dr_max_attempts R) \<and>
    (\<forall>doc. r = Inr doc \<longrightarrow> jb_state d' = ''succeeded'' \<and> last log' = PublishAttempted True \<and> log' \<noteq> [] \<and>
       (\<forall>st \<in> set (dr_stages R). jb_dag d' (sg_name st) = Some ''done''))"
  using assms
proof (induction n arbitrary: c d log)
  case 0
  then show ?case by simp
next
  case (Suc n)
  obtain r1 c1 log1 where e: "enter_running_state_if_needed R (c, log) = (r1, (c1, log1))" by (metis surj_pair)
  from enter_spec [OF Suc.prems(1) e] obtain d1 where d1: "c1 (dr_job_id R) = Some d1"
    "jb_dag d1 = jb_dag d" "log1 = log" "count_of (jb_attempt_count d1) \<le> count_of (jb_attempt_count d) + 1"
    by blast
  have lm1: "log_matches log1 d1" using Suc.prems(2) d1(2) by (simp add: log_matches_def d1(3))
  show ?case
  proof (cases r1)
    case (Inl x)
    with e Suc.prems(3) d1 lm1 show ?thesis by auto
  next
    case (Inr job)
    obtain r2 c2 log2 where b: "run_body R (c1, log1) = (r2, (c2, log2))" by (metis surj_pair)
    from run_body_spec [OF d1(1) lm1 b] obtain d2 where d2: "c2 (dr_job_id R) = Some d2"
      "jb_attempt_count d2 = jb_attempt_count d1" "log_matches log2 d2"
      "\<forall>doc. r2 = Inr doc \<longrightarrow> jb_state d2 = ''succeeded'' \<and> last log2 = PublishAttempted True \<and> log2 \<noteq> [] \<and>
        (\<forall>st \<in> set (dr_stages R). jb_dag d2 (sg_name st) = Some ''done'')" by auto
    show ?thesis
    proof (cases r2)
      case (Inr doc)
      with e b \<open>r1 = Inr job\<close> Suc.prems(3) d1 d2 show ?thesis by auto
    next
      case (Inl exc)
      show ?thesis
      proof (cases "\<not> is_publish_error exc \<and> jb_state d2 = ''failed'' \<and>
          count_of (jb_attempt_count d2) < dr_max_attempts R")
        case False
        with e b \<open>r1 = Inr job\<close> Inl Suc.prems(3) d1 d2 show ?thesis
          by (auto simp: load_job_eq)
      next
        case True
        define d3 where "d3 = d2\<lparr>jb_state := ''pending'', jb_updated_at := dr_now R log2\<rparr>"
        have run3: "run_job R n (c2(dr_job_id R \<mapsto> d3), log2) = Some (r, (c', log'))"
          using e b \<open>r1 = Inr job\<close> Inl Suc.prems(3) d2 True by (simp add: load_job_eq requeue_eq d3_def)
        have lm3: "log_matches log2 d3" using d2(3) by (rule log_matches_keep) (simp add: d3_def)
        have "(c2(dr_job_id R \<mapsto> d3)) (dr_job_id R) = Some d3" by simp
        from Suc.IH [OF this lm3 run3] obtain d' where "c' (dr_job_id R) = Some d'" "log_matches log' d'"
          "count_of (jb_attempt_count d') \<le> max (count_of (jb_attempt_count d3) + 1) (dr_max_attempts R)"
          "\<forall>doc. r = Inr doc \<longrightarrow> jb_state d' = ''succeeded'' \<and> last log' = PublishAttempted True \<and> log' \<noteq> [] \<and>
            (\<forall>st \<in> set (dr_stages R). jb_dag d' (sg_name st) = Some ''done'')"
          by blast
        moreover have "count_of (jb_attempt_count d3) + 1 \<le> dr_max_attempts R"
          using True by (simp add: d3_def)
        ultimately show ?thesis by auto
      qed
    qed
  qed
qed

lemma run_job_returns:
  assumes "c (dr_job_id R) = Some d" and "log_matches log d"
    and "(if jb_state d = ''pending'' then 1 else 2) + nat (dr_max_attempts R - count_of (jb_attempt_count d)) \<le> n"
  shows "\<exists>res. run_job R n (c, log) = Some res"
  using assms
proof (induction n arbitrary: c d log)
  case 0
  then show ?case by (simp split: if_splits)
next
  case (Suc n)
  obtain r1 c1 log1 where e: "enter_running_state_if_needed R (c, log) = (r1, (c1, log1))" by (metis surj_pair)
  from enter_spec [OF Suc.prems(1) e] obtain d1 where d1: "c1 (dr_job_id R) = Some d1"
    "jb_dag d1 = jb_dag d" "log1 = log" "count_of (jb_attempt_count d) \<le> count_of (jb_attempt_count d1)"
    "jb_state d = ''pending'' \<longrightarrow> count_of (jb_attempt_count d1) = count_of (jb_attempt_count d) + 1"
    by blast
  have lm1: "log_matches log1 d1" using Suc.prems(2) d1(2) by (simp add: log_matches_def d1(3))
  obtain r2 c2 log2 where b: "run_body R (c1, log1) = (r2, (c2, log2))" by (metis surj_pair)
  from run_body_spec [OF d1(1) lm1 b] obtain d2 where d2: "c2 (dr_job_id R) = Some d2"
    "jb_attempt_count d2 = jb_attempt_count d1" "log_matches log2 d2" by auto
  show ?case
  proof (cases "\<exists>exc. r1 \<in> range Inr \<and> r2 = Inl exc \<and> \<not> is_publish_error exc \<and> jb_state d2 = ''failed'' \<and>
      count_of (jb_attempt_count d2) < dr_max_attempts R")
    case False
    with e b d2 show ?thesis
      by (cases r1; cases r2) (auto simp: load_job_eq)
  next
    case True
    define d3 where "d3 = d2\<lparr>jb_state := ''pending'', jb_updated_at := dr_now R log2\<rparr>"
    have step: "run_job R (Suc n) (c, log) = run_job R n (c2(dr_job_id R \<mapsto> d3), log2)"
      using e b True d2 by (auto simp: load_job_eq requeue_eq d3_def)
    have lm3: "log_matches log2 d3" using d2(3) by (rule log_matches_keep) (simp add: d3_def)
    have "(c2(dr_job_id R \<mapsto> d3)) (dr_job_id R) = Some d3" by simp
    moreover have "(if jb_state d3 = ''pending'' then 1 else 2) +
        nat (dr_max_attempts R - count_of (jb_attempt_count d3)) \<le> n"
      using Suc.prems(3) d1(4,5) d2(2) True by (auto simp: d3_def split: if_splits)
    ultimately have "\<exists>res. run_job R n (c2(dr_job_id R \<mapsto> d3), log2) = Some res"
      using lm3 by (intro Suc.IH)
    then show ?thesis unfolding step .
  qed
qed

end

section \<open>Instances\<close>

lemma accounts_stage_keeps:
  assumes "mongo_collection M"
  shows "stage_keeps_job k (accounts_stage M k fetch_user update cursor now)"
proof -
  have keep: "\<exists>d'. snd (update_cursor M k st cur now c) k = Some d' \<and> jb_state d' = jb_state d \<and>
      jb_attempt_count d' = jb_attempt_count d \<and> jb_dag d' = jb_dag d"
    if "c k = Some d" for c d st cur
    using that by (auto simp: update_cursor_def mongo_collection.find_one_and_update_before_law [OF assms])
  show ?thesis
    unfolding stage_keeps_job_def accounts_stage_def
  proof (intro allI impI)
    fix log and job d :: "'a job_doc" and c assume c: "c k = Some d"
    obtain r c' where rc: "update_cursor M k ''accounts'' (cursor (jb_seller_id job)) now c = (r, c')" by fastforce
    from keep [of c d "''accounts''" "cursor (jb_seller_id job)"] c rc
    show "\<exists>d'. snd (sg_run \<lparr>sg_name = ''accounts'', sg_run = \<lambda>log job c. case fetch_user (''/users/'' @ jb_seller_id job) of
         Inl e \<Rightarrow> (Some e, c)
       | Inr metadata \<Rightarrow>
           if update (jb_seller_id job) metadata \<noteq> 1
           then (Some ''RuntimeError: linked seller account missing'', c)
           else (case update_cursor M k ''accounts'' (cursor (jb_seller_id job)) now c of
                   (Inl _, c') \<Rightarrow> (Some ''InvalidTransitionError'', c')
                 | (Inr _, c') \<Rightarrow> (None, c'))\<rparr> log job c) k = Some d' \<and> jb_state d' = jb_state d \<and>
           jb_attempt_count d' = jb_attempt_count d \<and> jb_dag d' = jb_dag d"
      by (cases r) (auto split: sum.splits)
  qed
qed

text \<open>A worker whose only stage is the accounts stage, on an in-memory collection.\<close>

definition accounts_runner ::
  "string \<Rightarrow> (string \<Rightarrow> (string, string) result) \<Rightarrow> (string \<Rightarrow> string \<Rightarrow> nat) \<Rightarrow> string dag_runner" where
  "accounts_runner job_id fetch_user update = \<lparr>dr_jobs = mem_mongo, dr_job_id = job_id,
     dr_stages = [accounts_stage mem_mongo job_id fetch_user update id 0],
     dr_publish = (\<lambda>_ _. Inr ()), dr_max_attempts = 3, dr_now = (\<lambda>_. 0)\<rparr>"

interpretation accounts_run: job_runner "accounts_runner job_id fetch_user update"
  for job_id fetch_user update
proof (intro job_runner.intro job_runner_axioms.intro)
  show "job_store (dr_jobs (accounts_runner job_id fetch_user update))"
    by (simp add: accounts_runner_def mem_jobs.job_store_axioms)
  show "stage_keeps_job (dr_job_id (accounts_runner job_id fetch_user update)) st"
    if "st \<in> set (dr_stages (accounts_runner job_id fetch_user update))" for st
    using that by (simp add: accounts_runner_def accounts_stage_keeps mem.mongo_collection_axioms)
qed

definition demo_job :: "string \<Rightarrow> int option \<Rightarrow> string job_doc" where
  "demo_job state attempts = \<lparr>jb_seller_id = ''7'', jb_state = state, jb_attempt_count = attempts,
     jb_dispatch_attempts = None, jb_started_at = None, jb_finished_at = None, jb_failed_at = None,
     jb_updated_at = 0, jb_last_error = None, jb_current_stage = None, jb_checkpoints = Map.empty,
     jb_dag = Map.empty\<rparr>"

section \<open>Properties\<close>



text \<open>
  C8. The runner's retry loop ends: from a job with \<open>a\<close> attempts recorded it returns or raises after
  at most \<open>max_attempts - a + 2\<close> passes, and the attempts it leaves recorded are at most
  \<open>max_attempts\<close>, or \<open>a + 1\<close> when the job already had that many.
\<close>

theorem bootstrap_run_ends:
  assumes "mongo_collection (dr_jobs R)" and "\<forall>st \<in> set (dr_stages R). stage_keeps_job (dr_job_id R) st"
    and "c (dr_job_id R) = Some d"
    and "nat (dr_max_attempts R - count_of (jb_attempt_count d)) + 2 \<le> n"
  shows "\<exists>r c' log' d'. run_job R n (c, []) = Some (r, (c', log')) \<and> c' (dr_job_id R) = Some d' \<and>
    count_of (jb_attempt_count d') \<le> max (count_of (jb_attempt_count d) + 1) (dr_max_attempts R)"
proof -
  have J: "job_runner R"
    using assms(1,2) by (intro job_runner.intro job_runner_axioms.intro job_store.intro) auto
  have lm: "log_matches [] d" by (simp add: log_matches_def)
  have "(if jb_state d = ''pending'' then 1 else 2) + nat (dr_max_attempts R - count_of (jb_attempt_count d)) \<le> n"
    using assms(4) by simp
  from job_runner.run_job_returns [of R c d "[]" n, OF J assms(3) lm this] obtain r c' log' where
    r: "run_job R n (c, []) = Some (r, (c', log'))" by auto
  from job_runner.run_job_spec [of R c d "[]", OF J assms(3) lm r] r show ?thesis by blast
qed

theorem bootstrap_run_ends_witness:
  "\<exists>r c' log' d'. run_job (accounts_runner ''j'' (\<lambda>_. Inl ''down'') (\<lambda>_ _. 1)) 5 ([''j'' \<mapsto> demo_job ''pending'' None], []) =
      Some (r, (c', log')) \<and> c' ''j'' = Some d' \<and> count_of (jb_attempt_count d') \<le> 3"
  using bootstrap_run_ends [of "accounts_runner ''j'' (\<lambda>_. Inl ''down'') (\<lambda>_ _. 1)"
      "[''j'' \<mapsto> demo_job ''pending'' None]" "demo_job ''pending'' None" 5]
    mem.mongo_collection_axioms accounts_run.stages_keep [of _ "''j''" "\<lambda>_. Inl ''down''" "\<lambda>_ _. 1"]
  by (simp add: accounts_runner_def demo_job_def count_of_def)

text \<open>
  C9. A run that returns a job has finished all the work: every stage is marked done, the
  completion event was published last, the stored state is \<^verbatim>\<open>succeeded\<close>; and over all its attempts
  no stage was started again after it completed.
\<close>

theorem bootstrap_run_completes_once:
  assumes "mongo_collection (dr_jobs R)" and "\<forall>st \<in> set (dr_stages R). stage_keeps_job (dr_job_id R) st"
    and "c (dr_job_id R) = Some d" and "run_job R n (c, []) = Some (r, (c', log'))"
  shows "no_restart log' \<and> (\<forall>doc. r = Inr doc \<longrightarrow> (\<exists>d'. c' (dr_job_id R) = Some d' \<and>
    jb_state d' = ''succeeded'' \<and> log' \<noteq> [] \<and> last log' = PublishAttempted True \<and>
    (\<forall>st \<in> set (dr_stages R). jb_dag d' (sg_name st) = Some ''done'')))"
proof -
  have J: "job_runner R"
    using assms(1,2) by (intro job_runner.intro job_runner_axioms.intro job_store.intro) auto
  have lm: "log_matches [] d" by (simp add: log_matches_def)
  from job_runner.run_job_spec [of R c d "[]", OF J assms(3) lm assms(4)] show ?thesis
    unfolding log_matches_def by blast
qed

theorem bootstrap_run_completes_once_witness:
  "\<exists>c' log'. run_job (accounts_runner ''j'' (\<lambda>_. Inr ''m'') (\<lambda>_ _. 1)) 1 ([''j'' \<mapsto> demo_job ''pending'' None], []) =
     Some (Inr (transition_update (demo_job ''pending'' None) ''running'' None 0 (demo_job ''pending'' None)
       \<lparr>jb_current_stage := Some ''accounts'', jb_checkpoints := [''accounts'' \<mapsto> ''7''], jb_dag := [''accounts'' \<mapsto> ''done'']\<rparr>),
       (c', log')) \<and> no_restart log' \<and> (\<exists>d'. c' ''j'' = Some d' \<and> jb_state d' = ''succeeded'')"
proof -
  let ?R = "accounts_runner ''j'' (\<lambda>_. Inr ''m'') (\<lambda>_ _. 1)" and ?c = "[''j'' \<mapsto> demo_job ''pending'' None]"
  obtain c' log' where run: "run_job ?R 1 (?c, []) =
     Some (Inr (transition_update (demo_job ''pending'' None) ''running'' None 0 (demo_job ''pending'' None)
       \<lparr>jb_current_stage := Some ''accounts'', jb_checkpoints := [''accounts'' \<mapsto> ''7''], jb_dag := [''accounts'' \<mapsto> ''done'']\<rparr>),
       (c', log'))"
    by (simp add: accounts_runner_def demo_job_def enter_running_state_if_needed_def load_job_def move_def
        transition_def allowed_transitions_def run_body_def accounts_stage_def update_cursor_def
        mark_stage_done_def transition_update_def inc_def count_of_def Let_def)
  from bootstrap_run_completes_once [of ?R ?c "demo_job ''pending'' None", OF _ _ _ run] run show ?thesis
    using mem.mongo_collection_axioms accounts_run.stages_keep [of _ "''j''" "\<lambda>_. Inr ''m''" "\<lambda>_ _. 1"]
    by (simp add: accounts_runner_def) blast
qed

text \<open>
  A worker started on a job that failed with attempts left does not get it running. The requeue
  returns the document as it was before the update, still \<^verbatim>\<open>failed\<close>, so the transition to
  \<^verbatim>\<open>running\<close> is skipped: the job is left \<^verbatim>\<open>pending\<close>, no attempt is counted, and the pass goes on
  to run the stages in that state.
\<close>

theorem failed_restart_left_pending:
  assumes "mongo_collection (dr_jobs R)" and "c (dr_job_id R) = Some d" and "jb_state d = ''failed''"
    and "count_of (jb_attempt_count d) < dr_max_attempts R"
  shows "\<exists>job c' d'. enter_running_state_if_needed R (c, log) = (Inr job, (c', log)) \<and>
    jb_state job = ''failed'' \<and> c' (dr_job_id R) = Some d' \<and> jb_state d' = ''pending'' \<and>
    jb_attempt_count d' = jb_attempt_count d"
  using assms(2-4)
  by (simp add: enter_running_state_if_needed_def load_job_def requeue_def requeue_for_retry_def
      mongo_collection.find_one_law [OF assms(1)] mongo_collection.find_one_and_update_before_law [OF assms(1)])

theorem failed_restart_left_pending_witness:
  "\<exists>job c' d'. enter_running_state_if_needed (accounts_runner ''j'' (\<lambda>_. Inr ''m'') (\<lambda>_ _. 1))
      ([''j'' \<mapsto> demo_job ''failed'' (Some 1)], []) = (Inr job, (c', [])) \<and>
    jb_state job = ''failed'' \<and> c' ''j'' = Some d' \<and> jb_state d' = ''pending''"
  using failed_restart_left_pending [of "accounts_runner ''j'' (\<lambda>_. Inr ''m'') (\<lambda>_ _. 1)"
      "[''j'' \<mapsto> demo_job ''failed'' (Some 1)]" "demo_job ''failed'' (Some 1)" "[]"]
    mem.mongo_collection_axioms
  by (simp add: accounts_runner_def demo_job_def count_of_def) blast

end
