(* ===== verification/PyValues.thy ===== *)
theory PyValues
  imports PyStrings "HOL-Library.List_Lexorder" "HOL-Library.Char_ord"
begin

text \<open>
  Dates, dynamic document values and their textual forms, as Python's \<^verbatim>\<open>datetime\<close>, the values of a
  decoded document and \<^verbatim>\<open>json.dumps\<close> have them. Strings are ordered by code point, as Python
  orders them.
\<close>

section \<open>Dates\<close>

text \<open>
  A \<^verbatim>\<open>datetime\<close> without zone carries a wall clock in microseconds, one with a zone the instant
  it denotes.
\<close>

datatype py_datetime = Naive int | Aware instant

text \<open>The codec's rule: a date without zone is UTC.\<close>

definition utc_of :: "py_datetime \<Rightarrow> instant" where
  "utc_of v = (case v of Naive t \<Rightarrow> t | Aware t \<Rightarrow> t)"

definition is_aware :: "py_datetime \<Rightarrow> bool" where
  "is_aware v = (case v of Naive _ \<Rightarrow> False | Aware _ \<Rightarrow> True)"

text \<open>Year, month and day of a day number since the epoch, in the proleptic Gregorian calendar.\<close>

definition civil_from_days :: "int \<Rightarrow> int \<times> int \<times> int" where
  "civil_from_days n =
    (let z = n + 719468;
         era = z div 146097;
         doe = z mod 146097;
         yoe = (doe - doe div 1460 + doe div 36524 - doe div 146096) div 365;
         doy = doe - (365 * yoe + yoe div 4 - yoe div 100);
         mp = (5 * doy + 2) div 153;
         d = doy - (153 * mp + 2) div 5 + 1;
         m = (if mp < 10 then mp + 3 else mp - 9);
         y = yoe + era * 400 + (if m \<le> 2 then 1 else 0)
     in (y, m, d))"

definition pad :: "nat \<Rightarrow> int \<Rightarrow> string" where
  "pad n i = (let s = int_str i in replicate (n - length s) (CHR ''0'') @ s)"

definition datetime_text :: "string \<Rightarrow> instant \<Rightarrow> string" where
  "datetime_text sep t =
    (let day = t div 86400000000; us = t mod 86400000000;
         (y, m, d) = civil_from_days day;
         s = us div 1000000; f = us mod 1000000
     in pad 4 y @ ''-'' @ pad 2 m @ ''-'' @ pad 2 d @ sep @
        pad 2 (s div 3600) @ '':'' @ pad 2 (s div 60 mod 60) @ '':'' @ pad 2 (s mod 60) @
        (if f = 0 then [] else ''.'' @ pad 6 f) @ ''+00:00'')"

text \<open>\<^verbatim>\<open>isoformat()\<close> and \<^verbatim>\<open>str()\<close> of a UTC date.\<close>

definition isoformat :: "instant \<Rightarrow> string" where
  "isoformat t = datetime_text ''T'' t"

definition datetime_str :: "instant \<Rightarrow> string" where
  "datetime_str t = datetime_text '' '' t"

section \<open>Document values\<close>

text \<open>A value of a decoded document; \<open>BOther\<close> stands for the types no modelled code looks into.\<close>

datatype bson = BNull | BBool bool | BInt int | BStr string | BDate py_datetime | BOther string

type_synonym bdoc = "string \<rightharpoonup> bson"

text \<open>Python's \<^verbatim>\<open>==\<close>: a Boolean equals its number, dates of the same kind compare by their time.\<close>

definition bson_num :: "bson \<Rightarrow> int option" where
  "bson_num v = (case v of BBool b \<Rightarrow> Some (if b then 1 else 0) | BInt i \<Rightarrow> Some i | _ \<Rightarrow> None)"

definition bson_eq :: "bson \<Rightarrow> bson \<Rightarrow> bool" where
  "bson_eq a b \<longleftrightarrow> a = b \<or> (bson_num a \<noteq> None \<and> bson_num a = bson_num b)"

section \<open>JSON\<close>

definition hex_digit :: "nat \<Rightarrow> char" where
  "hex_digit n = (if n < 10 then digit_char n else char_of (87 + n))"

definition json_char :: "char \<Rightarrow> string" where
  "json_char c = (let n = (of_char c :: nat) in
     if n = 34 then [char_of (92 :: nat), c]
     else if n = 92 then [c, c]
     else if n = 8 then char_of (92 :: nat) # ''b''
     else if n = 9 then char_of (92 :: nat) # ''t''
     else if n = 10 then char_of (92 :: nat) # ''n''
     else if n = 12 then char_of (92 :: nat) # ''f''
     else if n = 13 then char_of (92 :: nat) # ''r''
     else if n < 32 \<or> 127 < n then char_of (92 :: nat) # ''u00'' @ [hex_digit (n div 16), hex_digit (n mod 16)]
     else [c])"

definition json_string :: "string \<Rightarrow> string" where
  "json_string s = char_of (34 :: nat) # concat (map json_char s) @ [char_of (34 :: nat)]"

fun join :: "string \<Rightarrow> string list \<Rightarrow> string" where
  "join sep [] = []"
| "join sep [x] = x"
| "join sep (x # y # zs) = x @ sep @ join sep (y # zs)"

text \<open>\<^verbatim>\<open>json.dumps\<close> of a list of strings, with the default separators and with the compact ones.\<close>

definition json_list :: "string \<Rightarrow> string list \<Rightarrow> string" where
  "json_list sep xs = ''['' @ join sep (map json_string xs) @ '']''"

section \<open>Facts\<close>

lemma utc_of_simps [simp]: "utc_of (Naive t) = t" "utc_of (Aware t) = t"
  by (simp_all add: utc_of_def)

lemma is_aware_simps [simp]: "\<not> is_aware (Naive t)" "is_aware (Aware t)"
  by (simp_all add: is_aware_def)

lemma is_awareE:
  assumes "is_aware v"
  obtains t where "v = Aware t"
  using assms by (cases v) auto

end
