(* ===== verification/RunWindows.thy ===== *)
theory RunWindows
  imports PyValues
begin

text \<open>
  The quota run of the returns reconciliation and its windows,
  \<^verbatim>\<open>core/src/zeler_platform_core/devoluciones_runs.py\<close>: the binding that fixes what a run covers, its
  deterministic partition into windows of ten days, and its deadline. The digest function is an
  argument.
\<close>

section \<open>Binding\<close>

datatype run_error = RequiredField string | NaiveDate string | StartNotBeforeEnd | FingerprintsRequired
  | RunBindingDriftError | WindowCountNotPositive

text \<open>
  \<open>bn_release_fingerprints\<close> is the mapping with its keys sorted, so that equal mappings are equal
  lists.
\<close>

record run_binding =
  bn_authorization_id :: string
  bn_cohort_id :: string
  bn_seller_id :: string
  bn_scope :: string
  bn_start :: instant
  bn_end :: instant
  bn_partition_version :: string
  bn_release_fingerprints :: "(string \<times> string) list"

definition utc_required :: "py_datetime \<Rightarrow> string \<Rightarrow> (run_error, instant) result" where
  "utc_required v field = (case v of Naive _ \<Rightarrow> Inl (NaiveDate field) | Aware t \<Rightarrow> Inr t)"

definition window_us :: duration where
  "window_us = days_us 10"

text \<open>\<^verbatim>\<open>RunBinding.__post_init__\<close> on the arguments of the constructor.\<close>

definition make_binding ::
  "string \<Rightarrow> string \<Rightarrow> string \<Rightarrow> string \<Rightarrow> py_datetime \<Rightarrow> py_datetime \<Rightarrow> string \<Rightarrow>
   (string \<times> string) list \<Rightarrow> (run_error, run_binding) result" where
  "make_binding auth cohort seller sc st en version fps =
    rbind (require (strip auth \<noteq> []) (RequiredField ''authorization_id'')) (\<lambda>_.
    rbind (require (strip cohort \<noteq> []) (RequiredField ''cohort_id'')) (\<lambda>_.
    rbind (require (strip seller \<noteq> []) (RequiredField ''seller_id'')) (\<lambda>_.
    rbind (require (strip sc \<noteq> []) (RequiredField ''scope'')) (\<lambda>_.
    rbind (require (strip version \<noteq> []) (RequiredField ''partition_version'')) (\<lambda>_.
    rbind (utc_required st ''start'') (\<lambda>s.
    rbind (utc_required en ''end'') (\<lambda>e.
    rbind (require (s < e) StartNotBeforeEnd) (\<lambda>_.
    rbind (require (fps \<noteq> [] \<and> list_all (\<lambda>(k, v). v \<noteq> []) fps) FingerprintsRequired) (\<lambda>_.
    Inr \<lparr>bn_authorization_id = auth, bn_cohort_id = cohort, bn_seller_id = seller, bn_scope = sc,
      bn_start = s, bn_end = e, bn_partition_version = version,
      bn_release_fingerprints = sort_key fst fps\<rparr>)))))))))"

text \<open>\<^verbatim>\<open>_digest\<close>: the hash of the values joined by a bar.\<close>

definition digest_parts :: "(string \<Rightarrow> string) \<Rightarrow> string list \<Rightarrow> string" where
  "digest_parts H values = H (join ''|'' values)"

definition run_id_of :: "(string \<Rightarrow> string) \<Rightarrow> run_binding \<Rightarrow> string" where
  "run_id_of H b = digest_parts H [''v1'', bn_authorization_id b, bn_cohort_id b, bn_seller_id b,
     bn_scope b, isoformat (bn_start b), isoformat (bn_end b), bn_partition_version b,
     join '','' (map (\<lambda>(k, v). k @ ''='' @ v) (bn_release_fingerprints b))]"

definition require_match :: "run_binding \<Rightarrow> run_binding \<Rightarrow> (run_error, unit) result" where
  "require_match b candidate = require (b = candidate) RunBindingDriftError"

section \<open>Windows\<close>

record run_window =
  wn_run_id :: string
  wn_index :: nat
  wn_start :: instant
  wn_end :: instant

definition window_id :: "(string \<Rightarrow> string) \<Rightarrow> run_window \<Rightarrow> string" where
  "window_id H w = digest_parts H [wn_run_id w, nat_str (wn_index w), isoformat (wn_start w), isoformat (wn_end w)]"

function windows_from :: "string \<Rightarrow> nat \<Rightarrow> instant \<Rightarrow> instant \<Rightarrow> run_window list" where
  "windows_from r i st en =
    (if st < en
     then (let e = min (st + window_us) en in
           \<lparr>wn_run_id = r, wn_index = i, wn_start = st, wn_end = e\<rparr> # windows_from r (Suc i) e en)
     else [])"
  by pat_completeness auto
termination
  by (relation "measure (\<lambda>(_, _, st, en). nat (en - st))") (auto simp: window_us_def time_defs)

declare windows_from.simps [simp del]

definition partition_windows :: "(string \<Rightarrow> string) \<Rightarrow> run_binding \<Rightarrow> run_window list" where
  "partition_windows H b = windows_from (run_id_of H b) 0 (bn_start b) (bn_end b)"

definition allowed_seconds :: "int \<Rightarrow> (run_error, int) result" where
  "allowed_seconds n = (if n < 1 then Inl WindowCountNotPositive else Inr (895 * n + 175))"

definition expires_at :: "(string \<Rightarrow> string) \<Rightarrow> run_binding \<Rightarrow> py_datetime \<Rightarrow> (run_error, instant) result" where
  "expires_at H b created_at =
    rbind (utc_required created_at ''created_at'') (\<lambda>t.
    rbind (allowed_seconds (int (length (partition_windows H b)))) (\<lambda>s.
    Inr (t + seconds s)))"

definition is_expired :: "py_datetime \<Rightarrow> py_datetime \<Rightarrow> (run_error, bool) result" where
  "is_expired now deadline =
    rbind (utc_required now ''now'') (\<lambda>n. rbind (utc_required deadline ''deadline'') (\<lambda>d. Inr (d \<le> n)))"

section \<open>Facts\<close>

lemma window_us_pos: "0 < window_us"
  by (simp add: window_us_def time_defs)

text \<open>Each window starts where the one before ended.\<close>

fun chained :: "instant \<Rightarrow> run_window list \<Rightarrow> instant \<Rightarrow> bool" where
  "chained st [] en \<longleftrightarrow> st = en"
| "chained st (w # ws) en \<longleftrightarrow> wn_start w = st \<and> st < wn_end w \<and> wn_end w \<le> st + window_us \<and> chained (wn_end w) ws en"

lemma chained_mono: "chained st ws en \<Longrightarrow> st \<le> en"
  by (induction ws arbitrary: st) force+

lemma windows_from_chained: "st \<le> en \<Longrightarrow> chained st (windows_from r i st en) en"
proof (induction r i st en rule: windows_from.induct)
  case (1 r i st en)
  then show ?case
    by (subst windows_from.simps) (auto simp: Let_def window_us_pos min_def)
qed

lemma windows_from_nth:
  "n < length (windows_from r i st en) \<Longrightarrow>
    windows_from r i st en ! n = \<lparr>wn_run_id = r, wn_index = i + n, wn_start = st + int n * window_us,
      wn_end = min (st + int (Suc n) * window_us) en\<rparr>"
proof (induction r i st en arbitrary: n rule: windows_from.induct)
  case (1 r i st en)
  show ?case
  proof (cases "st < en")
    case False
    with 1(2) show ?thesis by (simp add: windows_from.simps [of r i st en])
  next
    case True
    let ?e = "min (st + window_us) en"
    have eq: "windows_from r i st en =
        \<lparr>wn_run_id = r, wn_index = i, wn_start = st, wn_end = ?e\<rparr> # windows_from r (Suc i) ?e en"
      using True by (simp add: windows_from.simps [of r i st en] Let_def)
    show ?thesis
    proof (cases n)
      case 0
      with eq show ?thesis by simp
    next
      case (Suc m)
      with eq 1(2) have m: "m < length (windows_from r (Suc i) ?e en)" by simp
      have "?e = st + window_us"
      proof (rule ccontr)
        assume "?e \<noteq> st + window_us"
        then have "?e = en" by (auto simp: min_def split: if_splits)
        with m show False by (simp add: windows_from.simps [of r "Suc i" en en])
      qed
      with 1(1) [OF True refl m] eq Suc show ?thesis by (simp add: algebra_simps)
    qed
  qed
qed

lemma windows_from_length: "int (length (windows_from r i st en)) = max 0 (ceil_div (en - st) window_us)"
proof (induction r i st en rule: windows_from.induct)
  case (1 r i st en)
  show ?case
  proof (cases "st < en")
    case False
    then have "0 \<le> (st - en) div window_us" using window_us_pos by (simp add: pos_imp_zdiv_nonneg_iff)
    with False show ?thesis by (simp add: windows_from.simps [of r i st en] ceil_div_def)
  next
    case True
    let ?e = "min (st + window_us) en"
    have len: "int (length (windows_from r i st en)) = 1 + int (length (windows_from r (Suc i) ?e en))"
      using True by (simp add: windows_from.simps [of r i st en] Let_def)
    have IH: "int (length (windows_from r (Suc i) ?e en)) = max 0 (ceil_div (en - ?e) window_us)"
      by (rule 1 [OF True refl])
    show ?thesis
    proof (cases "st + window_us \<le> en")
      case le: True
      have "ceil_div (en - (st + window_us)) window_us = ceil_div (en - st) window_us - 1"
      proof -
        have "- (en - (st + window_us)) = - (en - st) + 1 * window_us" by simp
        then show ?thesis
          unfolding ceil_div_def using window_us_pos by (simp only: div_mult_self1 [of window_us])
      qed
      moreover have "0 \<le> ceil_div (en - (st + window_us)) window_us"
        using le window_us_pos by (simp add: ceil_div_def pos_imp_zdiv_nonneg_iff div_nonpos_pos_le0)
      ultimately show ?thesis using len IH le by simp
    next
      case gt: False
      have "(- (en - st)) div window_us = -1"
        using True gt by (intro int_div_pos_eq [of _ _ _ "window_us - (en - st)"]) auto
      with len IH gt show ?thesis by (simp add: ceil_div_def)
    qed
  qed
qed

lemma partition_nth:
  assumes "i < length (partition_windows H b)"
  shows "partition_windows H b ! i = \<lparr>wn_run_id = run_id_of H b, wn_index = i,
    wn_start = bn_start b + int i * window_us, wn_end = min (bn_start b + int (Suc i) * window_us) (bn_end b)\<rparr>"
  using windows_from_nth [of i "run_id_of H b" 0 "bn_start b" "bn_end b"] assms
  by (simp add: partition_windows_def)

lemma partition_length:
  assumes "bn_start b < bn_end b"
  shows "int (length (partition_windows H b)) = ceil_div (bn_end b - bn_start b) window_us"
proof -
  have "0 < ceil_div (bn_end b - bn_start b) window_us"
    using ceil_div_ge [OF window_us_pos, of "bn_end b - bn_start b"] assms window_us_pos
    by (metis diff_gt_0_iff_gt less_le_trans mult_nonneg_nonpos2 not_le order_less_imp_le zero_less_mult_pos2)
  then show ?thesis by (simp add: partition_windows_def windows_from_length)
qed

lemma make_binding_ordered: "make_binding auth cohort seller sc st en version fps = Inr b \<Longrightarrow> bn_start b < bn_end b"
  by (auto simp: make_binding_def rbind_eq_Inr)

text \<open>The window that holds an instant is determined by the distance from the start.\<close>

lemma window_of_instant:
  assumes "bn_start b \<le> t" and "t < bn_end b"
  defines "i \<equiv> nat ((t - bn_start b) div window_us)"
  shows "i < length (partition_windows H b) \<and>
    wn_start (partition_windows H b ! i) \<le> t \<and> t < wn_end (partition_windows H b ! i)"
proof -
  let ?q = "(t - bn_start b) div window_us"
  have q: "0 \<le> ?q" using assms(1) window_us_pos by (simp add: pos_imp_zdiv_nonneg_iff)
  have lo: "?q * window_us \<le> t - bn_start b" and hi: "t - bn_start b < (?q + 1) * window_us"
    by (rule div_block [OF window_us_pos])+
  have "?q < ceil_div (bn_end b - bn_start b) window_us"
  proof (rule ccontr)
    assume "\<not> ?thesis"
    then have "ceil_div (bn_end b - bn_start b) window_us * window_us \<le> ?q * window_us"
      using window_us_pos by (simp add: mult_right_mono)
    with ceil_div_ge [OF window_us_pos, of "bn_end b - bn_start b"] lo assms(2) show False by linarith
  qed
  then have len: "i < length (partition_windows H b)"
    using partition_length [of b H] assms q by (simp add: i_def)
  moreover have "int i = ?q" using q by (simp add: i_def)
  ultimately show ?thesis
    using lo hi assms(2) by (simp add: partition_nth algebra_simps)
qed

lemma window_unique:
  assumes "i < length (partition_windows H b)" and "wn_start (partition_windows H b ! i) \<le> t"
    and "t < wn_end (partition_windows H b ! i)"
  shows "i = nat ((t - bn_start b) div window_us)"
proof -
  have lo: "int i * window_us \<le> t - bn_start b" and hi: "t - bn_start b < int i * window_us + window_us"
    using assms by (simp_all add: partition_nth algebra_simps)
  have "(t - bn_start b) div window_us = int i"
    by (rule int_div_pos_eq [of _ _ _ "t - bn_start b - int i * window_us"]) (use lo hi in \<open>auto simp: algebra_simps\<close>)
  then show ?thesis by simp
qed

section \<open>Properties\<close>

text \<open>
  C10. The windows of a run tile its interval: there are as many as ten-day pieces are needed, they
  are numbered from zero under the run's identity, each is at most ten days long, and every instant
  from the start to before the end lies in exactly one of them, and no other instant in any.
\<close>

theorem run_windows_tile:
  fixes H :: "string \<Rightarrow> string"
  assumes "make_binding auth cohort seller sc st en version fps = Inr b"
  defines "ws \<equiv> partition_windows H b"
  shows "int (length ws) = ceil_div (bn_end b - bn_start b) (days_us 10) \<and>
    (\<forall>i < length ws. wn_run_id (ws ! i) = run_id_of H b \<and> wn_index (ws ! i) = i \<and>
       wn_start (ws ! i) < wn_end (ws ! i) \<and> wn_end (ws ! i) - wn_start (ws ! i) \<le> days_us 10) \<and>
    (\<forall>t. (\<exists>!i. i < length ws \<and> wn_start (ws ! i) \<le> t \<and> t < wn_end (ws ! i)) \<longleftrightarrow>
         bn_start b \<le> t \<and> t < bn_end b)"
proof -
  have lt: "bn_start b < bn_end b" using assms(1) by (rule make_binding_ordered)
  have len: "int (length ws) = ceil_div (bn_end b - bn_start b) window_us"
    unfolding ws_def using lt by (rule partition_length)
  have each: "wn_run_id (ws ! i) = run_id_of H b \<and> wn_index (ws ! i) = i \<and>
      wn_start (ws ! i) < wn_end (ws ! i) \<and> wn_end (ws ! i) - wn_start (ws ! i) \<le> window_us"
    if i: "i < length ws" for i
  proof -
    have "(ceil_div (bn_end b - bn_start b) window_us - 1) * window_us < bn_end b - bn_start b"
      by (rule ceil_div_less [OF window_us_pos])
    moreover have "int i * window_us \<le> (ceil_div (bn_end b - bn_start b) window_us - 1) * window_us"
      using i len window_us_pos by (intro mult_right_mono) auto
    ultimately show ?thesis
      using i window_us_pos by (simp add: ws_def partition_nth algebra_simps)
  qed
  have inside: "bn_start b \<le> t \<and> t < bn_end b"
    if "i < length ws" "wn_start (ws ! i) \<le> t" "t < wn_end (ws ! i)" for i t
    using that window_us_pos by (auto simp: ws_def partition_nth) (smt (verit) mult_nonneg_nonneg of_nat_0_le_iff)
  have "(\<exists>!i. i < length ws \<and> wn_start (ws ! i) \<le> t \<and> t < wn_end (ws ! i)) \<longleftrightarrow>
      bn_start b \<le> t \<and> t < bn_end b" for t
    using window_of_instant [of b t H] window_unique [of _ H b t] inside unfolding ws_def by blast
  with len each show ?thesis unfolding window_us_def by blast
qed

definition demo_binding :: run_binding where
  "demo_binding = \<lparr>bn_authorization_id = ''a'', bn_cohort_id = ''c'', bn_seller_id = ''7'', bn_scope = ''devoluciones'',
     bn_start = 0, bn_end = days_us 25, bn_partition_version = ''1'', bn_release_fingerprints = [(''core'', ''x'')]\<rparr>"

theorem run_windows_tile_witness:
  "length (partition_windows id demo_binding) = 3 \<and>
    (\<exists>!i. i < length (partition_windows id demo_binding) \<and> wn_start (partition_windows id demo_binding ! i) \<le> days_us 24 \<and>
       days_us 24 < wn_end (partition_windows id demo_binding ! i))"
proof -
  have mk: "make_binding ''a'' ''c'' ''7'' ''devoluciones'' (Aware 0) (Aware (days_us 25)) ''1'' [(''core'', ''x'')] = Inr demo_binding"
    by (simp add: make_binding_def demo_binding_def strip_def is_space_def utc_required_def time_defs)
  note tile = run_windows_tile [OF mk, of id]
  have "length (partition_windows id demo_binding) = 3"
    using conjunct1 [OF tile] by (simp add: demo_binding_def ceil_div_def time_defs)
  moreover have "bn_start demo_binding \<le> days_us 24 \<and> days_us 24 < bn_end demo_binding"
    by (simp add: demo_binding_def time_defs)
  then have "\<exists>!i. i < length (partition_windows id demo_binding) \<and>
      wn_start (partition_windows id demo_binding ! i) \<le> days_us 24 \<and>
      days_us 24 < wn_end (partition_windows id demo_binding ! i)"
    using spec [OF conjunct2 [OF conjunct2 [OF tile]], of "days_us 24"] by blast
  ultimately show ?thesis by blast
qed

end
