(* ===== verification/Certificates.thy ===== *)
theory Certificates
  imports Complex_Main RunWindows MongoCollection "HOL-Library.AList"
begin

text \<open>
  Read certificates of the returns model,
  \<^verbatim>\<open>core/src/zeler_platform_core/devoluciones_certificates.py\<close>: the proof documents, their validation
  against the schema of \<^verbatim>\<open>cli/export_schemas.py\<close>, the selection of proofs that cover an interval
  without a gap, the provenance check of a quota run, the invalidations and the renewal capacity. A
  document is a list of fields with the values the codec decodes; the hash is an argument.
\<close>

section \<open>Documents\<close>

datatype coverage_error = CoverageUnavailableError string

type_synonym fields = "(string \<times> bson) list"

definition kinds :: "string list" where
  "kinds = [''quota_run'', ''joint_snapshot'', ''legacy_joint_snapshot'']"

definition validity :: duration where
  "validity = minutes 30"

definition certificate_identity ::
  "(string \<Rightarrow> string) \<Rightarrow> string \<Rightarrow> string \<Rightarrow> string \<Rightarrow> (coverage_error, string) result" where
  "certificate_identity H seller_id kind source_identity =
    (if kind \<notin> set kinds \<or> seller_id = [] \<or> source_identity = []
     then Inl (CoverageUnavailableError ''invalid certificate identity'')
     else Inr (H (json_list '', '' [seller_id, kind, source_identity])))"

record certificate_input =
  ci_seller_id :: string
  ci_kind :: string
  ci_source_identity :: string
  ci_source_fingerprint :: "string option"
  ci_acquisition_fingerprint :: string
  ci_date_from :: instant
  ci_date_to :: instant
  ci_acquired_at :: instant
  ci_expected_count :: int
  ci_membership_hash :: string
  ci_read_model_fingerprint :: string
  ci_coverage_epoch :: int

definition opt_str :: "string option \<Rightarrow> bson" where
  "opt_str s = (case s of None \<Rightarrow> BNull | Some x \<Rightarrow> BStr x)"

text \<open>The document \<^verbatim>\<open>make_certificate\<close> returns.\<close>

definition certificate_fields :: "certificate_input \<Rightarrow> string \<Rightarrow> instant \<Rightarrow> fields" where
  "certificate_fields i ident now =
    [(''_id'', BStr ident), (''seller_id'', BStr (ci_seller_id i)), (''kind'', BStr (ci_kind i)),
      (''source_identity'', BStr (ci_source_identity i)),
      (''source_fingerprint'', opt_str (ci_source_fingerprint i)),
      (''acquisition_fingerprint'', BStr (ci_acquisition_fingerprint i)),
      (''date_from'', BDate (Aware (ci_date_from i))), (''date_to'', BDate (Aware (ci_date_to i))),
      (''acquired_at'', BDate (Aware (ci_acquired_at i))), (''expected_count'', BInt (ci_expected_count i)),
      (''state'', BStr ''reconciled''), (''revision'', BInt 1),
      (''current_membership_hash'', BStr (ci_membership_hash i)),
      (''current_read_model_fingerprint'', BStr (ci_read_model_fingerprint i)),
      (''certified_count'', BInt (ci_expected_count i)), (''validated_at'', BDate (Aware now)),
      (''valid_until'', BDate (Aware (now + validity))), (''next_check_at'', BDate (Aware now)),
      (''invalidation_reason'', BNull), (''needs_reacquisition'', BBool False),
      (''coverage_epoch'', BInt (ci_coverage_epoch i)), (''schema_version'', BInt 1)]"

definition make_certificate ::
  "(string \<Rightarrow> string) \<Rightarrow> certificate_input \<Rightarrow> instant \<Rightarrow> (coverage_error, fields) result" where
  "make_certificate H i now =
    rbind (require (ci_date_from i < ci_date_to i \<and> ci_date_to i \<le> ci_acquired_at i \<and> ci_acquired_at i \<le> now)
      (CoverageUnavailableError ''invalid acquired certificate bounds'')) (\<lambda>_.
    rbind (require (ci_acquisition_fingerprint i \<noteq> [] \<and> ci_membership_hash i \<noteq> [] \<and>
        ci_read_model_fingerprint i \<noteq> [] \<and> 0 \<le> ci_expected_count i \<and> 0 \<le> ci_coverage_epoch i \<and>
        (ci_kind i = ''legacy_joint_snapshot'' \<or> or_str (ci_source_fingerprint i) [] \<noteq> []))
      (CoverageUnavailableError ''incomplete certificate evidence'')) (\<lambda>_.
    rbind (certificate_identity H (ci_seller_id i) (ci_kind i) (ci_source_identity i)) (\<lambda>ident.
    Inr (certificate_fields i ident now))))"

section \<open>Validation\<close>

record field_schema =
  fs_name :: string
  fs_enum :: "bson list option"
  fs_types :: "string list"
  fs_minimum :: "int option"
  fs_min_length :: "nat option"

definition text_field :: "string \<Rightarrow> field_schema" where
  "text_field n = \<lparr>fs_name = n, fs_enum = None, fs_types = [''string''], fs_minimum = None, fs_min_length = Some 1\<rparr>"

definition date_field :: "string \<Rightarrow> field_schema" where
  "date_field n = \<lparr>fs_name = n, fs_enum = None, fs_types = [''date''], fs_minimum = None, fs_min_length = None\<rparr>"

definition count_field :: "string \<Rightarrow> int \<Rightarrow> field_schema" where
  "count_field n m = \<lparr>fs_name = n, fs_enum = None, fs_types = [''int'', ''long''], fs_minimum = Some m, fs_min_length = None\<rparr>"

definition enum_field :: "string \<Rightarrow> bson list \<Rightarrow> field_schema" where
  "enum_field n vs = \<lparr>fs_name = n, fs_enum = Some vs, fs_types = [], fs_minimum = None, fs_min_length = None\<rparr>"

definition typed_field :: "string \<Rightarrow> string list \<Rightarrow> field_schema" where
  "typed_field n ts = \<lparr>fs_name = n, fs_enum = None, fs_types = ts, fs_minimum = None, fs_min_length = None\<rparr>"

definition certificate_schema :: "field_schema list" where
  "certificate_schema = [
     text_field ''_id'', date_field ''acquired_at'', text_field ''acquisition_fingerprint'',
     count_field ''certified_count'' 0, count_field ''coverage_epoch'' 0,
     text_field ''current_membership_hash'', text_field ''current_read_model_fingerprint'',
     date_field ''date_from'', date_field ''date_to'', count_field ''expected_count'' 0,
     enum_field ''invalidation_reason'' [BNull, BStr ''incompatible_writer'', BStr ''claim_mutation'',
       BStr ''order_mutation'', BStr ''unknown_impact'', BStr ''proof_drift'', BStr ''explicit_invalidation''],
     enum_field ''kind'' (map BStr kinds), typed_field ''needs_reacquisition'' [''bool''],
     date_field ''next_check_at'', count_field ''revision'' 1, enum_field ''schema_version'' [BInt 1],
     text_field ''seller_id'', typed_field ''source_fingerprint'' [''string'', ''null''],
     text_field ''source_identity'', enum_field ''state'' [BStr ''reconciled'', BStr ''stale'', BStr ''failed''],
     date_field ''valid_until'', date_field ''validated_at'']"

definition type_matches :: "string list \<Rightarrow> bson \<Rightarrow> bool" where
  "type_matches ts v = (case v of
     BStr _ \<Rightarrow> ''string'' \<in> set ts
   | BNull \<Rightarrow> ''null'' \<in> set ts
   | BBool _ \<Rightarrow> ''bool'' \<in> set ts
   | BDate _ \<Rightarrow> ''date'' \<in> set ts
   | BInt _ \<Rightarrow> ''int'' \<in> set ts \<or> ''long'' \<in> set ts
   | BOther _ \<Rightarrow> False)"

definition below_minimum :: "int option \<Rightarrow> bson \<Rightarrow> bool" where
  "below_minimum m v = (case (m, v) of (Some lo, BInt i) \<Rightarrow> i < lo | _ \<Rightarrow> False)"

definition too_short :: "nat option \<Rightarrow> bson \<Rightarrow> bool" where
  "too_short m v = (case (m, v) of (Some lo, BStr s) \<Rightarrow> length (strip s) < lo | _ \<Rightarrow> False)"

definition check_field :: "fields \<Rightarrow> field_schema \<Rightarrow> (coverage_error, unit) result" where
  "check_field d f = (case map_of d (fs_name f) of
     None \<Rightarrow> Inl (CoverageUnavailableError ''invalid certificate fields'')
   | Some v \<Rightarrow>
       if (case fs_enum f of None \<Rightarrow> False | Some vs \<Rightarrow> \<not> list_ex (bson_eq v) vs)
       then Inl (CoverageUnavailableError ''invalid certificate enum'')
       else if fs_types f \<noteq> [] \<and> \<not> type_matches (fs_types f) v
       then Inl (CoverageUnavailableError ''invalid certificate type'')
       else if below_minimum (fs_minimum f) v then Inl (CoverageUnavailableError ''invalid certificate counter'')
       else if too_short (fs_min_length f) v then Inl (CoverageUnavailableError ''invalid certificate identity'')
       else Inr ())"

fun check_fields :: "fields \<Rightarrow> field_schema list \<Rightarrow> (coverage_error, unit) result" where
  "check_fields d [] = Inr ()"
| "check_fields d (f # fs) = rbind (check_field d f) (\<lambda>_. check_fields d fs)"

text \<open>Fields of a document by their expected type, as the code reads them after validation.\<close>

definition str_of :: "fields \<Rightarrow> string \<Rightarrow> string" where
  "str_of d k = (case map_of d k of Some (BStr s) \<Rightarrow> s | _ \<Rightarrow> [])"

definition date_of :: "fields \<Rightarrow> string \<Rightarrow> instant" where
  "date_of d k = (case map_of d k of Some (BDate t) \<Rightarrow> utc_of t | _ \<Rightarrow> 0)"

definition int_of :: "fields \<Rightarrow> string \<Rightarrow> int" where
  "int_of d k = (case map_of d k of Some (BInt i) \<Rightarrow> i | _ \<Rightarrow> 0)"

definition consistent_evidence :: "(string \<Rightarrow> string) \<Rightarrow> fields \<Rightarrow> instant \<Rightarrow> bool" where
  "consistent_evidence H d now \<longleftrightarrow>
    certificate_identity H (str_of d ''seller_id'') (str_of d ''kind'') (str_of d ''source_identity'') =
      Inr (str_of d ''_id'') \<and>
    date_of d ''date_from'' < date_of d ''date_to'' \<and> date_of d ''date_to'' \<le> date_of d ''acquired_at'' \<and>
    date_of d ''acquired_at'' \<le> now \<and>
    date_of d ''acquired_at'' \<le> date_of d ''validated_at'' \<and> date_of d ''validated_at'' \<le> now \<and>
    date_of d ''valid_until'' \<le> date_of d ''validated_at'' + validity \<and>
    (if str_of d ''kind'' = ''legacy_joint_snapshot'' then map_of d ''source_fingerprint'' = Some BNull
     else str_of d ''source_fingerprint'' \<noteq> [])"

definition validate_certificate :: "(string \<Rightarrow> string) \<Rightarrow> fields \<Rightarrow> instant \<Rightarrow> (coverage_error, unit) result" where
  "validate_certificate H d now =
    (if fst ` set d \<noteq> fs_name ` set certificate_schema
     then Inl (CoverageUnavailableError ''invalid certificate fields'')
     else rbind (check_fields d certificate_schema) (\<lambda>_.
       require (consistent_evidence H d now) (CoverageUnavailableError ''inconsistent certificate evidence'')))"

section \<open>Coverage\<close>

definition eligible :: "(string \<Rightarrow> string) \<Rightarrow> string \<Rightarrow> instant \<Rightarrow> fields \<Rightarrow> bool" where
  "eligible H seller_id now d \<longleftrightarrow> validate_certificate H d now = Inr () \<and>
    str_of d ''seller_id'' = seller_id \<and> str_of d ''state'' = ''reconciled'' \<and>
    map_of d ''needs_reacquisition'' = Some (BBool False) \<and> date_of d ''valid_until'' > now \<and>
    date_of d ''date_from'' < date_of d ''date_to'' \<and> date_of d ''date_to'' \<le> date_of d ''acquired_at'' \<and>
    certificate_identity H seller_id (str_of d ''kind'') (str_of d ''source_identity'') = Inr (str_of d ''_id'') \<and>
    str_of d ''current_membership_hash'' \<noteq> [] \<and> str_of d ''current_read_model_fingerprint'' \<noteq> []"

definition covers :: "instant \<Rightarrow> fields \<Rightarrow> bool" where
  "covers t d = (case (map_of d ''date_from'', map_of d ''date_to'') of
     (Some (BDate a), Some (BDate b)) \<Rightarrow> utc_of a \<le> t \<and> t < utc_of b | _ \<Rightarrow> False)"

lemma covers_dates: "covers t d \<Longrightarrow> date_of d ''date_from'' \<le> t \<and> t < date_of d ''date_to''"
  by (auto simp: covers_def date_of_def split: option.splits bson.splits)

text \<open>The key of \<^verbatim>\<open>min\<close>: the latest end first, then the smaller identity; the first one on a tie.\<close>

definition better :: "fields \<Rightarrow> fields \<Rightarrow> bool" where
  "better a b \<longleftrightarrow> date_of a ''date_to'' > date_of b ''date_to'' \<or>
    date_of a ''date_to'' = date_of b ''date_to'' \<and> str_of a ''_id'' < str_of b ''_id''"

fun best :: "fields list \<Rightarrow> fields option" where
  "best [] = None"
| "best (d # ds) = Some (foldl (\<lambda>b x. if better x b then x else b) d ds)"

lemma foldl_best: "foldl (\<lambda>b x. if better x b then x else b) d ds \<in> set (d # ds)"
  by (induction ds arbitrary: d) (auto split: if_splits)

lemma best_mem: "best ds = Some d \<Longrightarrow> d \<in> set ds"
  using foldl_best by (cases ds) (auto simp del: set_simps)

function cover_from :: "fields list \<Rightarrow> instant \<Rightarrow> instant \<Rightarrow> fields list \<times> instant" where
  "cover_from cands cursor en =
    (if cursor < en
     then (case best (filter (covers cursor) cands) of
             None \<Rightarrow> ([], cursor)
           | Some d \<Rightarrow> (case cover_from cands (date_of d ''date_to'') en of (sel, reach) \<Rightarrow> (d # sel, reach)))
     else ([], cursor))"
  by pat_completeness auto
termination
proof (relation "measure (\<lambda>(_, cursor, en). nat (en - cursor))")
  show "((cands, date_of d ''date_to'', en), cands, cursor, en) \<in> measure (\<lambda>(_, cursor, en). nat (en - cursor))"
    if "cursor < en" "best (filter (covers cursor) cands) = Some d" for cands cursor en d
    using that best_mem [OF that(2)] by (auto dest: covers_dates)
qed simp

declare cover_from.simps [simp del]

definition coverage_prefix ::
  "(string \<Rightarrow> string) \<Rightarrow> fields list \<Rightarrow> string \<Rightarrow> py_datetime \<Rightarrow> py_datetime \<Rightarrow> instant \<Rightarrow>
   (coverage_error, fields list \<times> instant) result" where
  "coverage_prefix H certs seller_id st en now =
    (if \<not> is_aware st \<or> \<not> is_aware en \<or> \<not> utc_of st < utc_of en
     then Inl (CoverageUnavailableError ''invalid requested bounds'')
     else (case cover_from (filter (eligible H seller_id now) certs) (utc_of st) (utc_of en) of
             (sel, cursor) \<Rightarrow> Inr (sel, min cursor (utc_of en))))"

definition select_coverage ::
  "(string \<Rightarrow> string) \<Rightarrow> fields list \<Rightarrow> string \<Rightarrow> py_datetime \<Rightarrow> py_datetime \<Rightarrow> instant \<Rightarrow>
   (coverage_error, fields list) result" where
  "select_coverage H certs seller_id st en now =
    rbind (coverage_prefix H certs seller_id st en now) (\<lambda>(sel, reach).
    if reach < utc_of en then Inl (CoverageUnavailableError ''requested interval is not certified'') else Inr sel)"

section \<open>Provenance of a quota run\<close>

record run_doc =
  rd_id :: string
  rd_authorization_id :: string
  rd_cohort_id :: string
  rd_seller_id :: string
  rd_scope :: string
  rd_start :: py_datetime
  rd_end :: py_datetime
  rd_partition_version :: string
  rd_release_fingerprints :: "(string \<times> string) list"
  rd_window_count :: int
  rd_state :: string
  rd_next_window_index :: int
  rd_created_at :: py_datetime
  rd_expires_at :: py_datetime
  rd_not_before :: "py_datetime option"

record window_doc =
  wd_id :: string
  wd_run_id :: string
  wd_index :: int
  wd_start :: py_datetime
  wd_end :: py_datetime
  wd_state :: string
  wd_fence :: int
  wd_idempotency_key :: string
  wd_source_fingerprint :: "string option"
  wd_read_model_fingerprint :: "string option"
  wd_expected_count :: "int option"
  wd_persisted_count :: "int option"
  wd_complete_count :: "int option"
  wd_missing_count :: "int option"

record evidence =
  qe_expected_count :: int
  qe_source_fingerprint :: string
  qe_acquisition_fingerprint :: string

definition window_complete :: "run_binding \<Rightarrow> string \<Rightarrow> window_doc \<Rightarrow> run_window \<Rightarrow> bool" where
  "window_complete b run_id row w \<longleftrightarrow>
    wd_run_id row = run_id \<and> wd_index row = int (wn_index w) \<and>
    utc_of (wd_start row) = wn_start w \<and> utc_of (wd_end row) = wn_end w \<and> wd_state row = ''completed'' \<and>
    or_str (wd_source_fingerprint row) [] \<noteq> [] \<and> or_str (wd_read_model_fingerprint row) [] \<noteq> [] \<and>
    wd_missing_count row = Some 0 \<and> wd_expected_count row \<noteq> None \<and>
    wd_expected_count row = wd_persisted_count row \<and> wd_persisted_count row = wd_complete_count row \<and>
    (case wd_expected_count row of None \<Rightarrow> False | Some n \<Rightarrow> 0 \<le> n)"

definition json_window :: "window_doc \<Rightarrow> run_window \<Rightarrow> string" where
  "json_window row w = (let q = json_string in
     ''{'' @ q ''end'' @ '':'' @ q (datetime_str (wn_end w)) @ '','' @
     q ''expected_count'' @ '':'' @ int_str (the (wd_expected_count row)) @ '','' @
     q ''index'' @ '':'' @ nat_str (wn_index w) @ '','' @
     q ''read_model_fingerprint'' @ '':'' @ q (the (wd_read_model_fingerprint row)) @ '','' @
     q ''source_fingerprint'' @ '':'' @ q (the (wd_source_fingerprint row)) @ '','' @
     q ''start'' @ '':'' @ q (datetime_str (wn_start w)) @ ''}'')"

definition quota_provenance ::
  "(string \<Rightarrow> string) \<Rightarrow> run_doc option \<Rightarrow> window_doc list \<Rightarrow> (coverage_error, evidence) result" where
  "quota_provenance H run windows = (case run of
     None \<Rightarrow> Inl (CoverageUnavailableError ''invalid quota acquisition evidence'')
   | Some r \<Rightarrow>
      (case make_binding (rd_authorization_id r) (rd_cohort_id r) (rd_seller_id r) (rd_scope r)
              (Aware (utc_of (rd_start r))) (Aware (utc_of (rd_end r))) (rd_partition_version r)
              (rd_release_fingerprints r) of
         Inl _ \<Rightarrow> Inl (CoverageUnavailableError ''invalid quota acquisition evidence'')
       | Inr b \<Rightarrow>
          (let rows = sort_key wd_index windows; expected = partition_windows H b in
           if rd_id r \<noteq> run_id_of H b \<or> rd_state r \<noteq> ''completed'' \<or> bn_scope b \<noteq> ''devoluciones'' \<or>
              length rows \<noteq> length expected \<or> rd_window_count r \<noteq> int (length expected) \<or>
              \<not> list_all2 (window_complete b (run_id_of H b)) rows expected
           then Inl (CoverageUnavailableError ''invalid quota acquisition evidence'')
           else Inr \<lparr>
             qe_expected_count = sum_list (map (the \<circ> wd_expected_count) rows),
             qe_source_fingerprint = H (json_list '','' (map (the \<circ> wd_source_fingerprint) rows)),
             qe_acquisition_fingerprint = H (''{'' @ json_string ''run_id'' @ '':'' @ json_string (run_id_of H b) @
               '','' @ json_string ''windows'' @ '':['' @ join '','' (map2 json_window rows expected) @ '']}'')\<rparr>)))"

definition membership_hash :: "(string \<Rightarrow> string) \<Rightarrow> string list \<Rightarrow> string" where
  "membership_hash H ids = H (json_list '','' (sorted_list_of_set (set ids)))"

definition validate_provenance ::
  "(string \<Rightarrow> string) \<Rightarrow> run_doc mongo \<Rightarrow> window_doc mongo \<Rightarrow> run_doc coll \<Rightarrow> window_doc coll \<Rightarrow> fields \<Rightarrow>
   (coverage_error, unit) result" where
  "validate_provenance H MR MW runs windows d =
    (if str_of d ''kind'' \<noteq> ''quota_run'' then Inr ()
     else
      (let run = find_one MR runs (str_of d ''source_identity'') (\<lambda>r. rd_seller_id r = str_of d ''seller_id'');
           rows = find_many MW windows (\<lambda>w. wd_run_id w = str_of d ''source_identity'')
       in rbind (quota_provenance H run rows) (\<lambda>e.
          require (int_of d ''expected_count'' = qe_expected_count e \<and>
              str_of d ''source_fingerprint'' = qe_source_fingerprint e \<and>
              str_of d ''acquisition_fingerprint'' = qe_acquisition_fingerprint e \<and>
              date_of d ''date_from'' = utc_of (rd_start (the run)) \<and>
              date_of d ''date_to'' = utc_of (rd_end (the run)))
            (CoverageUnavailableError ''certificate acquisition provenance changed''))))"

section \<open>Invalidation\<close>

text \<open>\<^verbatim>\<open>$set\<close> of the stale fields and \<^verbatim>\<open>$inc\<close> of the revision.\<close>

definition mark_stale :: "string \<Rightarrow> fields \<Rightarrow> fields" where
  "mark_stale why d = AList.update ''revision'' (BInt (int_of d ''revision'' + 1))
     (AList.update ''invalidation_reason'' (BStr why)
       (AList.update ''needs_reacquisition'' (BBool True) (AList.update ''state'' (BStr ''stale'') d)))"

definition invalidate_all_certificates ::
  "fields mongo \<Rightarrow> string \<Rightarrow> string \<Rightarrow> fields coll \<Rightarrow> fields coll" where
  "invalidate_all_certificates M seller_id why c =
    update_many M c (\<lambda>d. map_of d ''seller_id'' = Some (BStr seller_id)) (mark_stale why)"

text \<open>
  A claim as far as an invalidation looks: the seller's text, the type (absent, null or a text), the
  creation date (\<open>None\<close> when it is not a date), the order it belongs to and the rest of the document.
\<close>

record claim_doc =
  cm_seller_id :: string
  cm_type :: "string option option"
  cm_date_created :: "py_datetime option"
  cm_order_id :: string
  cm_rest :: string

datatype impact = Ignored | Unknown | At instant

definition claim_impact :: "string \<Rightarrow> claim_doc option \<Rightarrow> impact" where
  "claim_impact seller_id cl = (case cl of
     None \<Rightarrow> Ignored
   | Some d \<Rightarrow>
       if cm_seller_id d \<noteq> seller_id \<or> cm_type d = None then Unknown
       else if cm_type d = Some (Some ''returns'')
       then (case cm_date_created d of None \<Rightarrow> Unknown | Some t \<Rightarrow> At (utc_of t))
       else Ignored)"

definition impact_dates :: "impact list \<Rightarrow> instant list" where
  "impact_dates is = concat (map (\<lambda>i. case i of At t \<Rightarrow> [t] | _ \<Rightarrow> []) is)"

text \<open>The freshness marker of a read model, as far as the modelled code touches it.\<close>

record marker =
  mk_seller_id :: string
  mk_read_model :: string
  mk_state :: string
  mk_fresh_until :: "instant option"
  mk_valid_until :: "instant option"
  mk_updated_at :: "instant option"
  mk_source :: "string option"
  mk_date_from :: "py_datetime option"
  mk_reconciled_until :: "py_datetime option"

definition marker_hit :: "instant list \<Rightarrow> marker \<Rightarrow> bool" where
  "marker_hit dates m = (case (mk_date_from m, mk_reconciled_until m) of
     (Some a, Some b) \<Rightarrow> list_ex (\<lambda>t. utc_of a \<le> t \<and> t < utc_of b) dates | _ \<Rightarrow> False)"

definition invalidate_claim_impact ::
  "fields mongo \<Rightarrow> marker mongo \<Rightarrow> string \<Rightarrow> claim_doc option list \<Rightarrow> string \<Rightarrow>
   fields coll \<times> marker coll \<Rightarrow> fields coll \<times> marker coll" where
  "invalidate_claim_impact M MF seller_id cls why s =
    (case s of (certs, fresh) \<Rightarrow>
      let is = map (claim_impact seller_id) cls;
          unknown = list_ex (\<lambda>i. i = Unknown) is;
          dates = impact_dates is
      in if \<not> unknown \<and> dates = [] then s
         else
          (update_many M certs
             (\<lambda>d. map_of d ''seller_id'' = Some (BStr seller_id) \<and> (unknown \<or> list_ex (\<lambda>t. covers t d) dates))
             (mark_stale (if unknown then ''unknown_impact'' else why)),
           snd (find_one_and_update MF fresh (seller_id @ '':devoluciones'')
             (\<lambda>m. mk_seller_id m = seller_id \<and> (unknown \<or> marker_hit dates m))
             (\<lambda>m. m\<lparr>mk_state := ''stale''\<rparr>))))"

section \<open>Renewal capacity\<close>

text \<open>\<open>None\<close> stands for a measurement that is absent, not a number or not finite.\<close>

record capacity =
  cp_status :: string
  cp_sustainable_batch :: "int option"
  cp_revisit_seconds :: "rat option"

definition unknown_capacity :: capacity where
  "unknown_capacity = \<lparr>cp_status = ''unknown'', cp_sustainable_batch = None, cp_revisit_seconds = None\<rparr>"

definition renewal_capacity :: "int \<Rightarrow> rat option \<Rightarrow> rat option \<Rightarrow> capacity" where
  "renewal_capacity eligible_count slowest interval = (case (slowest, interval) of
     (Some s, Some i) \<Rightarrow>
       if s \<le> 0 \<or> i < 900 then unknown_capacity
       else
        (let sustainable = min 20 (max 1 \<lfloor>30 / s\<rfloor>);
             per_cycle = sustainable * 3;
             revisit = of_int (ceil_div eligible_count per_cycle) * i + 30 * 3 + 60
         in \<lparr>cp_status = (if revisit < 1800 then ''sufficient'' else ''degraded''),
             cp_sustainable_batch = Some sustainable, cp_revisit_seconds = Some revisit\<rparr>)
   | _ \<Rightarrow> unknown_capacity)"

section \<open>Facts\<close>

lemma best_None [simp]: "best ds = None \<longleftrightarrow> ds = []"
  by (cases ds) simp_all

lemma covers_extend: "covers t d \<Longrightarrow> t \<le> u \<Longrightarrow> u < date_of d ''date_to'' \<Longrightarrow> covers u d"
  by (auto simp: covers_def date_of_def split: option.splits bson.splits)

lemma cover_from_spec:
  "cover_from cands cursor en = (sel, reach) \<Longrightarrow>
    set sel \<subseteq> set cands \<and> cursor \<le> reach \<and>
    (\<forall>t. cursor \<le> t \<and> t < reach \<longrightarrow> (\<exists>d \<in> set sel. covers t d)) \<and>
    (reach < en \<longrightarrow> (\<forall>d \<in> set cands. \<not> covers reach d))"
proof (induction cands cursor en arbitrary: sel reach rule: cover_from.induct)
  case (1 cands cursor en)
  show ?case
  proof (cases "cursor < en \<and> filter (covers cursor) cands \<noteq> []")
    case False
    then have "sel = []" "reach = cursor"
      using 1(2) by (auto simp: cover_from.simps [of cands cursor en] split: if_splits)
    with False show ?thesis by (auto simp: filter_empty_conv)
  next
    case True
    then obtain d where d: "best (filter (covers cursor) cands) = Some d" by fastforce
    from best_mem [OF this] have dm: "d \<in> set cands" "covers cursor d" by auto
    obtain sel' where sel': "cover_from cands (date_of d ''date_to'') en = (sel', reach)" "sel = d # sel'"
      using 1(2) True d by (auto simp: cover_from.simps [of cands cursor en] split: prod.splits)
    from 1(1) [OF _ d sel'(1)] True have IH: "set sel' \<subseteq> set cands" "date_of d ''date_to'' \<le> reach"
      "\<forall>t. date_of d ''date_to'' \<le> t \<and> t < reach \<longrightarrow> (\<exists>d \<in> set sel'. covers t d)"
      "reach < en \<longrightarrow> (\<forall>d \<in> set cands. \<not> covers reach d)" by auto
    have "\<exists>e \<in> set sel. covers t e" if "cursor \<le> t" "t < reach" for t
    proof (cases "t < date_of d ''date_to''")
      case True
      with covers_extend [OF dm(2) that(1)] sel'(2) show ?thesis by simp
    next
      case False
      with IH(3) that sel'(2) show ?thesis by auto
    qed
    with IH dm covers_dates [OF dm(2)] sel'(2) show ?thesis by auto
  qed
qed

lemma coverage_prefix_eq:
  assumes "is_aware st" and "is_aware en" and "utc_of st < utc_of en"
  shows "coverage_prefix H certs s st en now =
    (case cover_from (filter (eligible H s now) certs) (utc_of st) (utc_of en) of
       (sel, cursor) \<Rightarrow> Inr (sel, min cursor (utc_of en)))"
  using assms by (simp add: coverage_prefix_def)

lemma coverage_prefix_spec:
  assumes "coverage_prefix H certs s st en now = Inr (sel, reach)"
  shows "set sel \<subseteq> {d \<in> set certs. eligible H s now d} \<and> utc_of st \<le> reach \<and> reach \<le> utc_of en \<and>
    (\<forall>t. utc_of st \<le> t \<and> t < reach \<longrightarrow> (\<exists>d \<in> set sel. covers t d)) \<and>
    (reach < utc_of en \<longrightarrow> (\<forall>d \<in> set certs. eligible H s now d \<longrightarrow> \<not> covers reach d))"
proof -
  from assms have ok: "is_aware st" "is_aware en" "utc_of st < utc_of en"
    by (auto simp: coverage_prefix_def split: if_splits)
  then obtain cursor where c: "cover_from (filter (eligible H s now) certs) (utc_of st) (utc_of en) = (sel, cursor)"
    "reach = min cursor (utc_of en)"
    using assms by (auto simp: coverage_prefix_eq split: prod.splits)
  from cover_from_spec [OF c(1)] show ?thesis using ok(3) c(2) by auto
qed

lemma select_coverage_spec:
  assumes "select_coverage H certs s st en now = Inr sel"
  shows "set sel \<subseteq> {d \<in> set certs. eligible H s now d} \<and>
    (\<forall>t. utc_of st \<le> t \<and> t < utc_of en \<longrightarrow> (\<exists>d \<in> set sel. covers t d))"
proof -
  from assms obtain reach where "coverage_prefix H certs s st en now = Inr (sel, reach)" "\<not> reach < utc_of en"
    by (auto simp: select_coverage_def rbind_eq_Inr split: if_splits)
  with coverage_prefix_spec [OF this(1)] show ?thesis by auto
qed

lemma map_of_mark_stale:
  "map_of (mark_stale why d) = (map_of d)(''state'' \<mapsto> BStr ''stale'', ''needs_reacquisition'' \<mapsto> BBool True,
    ''invalidation_reason'' \<mapsto> BStr why, ''revision'' \<mapsto> BInt (int_of d ''revision'' + 1))"
  by (simp add: mark_stale_def update_conv')

lemma mark_stale_not_eligible: "\<not> eligible H s now (mark_stale why d)"
  by (simp add: eligible_def str_of_def map_of_mark_stale)

lemma mark_stale_keeps:
  "covers t (mark_stale why d) = covers t d"
  "map_of (mark_stale why d) ''seller_id'' = map_of d ''seller_id''"
  "int_of (mark_stale why d) ''revision'' = int_of d ''revision'' + 1"
  by (simp_all add: covers_def int_of_def [of "mark_stale why d"] map_of_mark_stale)

lemma eligible_seller: "eligible H s now d \<Longrightarrow> s \<noteq> [] \<Longrightarrow> map_of d ''seller_id'' = Some (BStr s)"
  by (auto simp: eligible_def str_of_def split: option.splits bson.splits)

lemma eligible_seller_nonempty: "eligible H s now d \<Longrightarrow> s \<noteq> []"
  by (auto simp: eligible_def certificate_identity_def split: if_splits)

lemma impact_dates_At: "At t \<in> set is \<Longrightarrow> t \<in> set (impact_dates is)"
  by (force simp: impact_dates_def)

lemma make_certificate_Inr:
  "make_certificate H i now = Inr d \<longleftrightarrow>
    (\<exists>ident. d = certificate_fields i ident now \<and>
      certificate_identity H (ci_seller_id i) (ci_kind i) (ci_source_identity i) = Inr ident \<and>
      ci_date_from i < ci_date_to i \<and> ci_date_to i \<le> ci_acquired_at i \<and> ci_acquired_at i \<le> now \<and>
      ci_acquisition_fingerprint i \<noteq> [] \<and> ci_membership_hash i \<noteq> [] \<and> ci_read_model_fingerprint i \<noteq> [] \<and>
      0 \<le> ci_expected_count i \<and> 0 \<le> ci_coverage_epoch i \<and>
      (ci_kind i = ''legacy_joint_snapshot'' \<or> or_str (ci_source_fingerprint i) [] \<noteq> []))"
  by (auto simp: make_certificate_def rbind_eq_Inr)

lemma certificate_fields_sel:
  "str_of (certificate_fields i ident now) ''_id'' = ident"
  "str_of (certificate_fields i ident now) ''seller_id'' = ci_seller_id i"
  "str_of (certificate_fields i ident now) ''kind'' = ci_kind i"
  "str_of (certificate_fields i ident now) ''source_identity'' = ci_source_identity i"
  "str_of (certificate_fields i ident now) ''source_fingerprint'' = or_str (ci_source_fingerprint i) []"
  "str_of (certificate_fields i ident now) ''state'' = ''reconciled''"
  "str_of (certificate_fields i ident now) ''current_membership_hash'' = ci_membership_hash i"
  "str_of (certificate_fields i ident now) ''current_read_model_fingerprint'' = ci_read_model_fingerprint i"
  "map_of (certificate_fields i ident now) ''source_fingerprint'' = Some (opt_str (ci_source_fingerprint i))"
  "map_of (certificate_fields i ident now) ''needs_reacquisition'' = Some (BBool False)"
  "date_of (certificate_fields i ident now) ''date_from'' = ci_date_from i"
  "date_of (certificate_fields i ident now) ''date_to'' = ci_date_to i"
  "date_of (certificate_fields i ident now) ''acquired_at'' = ci_acquired_at i"
  "date_of (certificate_fields i ident now) ''validated_at'' = now"
  "date_of (certificate_fields i ident now) ''valid_until'' = now + validity"
  by (simp_all add: certificate_fields_def str_of_def date_of_def opt_str_def or_str_def split: option.splits)

lemma certificate_fields_names: "fst ` set (certificate_fields i ident now) = fs_name ` set certificate_schema"
  by (simp add: certificate_fields_def certificate_schema_def text_field_def date_field_def count_field_def
      enum_field_def typed_field_def insert_commute)

lemma certificate_fields_checked:
  assumes "strip ident \<noteq> []" "strip (ci_seller_id i) \<noteq> []" "strip (ci_source_identity i) \<noteq> []"
    "strip (ci_acquisition_fingerprint i) \<noteq> []" "strip (ci_membership_hash i) \<noteq> []"
    "strip (ci_read_model_fingerprint i) \<noteq> []" "ci_kind i \<in> set kinds"
    "0 \<le> ci_expected_count i" "0 \<le> ci_coverage_epoch i"
  shows "check_fields (certificate_fields i ident now) certificate_schema = Inr ()"
proof -
  have len: "\<not> length (strip x) < Suc 0" if "strip x \<noteq> []" for x using that by simp
  have kind: "list_ex (bson_eq (BStr (ci_kind i))) (map BStr kinds)"
    using assms(7) by (auto simp: kinds_def bson_eq_def)
  show ?thesis
    using assms len kind
    by (simp add: certificate_fields_def certificate_schema_def check_field_def text_field_def date_field_def
        count_field_def enum_field_def typed_field_def type_matches_def below_minimum_def too_short_def
        bson_eq_def opt_str_def split: option.splits)
qed

text \<open>What an invalidation does to one certificate.\<close>

lemma invalidate_claim_impact_effect:
  assumes "mongo_collection M"
    and "invalidate_claim_impact M MF s cls why (certs, fresh) = (certs', fresh')"
    and "certs k = Some d"
  shows "\<exists>d'. certs' k = Some d' \<and>
    (claim_impact s cl = At t \<and> cl \<in> set cls \<and> covers t d \<longrightarrow> \<not> eligible H s now d') \<and>
    (Unknown \<in> claim_impact s ` set cls \<longrightarrow> \<not> eligible H s now d') \<and>
    (d' \<noteq> d \<longrightarrow> int_of d' ''revision'' = int_of d ''revision'' + 1 \<and>
       map_of d ''seller_id'' = Some (BStr s) \<and>
       (Unknown \<in> claim_impact s ` set cls \<or>
        (\<exists>cl \<in> set cls. \<exists>t. claim_impact s cl = At t \<and> covers t d)))"
proof -
  let ?is = "map (claim_impact s) cls"
  let ?unknown = "list_ex (\<lambda>i. i = Unknown) ?is"
  have unk: "?unknown \<longleftrightarrow> Unknown \<in> claim_impact s ` set cls" by (auto simp: list_ex_iff)
  have dates: "u \<in> set (impact_dates ?is) \<longleftrightarrow> (\<exists>cl \<in> set cls. claim_impact s cl = At u)" for u
    by (auto simp: impact_dates_def split: impact.splits) force
  define hit where "hit = (map_of d ''seller_id'' = Some (BStr s) \<and>
    (?unknown \<or> list_ex (\<lambda>t. covers t d) (impact_dates ?is)))"
  have "certs' k = Some (if hit then mark_stale (if ?unknown then ''unknown_impact'' else why) d else d)"
    using assms(2,3)
    by (auto simp: invalidate_claim_impact_def Let_def mongo_collection.update_many_law [OF assms(1)] hit_def
        split: if_splits)
  moreover have "\<not> eligible H s now d" if "map_of d ''seller_id'' \<noteq> Some (BStr s)"
    using that eligible_seller eligible_seller_nonempty by blast
  ultimately show ?thesis
    unfolding unk [symmetric]
    by (auto simp: hit_def list_ex_iff dates mark_stale_not_eligible mark_stale_keeps) blast
qed

definition usable_input :: "certificate_input \<Rightarrow> bool" where
  "usable_input i \<longleftrightarrow> strip (ci_seller_id i) \<noteq> [] \<and> strip (ci_source_identity i) \<noteq> [] \<and>
    strip (ci_acquisition_fingerprint i) \<noteq> [] \<and> strip (ci_membership_hash i) \<noteq> [] \<and>
    strip (ci_read_model_fingerprint i) \<noteq> [] \<and>
    (ci_kind i = ''legacy_joint_snapshot'' \<longrightarrow> ci_source_fingerprint i = None)"

lemma made_certificate_eligible:
  assumes "make_certificate H i now = Inr d" and "usable_input i" and "\<And>x. strip (H x) \<noteq> []"
  shows "eligible H (ci_seller_id i) t d \<longleftrightarrow> now \<le> t \<and> t < now + minutes 30"
proof -
  from assms(1) obtain ident where ident: "d = certificate_fields i ident now"
    "certificate_identity H (ci_seller_id i) (ci_kind i) (ci_source_identity i) = Inr ident"
    and b: "ci_date_from i < ci_date_to i" "ci_date_to i \<le> ci_acquired_at i" "ci_acquired_at i \<le> now"
      "ci_membership_hash i \<noteq> []" "ci_read_model_fingerprint i \<noteq> []" "0 \<le> ci_expected_count i" "0 \<le> ci_coverage_epoch i"
      "ci_kind i = ''legacy_joint_snapshot'' \<or> or_str (ci_source_fingerprint i) [] \<noteq> []"
    unfolding make_certificate_Inr by blast
  have "strip ident \<noteq> []" "ci_kind i \<in> set kinds"
    using ident(2) assms(3) by (auto simp: certificate_identity_def split: if_splits)
  with assms(2) b have chk: "check_fields d certificate_schema = Inr ()"
    unfolding ident(1) usable_input_def by (intro certificate_fields_checked) auto
  have "consistent_evidence H d t \<longleftrightarrow> now \<le> t"
    using b assms(2) ident(2) unfolding consistent_evidence_def ident(1) certificate_fields_sel usable_input_def
    by (auto simp: opt_str_def validity_def time_defs)
  then have "validate_certificate H d t = Inr () \<longleftrightarrow> now \<le> t"
    using chk unfolding validate_certificate_def ident(1) certificate_fields_names by simp
  then show ?thesis
    using b ident(2) unfolding eligible_def ident(1) certificate_fields_sel by (auto simp: validity_def)
qed

section \<open>Example certificates\<close>

definition demo_input :: "instant \<Rightarrow> instant \<Rightarrow> certificate_input" where
  "demo_input a b = \<lparr>ci_seller_id = ''7'', ci_kind = ''quota_run'', ci_source_identity = ''run'',
     ci_source_fingerprint = Some ''s'', ci_acquisition_fingerprint = ''a'', ci_date_from = a, ci_date_to = b,
     ci_acquired_at = b, ci_expected_count = 3, ci_membership_hash = ''m'', ci_read_model_fingerprint = ''f'',
     ci_coverage_epoch = 0\<rparr>"

definition demo_hash :: "string \<Rightarrow> string" where
  "demo_hash s = ''h''"

definition demo_cert :: "instant \<Rightarrow> instant \<Rightarrow> instant \<Rightarrow> fields" where
  "demo_cert a b now = certificate_fields (demo_input a b) ''h'' now"

lemma demo_cert_made: "a < b \<Longrightarrow> b \<le> now \<Longrightarrow> make_certificate demo_hash (demo_input a b) now = Inr (demo_cert a b now)"
  by (simp add: make_certificate_def demo_input_def certificate_identity_def kinds_def demo_hash_def or_str_def
      demo_cert_def)

lemma demo_usable: "usable_input (demo_input a b)"
  by (simp add: demo_input_def usable_input_def strip_def is_space_def)

lemma demo_hash_nonblank: "strip (demo_hash x) \<noteq> []"
  by (simp add: strip_def is_space_def demo_hash_def)

lemma demo_eligible:
  "a < b \<Longrightarrow> b \<le> now \<Longrightarrow> eligible demo_hash ''7'' t (demo_cert a b now) \<longleftrightarrow> now \<le> t \<and> t < now + minutes 30"
  using made_certificate_eligible [OF demo_cert_made demo_usable demo_hash_nonblank, of a b now t]
  by (simp add: demo_input_def)

lemma demo_covers: "covers t (demo_cert a b now) \<longleftrightarrow> a \<le> t \<and> t < b"
  by (simp add: covers_def demo_cert_def certificate_fields_def demo_input_def)

section \<open>Properties\<close>

text \<open>
  C11. A reader gets an interval exactly when it is certified: selection succeeds if and only if
  every instant from the start to before the end lies in an eligible certificate of the seller, and
  the certificates it returns are eligible ones that together hold every such instant. So a gap of
  any size fails, and nothing that is fully covered is refused.
\<close>

theorem select_coverage_exact:
  assumes "is_aware st" and "is_aware en" and "utc_of st < utc_of en"
  shows "((\<exists>sel. select_coverage H certs s st en now = Inr sel) \<longleftrightarrow>
      (\<forall>t. utc_of st \<le> t \<and> t < utc_of en \<longrightarrow> (\<exists>d \<in> set certs. eligible H s now d \<and> covers t d))) \<and>
    (\<forall>sel. select_coverage H certs s st en now = Inr sel \<longrightarrow>
      set sel \<subseteq> {d \<in> set certs. eligible H s now d} \<and>
      (\<forall>t. utc_of st \<le> t \<and> t < utc_of en \<longrightarrow> (\<exists>d \<in> set sel. covers t d)))"
proof (intro conjI allI impI)
  show "(\<exists>sel. select_coverage H certs s st en now = Inr sel) \<longleftrightarrow>
      (\<forall>t. utc_of st \<le> t \<and> t < utc_of en \<longrightarrow> (\<exists>d \<in> set certs. eligible H s now d \<and> covers t d))" (is "?L \<longleftrightarrow> ?R")
  proof
    show "?L \<Longrightarrow> ?R" using select_coverage_spec by blast
  next
    assume R: ?R
    obtain sel cursor where "cover_from (filter (eligible H s now) certs) (utc_of st) (utc_of en) = (sel, cursor)"
      by fastforce
    then have c: "coverage_prefix H certs s st en now = Inr (sel, min cursor (utc_of en))"
      using assms by (simp add: coverage_prefix_eq)
    from coverage_prefix_spec [OF c] R have "\<not> min cursor (utc_of en) < utc_of en" by blast
    with c show ?L by (simp add: select_coverage_def)
  qed
qed (use select_coverage_spec in blast)+

theorem select_coverage_exact_witness:
  "\<exists>sel. select_coverage demo_hash [demo_cert 0 10 30, demo_cert 8 20 30] ''7'' (Aware 2) (Aware 19) 40 = Inr sel"
proof -
  have "\<exists>d \<in> set [demo_cert 0 10 30, demo_cert 8 20 30]. eligible demo_hash ''7'' 40 d \<and> covers t d"
    if "2 \<le> t \<and> t < 19" for t
    using that by (cases "t < 10") (auto simp: demo_eligible demo_covers time_defs)
  with select_coverage_exact [of "Aware 2" "Aware 19" demo_hash "[demo_cert 0 10 30, demo_cert 8 20 30]" "''7''" 40]
  show ?thesis by simp
qed

text \<open>
  The longest certified prefix: the reach of a prefix selection is the first instant no eligible
  certificate holds, or the end; everything before it is covered by the returned proofs.
\<close>

theorem coverage_prefix_maximal:
  assumes "coverage_prefix H certs s st en now = Inr (sel, reach)"
  shows "utc_of st \<le> reach \<and> reach \<le> utc_of en \<and>
    (\<forall>t. utc_of st \<le> t \<and> t < reach \<longrightarrow> (\<exists>d \<in> set sel. eligible H s now d \<and> covers t d)) \<and>
    (reach < utc_of en \<longrightarrow> (\<forall>d \<in> set certs. eligible H s now d \<longrightarrow> \<not> covers reach d))"
  using coverage_prefix_spec [OF assms] by blast

theorem coverage_prefix_maximal_witness:
  "coverage_prefix demo_hash [demo_cert 0 10 30] ''7'' (Aware 2) (Aware 19) 40 = Inr ([demo_cert 0 10 30], 10) \<and>
    eligible demo_hash ''7'' 40 (demo_cert 0 10 30) \<and> covers 2 (demo_cert 0 10 30) \<and>
    covers 9 (demo_cert 0 10 30) \<and> \<not> covers 10 (demo_cert 0 10 30)"
proof -
  have "date_of (demo_cert 0 10 30) ''date_to'' = 10" by (simp add: demo_cert_def certificate_fields_sel demo_input_def)
  then have p: "coverage_prefix demo_hash [demo_cert 0 10 30] ''7'' (Aware 2) (Aware 19) 40 = Inr ([demo_cert 0 10 30], 10)"
    by (simp add: coverage_prefix_def demo_eligible time_defs cover_from.simps demo_covers)
  with coverage_prefix_maximal [OF p] show ?thesis by (simp add: demo_eligible time_defs)
qed

text \<open>
  A certificate built from usable input counts as a proof exactly from the instant it was
  validated and for the thirty minutes after it: before and after that it is not eligible.
\<close>

theorem certificate_lifetime:
  assumes "make_certificate H i now = Inr d" and "usable_input i" and "\<And>x. strip (H x) \<noteq> []"
  shows "eligible H (ci_seller_id i) t d \<longleftrightarrow> now \<le> t \<and> t < now + minutes 30"
  using assms by (rule made_certificate_eligible)

theorem certificate_lifetime_witness:
  "eligible demo_hash ''7'' 20 (demo_cert 0 10 20) \<and> \<not> eligible demo_hash ''7'' (minutes 30 + 20) (demo_cert 0 10 20)"
proof -
  have mk: "make_certificate demo_hash (demo_input 0 10) 20 = Inr (demo_cert 0 10 20)" by (simp add: demo_cert_made)
  have "ci_seller_id (demo_input 0 10) = ''7''" by (simp add: demo_input_def)
  with certificate_lifetime [OF mk demo_usable demo_hash_nonblank, of 20]
    certificate_lifetime [OF mk demo_usable demo_hash_nonblank, of "minutes 30 + 20"]
  show ?thesis by (simp add: time_defs)
qed

text \<open>
  A change to a claim takes every certificate it may affect out of use, and no other. When the
  impact of the changed claims is known, each certificate of the seller that holds the creation date
  of a changed return is stale with a new revision, and every other certificate is untouched; when
  it is not known, no certificate of the seller is eligible any more.
\<close>

theorem claim_change_invalidates:
  assumes "mongo_collection M"
    and "invalidate_claim_impact M MF s cls why (certs, fresh) = (certs', fresh')"
    and "certs k = Some d"
  shows "\<exists>d'. certs' k = Some d' \<and>
    (claim_impact s cl = At t \<and> cl \<in> set cls \<and> covers t d \<longrightarrow> \<not> eligible H s now d') \<and>
    (Unknown \<in> claim_impact s ` set cls \<longrightarrow> \<not> eligible H s now d') \<and>
    (d' \<noteq> d \<longrightarrow> int_of d' ''revision'' = int_of d ''revision'' + 1 \<and>
       map_of d ''seller_id'' = Some (BStr s) \<and>
       (Unknown \<in> claim_impact s ` set cls \<or>
        (\<exists>cl \<in> set cls. \<exists>t. claim_impact s cl = At t \<and> covers t d)))"
  using assms by (rule invalidate_claim_impact_effect)

definition demo_claim :: "instant \<Rightarrow> claim_doc" where
  "demo_claim t = \<lparr>cm_seller_id = ''7'', cm_type = Some (Some ''returns''), cm_date_created = Some (Naive t),
     cm_order_id = ''o'', cm_rest = []\<rparr>"

theorem claim_change_invalidates_witness:
  "\<exists>d'. fst (invalidate_claim_impact mem_mongo mem_mongo ''7'' [Some (demo_claim 5)] ''claim_mutation''
        ([''c'' \<mapsto> demo_cert 0 10 20], Map.empty)) ''c'' = Some d' \<and> \<not> eligible demo_hash ''7'' 20 d'"
proof -
  obtain certs' fresh' where i: "invalidate_claim_impact mem_mongo mem_mongo ''7'' [Some (demo_claim 5)] ''claim_mutation''
        ([''c'' \<mapsto> demo_cert 0 10 20], Map.empty) = (certs', fresh')" by fastforce
  have "claim_impact ''7'' (Some (demo_claim 5)) = At 5" by (simp add: claim_impact_def demo_claim_def)
  with claim_change_invalidates [OF mem.mongo_collection_axioms i, of "''c''" "demo_cert 0 10 20"
      "Some (demo_claim 5)" 5 demo_hash 20] i
  show ?thesis by (auto simp: demo_covers)
qed

end
