(* ===== verification/DevolucionesLease.thy ===== *)
theory DevolucionesLease
  imports Certificates
begin

text \<open>
  The fenced lease of the returns read model,
  \<^verbatim>\<open>core/src/zeler_platform_core/devoluciones_readiness.py\<close>: acquisition with its bounded retry,
  heartbeat, release, and the guarded write that every mutation goes through. The server is an
  argument (one set of collection operations per collection); a transaction is a function on the
  whole database whose result is discarded when it raises. Every command of a transaction sees its
  own server time.
\<close>

section \<open>Documents\<close>

type_synonym checkpoint = "(string \<times> string) list"

record operation_doc =
  op_seller_id :: string
  op_scope :: string
  op_operation_id :: string
  op_attempt_token :: string
  op_fence :: int
  op_coverage_mode :: "string option"
  op_coverage_epoch :: "int option"
  op_coverage_ack_fence :: "int option"
  op_state :: string
  op_lease_until :: instant
  op_heartbeat_at :: instant
  op_source_fingerprint :: "string option"
  op_checkpoint :: "checkpoint option"
  op_started_at :: instant
  op_updated_at :: instant
  op_finished_at :: "instant option"
  op_error_code :: "string option"

record operation_context =
  oc_seller_id :: string
  oc_scope :: string
  oc_operation_id :: string
  oc_attempt_token :: string
  oc_fence :: int
  oc_owns_lease :: bool
  oc_source_fingerprint :: "string option"
  oc_required_coverage_start :: "instant option"
  oc_required_coverage_end :: "instant option"
  oc_checkpoint :: checkpoint
  oc_lease_lost :: bool
  oc_coverage_mode :: string
  oc_coverage_epoch :: int

record order_doc =
  od_seller_id :: string
  od_rest :: string

record devol_db =
  db_operations :: "operation_doc coll"
  db_freshness :: "marker coll"
  db_certificates :: "fields coll"
  db_orders :: "order_doc coll"
  db_claims :: "claim_doc coll"
  db_runs :: "run_doc coll"
  db_windows :: "window_doc coll"

record devol_server =
  sv_operations :: "operation_doc mongo"
  sv_freshness :: "marker mongo"
  sv_certificates :: "fields mongo"
  sv_orders :: "order_doc mongo"
  sv_claims :: "claim_doc mongo"
  sv_runs :: "run_doc mongo"
  sv_windows :: "window_doc mongo"

record op_failure =
  of_code :: int
  of_transient :: bool
  of_unknown_commit :: bool

datatype devol_error =
    LeaseConflictError string
  | LeaseLostError string
  | ValueError string
  | OperationFailure op_failure
  | CoverageError coverage_error
  | WriterError string
  | AssertionError string

section \<open>Lease guard\<close>

definition lease_duration :: duration where
  "lease_duration = seconds 120"

definition operation_id_of :: "string \<Rightarrow> string \<Rightarrow> string" where
  "operation_id_of seller_id sc = seller_id @ '':'' @ sc"

definition oc_key :: "operation_context \<Rightarrow> string" where
  "oc_key oc = operation_id_of (oc_seller_id oc) (oc_scope oc)"

definition operation_lease_guard :: "operation_context \<Rightarrow> instant \<Rightarrow> operation_doc \<Rightarrow> bool" where
  "operation_lease_guard oc now d \<longleftrightarrow>
    op_seller_id d = oc_seller_id oc \<and> op_scope d = oc_scope oc \<and>
    op_operation_id d = oc_operation_id oc \<and> op_attempt_token d = oc_attempt_token oc \<and>
    op_fence d = oc_fence oc \<and> op_state d = ''running'' \<and> op_lease_until d > now"

definition required_identity :: "string \<Rightarrow> string \<Rightarrow> (devol_error, string) result" where
  "required_identity v field =
    (if strip v = [] then Inl (ValueError (field @ '' is required'')) else Inr (strip v))"

definition ensure_live_owner :: "operation_context \<Rightarrow> (devol_error, unit) result" where
  "ensure_live_owner oc =
    rbind (require (oc_owns_lease oc) (LeaseLostError ''nested operation does not own the lease'')) (\<lambda>_.
    rbind (require (\<not> oc_lease_lost oc) (LeaseLostError ''devoluciones operation lease was lost'')) (\<lambda>_.
    require (1 \<le> oc_fence oc) (LeaseLostError ''devoluciones operation fence is invalid'')))"

text \<open>\<^verbatim>\<open>stable_devoluciones_operation_id\<close>, with the hash as an argument.\<close>

definition stable_operation_id :: "(string \<Rightarrow> string) \<Rightarrow> string \<Rightarrow> string \<Rightarrow> (devol_error, string) result" where
  "stable_operation_id H writer_kind source_id =
    (let basis = strip writer_kind @ '':'' @ strip source_id in
     if basis = '':'' then Inl (ValueError ''operation identity basis must not be empty'') else Inr (H basis))"

text \<open>Whether a quota run may start another window now.\<close>

definition run_allows_advancement :: "run_doc option \<Rightarrow> operation_context \<Rightarrow> py_datetime \<Rightarrow> bool" where
  "run_allows_advancement run oc now = (case run of
     None \<Rightarrow> False
   | Some r \<Rightarrow> rd_authorization_id r \<noteq> [] \<and> rd_seller_id r = oc_seller_id oc \<and> rd_scope r = oc_scope oc \<and>
       rd_state r \<in> {''authorized'', ''active''} \<and> utc_of now < utc_of (rd_expires_at r) \<and>
       (case rd_not_before r of None \<Rightarrow> True | Some t \<Rightarrow> utc_of t \<le> utc_of now))"

definition takeover_checkpoint :: "operation_doc option \<Rightarrow> string option \<Rightarrow> checkpoint option" where
  "takeover_checkpoint existing fp = (case (fp, existing) of
     (Some f, Some d) \<Rightarrow> if op_source_fingerprint d = Some f then op_checkpoint d else None
   | _ \<Rightarrow> None)"

section \<open>Acquisition\<close>

record acquire_args =
  aq_seller_id :: string
  aq_scope :: string
  aq_operation_id :: string
  aq_attempt_token :: string
  aq_source_fingerprint :: "string option"
  aq_invalidate_readiness :: bool
  aq_require_coverage_compatible :: bool

definition marker_id :: "string \<Rightarrow> string" where
  "marker_id seller_id = seller_id @ '':devoluciones''"

definition marker_coverage :: "marker option \<Rightarrow> (instant \<times> instant) option" where
  "marker_coverage m = (case m of
     None \<Rightarrow> None
   | Some k \<Rightarrow> (case (mk_date_from k, mk_reconciled_until k) of
        (Some a, Some b) \<Rightarrow> if utc_of a < utc_of b then Some (utc_of a, utc_of b) else None
      | _ \<Rightarrow> None))"

definition stale_fields :: "string \<Rightarrow> string \<Rightarrow> string \<Rightarrow> string \<Rightarrow> instant \<Rightarrow> marker \<Rightarrow> marker" where
  "stale_fields seller_id model state source now m = m\<lparr>mk_seller_id := seller_id, mk_read_model := model,
     mk_state := state, mk_fresh_until := Some now, mk_valid_until := Some now, mk_updated_at := Some now,
     mk_source := Some source\<rparr>"

definition blank_marker :: marker where
  "blank_marker = \<lparr>mk_seller_id = [], mk_read_model = [], mk_state = [], mk_fresh_until = None,
     mk_valid_until = None, mk_updated_at = None, mk_source = None, mk_date_from = None, mk_reconciled_until = None\<rparr>"

text \<open>An upsert of the marker by \<^verbatim>\<open>_id\<close> alone.\<close>

definition set_marker ::
  "devol_server \<Rightarrow> string \<Rightarrow> string \<Rightarrow> string \<Rightarrow> string \<Rightarrow> instant \<Rightarrow> devol_db \<Rightarrow> devol_db" where
  "set_marker S seller_id model state source now db =
    (case upsert_one (sv_freshness S) (db_freshness db) (seller_id @ '':'' @ model) (\<lambda>_. True)
       (stale_fields seller_id model state source now)
       (stale_fields seller_id model state source now blank_marker) of
       Inl _ \<Rightarrow> db
     | Inr (_, c) \<Rightarrow> db\<lparr>db_freshness := c\<rparr>)"

definition lease_doc ::
  "acquire_args \<Rightarrow> int \<Rightarrow> string \<Rightarrow> int \<Rightarrow> checkpoint option \<Rightarrow> instant \<Rightarrow> operation_doc" where
  "lease_doc a fence mode epoch cp now = \<lparr>op_seller_id = strip (aq_seller_id a), op_scope = strip (aq_scope a),
     op_operation_id = strip (aq_operation_id a), op_attempt_token = strip (aq_attempt_token a), op_fence = fence,
     op_coverage_mode = Some mode, op_coverage_epoch = Some epoch, op_coverage_ack_fence = Some fence,
     op_state = ''running'', op_lease_until = now + lease_duration, op_heartbeat_at = now,
     op_source_fingerprint = aq_source_fingerprint a, op_checkpoint = cp, op_started_at = now, op_updated_at = now,
     op_finished_at = None, op_error_code = None\<rparr>"

text \<open>What the acquisition reads off the lease document it finds.\<close>

definition find_lease :: "devol_server \<Rightarrow> string \<Rightarrow> string \<Rightarrow> devol_db \<Rightarrow> operation_doc option" where
  "find_lease S seller sc db = find_one (sv_operations S) (db_operations db) (operation_id_of seller sc)
     (\<lambda>d. op_seller_id d = seller \<and> op_scope d = sc)"

definition next_fence :: "operation_doc option \<Rightarrow> int" where
  "next_fence existing = (case existing of None \<Rightarrow> 1 | Some d \<Rightarrow> op_fence d + 1)"

definition mode_of :: "operation_doc option \<Rightarrow> string" where
  "mode_of existing = (case existing of None \<Rightarrow> ''legacy'' | Some d \<Rightarrow>
     (case op_coverage_mode d of None \<Rightarrow> ''legacy'' | Some m \<Rightarrow> m))"

definition epoch_of :: "operation_doc option \<Rightarrow> int" where
  "epoch_of existing = (case existing of None \<Rightarrow> 0 | Some d \<Rightarrow>
     (case op_coverage_epoch d of None \<Rightarrow> 0 | Some n \<Rightarrow> n))"

definition acknowledged :: "operation_doc option \<Rightarrow> bool" where
  "acknowledged existing = (case existing of None \<Rightarrow> False | Some d \<Rightarrow> op_coverage_ack_fence d = Some (op_fence d))"

definition foreign_writer :: "operation_doc option \<Rightarrow> bool" where
  "foreign_writer existing \<longleftrightarrow> existing \<noteq> None \<and> mode_of existing = ''active'' \<and> \<not> acknowledged existing"

definition free_lease :: "operation_doc \<Rightarrow> instant \<Rightarrow> bool" where
  "free_lease d now \<longleftrightarrow> op_state d \<noteq> ''running'' \<or> op_lease_until d \<le> now"

text \<open>The conditional update of the lease document, \<open>None\<close> when it matched nothing or failed.\<close>

definition take_lease ::
  "devol_server \<Rightarrow> string \<Rightarrow> string \<Rightarrow> operation_doc option \<Rightarrow> operation_doc \<Rightarrow> instant \<Rightarrow> devol_db \<Rightarrow>
   operation_doc coll option" where
  "take_lease S seller sc existing doc now db = (case existing of
     None \<Rightarrow> (case upsert_one (sv_operations S) (db_operations db) (operation_id_of seller sc)
                (\<lambda>d. op_seller_id d = seller \<and> op_scope d = sc) (\<lambda>_. doc) doc of
                Inl _ \<Rightarrow> None | Inr (_, c) \<Rightarrow> Some c)
   | Some e \<Rightarrow> (case find_one_and_update (sv_operations S) (db_operations db) (operation_id_of seller sc)
                (\<lambda>d. op_seller_id d = seller \<and> op_scope d = sc \<and> op_fence d = op_fence e \<and> free_lease d now) (\<lambda>_. doc) of
                (None, _) \<Rightarrow> None | (Some _, c) \<Rightarrow> Some c))"

definition valid_marker :: "devol_server \<Rightarrow> string \<Rightarrow> instant \<Rightarrow> devol_db \<Rightarrow> marker option" where
  "valid_marker S seller now db = find_one (sv_freshness S) (db_freshness db) (marker_id seller)
     (\<lambda>m. mk_seller_id m = seller \<and> mk_read_model m = ''devoluciones'' \<and> mk_state m = ''reconciled'' \<and>
          (case mk_valid_until m of None \<Rightarrow> False | Some t \<Rightarrow> t > now))"

definition check_identities :: "acquire_args \<Rightarrow> (devol_error, string) result" where
  "check_identities a =
    rbind (required_identity (aq_seller_id a) ''seller_id'') (\<lambda>_.
    rbind (required_identity (aq_scope a) ''scope'') (\<lambda>_.
    rbind (required_identity (aq_operation_id a) ''operation_id'') (\<lambda>_.
    required_identity (aq_attempt_token a) ''attempt_token'')))"

definition context_of ::
  "acquire_args \<Rightarrow> operation_doc option \<Rightarrow> (instant \<times> instant) option \<Rightarrow> operation_context" where
  "context_of a existing coverage = \<lparr>oc_seller_id = strip (aq_seller_id a), oc_scope = strip (aq_scope a),
     oc_operation_id = strip (aq_operation_id a), oc_attempt_token = strip (aq_attempt_token a),
     oc_fence = next_fence existing, oc_owns_lease = True, oc_source_fingerprint = aq_source_fingerprint a,
     oc_required_coverage_start = map_option fst coverage, oc_required_coverage_end = map_option snd coverage,
     oc_checkpoint = (case takeover_checkpoint existing (aq_source_fingerprint a) of None \<Rightarrow> [] | Some x \<Rightarrow> x),
     oc_lease_lost = False, oc_coverage_mode = mode_of existing,
     oc_coverage_epoch = (if foreign_writer existing then epoch_of existing + 1 else epoch_of existing)\<rparr>"

text \<open>The statements of the acquisition transaction; \<open>now n\<close> is the server time of its \<open>n\<close>-th command.\<close>

definition acquire_body ::
  "devol_server \<Rightarrow> acquire_args \<Rightarrow> (nat \<Rightarrow> instant) \<Rightarrow> devol_db \<Rightarrow>
   (devol_error, operation_context) result \<times> devol_db" where
  "acquire_body S a now db =
    (case check_identities a of
       Inl e \<Rightarrow> (Inl e, db)
     | Inr _ \<Rightarrow>
      (let seller = strip (aq_seller_id a); sc = strip (aq_scope a);
           coverage = marker_coverage (valid_marker S seller (now 0) db);
           db1 = (if aq_invalidate_readiness a
                  then set_marker S seller ''devoluciones'' ''stale'' ''devoluciones_operation_acquire'' (now 1) db
                  else db);
           existing = find_lease S seller sc db1
       in if aq_require_coverage_compatible a \<and> (mode_of existing \<noteq> ''active'' \<or> \<not> acknowledged existing)
          then (Inl (LeaseConflictError ''renewal requires an acknowledged compatible fence''), db1)
          else
           let db2 = (if foreign_writer existing
                      then db1\<lparr>db_certificates := invalidate_all_certificates (sv_certificates S) seller
                             ''incompatible_writer'' (db_certificates db1)\<rparr>
                      else db1);
               oc = context_of a existing coverage;
               doc = lease_doc a (oc_fence oc) (oc_coverage_mode oc) (oc_coverage_epoch oc)
                       (takeover_checkpoint existing (aq_source_fingerprint a)) (now 2)
           in case take_lease S seller sc existing doc (now 2) db2 of
                None \<Rightarrow> (Inl (LeaseConflictError ''operation lease is already owned''), db2)
              | Some c \<Rightarrow> (Inr oc, db2\<lparr>db_operations := c\<rparr>)))"

text \<open>
  What the server may do to a transaction: nothing, fail a statement (the lease update's failure is
  reported as a conflict), or fail the commit, which may nevertheless have been applied when the
  failure carries the label of an unknown result.
\<close>

datatype txn_fault = NoFault | StatementFault op_failure | LeaseUpdateFault | CommitFault op_failure bool

definition acquire_once ::
  "devol_server \<Rightarrow> acquire_args \<Rightarrow> txn_fault \<Rightarrow> (nat \<Rightarrow> instant) \<Rightarrow> devol_db \<Rightarrow>
   (devol_error, operation_context) result \<times> devol_db" where
  "acquire_once S a fault now db =
    (case (acquire_body S a now db, fault) of
       ((Inl (ValueError e), _), _) \<Rightarrow> (Inl (ValueError e), db)
     | (_, StatementFault f) \<Rightarrow> (Inl (OperationFailure f), db)
     | ((Inl e, _), _) \<Rightarrow> (Inl e, db)
     | ((Inr oc, db'), NoFault) \<Rightarrow> (Inr oc, db')
     | ((Inr oc, db'), LeaseUpdateFault) \<Rightarrow> (Inl (LeaseConflictError ''operation lease is already owned''), db)
     | ((Inr oc, db'), CommitFault f applied) \<Rightarrow>
         (Inl (OperationFailure f), if of_unknown_commit f \<and> applied then db' else db))"

definition retryable_abort :: "op_failure \<Rightarrow> bool" where
  "retryable_abort f \<longleftrightarrow> of_code f = 112 \<and> of_transient f \<and> \<not> of_unknown_commit f"

function acquire_from ::
  "devol_server \<Rightarrow> acquire_args \<Rightarrow> (nat \<Rightarrow> txn_fault) \<Rightarrow> (nat \<Rightarrow> nat \<Rightarrow> instant) \<Rightarrow> nat \<Rightarrow> devol_db \<Rightarrow>
   (devol_error, operation_context) result \<times> devol_db" where
  "acquire_from S a faults now attempt db =
    (if 3 \<le> attempt then (Inl (AssertionError ''unreachable bounded transaction retry''), db)
     else case acquire_once S a (faults attempt) (now attempt) db of
       (Inl (OperationFailure f), db') \<Rightarrow>
          if attempt = 2 \<or> \<not> retryable_abort f then (Inl (OperationFailure f), db')
          else acquire_from S a faults now (attempt + 1) db'
     | (r, db') \<Rightarrow> (r, db'))"
  by pat_completeness auto
termination
  by (relation "measure (\<lambda>(_, _, _, _, attempt, _). 3 - attempt)") auto

declare acquire_from.simps [simp del]

definition acquire_operation ::
  "devol_server \<Rightarrow> acquire_args \<Rightarrow> (nat \<Rightarrow> txn_fault) \<Rightarrow> (nat \<Rightarrow> nat \<Rightarrow> instant) \<Rightarrow> devol_db \<Rightarrow>
   (devol_error, operation_context) result \<times> devol_db" where
  "acquire_operation S a faults now db = acquire_from S a faults now 0 db"

section \<open>Heartbeat and release\<close>

text \<open>An update through the guard: the document count tells whether the lease was still held.\<close>

definition guarded_update ::
  "devol_server \<Rightarrow> operation_context \<Rightarrow> instant \<Rightarrow> (operation_doc \<Rightarrow> operation_doc) \<Rightarrow> devol_db \<Rightarrow> bool \<times> devol_db" where
  "guarded_update S oc now u db =
    (case find_one_and_update (sv_operations S) (db_operations db) (oc_key oc) (operation_lease_guard oc now) u of
       (r, c) \<Rightarrow> (r \<noteq> None, db\<lparr>db_operations := c\<rparr>))"

definition heartbeat_operation ::
  "devol_server \<Rightarrow> instant \<Rightarrow> operation_context \<times> devol_db \<Rightarrow>
   (devol_error, unit) result \<times> operation_context \<times> devol_db" where
  "heartbeat_operation S now s = (case s of (oc, db) \<Rightarrow>
    (case ensure_live_owner oc of
       Inl e \<Rightarrow> (Inl e, oc, db)
     | Inr _ \<Rightarrow>
        (case guarded_update S oc now
           (\<lambda>d. d\<lparr>op_heartbeat_at := now, op_lease_until := now + lease_duration, op_updated_at := now\<rparr>) db of
           (True, db') \<Rightarrow> (Inr (), oc, db')
         | (False, db') \<Rightarrow>
            (Inl (LeaseLostError ''devoluciones operation heartbeat lost its lease''), oc\<lparr>oc_lease_lost := True\<rparr>, db'))))"

definition finish_operation ::
  "devol_server \<Rightarrow> bool \<Rightarrow> string option \<Rightarrow> instant \<Rightarrow> operation_context \<times> devol_db \<Rightarrow>
   (devol_error, unit) result \<times> operation_context \<times> devol_db" where
  "finish_operation S succeeded error_code now s = (case s of (oc, db) \<Rightarrow>
    (case ensure_live_owner oc of
       Inl e \<Rightarrow> (Inl e, oc, db)
     | Inr _ \<Rightarrow>
        (case guarded_update S oc now
           (\<lambda>d. d\<lparr>op_state := (if succeeded then ''succeeded'' else ''failed''), op_lease_until := now,
                  op_heartbeat_at := now, op_updated_at := now, op_finished_at := Some now,
                  op_error_code := (if succeeded then None else Some (or_str error_code ''operation_failed''))\<rparr>) db of
           (True, db') \<Rightarrow> (Inr (), oc, db')
         | (False, db') \<Rightarrow>
            (Inl (LeaseLostError ''devoluciones operation release lost its lease''), oc\<lparr>oc_lease_lost := True\<rparr>, db'))))"

section \<open>Guarded writes\<close>

datatype resource = OrderResource string | ClaimResource string

definition resource_of :: "checkpoint \<Rightarrow> resource option" where
  "resource_of cp =
    (if or_str (map_of cp ''order_id'') [] \<noteq> [] then Some (OrderResource (the (map_of cp ''order_id'')))
     else if or_str (map_of cp ''claim_id'') [] \<noteq> [] then Some (ClaimResource (the (map_of cp ''claim_id'')))
     else None)"

text \<open>The order or claim whose certificates the write has to look after.\<close>

definition tracked_resource :: "operation_context \<Rightarrow> checkpoint \<Rightarrow> bool \<Rightarrow> resource option" where
  "tracked_resource oc cp handled =
    (if oc_coverage_mode oc = ''active'' \<and> \<not> handled then resource_of cp else None)"

definition read_order :: "devol_server \<Rightarrow> string \<Rightarrow> string \<Rightarrow> devol_db \<Rightarrow> order_doc option" where
  "read_order S seller_id i db = find_one (sv_orders S) (db_orders db) i (\<lambda>d. od_seller_id d = seller_id)"

definition read_claim :: "devol_server \<Rightarrow> string \<Rightarrow> string \<Rightarrow> devol_db \<Rightarrow> claim_doc option" where
  "read_claim S seller_id i db = find_one (sv_claims S) (db_claims db) i (\<lambda>d. cm_seller_id d = seller_id)"

text \<open>The certificates and the marker a changed order or claim affects.\<close>

definition invalidate_changed ::
  "devol_server \<Rightarrow> string \<Rightarrow> resource option \<Rightarrow> devol_db \<Rightarrow> devol_db \<Rightarrow> devol_db" where
  "invalidate_changed S seller_id res before after = (case res of
     None \<Rightarrow> after
   | Some (OrderResource i) \<Rightarrow>
       if read_order S seller_id i before = read_order S seller_id i after then after
       else (case invalidate_claim_impact (sv_certificates S) (sv_freshness S) seller_id
               (map Some (find_many (sv_claims S) (db_claims after) (\<lambda>d. cm_seller_id d = seller_id \<and> cm_order_id d = i)))
               ''order_mutation'' (db_certificates after, db_freshness after) of
               (c, f) \<Rightarrow> after\<lparr>db_certificates := c, db_freshness := f\<rparr>)
   | Some (ClaimResource i) \<Rightarrow>
       if read_claim S seller_id i before = read_claim S seller_id i after then after
       else (case invalidate_claim_impact (sv_certificates S) (sv_freshness S) seller_id
               [read_claim S seller_id i before, read_claim S seller_id i after]
               ''claim_mutation'' (db_certificates after, db_freshness after) of
               (c, f) \<Rightarrow> after\<lparr>db_certificates := c, db_freshness := f\<rparr>))"

definition guarded_body ::
  "devol_server \<Rightarrow> operation_context \<Rightarrow> checkpoint \<Rightarrow> (devol_db \<Rightarrow> (devol_error, 'r) result \<times> devol_db) \<Rightarrow> bool \<Rightarrow>
   instant \<Rightarrow> instant \<Rightarrow> devol_db \<Rightarrow> (devol_error, 'r) result \<times> bool \<times> devol_db" where
  "guarded_body S oc cp writer handled now now' db =
    (case guarded_update S oc now (\<lambda>d. d\<lparr>op_checkpoint := Some cp, op_updated_at := now\<rparr>) db of
       (False, db1) \<Rightarrow> (Inl (LeaseLostError ''devoluciones operation lease guard failed''), True, db1)
     | (True, db1) \<Rightarrow>
        (case writer db1 of
           (Inl e, db2) \<Rightarrow> (Inl e, False, db2)
         | (Inr v, db2) \<Rightarrow>
            (let db3 = invalidate_changed S (oc_seller_id oc) (tracked_resource oc cp handled) db1 db2 in
             if oc_coverage_mode oc = ''active'' \<or> map_of cp ''phase'' = Some ''certificate_migration''
             then (case guarded_update S oc now' (\<lambda>d. d\<lparr>op_updated_at := now'\<rparr>) db3 of
                     (True, db4) \<Rightarrow> (Inr v, False, db4)
                   | (False, db4) \<Rightarrow>
                      (Inl (LeaseLostError ''certificate transaction lost its lease before commit''), True, db4))
             else (Inr v, False, db3))))"

text \<open>The write in a transaction of its own: an exception rolls it back.\<close>

definition guarded_write ::
  "devol_server \<Rightarrow> string \<Rightarrow> checkpoint \<Rightarrow> (devol_db \<Rightarrow> (devol_error, 'r) result \<times> devol_db) \<Rightarrow> bool \<Rightarrow>
   instant \<Rightarrow> instant \<Rightarrow> operation_context \<times> devol_db \<Rightarrow>
   (devol_error, 'r) result \<times> operation_context \<times> devol_db" where
  "guarded_write S seller_id cp writer handled now now' s = (case s of (oc, db) \<Rightarrow>
    (case ensure_live_owner oc of
       Inl e \<Rightarrow> (Inl e, oc, db)
     | Inr _ \<Rightarrow>
        (case required_identity seller_id ''seller_id'' of
           Inl e \<Rightarrow> (Inl e, oc, db)
         | Inr sid \<Rightarrow>
            if sid \<noteq> oc_seller_id oc
            then (Inl (LeaseLostError ''mutation seller does not match operation seller''), oc, db)
            else (case guarded_body S oc cp writer handled now now' db of
                    (Inl e, lost, _) \<Rightarrow> (Inl e, oc\<lparr>oc_lease_lost := oc_lease_lost oc \<or> lost\<rparr>, db)
                  | (Inr v, _, db') \<Rightarrow> (Inr v, oc, db')))))"

definition invalidate_readiness ::
  "devol_server \<Rightarrow> string \<Rightarrow> instant \<Rightarrow> instant \<Rightarrow> operation_context \<times> devol_db \<Rightarrow>
   (devol_error, unit) result \<times> operation_context \<times> devol_db" where
  "invalidate_readiness S source now now' s = (case s of (oc, db) \<Rightarrow>
    guarded_write S (oc_seller_id oc) [(''phase'', ''readiness_invalidation''), (''source'', source)]
      (\<lambda>d. let d1 = (if oc_coverage_mode oc = ''active'' \<and> source \<noteq> ''devoluciones_relevant_order_event''
                     then d\<lparr>db_certificates := invalidate_all_certificates (sv_certificates S) (oc_seller_id oc)
                            ''explicit_invalidation'' (db_certificates d)\<rparr>
                     else d)
           in (Inr (), set_marker S (oc_seller_id oc) ''devoluciones'' ''stale'' source now d1))
      False now now' (oc, db))"

section \<open>Facts\<close>

text \<open>The retry loop commits at most one acquisition.\<close>

lemma acquire_once_Inr: "acquire_once S a fault now db = (Inr oc, db') \<Longrightarrow> acquire_body S a now db = (Inr oc, db')"
  by (auto simp: acquire_once_def split: prod.splits sum.splits devol_error.splits txn_fault.splits)

lemma acquire_once_Inl:
  "acquire_once S a fault now db = (Inl e, db') \<Longrightarrow>
    (db' = db \<or> (\<exists>f oc. e = OperationFailure f \<and> of_unknown_commit f \<and> acquire_body S a now db = (Inr oc, db')))"
  by (auto simp: acquire_once_def split: prod.splits sum.splits devol_error.splits txn_fault.splits if_splits)

lemma acquire_body_error: "acquire_body S a now db = (Inl e, db') \<Longrightarrow> e \<noteq> AssertionError m \<and> e \<noteq> OperationFailure f"
  by (auto simp: acquire_body_def check_identities_def required_identity_def rbind_def Let_def
      split: sum.splits if_splits option.splits)

lemma acquire_once_no_assertion: "acquire_once S a fault now db = (Inl e, db') \<Longrightarrow> e \<noteq> AssertionError m"
  using acquire_body_error [of S a now db]
  by (auto simp: acquire_once_def split: prod.splits sum.splits devol_error.splits txn_fault.splits if_splits)

lemma acquire_from_spec:
  assumes "acquire_from S a faults now attempt db = (r, db')" and "attempt < 3"
  shows "(\<forall>oc. r = Inr oc \<longrightarrow> (\<exists>i < 3. acquire_body S a (now i) db = (Inr oc, db'))) \<and>
    (\<forall>e. r = Inl e \<longrightarrow> (\<forall>m. e \<noteq> AssertionError m) \<and> (db' = db \<or>
       (\<exists>f oc. \<exists>i < 3. e = OperationFailure f \<and> of_unknown_commit f \<and> acquire_body S a (now i) db = (Inr oc, db'))))"
  using assms
proof (induction S a faults now attempt db rule: acquire_from.induct)
  case (1 S a faults now attempt db)
  obtain r1 db1 where o: "acquire_once S a (faults attempt) (now attempt) db = (r1, db1)" by fastforce
  show ?case
  proof (cases "\<exists>f. r1 = Inl (OperationFailure f) \<and> attempt \<noteq> 2 \<and> retryable_abort f")
    case False
    then have "r = r1" "db' = db1"
      using 1(2,3) o by (auto simp: acquire_from.simps [of S a faults now attempt db] split: sum.splits devol_error.splits if_splits)
    with o 1(3) show ?thesis
      by (auto dest: acquire_once_Inr acquire_once_Inl acquire_once_no_assertion)
  next
    case True
    then obtain f where f: "r1 = Inl (OperationFailure f)" "attempt \<noteq> 2" "retryable_abort f" by blast
    with acquire_once_Inl [OF o [unfolded f(1)]] have db1: "db1 = db" by (auto simp: retryable_abort_def)
    have "acquire_from S a faults now (attempt + 1) db = (r, db')"
      using 1(2,3) o f db1 by (simp add: acquire_from.simps [of S a faults now attempt db])
    with 1 o f db1 show ?thesis by auto
  qed
qed

locale devol_server_ok =
  fixes S :: devol_server
  assumes operations_ok: "mongo_collection (sv_operations S)"
    and freshness_ok: "mongo_collection (sv_freshness S)"
    and certificates_ok: "mongo_collection (sv_certificates S)"
    and orders_ok: "mongo_collection (sv_orders S)"
    and claims_ok: "mongo_collection (sv_claims S)"
    and runs_ok: "mongo_collection (sv_runs S)"
    and windows_ok: "mongo_collection (sv_windows S)"
begin

lemmas operations_laws = mongo_collection.find_one_law [OF operations_ok]
  mongo_collection.find_one_and_update_law [OF operations_ok] mongo_collection.upsert_one_law [OF operations_ok]

lemma guarded_update_eq:
  "guarded_update S oc now u db =
    (if matches (db_operations db) (oc_key oc) (operation_lease_guard oc now)
     then (True, db\<lparr>db_operations := (db_operations db)(oc_key oc \<mapsto> u (the (db_operations db (oc_key oc))))\<rparr>)
     else (False, db))"
  by (simp add: guarded_update_def operations_laws)

lemma set_marker_keeps [simp]:
  "db_operations (set_marker S s m st src now db) = db_operations db"
  "db_certificates (set_marker S s m st src now db) = db_certificates db"
  "db_claims (set_marker S s m st src now db) = db_claims db"
  by (simp_all add: set_marker_def split: sum.splits prod.splits)

lemma set_marker_stale:
  "\<exists>m. db_freshness (set_marker S s model st src now db) (s @ '':'' @ model) = Some m \<and> mk_state m = st \<and>
    mk_valid_until m = Some now"
  by (auto simp: set_marker_def mongo_collection.upsert_one_law [OF freshness_ok] matches_def stale_fields_def
      split: option.splits)

text \<open>What the acquisition transaction does when it succeeds.\<close>

lemma context_of_sel:
  "oc_fence (context_of a ex cov) = next_fence ex"
  "oc_coverage_mode (context_of a ex cov) = mode_of ex"
  "oc_coverage_epoch (context_of a ex cov) = (if foreign_writer ex then epoch_of ex + 1 else epoch_of ex)"
  by (simp_all add: context_of_def)

lemma find_lease_eq: "find_lease S seller sc db =
    (case db_operations db (operation_id_of seller sc) of None \<Rightarrow> None
     | Some d \<Rightarrow> if op_seller_id d = seller \<and> op_scope d = sc then Some d else None)"
  by (simp add: find_lease_def operations_laws matches_def split: option.splits)

lemma take_lease_Some:
  assumes "take_lease S seller sc (find_lease S seller sc db) doc now db = Some c"
  shows "c = (db_operations db)(operation_id_of seller sc \<mapsto> doc) \<and>
    (case db_operations db (operation_id_of seller sc) of
       None \<Rightarrow> find_lease S seller sc db = None
     | Some d \<Rightarrow> find_lease S seller sc db = Some d \<and> free_lease d now)"
proof (cases "db_operations db (operation_id_of seller sc)")
  case None
  with assms show ?thesis by (simp add: take_lease_def find_lease_eq operations_laws)
next
  case (Some d)
  with assms show ?thesis
    by (auto simp: take_lease_def find_lease_eq operations_laws split: if_splits)
qed

text \<open>What the acquisition transaction does when it succeeds.\<close>

lemma acquire_body_Inr:
  assumes "acquire_body S a now db = (Inr oc, db')"
  defines "key \<equiv> operation_id_of (strip (aq_seller_id a)) (strip (aq_scope a))"
  shows "oc_key oc = key" and "oc_seller_id oc = strip (aq_seller_id a)" and "oc_owns_lease oc" and "\<not> oc_lease_lost oc"
    and "case db_operations db key of None \<Rightarrow> oc_fence oc = 1 | Some d \<Rightarrow> oc_fence oc = op_fence d + 1 \<and> free_lease d (now 2)"
    and "\<exists>d'. db_operations db' = (db_operations db)(key \<mapsto> d') \<and> op_fence d' = oc_fence oc \<and>
      (\<forall>t. operation_lease_guard oc t d' \<longleftrightarrow> t < now 2 + seconds 120)"
    and "aq_invalidate_readiness a \<Longrightarrow>
      \<exists>m. db_freshness db' (marker_id (strip (aq_seller_id a))) = Some m \<and> mk_state m = ''stale''"
proof -
  let ?s = "strip (aq_seller_id a)" and ?sc = "strip (aq_scope a)"
  define db1 where "db1 = (if aq_invalidate_readiness a
    then set_marker S ?s ''devoluciones'' ''stale'' ''devoluciones_operation_acquire'' (now 1) db else db)"
  define ex where "ex = find_lease S ?s ?sc db1"
  define db2 where "db2 = (if foreign_writer ex
    then db1\<lparr>db_certificates := invalidate_all_certificates (sv_certificates S) ?s ''incompatible_writer'' (db_certificates db1)\<rparr>
    else db1)"
  define doc where "doc = lease_doc a (next_fence ex) (mode_of ex)
    (if foreign_writer ex then epoch_of ex + 1 else epoch_of ex) (takeover_checkpoint ex (aq_source_fingerprint a)) (now 2)"
  have ops: "db_operations db1 = db_operations db" "db_operations db2 = db_operations db"
    by (simp_all add: db1_def db2_def)
  have ex2: "ex = find_lease S ?s ?sc db2" by (simp add: ex_def find_lease_eq ops)
  have "acquire_body S a now db = (case check_identities a of Inl e \<Rightarrow> (Inl e, db) | Inr _ \<Rightarrow>
      if aq_require_coverage_compatible a \<and> (mode_of ex \<noteq> ''active'' \<or> \<not> acknowledged ex)
      then (Inl (LeaseConflictError ''renewal requires an acknowledged compatible fence''), db1)
      else case take_lease S ?s ?sc ex doc (now 2) db2 of
        None \<Rightarrow> (Inl (LeaseConflictError ''operation lease is already owned''), db2)
      | Some c \<Rightarrow> (Inr (context_of a ex (marker_coverage (valid_marker S ?s (now 0) db))), db2\<lparr>db_operations := c\<rparr>))"
    unfolding acquire_body_def Let_def context_of_sel db1_def ex_def db2_def doc_def by (rule refl)
  then obtain c where c: "take_lease S ?s ?sc ex doc (now 2) db2 = Some c" "db' = db2\<lparr>db_operations := c\<rparr>"
    and oc: "oc = context_of a ex (marker_coverage (valid_marker S ?s (now 0) db))"
    using assms(1) by (auto split: sum.splits if_splits option.splits)
  from take_lease_Some [of ?s ?sc db2 doc "now 2" c, folded ex2, OF c(1)] have take: "c = (db_operations db)(key \<mapsto> doc)"
    "case db_operations db key of None \<Rightarrow> ex = None | Some d \<Rightarrow> ex = Some d \<and> free_lease d (now 2)"
    unfolding ops key_def by blast+
  show "oc_key oc = key" "oc_seller_id oc = ?s" "oc_owns_lease oc" "\<not> oc_lease_lost oc"
    by (simp_all add: oc context_of_def oc_key_def key_def)
  show "case db_operations db key of None \<Rightarrow> oc_fence oc = 1 | Some d \<Rightarrow> oc_fence oc = op_fence d + 1 \<and> free_lease d (now 2)"
    using take(2) by (auto simp: oc context_of_def next_fence_def split: option.splits)
  show "\<exists>d'. db_operations db' = (db_operations db)(key \<mapsto> d') \<and> op_fence d' = oc_fence oc \<and>
      (\<forall>t. operation_lease_guard oc t d' \<longleftrightarrow> t < now 2 + seconds 120)"
    by (rule exI [of _ doc])
      (auto simp: c(2) take(1) oc context_of_def doc_def lease_doc_def operation_lease_guard_def lease_duration_def)
  show "\<exists>m. db_freshness db' (marker_id ?s) = Some m \<and> mk_state m = ''stale''" if "aq_invalidate_readiness a"
    using set_marker_stale [of ?s "''devoluciones''" "''stale''" "''devoluciones_operation_acquire''" "now 1" db] that
    by (auto simp: c(2) db2_def db1_def marker_id_def)
qed

end

text \<open>
  What the database goes through: acquisitions, heartbeats, releases and guarded writes by any
  number of holders, whose writers do not touch the lease documents, and any other change that
  leaves those alone.
\<close>

definition leaves_leases :: "(devol_db \<Rightarrow> (devol_error, 'r) result \<times> devol_db) \<Rightarrow> bool" where
  "leaves_leases w \<longleftrightarrow> (\<forall>db. db_operations (snd (w db)) = db_operations db)"

inductive devol_steps :: "devol_server \<Rightarrow> devol_db \<Rightarrow> devol_db \<Rightarrow> bool" for S where
  devol_refl: "devol_steps S db db"
| devol_acquire: "devol_steps S db db1 \<Longrightarrow> devol_steps S db (snd (acquire_operation S a faults now db1))"
| devol_beat: "devol_steps S db db1 \<Longrightarrow> devol_steps S db (snd (snd (heartbeat_operation S t (oc, db1))))"
| devol_finish: "devol_steps S db db1 \<Longrightarrow> devol_steps S db (snd (snd (finish_operation S ok code t (oc, db1))))"
| devol_write: "devol_steps S db db1 \<Longrightarrow> leaves_leases (w :: devol_db \<Rightarrow> (devol_error, unit) result \<times> devol_db) \<Longrightarrow>
    devol_steps S db (snd (snd (guarded_write S seller cp w handled t t' (oc, db1))))"
| devol_other: "devol_steps S db db1 \<Longrightarrow> db_operations db2 = db_operations db1 \<Longrightarrow> devol_steps S db db2"

text \<open>The fence of a lease document never goes back, and a new owner always has a new fence.\<close>

definition fence_order :: "operation_doc coll \<Rightarrow> operation_doc coll \<Rightarrow> bool" where
  "fence_order c c' \<longleftrightarrow> (\<forall>k d. c k = Some d \<longrightarrow> (\<exists>d'. c' k = Some d' \<and> op_fence d \<le> op_fence d' \<and>
     (op_fence d' = op_fence d \<longrightarrow> op_operation_id d' = op_operation_id d \<and> op_attempt_token d' = op_attempt_token d)))"

lemma fence_order_refl [simp]: "fence_order c c"
  by (simp add: fence_order_def)

lemma fence_order_trans:
  assumes "fence_order a b" and "fence_order b c"
  shows "fence_order a c"
  unfolding fence_order_def
proof (intro allI impI)
  fix k d assume "a k = Some d"
  with assms(1) obtain e where e: "b k = Some e" "op_fence d \<le> op_fence e"
    "op_fence e = op_fence d \<longrightarrow> op_operation_id e = op_operation_id d \<and> op_attempt_token e = op_attempt_token d"
    unfolding fence_order_def by blast
  with assms(2) obtain f where "c k = Some f" "op_fence e \<le> op_fence f"
    "op_fence f = op_fence e \<longrightarrow> op_operation_id f = op_operation_id e \<and> op_attempt_token f = op_attempt_token e"
    unfolding fence_order_def by blast
  with e show "\<exists>d'. c k = Some d' \<and> op_fence d \<le> op_fence d' \<and>
      (op_fence d' = op_fence d \<longrightarrow> op_operation_id d' = op_operation_id d \<and> op_attempt_token d' = op_attempt_token d)"
    by (intro exI [of _ f]) auto
qed

lemma fence_order_upd:
  "(\<And>d. c k = Some d \<Longrightarrow> op_fence d < op_fence d' \<or>
      op_fence d' = op_fence d \<and> op_operation_id d' = op_operation_id d \<and> op_attempt_token d' = op_attempt_token d)
    \<Longrightarrow> fence_order c (c(k \<mapsto> d'))"
  by (force simp: fence_order_def)

context devol_server_ok
begin

lemma acquire_fences: "fence_order (db_operations db) (db_operations (snd (acquire_operation S a faults now db)))"
proof -
  obtain r db' where r: "acquire_operation S a faults now db = (r, db')" by fastforce
  then have cases: "db' = db \<or> (\<exists>i oc. acquire_body S a (now i) db = (Inr oc, db'))"
    using acquire_from_spec [of S a faults now 0 db r db'] by (cases r) (auto simp: acquire_operation_def)
  have "fence_order (db_operations db) (db_operations db')" if b: "acquire_body S a (now i) db = (Inr oc, db')" for i oc
  proof -
    from acquire_body_Inr(5,6) [OF b] obtain d' where
      d': "db_operations db' = (db_operations db)(operation_id_of (strip (aq_seller_id a)) (strip (aq_scope a)) \<mapsto> d')"
        "op_fence d' = oc_fence oc"
      and f: "case db_operations db (operation_id_of (strip (aq_seller_id a)) (strip (aq_scope a))) of
        None \<Rightarrow> oc_fence oc = 1 | Some d \<Rightarrow> oc_fence oc = op_fence d + 1 \<and> free_lease d (now i 2)"
      by blast
    show ?thesis unfolding d'(1) using d'(2) f by (intro fence_order_upd) auto
  qed
  with cases r show ?thesis by auto
qed

lemma guarded_update_fences:
  assumes "\<And>d. op_fence (u d) = op_fence d \<and> op_operation_id (u d) = op_operation_id d \<and> op_attempt_token (u d) = op_attempt_token d"
  shows "fence_order (db_operations db) (db_operations (snd (guarded_update S oc now u db)))"
  using assms by (auto simp: guarded_update_eq matches_def intro!: fence_order_upd split: option.splits)

lemma invalidate_changed_ops [simp]: "db_operations (invalidate_changed S s res b a) = db_operations a"
  by (simp add: invalidate_changed_def split: option.splits resource.splits prod.splits)

lemma guarded_body_fences:
  assumes "leaves_leases w"
  shows "fence_order (db_operations db) (db_operations (snd (snd (guarded_body S oc cp w handled t t' db))))"
proof -
  let ?u = "\<lambda>d. d\<lparr>op_checkpoint := Some cp, op_updated_at := t\<rparr>"
  obtain b1 db1 where g1: "guarded_update S oc t ?u db = (b1, db1)" by fastforce
  have f1: "fence_order (db_operations db) (db_operations db1)"
    using guarded_update_fences [of ?u db oc t] g1 by simp
  obtain r db2 where w: "w db1 = (r, db2)" by fastforce
  have ops2: "db_operations db2 = db_operations db1" using assms w by (metis leaves_leases_def snd_conv)
  define db3 where "db3 = invalidate_changed S (oc_seller_id oc) (tracked_resource oc cp handled) db1 db2"
  have ops3: "db_operations db3 = db_operations db1" by (simp add: db3_def ops2)
  obtain b4 db4 where g4: "guarded_update S oc t' (\<lambda>d. d\<lparr>op_updated_at := t'\<rparr>) db3 = (b4, db4)" by fastforce
  have f4: "fence_order (db_operations db1) (db_operations db4)"
    using guarded_update_fences [of "\<lambda>d. d\<lparr>op_updated_at := t'\<rparr>" db3 oc t'] g4 by (simp add: ops3)
  have "snd (snd (guarded_body S oc cp w handled t t' db)) \<in> {db1, db2, db3, db4}"
    unfolding guarded_body_def Let_def g1
    by (cases b1; cases r; cases b4) (simp_all add: w db3_def [symmetric] g4)
  then have "db_operations (snd (snd (guarded_body S oc cp w handled t t' db))) \<in> {db_operations db1, db_operations db4}"
    using ops2 ops3 by auto
  then show ?thesis using f1 fence_order_trans [OF f1 f4] by auto
qed

lemma guarded_write_fences:
  assumes "leaves_leases w"
  shows "fence_order (db_operations db) (db_operations (snd (snd (guarded_write S s cp w handled t t' (oc, db)))))"
  using guarded_body_fences [OF assms, of db oc cp handled t t']
  by (auto simp: guarded_write_def split: sum.splits prod.splits)

lemma devol_steps_fences: "devol_steps S db db' \<Longrightarrow> fence_order (db_operations db) (db_operations db')"
proof (induction rule: devol_steps.induct)
  case (devol_beat db db1 t oc)
  have "fence_order (db_operations db1) (db_operations (snd (snd (heartbeat_operation S t (oc, db1)))))"
    using guarded_update_fences [of "\<lambda>d. d\<lparr>op_heartbeat_at := t, op_lease_until := t + lease_duration, op_updated_at := t\<rparr>" db1 oc t]
    by (auto simp: heartbeat_operation_def split: sum.splits prod.splits bool.splits)
  with devol_beat show ?case by (blast intro: fence_order_trans)
next
  case (devol_finish db db1 ok code t oc)
  have "fence_order (db_operations db1) (db_operations (snd (snd (finish_operation S ok code t (oc, db1)))))"
    using guarded_update_fences [of "\<lambda>d. d\<lparr>op_state := (if ok then ''succeeded'' else ''failed''), op_lease_until := t,
                  op_heartbeat_at := t, op_updated_at := t, op_finished_at := Some t,
                  op_error_code := (if ok then None else Some (or_str code ''operation_failed''))\<rparr>" db1 oc t]
    by (auto simp: finish_operation_def split: sum.splits prod.splits bool.splits)
  with devol_finish show ?case by (blast intro: fence_order_trans)
qed (auto intro: fence_order_trans acquire_fences guarded_write_fences)

text \<open>A context whose fence is no longer the one in force gets nothing through.\<close>

lemma fenced_guard: "db_operations db (oc_key oc) = Some d \<Longrightarrow> op_fence d \<noteq> oc_fence oc \<Longrightarrow>
    guarded_update S oc t u db = (False, db)"
  by (auto simp: guarded_update_eq operation_lease_guard_def)

lemma fenced_write:
  assumes "db_operations db (oc_key oc) = Some d" and "op_fence d \<noteq> oc_fence oc"
  shows "\<exists>e oc'. guarded_write S s cp w handled t t' (oc, db) = (Inl e, oc', db)"
  using fenced_guard [OF assms]
  by (auto simp: guarded_write_def guarded_body_def split: sum.splits)

lemma guarded_update_True:
  "guarded_update S oc t u db = (True, db') \<Longrightarrow>
    \<exists>d. db_operations db (oc_key oc) = Some d \<and> operation_lease_guard oc t d \<and>
      db' = db\<lparr>db_operations := (db_operations db)(oc_key oc \<mapsto> u d)\<rparr>"
  by (auto simp: guarded_update_eq elim!: matchesE split: if_splits)

lemma guarded_write_Inr:
  assumes "guarded_write S s cp w handled t t' (oc, db) = (Inr v, oc', db')"
  shows "\<exists>d db1 db2. db_operations db (oc_key oc) = Some d \<and> operation_lease_guard oc t d \<and>
    db1 = db\<lparr>db_operations := (db_operations db)(oc_key oc \<mapsto> d\<lparr>op_checkpoint := Some cp, op_updated_at := t\<rparr>)\<rparr> \<and>
    w db1 = (Inr v, db2) \<and>
    (\<exists>c. db' = (invalidate_changed S (oc_seller_id oc) (tracked_resource oc cp handled) db1 db2)\<lparr>db_operations := c\<rparr>) \<and>
    (oc_coverage_mode oc = ''active'' \<longrightarrow> (\<exists>d'. db_operations db2 (oc_key oc) = Some d' \<and> operation_lease_guard oc t' d'))"
proof -
  let ?u = "\<lambda>d. d\<lparr>op_checkpoint := Some cp, op_updated_at := t\<rparr>"
  have body: "\<exists>lost. guarded_body S oc cp w handled t t' db = (Inr v, lost, db')"
    using assms by (auto simp: guarded_write_def split: sum.splits if_splits prod.splits)
  then obtain db1 where g1: "guarded_update S oc t ?u db = (True, db1)"
    by (auto simp: guarded_body_def split: prod.splits bool.splits)
  from guarded_update_True [OF g1] obtain d where d: "db_operations db (oc_key oc) = Some d" "operation_lease_guard oc t d"
    "db1 = db\<lparr>db_operations := (db_operations db)(oc_key oc \<mapsto> ?u d)\<rparr>" by blast
  from body g1 obtain db2 where w: "w db1 = (Inr v, db2)"
    by (auto simp: guarded_body_def Let_def split: prod.splits sum.splits if_splits bool.splits)
  define db3 where "db3 = invalidate_changed S (oc_seller_id oc) (tracked_resource oc cp handled) db1 db2"
  have ops3: "db_operations db3 = db_operations db2" by (simp add: db3_def)
  obtain b4 db4 where g4: "guarded_update S oc t' (\<lambda>d. d\<lparr>op_updated_at := t'\<rparr>) db3 = (b4, db4)" by fastforce
  have "db' = (if oc_coverage_mode oc = ''active'' \<or> map_of cp ''phase'' = Some ''certificate_migration'' then db4 else db3)"
    and act: "oc_coverage_mode oc = ''active'' \<Longrightarrow> b4"
    using body g1 w g4 by (auto simp: guarded_body_def Let_def db3_def [symmetric] split: if_splits bool.splits)
  moreover have "\<exists>c. db4 = db3\<lparr>db_operations := c\<rparr>"
    using g4 by (auto simp: guarded_update_eq split: if_splits intro: exI [of _ "db_operations db3"])
  moreover have "\<exists>c. db3 = db3\<lparr>db_operations := c\<rparr>" by (intro exI [of _ "db_operations db3"]) simp
  moreover have "\<exists>d'. db_operations db2 (oc_key oc) = Some d' \<and> operation_lease_guard oc t' d'"
    if "oc_coverage_mode oc = ''active''"
    using guarded_update_True [of oc t' "\<lambda>d. d\<lparr>op_updated_at := t'\<rparr>" db3 db4] g4 act [OF that] ops3 by auto
  ultimately show ?thesis using d w unfolding db3_def by (intro exI [of _ d] exI [of _ db1] exI [of _ db2]) auto
qed

text \<open>After a claim changed, no certificate that holds the date of either version is eligible.\<close>

lemma invalidate_changed_claim:
  assumes "read_claim S s i b \<noteq> read_claim S s i a"
    and "cl \<in> {read_claim S s i b, read_claim S s i a}" and "claim_impact s cl = At u"
    and "db_certificates (invalidate_changed S s (Some (ClaimResource i)) b a) k = Some c" and "covers u c"
  shows "\<not> eligible H s now c"
proof -
  obtain certs' fresh' where inv: "invalidate_claim_impact (sv_certificates S) (sv_freshness S) s
      [read_claim S s i b, read_claim S s i a] ''claim_mutation'' (db_certificates a, db_freshness a) = (certs', fresh')"
    by fastforce
  have c': "certs' k = Some c" using assms(1,4) inv by (simp add: invalidate_changed_def)
  obtain c0 where c0: "db_certificates a k = Some c0"
    using c' inv mongo_collection.update_many_law [OF certificates_ok]
    by (auto simp: invalidate_claim_impact_def Let_def split: if_splits)
  note eff = invalidate_claim_impact_effect [OF certificates_ok inv c0, of cl u H now]
  show ?thesis
  proof (cases "c = c0")
    case True
    with eff c' assms(2,3,5) show ?thesis by auto
  next
    case False
    from inv c' c0 have "c = c0 \<or> (\<exists>why. c = mark_stale why c0)"
      using mongo_collection.update_many_law [OF certificates_ok]
      by (auto simp: invalidate_claim_impact_def Let_def split: if_splits)
    with False show ?thesis by (auto simp: mark_stale_not_eligible)
  qed
qed

end

definition mem_server :: devol_server where
  "mem_server = \<lparr>sv_operations = mem_mongo, sv_freshness = mem_mongo, sv_certificates = mem_mongo,
     sv_orders = mem_mongo, sv_claims = mem_mongo, sv_runs = mem_mongo, sv_windows = mem_mongo\<rparr>"

lemma mem_server_sel [simp]:
  "sv_operations mem_server = mem_mongo" "sv_freshness mem_server = mem_mongo"
  "sv_certificates mem_server = mem_mongo" "sv_orders mem_server = mem_mongo"
  "sv_claims mem_server = mem_mongo" "sv_runs mem_server = mem_mongo" "sv_windows mem_server = mem_mongo"
  by (simp_all add: mem_server_def)

interpretation mem_devol: devol_server_ok mem_server
  by (rule devol_server_ok.intro) (simp_all only: mem_server_sel mem.mongo_collection_axioms)

section \<open>Example data\<close>

definition empty_devol_db :: devol_db where
  "empty_devol_db = \<lparr>db_operations = Map.empty, db_freshness = Map.empty, db_certificates = Map.empty,
     db_orders = Map.empty, db_claims = Map.empty, db_runs = Map.empty, db_windows = Map.empty\<rparr>"

definition demo_args :: "string \<Rightarrow> acquire_args" where
  "demo_args token = \<lparr>aq_seller_id = ''7'', aq_scope = ''devoluciones'', aq_operation_id = ''op'',
     aq_attempt_token = token, aq_source_fingerprint = None, aq_invalidate_readiness = True,
     aq_require_coverage_compatible = False\<rparr>"

definition demo_context :: "string \<Rightarrow> int \<Rightarrow> operation_context" where
  "demo_context token fence = \<lparr>oc_seller_id = ''7'', oc_scope = ''devoluciones'', oc_operation_id = ''op'',
     oc_attempt_token = token, oc_fence = fence, oc_owns_lease = True, oc_source_fingerprint = None,
     oc_required_coverage_start = None, oc_required_coverage_end = None, oc_checkpoint = [],
     oc_lease_lost = False, oc_coverage_mode = ''legacy'', oc_coverage_epoch = 0\<rparr>"

lemma demo_strip: "strip ''7'' = ''7''" "strip ''devoluciones'' = ''devoluciones''" "strip ''op'' = ''op''"
  "strip ''a'' = ''a''" "strip ''b'' = ''b''"
  by (simp_all add: strip_def is_space_def)

lemma demo_acquire:
  "\<exists>db. acquire_operation mem_server (demo_args ''a'') (\<lambda>_. NoFault) (\<lambda>_ _. 0) empty_devol_db = (Inr (demo_context ''a'' 1), db) \<and>
    db_operations db = [''7:devoluciones'' \<mapsto> lease_doc (demo_args ''a'') 1 ''legacy'' 0 None 0]"
  by (simp add: acquire_operation_def acquire_from.simps acquire_once_def acquire_body_def demo_args_def demo_strip
      check_identities_def required_identity_def find_lease_def take_lease_def empty_devol_db_def operation_id_of_def
      set_marker_def context_of_def next_fence_def mode_of_def epoch_of_def foreign_writer_def takeover_checkpoint_def
      valid_marker_def marker_coverage_def demo_context_def Let_def)

section \<open>Properties\<close>

text \<open>
  C12. Fencing: once the lease document carries a later fence than a holder's, nothing that holder
  does ever reaches the database again, whatever acquisitions, heartbeats, releases and writes
  happen in between. Its guarded writes, heartbeats and releases raise and leave the database as it is.
\<close>

theorem stale_holder_fenced_out:
  assumes "devol_server_ok S" and "devol_steps S db db'"
    and "db_operations db (oc_key oc) = Some d" and "oc_fence oc < op_fence d"
  shows "(\<exists>e oc'. guarded_write S s cp (w :: devol_db \<Rightarrow> (devol_error, 'r) result \<times> devol_db) handled t t' (oc, db') = (Inl e, oc', db')) \<and>
    (\<exists>e oc'. heartbeat_operation S t (oc, db') = (Inl e, oc', db')) \<and>
    (\<exists>e oc'. finish_operation S ok code t (oc, db') = (Inl e, oc', db'))"
proof -
  from devol_server_ok.devol_steps_fences [OF assms(1,2)] assms(3,4) obtain d' where
    d': "db_operations db' (oc_key oc) = Some d'" "op_fence d' \<noteq> oc_fence oc"
    unfolding fence_order_def by fastforce
  have g: "guarded_update S oc t u db' = (False, db')" for u
    by (rule devol_server_ok.fenced_guard [OF assms(1) d'])
  show ?thesis
    using devol_server_ok.fenced_write [OF assms(1) d', of s cp w handled t t']
    by (auto simp: heartbeat_operation_def finish_operation_def g split: sum.splits)
qed

theorem stale_holder_fenced_out_witness:
  "\<exists>db e oc'. db_operations db (oc_key (demo_context ''b'' 0)) \<noteq> None \<and>
    heartbeat_operation mem_server 5 (demo_context ''b'' 0, db) = (Inl e, oc', db)"
proof -
  from demo_acquire obtain db :: devol_db where
    db: "db_operations db = [''7:devoluciones'' \<mapsto> lease_doc (demo_args ''a'') 1 ''legacy'' 0 None 0]" by blast
  have "db_operations db (oc_key (demo_context ''b'' 0)) = Some (lease_doc (demo_args ''a'') 1 ''legacy'' 0 None 0)"
    by (simp add: db oc_key_def demo_context_def operation_id_of_def)
  with stale_holder_fenced_out [OF mem_devol.devol_server_ok_axioms devol_refl this, of "''7''" "[]"
      "\<lambda>d. (Inr (), d)" False 5 5 True None]
  show ?thesis by (auto simp: demo_context_def lease_doc_def)
qed

text \<open>
  C13. An acquisition is exclusive and takes effect at once. When it succeeds, no live lease existed
  for the seller and scope at the server time of the update; the new fence is the next one; the
  returned context passes the guard for exactly the 120 seconds from then; and, when asked, the
  readiness marker is stale in the same transaction.
\<close>

theorem acquisition_exclusive:
  assumes "devol_server_ok S" and "acquire_operation S a faults now db = (Inr oc, db')"
  shows "\<exists>i < 3.
    (case db_operations db (oc_key oc) of
       None \<Rightarrow> oc_fence oc = 1
     | Some d \<Rightarrow> oc_fence oc = op_fence d + 1 \<and> (op_state d \<noteq> ''running'' \<or> op_lease_until d \<le> now i 2)) \<and>
    (\<exists>d'. db_operations db' (oc_key oc) = Some d' \<and>
      (\<forall>t. operation_lease_guard oc t d' \<longleftrightarrow> t < now i 2 + seconds 120)) \<and>
    (aq_invalidate_readiness a \<longrightarrow> (\<exists>m. db_freshness db' (marker_id (oc_seller_id oc)) = Some m \<and> mk_state m = ''stale''))"
proof -
  from acquire_from_spec [of S a faults now 0 db "Inr oc" db'] assms(2) obtain i where
    i: "i < 3" "acquire_body S a (now i) db = (Inr oc, db')" by (auto simp: acquire_operation_def)
  note b = devol_server_ok.acquire_body_Inr [OF assms(1) i(2)]
  show ?thesis
    using i(1) b(5,6,7) unfolding b(1) b(2) free_lease_def by (intro exI [of _ i]) auto
qed

theorem acquisition_exclusive_witness:
  "\<exists>db d'. acquire_operation mem_server (demo_args ''a'') (\<lambda>_. NoFault) (\<lambda>_ _. 0) empty_devol_db = (Inr (demo_context ''a'' 1), db) \<and>
    db_operations db (oc_key (demo_context ''a'' 1)) = Some d' \<and>
    (\<forall>t. operation_lease_guard (demo_context ''a'' 1) t d' \<longleftrightarrow> t < seconds 120)"
proof -
  from demo_acquire obtain db where
    acq: "acquire_operation mem_server (demo_args ''a'') (\<lambda>_. NoFault) (\<lambda>_ _. 0) empty_devol_db = (Inr (demo_context ''a'' 1), db)"
    by blast
  from acquisition_exclusive [OF mem_devol.devol_server_ok_axioms acq] acq show ?thesis by simp
qed

text \<open>
  Acquisition is attempted at most three times and committed at most once: whatever faults the
  server raises, a failed call has left the database as it was, unless the failure itself says that
  the result of the commit is unknown; and the assertion after the loop is never reached.
\<close>

theorem acquisition_at_most_once:
  assumes "acquire_operation S a faults now db = (Inl e, db')"
  shows "(\<forall>m. e \<noteq> AssertionError m) \<and> (db' = db \<or>
    (\<exists>f oc. \<exists>i < 3. e = OperationFailure f \<and> of_unknown_commit f \<and> acquire_body S a (now i) db = (Inr oc, db')))"
  using acquire_from_spec [of S a faults now 0 db "Inl e" db'] assms by (auto simp: acquire_operation_def)

theorem acquisition_at_most_once_witness:
  "acquire_operation mem_server (demo_args []) (\<lambda>_. NoFault) (\<lambda>_ _. 0) empty_devol_db =
     (Inl (ValueError ''attempt_token is required''), empty_devol_db) \<and>
   (\<forall>m. ValueError ''attempt_token is required'' \<noteq> AssertionError m)"
proof -
  have "acquire_operation mem_server (demo_args []) (\<lambda>_. NoFault) (\<lambda>_ _. 0) empty_devol_db =
     (Inl (ValueError ''attempt_token is required''), empty_devol_db)"
    by (simp add: acquire_operation_def acquire_from.simps acquire_once_def acquire_body_def demo_args_def demo_strip
      check_identities_def required_identity_def strip_def [of "[]"])
  from this acquisition_at_most_once [OF this] show ?thesis by blast
qed


definition demo_write :: "devol_db \<Rightarrow> (devol_error, unit) result \<times> devol_db" where
  "demo_write db = (Inr (), db\<lparr>db_claims := (db_claims db)(''c1'' \<mapsto> demo_claim 5)\<rparr>)"

definition demo_db :: devol_db where
  "demo_db = empty_devol_db\<lparr>db_operations := [''7:devoluciones'' \<mapsto> lease_doc (demo_args ''a'') 1 ''active'' 0 None 0],
     db_certificates := [''h'' \<mapsto> demo_cert 0 10 20]\<rparr>"


end
