(* ===== verification/RunRepository.thy ===== *)
theory RunRepository
  imports DevolucionesLease
begin

text \<open>
  What is stored under the returns lease: the run and its windows (\<^verbatim>\<open>MongoRunWindowRepository\<close> of
  \<^verbatim>\<open>devoluciones_runs.py\<close>), and the publication and reading of certificates
  (\<^verbatim>\<open>devoluciones_certificates.py\<close>). Each operation is one transaction.
\<close>

section \<open>Runs and windows\<close>

definition repo_guard :: "devol_server \<Rightarrow> operation_context \<Rightarrow> instant \<Rightarrow> devol_db \<Rightarrow> bool \<times> devol_db" where
  "repo_guard S oc now db = guarded_update S oc now (\<lambda>d. d\<lparr>op_updated_at := now\<rparr>) db"

definition new_run :: "(string \<Rightarrow> string) \<Rightarrow> run_binding \<Rightarrow> instant \<Rightarrow> instant \<Rightarrow> run_doc" where
  "new_run H b created expires = \<lparr>rd_id = run_id_of H b, rd_authorization_id = bn_authorization_id b,
     rd_cohort_id = bn_cohort_id b, rd_seller_id = bn_seller_id b, rd_scope = bn_scope b,
     rd_start = Aware (bn_start b), rd_end = Aware (bn_end b), rd_partition_version = bn_partition_version b,
     rd_release_fingerprints = bn_release_fingerprints b, rd_window_count = int (length (partition_windows H b)),
     rd_state = ''authorized'', rd_next_window_index = 0, rd_created_at = Aware created,
     rd_expires_at = Aware expires, rd_not_before = None\<rparr>"

definition create_run ::
  "(string \<Rightarrow> string) \<Rightarrow> devol_server \<Rightarrow> run_binding \<Rightarrow> operation_context \<Rightarrow> py_datetime \<Rightarrow> instant \<Rightarrow> devol_db \<Rightarrow>
   (run_error, bool) result \<times> devol_db" where
  "create_run H S b oc created_at now db =
    (case utc_required created_at ''created_at'' of
       Inl e \<Rightarrow> (Inl e, db)
     | Inr created \<Rightarrow>
        (case repo_guard S oc now db of
           (False, db1) \<Rightarrow> (Inr False, db1)
         | (True, db1) \<Rightarrow>
            (case expires_at H b (Aware created) of
               Inl e \<Rightarrow> (Inl e, db)
             | Inr expires \<Rightarrow>
                (case upsert_one (sv_runs S) (db_runs db1) (run_id_of H b) (\<lambda>_. True) (\<lambda>d. d) (new_run H b created expires) of
                   Inl _ \<Rightarrow> (Inr False, db1)
                 | Inr (_, c) \<Rightarrow> (Inr True, db1\<lparr>db_runs := c\<rparr>)))))"

definition prepared_window_matches :: "window_doc \<Rightarrow> run_window \<Rightarrow> string \<Rightarrow> bool" where
  "prepared_window_matches d w key \<longleftrightarrow> wd_run_id d = wn_run_id w \<and> wd_index d = int (wn_index w) \<and>
    utc_of (wd_start d) = wn_start w \<and> utc_of (wd_end d) = wn_end w \<and> wd_idempotency_key d = key"

definition new_window :: "(string \<Rightarrow> string) \<Rightarrow> run_window \<Rightarrow> int \<Rightarrow> string \<Rightarrow> window_doc" where
  "new_window H w fence key = \<lparr>wd_id = window_id H w, wd_run_id = wn_run_id w, wd_index = int (wn_index w),
     wd_start = Aware (wn_start w), wd_end = Aware (wn_end w), wd_state = ''prepared'', wd_fence = fence,
     wd_idempotency_key = key, wd_source_fingerprint = None, wd_read_model_fingerprint = None,
     wd_expected_count = None, wd_persisted_count = None, wd_complete_count = None, wd_missing_count = None\<rparr>"

definition prepare_window ::
  "(string \<Rightarrow> string) \<Rightarrow> devol_server \<Rightarrow> run_window \<Rightarrow> operation_context \<Rightarrow> string \<Rightarrow> instant \<Rightarrow> devol_db \<Rightarrow> bool \<times> devol_db" where
  "prepare_window H S w oc key now db =
    (case repo_guard S oc now db of
       (False, db1) \<Rightarrow> (False, db1)
     | (True, db1) \<Rightarrow>
        (case find_one (sv_windows S) (db_windows db1) (window_id H w) (\<lambda>_. True) of
           Some d \<Rightarrow> (prepared_window_matches d w key, db1)
         | None \<Rightarrow>
            (case upsert_one (sv_windows S) (db_windows db1) (window_id H w) (\<lambda>_. True) (\<lambda>d. d)
                    (new_window H w (oc_fence oc) key) of
               Inl _ \<Rightarrow> (True, db1)
             | Inr (_, c) \<Rightarrow> (True, db1\<lparr>db_windows := c\<rparr>))))"

text \<open>Whether the window document a query by run and index finds is completed.\<close>

definition window_done :: "devol_server \<Rightarrow> devol_db \<Rightarrow> string \<Rightarrow> nat \<Rightarrow> bool" where
  "window_done S db run_id i =
    (case find_where (sv_windows S) (db_windows db) (\<lambda>d. wd_run_id d = run_id \<and> wd_index d = int i) of
       None \<Rightarrow> False | Some d \<Rightarrow> wd_state d = ''completed'')"

fun next_open :: "devol_server \<Rightarrow> devol_db \<Rightarrow> string \<Rightarrow> instant \<Rightarrow> instant \<Rightarrow> nat list \<Rightarrow> run_window option" where
  "next_open S db run_id st en [] = None"
| "next_open S db run_id st en (i # is) =
    (let w = \<lparr>wn_run_id = run_id, wn_index = i, wn_start = st, wn_end = min (st + window_us) en\<rparr> in
     if \<not> window_done S db run_id i then Some w else next_open S db run_id (wn_end w) en is)"

definition read_next ::
  "devol_server \<Rightarrow> string \<Rightarrow> operation_context \<Rightarrow> instant \<Rightarrow> devol_db \<Rightarrow> run_window option \<times> devol_db" where
  "read_next S run_id oc now db =
    (case repo_guard S oc now db of
       (False, db1) \<Rightarrow> (None, db1)
     | (True, db1) \<Rightarrow>
        (case find_one (sv_runs S) (db_runs db1) run_id (\<lambda>_. True) of
           None \<Rightarrow> (None, db1)
         | Some r \<Rightarrow> (next_open S db1 run_id (utc_of (rd_start r)) (utc_of (rd_end r)) [0..<nat (rd_window_count r)], db1)))"

section \<open>Certificates\<close>

definition coverage_control :: "devol_server \<Rightarrow> string \<Rightarrow> devol_db \<Rightarrow> operation_doc option" where
  "coverage_control S seller_id db = find_lease S seller_id ''devoluciones'' db"

definition require_compatible :: "operation_doc option \<Rightarrow> (coverage_error, int \<times> int) result" where
  "require_compatible control = (case control of
     None \<Rightarrow> Inl (CoverageUnavailableError ''certificate writer compatibility unavailable'')
   | Some d \<Rightarrow> (case op_coverage_epoch d of
        Some epoch \<Rightarrow>
          if op_coverage_mode d = Some ''active'' \<and> op_coverage_ack_fence d = Some (op_fence d)
          then Inr (epoch, op_fence d)
          else Inl (CoverageUnavailableError ''certificate writer compatibility unavailable'')
      | None \<Rightarrow> Inl (CoverageUnavailableError ''certificate writer compatibility unavailable'')))"

definition immutable_keys :: "string list" where
  "immutable_keys = [''seller_id'', ''kind'', ''date_from'', ''date_to'', ''source_identity'',
     ''source_fingerprint'', ''acquisition_fingerprint'', ''expected_count'']"

definition same_value :: "bson option \<Rightarrow> bson option \<Rightarrow> bool" where
  "same_value a b = (case (a, b) of
     (Some (BDate x), Some (BDate y)) \<Rightarrow> utc_of x = utc_of y
   | (Some x, Some y) \<Rightarrow> bson_eq x y
   | _ \<Rightarrow> False)"

definition publish_certificate ::
  "(string \<Rightarrow> string) \<Rightarrow> devol_server \<Rightarrow> operation_context \<Rightarrow> fields \<Rightarrow> instant \<Rightarrow> instant \<Rightarrow> devol_db \<Rightarrow>
   (devol_error, unit) result \<times> devol_db" where
  "publish_certificate H S oc d server_now now db =
    (if map_of d ''seller_id'' \<noteq> Some (BStr (oc_seller_id oc))
     then (Inl (CoverageError (CoverageUnavailableError ''certificate seller mismatch'')), db)
     else case find_one (sv_operations S) (db_operations db) (oc_key oc) (operation_lease_guard oc server_now) of
       None \<Rightarrow> (Inl (LeaseLostError ''certificate publication lost compatible owner''), db)
     | Some control \<Rightarrow>
        if op_coverage_ack_fence control \<noteq> Some (oc_fence oc)
        then (Inl (LeaseLostError ''certificate publication lost compatible owner''), db)
        else
         (case rbind (validate_certificate H d now) (\<lambda>_.
               rbind (require (int_of d ''coverage_epoch'' = (case op_coverage_epoch control of None \<Rightarrow> 0 | Some n \<Rightarrow> n))
                 (CoverageUnavailableError ''certificate epoch changed'')) (\<lambda>_.
               validate_provenance H (sv_runs S) (sv_windows S) (db_runs db) (db_windows db) d)) of
            Inl e \<Rightarrow> (Inl (CoverageError e), db)
          | Inr _ \<Rightarrow>
             (case find_one (sv_certificates S) (db_certificates db) (str_of d ''_id'') (\<lambda>_. True) of
                Some existing \<Rightarrow>
                  if list_all (\<lambda>k. same_value (map_of existing k) (map_of d k)) immutable_keys then (Inr (), db)
                  else (Inl (CoverageError (CoverageUnavailableError ''conflicting certificate source identity'')), db)
              | None \<Rightarrow>
                 (case insert_one (sv_certificates S) (db_certificates db) (str_of d ''_id'') d of
                    Inl _ \<Rightarrow> (Inl (WriterError ''DuplicateKeyError''), db)
                  | Inr c \<Rightarrow> (Inr (), db\<lparr>db_certificates := c\<rparr>)))))"

record proof_vector =
  pv_seller_id :: string
  pv_start :: instant
  pv_end :: instant
  pv_epoch :: int
  pv_fence :: int
  pv_proofs :: "fields list"

fun all_ok :: "('a \<Rightarrow> ('e, unit) result) \<Rightarrow> 'a list \<Rightarrow> ('e, unit) result" where
  "all_ok f [] = Inr ()"
| "all_ok f (x # xs) = rbind (f x) (\<lambda>_. all_ok f xs)"

definition select_covering_prefix ::
  "(string \<Rightarrow> string) \<Rightarrow> devol_server \<Rightarrow> string \<Rightarrow> py_datetime \<Rightarrow> py_datetime \<Rightarrow> instant \<Rightarrow> devol_db \<Rightarrow>
   (coverage_error, proof_vector) result" where
  "select_covering_prefix H S seller_id st en now db =
    rbind (require_compatible (coverage_control S seller_id db)) (\<lambda>(epoch, fence).
    let docs = find_many (sv_certificates S) (db_certificates db)
      (\<lambda>d. map_of d ''seller_id'' = Some (BStr seller_id) \<and> map_of d ''state'' = Some (BStr ''reconciled'') \<and>
           date_of d ''date_from'' < utc_of en \<and> date_of d ''date_to'' > utc_of st \<and>
           map_of d ''coverage_epoch'' = Some (BInt epoch) \<and> date_of d ''valid_until'' > now)
    in rbind (coverage_prefix H docs seller_id st en now) (\<lambda>(sel, reach).
    rbind (require (sel \<noteq> []) (CoverageUnavailableError ''requested interval is not certified'')) (\<lambda>_.
    rbind (all_ok (validate_provenance H (sv_runs S) (sv_windows S) (db_runs db) (db_windows db)) sel) (\<lambda>_.
    Inr \<lparr>pv_seller_id = seller_id, pv_start = utc_of st, pv_end = reach, pv_epoch = epoch, pv_fence = fence,
         pv_proofs = sel\<rparr>))))"

definition select_covering_proofs ::
  "(string \<Rightarrow> string) \<Rightarrow> devol_server \<Rightarrow> string \<Rightarrow> py_datetime \<Rightarrow> py_datetime \<Rightarrow> instant \<Rightarrow> devol_db \<Rightarrow>
   (coverage_error, proof_vector) result" where
  "select_covering_proofs H S seller_id st en now db =
    rbind (select_covering_prefix H S seller_id st en now db) (\<lambda>v.
    if pv_end v < utc_of en then Inl (CoverageUnavailableError ''requested interval is not certified'') else Inr v)"

definition proof_keys :: "string list" where
  "proof_keys = [''_id'', ''seller_id'', ''date_from'', ''date_to'', ''revision'', ''coverage_epoch'',
     ''current_membership_hash'', ''current_read_model_fingerprint'', ''acquisition_fingerprint'', ''kind'',
     ''source_identity'', ''source_fingerprint'', ''expected_count'', ''certified_count'', ''acquired_at'']"

definition equal_field :: "fields \<Rightarrow> fields \<Rightarrow> string \<Rightarrow> bool" where
  "equal_field a b k = (case (map_of a k, map_of b k) of (Some x, Some y) \<Rightarrow> bson_eq x y | _ \<Rightarrow> False)"

definition check_proof ::
  "(string \<Rightarrow> string) \<Rightarrow> devol_server \<Rightarrow> string \<Rightarrow> instant \<Rightarrow> devol_db \<Rightarrow> fields \<Rightarrow> (coverage_error, unit) result" where
  "check_proof H S seller_id now db p =
    (case find_one (sv_certificates S) (db_certificates db) (str_of p ''_id'')
            (\<lambda>d. map_of d ''seller_id'' = Some (BStr seller_id)) of
       None \<Rightarrow> Inl (CoverageUnavailableError ''certificate removed during read'')
     | Some current \<Rightarrow>
        rbind (select_coverage H [current] seller_id (Aware (date_of p ''date_from'')) (Aware (date_of p ''date_to'')) now) (\<lambda>_.
        rbind (require (list_all (equal_field current p) proof_keys)
          (CoverageUnavailableError ''certificate changed during read'')) (\<lambda>_.
        validate_provenance H (sv_runs S) (sv_windows S) (db_runs db) (db_windows db) current)))"

definition validate_proof_vector ::
  "(string \<Rightarrow> string) \<Rightarrow> devol_server \<Rightarrow> proof_vector \<Rightarrow> instant \<Rightarrow> devol_db \<Rightarrow> (coverage_error, unit) result" where
  "validate_proof_vector H S v now db =
    rbind (require_compatible (coverage_control S (pv_seller_id v) db)) (\<lambda>(epoch, fence).
    rbind (require (epoch = pv_epoch v \<and> fence = pv_fence v)
      (CoverageUnavailableError ''certificate ownership changed during read'')) (\<lambda>_.
    all_ok (check_proof H S (pv_seller_id v) now db) (pv_proofs v)))"

section \<open>Facts\<close>

lemma all_ok_Inr: "all_ok f xs = Inr () \<longleftrightarrow> (\<forall>x \<in> set xs. f x = Inr ())"
  by (induction xs) (auto simp: rbind_eq_Inr)

text \<open>Stepping through the indices walks along the partition.\<close>

lemma next_open_windows:
  "next_open S db r st en [i..<i + length (windows_from r i st en)] =
    List.find (\<lambda>w. \<not> window_done S db r (wn_index w)) (windows_from r i st en)"
proof (induction r i st en rule: windows_from.induct)
  case (1 r i st en)
  show ?case
  proof (cases "st < en")
    case False
    then show ?thesis by (simp add: windows_from.simps [of r i st en])
  next
    case True
    let ?e = "min (st + window_us) en"
    have w: "windows_from r i st en =
        \<lparr>wn_run_id = r, wn_index = i, wn_start = st, wn_end = ?e\<rparr> # windows_from r (Suc i) ?e en"
      using True by (simp add: windows_from.simps [of r i st en] Let_def)
    have "[i..<i + length (windows_from r i st en)] = i # [Suc i..<Suc i + length (windows_from r (Suc i) ?e en)]"
      unfolding w by (subst upt_rec) simp
    with 1 [OF True refl] w show ?thesis by (simp add: Let_def)
  qed
qed

context devol_server_ok
begin

lemma repo_guard_eq:
  "repo_guard S oc now db =
    (if matches (db_operations db) (oc_key oc) (operation_lease_guard oc now)
     then (True, db\<lparr>db_operations := (db_operations db)(oc_key oc \<mapsto> (the (db_operations db (oc_key oc)))\<lparr>op_updated_at := now\<rparr>)\<rparr>)
     else (False, db))"
  by (simp add: repo_guard_def guarded_update_eq)

lemma window_done_ops: "window_done S (db\<lparr>db_operations := c\<rparr>) r i = window_done S db r i"
  by (simp add: window_done_def)

lemma next_open_ops: "next_open S (db\<lparr>db_operations := c\<rparr>) r st en is = next_open S db r st en is"
  by (induction "is" arbitrary: st) (simp_all add: Let_def window_done_ops)

lemma check_proof_current:
  assumes "check_proof H S s now db p = Inr ()" and "covers t p"
  shows "\<exists>c. db_certificates db (str_of p ''_id'') = Some c \<and> eligible H s now c \<and> covers t c"
proof -
  from assms(1) obtain c sel where c: "db_certificates db (str_of p ''_id'') = Some c"
    "select_coverage H [c] s (Aware (date_of p ''date_from'')) (Aware (date_of p ''date_to'')) now = Inr sel"
    by (auto simp: check_proof_def mongo_collection.find_one_law [OF certificates_ok] rbind_eq_Inr
        elim!: matchesE split: option.splits if_splits)
  from select_coverage_spec [OF c(2)] covers_dates [OF assms(2)]
  obtain d where "d \<in> set sel" "covers t d" by auto
  with select_coverage_spec [OF c(2)] c(1) show ?thesis by auto
qed

end

section \<open>Properties\<close>

text \<open>
  The repository hands out the windows of a run in order: while the lease is held, the next
  window of a stored run is the first window of its partition that is not completed, and there is none
  exactly when all are completed.
\<close>

theorem read_next_first_open:
  assumes "devol_server_ok S" and "db_operations db (oc_key oc) = Some d" and "operation_lease_guard oc now d"
    and "db_runs db (run_id_of H b) = Some (new_run H b created expires)"
  shows "fst (read_next S (run_id_of H b) oc now db) =
    List.find (\<lambda>w. \<not> window_done S db (run_id_of H b) (wn_index w)) (partition_windows H b)"
proof -
  have "matches (db_operations db) (oc_key oc) (operation_lease_guard oc now)" using assms(2,3) by simp
  then show ?thesis
    using next_open_windows [of S db "run_id_of H b" "bn_start b" "bn_end b" 0] assms(4)
    by (simp add: read_next_def devol_server_ok.repo_guard_eq [OF assms(1)] new_run_def partition_windows_def
        mongo_collection.find_one_law [OF devol_server_ok.runs_ok [OF assms(1)]]
        devol_server_ok.next_open_ops [OF assms(1)])
qed

lemma demo_guard: "operation_lease_guard (demo_context ''a'' 1) 5 (lease_doc (demo_args ''a'') 1 m 0 cp 0)"
  by (simp add: operation_lease_guard_def demo_context_def lease_doc_def demo_args_def demo_strip lease_duration_def time_defs)

definition demo_run_db :: devol_db where
  "demo_run_db = empty_devol_db\<lparr>db_operations := [''7:devoluciones'' \<mapsto> lease_doc (demo_args ''a'') 1 ''active'' 0 None 0],
     db_runs := [run_id_of id demo_binding \<mapsto> new_run id demo_binding 0 0]\<rparr>"

lemma demo_run_lease:
  "db_operations demo_run_db (oc_key (demo_context ''a'' 1)) = Some (lease_doc (demo_args ''a'') 1 ''active'' 0 None 0)"
  by (simp add: demo_run_db_def oc_key_def demo_context_def operation_id_of_def)

lemma empty_windows_open: "window_done mem_server demo_run_db r i = False"
  by (simp add: window_done_def demo_run_db_def empty_devol_db_def mem_find_where)

theorem read_next_first_open_witness:
  "fst (read_next mem_server (run_id_of id demo_binding) (demo_context ''a'' 1) 5 demo_run_db) =
    Some \<lparr>wn_run_id = run_id_of id demo_binding, wn_index = 0, wn_start = 0, wn_end = days_us 10\<rparr>"
proof -
  have run: "db_runs demo_run_db (run_id_of id demo_binding) = Some (new_run id demo_binding 0 0)"
    by (simp add: demo_run_db_def)
  have "partition_windows id demo_binding = \<lparr>wn_run_id = run_id_of id demo_binding, wn_index = 0,
      wn_start = 0, wn_end = days_us 10\<rparr> # windows_from (run_id_of id demo_binding) 1 (days_us 10) (days_us 25)"
    by (simp add: partition_windows_def windows_from.simps [of _ 0] demo_binding_def window_us_def time_defs Let_def)
  with read_next_first_open [OF mem_devol.devol_server_ok_axioms demo_run_lease demo_guard run] show ?thesis
    by (simp add: empty_windows_open)
qed

text \<open>
  A window belongs to one preparation: once it was prepared under a key, every later preparation
  under a live lease leaves the stored windows alone and succeeds exactly for that same key.
\<close>

theorem prepare_window_once:
  assumes "devol_server_ok S" and "prepare_window H S w oc key now db = (True, db1)"
    and "db_windows db2 = db_windows db1"
    and "db_operations db2 (oc_key oc') = Some d" and "operation_lease_guard oc' now' d"
  shows "fst (prepare_window H S w oc' key' now' db2) = (key' = key) \<and>
    db_windows (snd (prepare_window H S w oc' key' now' db2)) = db_windows db2"
proof -
  note W = devol_server_ok.windows_ok [OF assms(1)]
  note laws = mongo_collection.find_one_law [OF W] mongo_collection.upsert_one_law [OF W]
    devol_server_ok.repo_guard_eq [OF assms(1)]
  have "\<exists>e. db_windows db1 (window_id H w) = Some e \<and> prepared_window_matches e w key"
    using assms(2)
    by (auto simp: prepare_window_def laws matches_def new_window_def prepared_window_matches_def
        split: option.splits if_splits)
  then obtain e where e: "db_windows db2 (window_id H w) = Some e" "prepared_window_matches e w key"
    using assms(3) by auto
  have "matches (db_operations db2) (oc_key oc') (operation_lease_guard oc' now')" using assms(4,5) by simp
  with e show ?thesis by (auto simp: prepare_window_def laws prepared_window_matches_def)
qed

theorem prepare_window_once_witness:
  "\<exists>db1. prepare_window id mem_server \<lparr>wn_run_id = ''r'', wn_index = 0, wn_start = 0, wn_end = 9\<rparr> (demo_context ''a'' 1) ''k'' 5 demo_run_db = (True, db1) \<and>
    \<not> fst (prepare_window id mem_server \<lparr>wn_run_id = ''r'', wn_index = 0, wn_start = 0, wn_end = 9\<rparr> (demo_context ''a'' 1) ''l'' 5 db1)"
proof -
  let ?w = "\<lparr>wn_run_id = ''r'', wn_index = 0, wn_start = 0, wn_end = 9\<rparr>"
  have m: "matches (db_operations demo_run_db) (oc_key (demo_context ''a'' 1)) (operation_lease_guard (demo_context ''a'' 1) 5)"
    using demo_run_lease demo_guard by simp
  obtain db1 where p: "prepare_window id mem_server ?w (demo_context ''a'' 1) ''k'' 5 demo_run_db = (True, db1)"
    and ops: "db_operations db1 (oc_key (demo_context ''a'' 1)) =
      Some ((lease_doc (demo_args ''a'') 1 ''active'' 0 None 0)\<lparr>op_updated_at := 5\<rparr>)"
    using m demo_run_lease
    by (simp add: prepare_window_def mem_devol.repo_guard_eq) (simp add: demo_run_db_def empty_devol_db_def)
  have "operation_lease_guard (demo_context ''a'' 1) 5 ((lease_doc (demo_args ''a'') 1 ''active'' 0 None 0)\<lparr>op_updated_at := 5\<rparr>)"
    using demo_guard [of "''active''" None] by (simp add: operation_lease_guard_def)
  from prepare_window_once [OF mem_devol.devol_server_ok_axioms p refl ops this, of "''l''"] p show ?thesis by auto
qed

text \<open>
  C15. A validated proof vector is a statement about the present: if a vector selected earlier passes
  the final validation, then at that moment every instant from the requested start to the vector's end
  lies in a stored, eligible certificate of the seller, and the writer epoch and fence are those the
  selection saw.
\<close>

theorem validated_vector_is_current:
  assumes "devol_server_ok S" and "select_covering_prefix H S s st en now db = Inr v"
    and "validate_proof_vector H S v now' db' = Inr ()"
  shows "(\<forall>t. utc_of st \<le> t \<and> t < pv_end v \<longrightarrow>
      (\<exists>k c. db_certificates db' k = Some c \<and> eligible H s now' c \<and> covers t c)) \<and>
    require_compatible (coverage_control S s db') = require_compatible (coverage_control S s db)"
proof -
  from assms(2) obtain docs where v: "pv_seller_id v = s"
    "require_compatible (coverage_control S s db) = Inr (pv_epoch v, pv_fence v)"
    "coverage_prefix H docs s st en now = Inr (pv_proofs v, pv_end v)"
    by (auto simp: select_covering_prefix_def rbind_eq_Inr Let_def split: prod.splits)
  from assms(3) have c: "require_compatible (coverage_control S s db') = Inr (pv_epoch v, pv_fence v)"
    "\<forall>p \<in> set (pv_proofs v). check_proof H S s now' db' p = Inr ()"
    by (auto simp: validate_proof_vector_def rbind_eq_Inr all_ok_Inr v(1))
  have "\<exists>k c. db_certificates db' k = Some c \<and> eligible H s now' c \<and> covers t c"
    if "utc_of st \<le> t" "t < pv_end v" for t
  proof -
    from coverage_prefix_spec [OF v(3)] that obtain p where "p \<in> set (pv_proofs v)" "covers t p" by blast
    with devol_server_ok.check_proof_current [OF assms(1)] c(2) show ?thesis by blast
  qed
  with v(2) c(1) show ?thesis by simp
qed

definition joint_input :: certificate_input where
  "joint_input = (demo_input 0 10)\<lparr>ci_kind := ''joint_snapshot''\<rparr>"

definition joint_cert :: fields where
  "joint_cert = certificate_fields joint_input ''h'' 20"

definition joint_db :: devol_db where
  "joint_db = empty_devol_db\<lparr>db_operations := [''7:devoluciones'' \<mapsto> lease_doc (demo_args ''a'') 1 ''active'' 0 None 0],
     db_certificates := [''h'' \<mapsto> joint_cert]\<rparr>"

lemma joint_eligible: "eligible demo_hash ''7'' t joint_cert \<longleftrightarrow> 20 \<le> t \<and> t < 20 + minutes 30"
proof -
  have "make_certificate demo_hash joint_input 20 = Inr joint_cert"
    by (simp add: make_certificate_def joint_input_def demo_input_def certificate_identity_def kinds_def demo_hash_def
        or_str_def joint_cert_def)
  moreover have "usable_input joint_input"
    by (simp add: joint_input_def demo_input_def usable_input_def strip_def is_space_def)
  ultimately show ?thesis
    using made_certificate_eligible [where i = joint_input and now = 20 and d = joint_cert and t = t, OF _ _ demo_hash_nonblank]
    by (simp add: joint_input_def demo_input_def)
qed

lemma joint_covers: "covers t joint_cert \<longleftrightarrow> 0 \<le> t \<and> t < 10"
  by (simp add: covers_def joint_cert_def certificate_fields_def joint_input_def demo_input_def)

lemma joint_sel:
  "str_of joint_cert ''_id'' = ''h''" "str_of joint_cert ''kind'' = ''joint_snapshot''"
  "date_of joint_cert ''date_from'' = 0" "date_of joint_cert ''date_to'' = 10"
  "date_of joint_cert ''valid_until'' = 20 + validity"
  "map_of joint_cert ''seller_id'' = Some (BStr ''7'')" "map_of joint_cert ''state'' = Some (BStr ''reconciled'')"
  "map_of joint_cert ''coverage_epoch'' = Some (BInt 0)"
  by (simp_all add: joint_cert_def certificate_fields_sel, simp_all add: joint_input_def demo_input_def certificate_fields_def)

lemma joint_control: "require_compatible (coverage_control mem_server ''7'' joint_db) = Inr (0, 1)"
  by (simp add: require_compatible_def coverage_control_def find_lease_def joint_db_def operation_id_of_def lease_doc_def
      demo_args_def demo_strip)

lemma joint_check: "check_proof demo_hash mem_server ''7'' 30 joint_db joint_cert = Inr ()"
proof -
  have "select_coverage demo_hash [joint_cert] ''7'' (Aware 0) (Aware 10) 30 = Inr [joint_cert]"
    by (simp add: select_coverage_def coverage_prefix_def joint_eligible time_defs cover_from.simps joint_covers joint_sel)
  moreover have "list_all (equal_field joint_cert joint_cert) proof_keys"
    by (simp add: proof_keys_def equal_field_def joint_cert_def certificate_fields_def bson_eq_def)
  ultimately show ?thesis
    by (simp add: check_proof_def joint_sel joint_db_def validate_provenance_def)
qed

lemma joint_select: "\<exists>v. select_covering_prefix demo_hash mem_server ''7'' (Aware 2) (Aware 9) 25 joint_db = Inr v \<and>
    pv_seller_id v = ''7'' \<and> pv_epoch v = 0 \<and> pv_fence v = 1 \<and> set (pv_proofs v) \<subseteq> {joint_cert} \<and> pv_end v = 9"
proof -
  let ?P = "\<lambda>d. map_of d ''seller_id'' = Some (BStr ''7'') \<and> map_of d ''state'' = Some (BStr ''reconciled'') \<and>
           date_of d ''date_from'' < (9::int) \<and> date_of d ''date_to'' > 2 \<and>
           map_of d ''coverage_epoch'' = Some (BInt 0) \<and> date_of d ''valid_until'' > 25"
  define docs where "docs = find_many mem_mongo (db_certificates joint_db) ?P"
  have fin: "finite (dom (db_certificates joint_db))" by (simp add: joint_db_def)
  have "ran (db_certificates joint_db) = {joint_cert}" by (simp add: joint_db_def empty_devol_db_def)
  moreover have "?P joint_cert" by (simp add: joint_sel validity_def time_defs)
  ultimately have "{d \<in> ran (db_certificates joint_db). ?P d} = {joint_cert}" by blast
  then have docs: "set docs = {joint_cert}" unfolding docs_def by (rule trans [OF mem_find_many [OF fin]])
  obtain sel cursor where "cover_from (filter (eligible demo_hash ''7'' 25) docs) 2 9 = (sel, cursor)" by fastforce
  then have "coverage_prefix demo_hash docs ''7'' (Aware 2) (Aware 9) 25 = Inr (sel, min cursor 9)"
    by (simp add: coverage_prefix_def)
  then obtain reach where pre: "coverage_prefix demo_hash docs ''7'' (Aware 2) (Aware 9) 25 = Inr (sel, reach)" by blast
  note spec = coverage_prefix_spec [OF pre]
  have el: "eligible demo_hash ''7'' 25 joint_cert" by (simp add: joint_eligible time_defs)
  have lo: "2 \<le> reach" "reach \<le> 9" using spec by simp_all
  have "\<not> reach < 9"
  proof
    assume "reach < 9"
    with spec docs el have "\<not> covers reach joint_cert" by simp
    with lo show False by (simp add: joint_covers)
  qed
  with lo have reach: "reach = 9" by simp
  have "\<exists>d \<in> set sel. covers 2 d" using spec unfolding reach by simp
  then have ne: "sel \<noteq> []" by auto
  have sub: "set sel \<subseteq> {joint_cert}" using spec docs by auto
  then have "all_ok (validate_provenance demo_hash mem_mongo mem_mongo (db_runs joint_db) (db_windows joint_db)) sel = Inr ()"
    by (auto simp: all_ok_Inr validate_provenance_def joint_sel)
  with pre ne reach sub show ?thesis
    by (simp add: select_covering_prefix_def joint_control docs_def [symmetric])
qed

theorem validated_vector_is_current_witness:
  "\<exists>k c. db_certificates joint_db k = Some c \<and> eligible demo_hash ''7'' 30 c \<and> covers 8 c"
proof -
  from joint_select obtain v where sel: "select_covering_prefix demo_hash mem_server ''7'' (Aware 2) (Aware 9) 25 joint_db = Inr v"
    and v: "pv_seller_id v = ''7''" "pv_epoch v = 0" "pv_fence v = 1" "set (pv_proofs v) \<subseteq> {joint_cert}" "pv_end v = 9" by blast
  have val: "validate_proof_vector demo_hash mem_server v 30 joint_db = Inr ()"
    using v joint_check by (auto simp: validate_proof_vector_def joint_control all_ok_Inr)
  from validated_vector_is_current [OF mem_devol.devol_server_ok_axioms sel val] v(5) show ?thesis by auto
qed

end
