(* ===== verification/Freshness.thy ===== *)
theory Freshness
  imports DevolucionesLease
begin

text \<open>
  The guarded writer of non-productive read-model markers,
  \<^verbatim>\<open>core/src/zeler_platform_core/read_model_freshness.py\<close>: input validation against the inventory and
  the allowlists, the generic upsert with its one retry, and the transitions of the returns model
  through the lease.
\<close>

section \<open>Inventory\<close>

definition read_models :: "string list" where
  "read_models = [''orders'', ''shipments'', ''items'', ''questions'', ''claims'', ''catalog_product_snapshots'',
     ''catalog_buybox_snapshots'', ''sheets_item_formula_rows'', ''sheets_item_sku_index'', ''item_status_states'',
     ''item_status_transitions'', ''price_history_snapshots'', ''stockout_snapshots'', ''stock_time_metrics'',
     ''catalog_time_metrics'', ''full_withdrawals'']"

definition devoluciones_model :: string where
  "devoluciones_model = ''devoluciones''"

definition all_read_models :: "string list" where
  "all_read_models = read_models @ [devoluciones_model]"

definition writer_sources :: "string list" where
  "writer_sources = [''operator-action'']"

definition writer_target_states :: "string list" where
  "writer_target_states = [''stale'', ''failed'']"

definition marker_validity :: duration where
  "marker_validity = minutes 30"

record marker_request =
  mr_seller_id :: string
  mr_read_model :: string
  mr_target_state :: string
  mr_source :: string
  mr_approved_runtime :: bool

definition validate_writer_inputs :: "marker_request \<Rightarrow> (devol_error, unit) result" where
  "validate_writer_inputs r =
    rbind (require (strip (mr_seller_id r) \<noteq> []) (ValueError ''seller_id is required'')) (\<lambda>_.
    rbind (require (mr_read_model r \<in> set all_read_models) (ValueError ''unsupported read model'')) (\<lambda>_.
    rbind (require (mr_target_state r \<in> set writer_target_states) (ValueError ''target_state must be one of failed, stale'')) (\<lambda>_.
    rbind (require (mr_source r \<in> set writer_sources) (ValueError ''source must be one of operator-action'')) (\<lambda>_.
    require (mr_read_model r = devoluciones_model \<or> mr_approved_runtime r)
      (WriterError ''approved runtime is required for generic marker writes'')))))"

section \<open>Transitions\<close>

definition require_matching_live_lease ::
  "string \<Rightarrow> operation_context option \<Rightarrow> (devol_error, operation_context) result" where
  "require_matching_live_lease seller_id operation = (case operation of
     None \<Rightarrow> Inl (LeaseLostError ''devoluciones transitions require a live caller-owned operation lease'')
   | Some oc \<Rightarrow> if oc_seller_id oc \<noteq> seller_id
       then Inl (LeaseLostError ''mutation seller does not match operation seller'') else Inr oc)"

text \<open>The upsert of a generic marker, by identity, seller and model; a lost race updates in place.\<close>

definition set_generic_state :: "devol_server \<Rightarrow> marker_request \<Rightarrow> instant \<Rightarrow> devol_db \<Rightarrow> devol_db" where
  "set_generic_state S r now db =
    (let key = mr_seller_id r @ '':'' @ mr_read_model r;
         match = (\<lambda>m. mk_seller_id m = mr_seller_id r \<and> mk_read_model m = mr_read_model r);
         upd = stale_fields (mr_seller_id r) (mr_read_model r) (mr_target_state r) (mr_source r) now
     in case upsert_one (sv_freshness S) (db_freshness db) key match upd (upd blank_marker) of
          Inr (_, c) \<Rightarrow> db\<lparr>db_freshness := c\<rparr>
        | Inl _ \<Rightarrow> db\<lparr>db_freshness := snd (find_one_and_update (sv_freshness S) (db_freshness db) key match upd)\<rparr>)"

definition set_devoluciones_stale ::
  "devol_server \<Rightarrow> string \<Rightarrow> operation_context option \<Rightarrow> instant \<Rightarrow> instant \<Rightarrow> devol_db \<Rightarrow>
   (devol_error, unit) result \<times> devol_db" where
  "set_devoluciones_stale S seller_id operation now now' db =
    (case require_matching_live_lease seller_id operation of
       Inl e \<Rightarrow> (Inl e, db)
     | Inr oc \<Rightarrow> (case invalidate_readiness S ''devoluciones_operation_invalidate'' now now' (oc, db) of
         (r, _, db') \<Rightarrow> (r, db')))"

definition write_failed_marker ::
  "devol_server \<Rightarrow> operation_context \<Rightarrow> string \<Rightarrow> instant \<Rightarrow> devol_db \<Rightarrow> (devol_error, unit) result \<times> devol_db" where
  "write_failed_marker S oc source now db =
    (let d1 = (if oc_coverage_mode oc = ''active''
               then db\<lparr>db_certificates := invalidate_all_certificates (sv_certificates S) (oc_seller_id oc)
                      ''explicit_invalidation'' (db_certificates db)\<rparr>
               else db)
     in (Inr (), set_marker S (oc_seller_id oc) devoluciones_model ''failed'' source now d1))"

definition set_devoluciones_failed ::
  "devol_server \<Rightarrow> string \<Rightarrow> string \<Rightarrow> operation_context option \<Rightarrow> instant \<Rightarrow> instant \<Rightarrow> devol_db \<Rightarrow>
   (devol_error, unit) result \<times> devol_db" where
  "set_devoluciones_failed S seller_id source operation now now' db =
    (case require_matching_live_lease seller_id operation of
       Inl e \<Rightarrow> (Inl e, db)
     | Inr oc \<Rightarrow>
        (case guarded_write S seller_id [(''phase'', ''failed_marker''), (''source'', source)]
                (write_failed_marker S oc source now) False now now' (oc, db) of
           (r, _, db') \<Rightarrow> (r, db')))"

definition set_read_model_marker_state ::
  "devol_server \<Rightarrow> marker_request \<Rightarrow> operation_context option \<Rightarrow> instant \<Rightarrow> instant \<Rightarrow> devol_db \<Rightarrow>
   (devol_error, unit) result \<times> devol_db" where
  "set_read_model_marker_state S r operation now now' db =
    (case validate_writer_inputs r of
       Inl e \<Rightarrow> (Inl e, db)
     | Inr _ \<Rightarrow>
        if mr_read_model r = devoluciones_model
        then (if mr_target_state r = ''stale''
              then set_devoluciones_stale S (mr_seller_id r) operation now now' db
              else set_devoluciones_failed S (mr_seller_id r) (mr_source r) operation now now' db)
        else (Inr (), set_generic_state S r now db))"

section \<open>Facts\<close>

lemma validate_Inr: "validate_writer_inputs r = Inr () \<longleftrightarrow> strip (mr_seller_id r) \<noteq> [] \<and>
    mr_read_model r \<in> set all_read_models \<and> mr_target_state r \<in> {''stale'', ''failed''} \<and>
    mr_source r = ''operator-action'' \<and> (mr_read_model r = devoluciones_model \<or> mr_approved_runtime r)"
  by (auto simp: validate_writer_inputs_def rbind_eq_Inr writer_target_states_def writer_sources_def)

context devol_server_ok
begin

lemma generic_state_marker:
  assumes "db_freshness (set_generic_state S r now db) (mr_seller_id r @ '':'' @ mr_read_model r) = Some m"
    and "mk_seller_id m = mr_seller_id r" and "mk_read_model m = mr_read_model r"
  shows "mk_state m = mr_target_state r \<and> mk_valid_until m = Some now"
  using assms
  by (auto simp: set_generic_state_def Let_def mongo_collection.upsert_one_law [OF freshness_ok] stale_fields_def
      mongo_collection.find_one_and_update_law [OF freshness_ok] matches_def split: option.splits if_splits)

lemma generic_state_frame:
  "k \<noteq> mr_seller_id r @ '':'' @ mr_read_model r \<Longrightarrow> db_freshness (set_generic_state S r now db) k = db_freshness db k"
  by (auto simp: set_generic_state_def Let_def mongo_collection.upsert_one_law [OF freshness_ok]
      mongo_collection.find_one_and_update_law [OF freshness_ok] split: sum.splits)

text \<open>A guarded write whose writer ends in setting the marker leaves that marker.\<close>

lemma guarded_marker:
  assumes "guarded_write S s cp w False t t' (oc, db) = (Inr (), oc', db')"
    and "resource_of cp = None"
    and "\<And>d. \<exists>src d1. w d = (Inr (), set_marker S q model st src now d1)"
  shows "(\<exists>m. db_freshness db' (q @ '':'' @ model) = Some m \<and> mk_state m = st \<and> mk_valid_until m = Some now) \<and>
    (\<exists>d. db_operations db (oc_key oc) = Some d \<and> operation_lease_guard oc t d)"
proof -
  from guarded_write_Inr [OF assms(1)] obtain d db1 db2 c where
    g: "db_operations db (oc_key oc) = Some d" "operation_lease_guard oc t d" "w db1 = (Inr (), db2)"
      "db' = (invalidate_changed S (oc_seller_id oc) (tracked_resource oc cp False) db1 db2)\<lparr>db_operations := c\<rparr>"
    by blast
  have "tracked_resource oc cp False = None" using assms(2) by (simp add: tracked_resource_def)
  then have "db_freshness db' = db_freshness db2" using g(4) by (simp add: invalidate_changed_def)
  moreover obtain src d1 where "db2 = set_marker S q model st src now d1" using assms(3) [of db1] g(3) by auto
  ultimately show ?thesis using set_marker_stale [of q model st src now d1] g(1,2) by auto
qed

lemma guarded_write_Inl_same: "guarded_write S s cp w h t t' (oc, db) = (Inl e, oc', db') \<Longrightarrow> db' = db"
  by (auto simp: guarded_write_def split: sum.splits if_splits prod.splits)

end

text \<open>Both returns transitions are guarded writes whose writer ends in setting the marker.\<close>

lemma devoluciones_path:
  assumes v: "validate_writer_inputs r = Inr ()" and True: "mr_read_model r = devoluciones_model"
    and Inr: "require_matching_live_lease (mr_seller_id r) operation = Inr oc"
    and res: "set_read_model_marker_state S r operation now now' db = (res, db')"
  shows "\<exists>cp w oc'. guarded_write S (mr_seller_id r) cp w False now now' (oc, db) = (res, oc', db') \<and>
    resource_of cp = None \<and>
    (\<forall>d. \<exists>src d1. w d = (Inr (), set_marker S (mr_seller_id r) ''devoluciones'' (mr_target_state r) src now d1))"
proof -
  have op: "oc_seller_id oc = mr_seller_id r"
    using Inr by (auto simp: require_matching_live_lease_def split: option.splits if_splits)
  have nores: "resource_of [(''phase'', p), (''source'', src)] = None" for p src
    by (simp add: resource_of_def)
  show ?thesis
  proof (cases "mr_target_state r = ''stale''")
    case st: True
    let ?src = "''devoluciones_operation_invalidate''"
    let ?w = "\<lambda>d. let d1 = (if oc_coverage_mode oc = ''active'' \<and> ?src \<noteq> ''devoluciones_relevant_order_event''
                     then d\<lparr>db_certificates := invalidate_all_certificates (sv_certificates S) (oc_seller_id oc)
                            ''explicit_invalidation'' (db_certificates d)\<rparr> else d)
               in (Inr (), set_marker S (oc_seller_id oc) ''devoluciones'' ''stale'' ?src now d1)"
    have "guarded_write S (mr_seller_id r) [(''phase'', ''readiness_invalidation''), (''source'', ?src)] ?w False now now' (oc, db) =
      (res, fst (snd (invalidate_readiness S ?src now now' (oc, db))), db')"
      using res v True st Inr op
      by (auto simp: set_read_model_marker_state_def set_devoluciones_stale_def invalidate_readiness_def split: prod.splits)
    moreover have "\<exists>src d1. ?w d = (Inr (), set_marker S (mr_seller_id r) ''devoluciones'' (mr_target_state r) src now d1)" for d
      by (auto simp: Let_def op st)
    ultimately show ?thesis using nores by blast
  next
    case False
    then have failed: "mr_target_state r = ''failed''" using v validate_Inr [of r] by auto
    let ?w = "write_failed_marker S oc (mr_source r) now"
    have "guarded_write S (mr_seller_id r) [(''phase'', ''failed_marker''), (''source'', mr_source r)] ?w False now now' (oc, db) =
      (res, fst (snd (guarded_write S (mr_seller_id r) [(''phase'', ''failed_marker''), (''source'', mr_source r)] ?w
         False now now' (oc, db))), db')"
      using res v True False Inr
      by (auto simp: set_read_model_marker_state_def set_devoluciones_failed_def split: prod.splits)
    moreover have "\<exists>src d1. ?w d = (Inr (), set_marker S (mr_seller_id r) ''devoluciones'' (mr_target_state r) src now d1)" for d
      by (auto simp: write_failed_marker_def Let_def op failed devoluciones_model_def)
    ultimately show ?thesis using nores by blast
  qed
qed

section \<open>Properties\<close>

text \<open>
  The marker writer is fail-closed. It never writes a productive state: when it returns, the
  request named a known model, the operator source and \<^verbatim>\<open>stale\<close> or \<^verbatim>\<open>failed\<close>, and the marker of
  that seller and model carries that state and is expired from that instant on. For the returns model
  it returns only while the caller's own lease for that seller is live. When it raises, nothing changed.
\<close>

theorem marker_writer_fail_closed:
  assumes "devol_server_ok S" and "set_read_model_marker_state S r operation now now' db = (res, db')"
  shows "(\<forall>e. res = Inl e \<longrightarrow> db' = db) \<and>
    (res = Inr () \<longrightarrow>
      mr_read_model r \<in> set all_read_models \<and> mr_target_state r \<in> {''stale'', ''failed''} \<and>
      mr_source r = ''operator-action'' \<and>
      (\<forall>m. db_freshness db' (mr_seller_id r @ '':'' @ mr_read_model r) = Some m \<and>
           mk_seller_id m = mr_seller_id r \<and> mk_read_model m = mr_read_model r \<longrightarrow>
           mk_state m = mr_target_state r \<and> mk_valid_until m = Some now) \<and>
      (mr_read_model r = ''devoluciones'' \<longrightarrow> (\<exists>oc d. operation = Some oc \<and> oc_seller_id oc = mr_seller_id r \<and>
           db_operations db (oc_key oc) = Some d \<and> operation_lease_guard oc now d)))"
proof (cases "validate_writer_inputs r")
  case (Inl e)
  with assms(2) show ?thesis by (auto simp: set_read_model_marker_state_def)
next
  case (Inr u)
  then have v: "validate_writer_inputs r = Inr ()" by simp
  show ?thesis
  proof (cases "mr_read_model r = devoluciones_model")
    case False
    with assms(2) v show ?thesis
      using devol_server_ok.generic_state_marker [OF assms(1)] validate_Inr [of r]
      by (auto simp: set_read_model_marker_state_def devoluciones_model_def)
  next
    case True
    show ?thesis
    proof (cases "require_matching_live_lease (mr_seller_id r) operation")
      case (Inl e)
      with assms(2) v True show ?thesis
        by (auto simp: set_read_model_marker_state_def set_devoluciones_stale_def set_devoluciones_failed_def split: if_splits)
    next
      case (Inr oc)
      then have op: "operation = Some oc" "oc_seller_id oc = mr_seller_id r"
        by (auto simp: require_matching_live_lease_def split: option.splits if_splits)
      from devoluciones_path [OF v True Inr assms(2)] obtain cp w oc' where
        gw: "guarded_write S (mr_seller_id r) cp w False now now' (oc, db) = (res, oc', db')" "resource_of cp = None"
        and w: "\<And>d. \<exists>src d1. w d = (Inr (), set_marker S (mr_seller_id r) ''devoluciones'' (mr_target_state r) src now d1)"
        by blast
      show ?thesis
      proof (cases res)
        case (Inl e)
        with gw show ?thesis using devol_server_ok.guarded_write_Inl_same [OF assms(1)] by simp
      next
        case (Inr u)
        have "guarded_write S (mr_seller_id r) cp w False now now' (oc, db) = (Inr (), oc', db')" using gw(1) Inr by simp
        from devol_server_ok.guarded_marker [OF assms(1) this gw(2) w] op v True Inr show ?thesis
          by (auto simp: devoluciones_model_def validate_Inr)
      qed
    qed
  qed
qed

definition demo_marker_request :: marker_request where
  "demo_marker_request = \<lparr>mr_seller_id = ''7'', mr_read_model = ''orders'', mr_target_state = ''failed'',
     mr_source = ''operator-action'', mr_approved_runtime = True\<rparr>"

theorem marker_writer_fail_closed_witness:
  "\<exists>db' m. set_read_model_marker_state mem_server demo_marker_request None 5 5 empty_devol_db = (Inr (), db') \<and>
    db_freshness db' ''7:orders'' = Some m \<and> mk_state m = ''failed'' \<and> mk_valid_until m = Some 5"
proof -
  obtain db' m where s: "set_read_model_marker_state mem_server demo_marker_request None 5 5 empty_devol_db = (Inr (), db')"
    and m: "db_freshness db' ''7:orders'' = Some m" "mk_seller_id m = ''7''" "mk_read_model m = ''orders''"
    by (simp add: set_read_model_marker_state_def demo_marker_request_def validate_writer_inputs_def strip_def is_space_def
        all_read_models_def read_models_def writer_target_states_def writer_sources_def devoluciones_model_def
        set_generic_state_def empty_devol_db_def stale_fields_def Let_def)
  from marker_writer_fail_closed [OF mem_devol.devol_server_ok_axioms s] m s show ?thesis
    by (simp add: demo_marker_request_def)
qed

end
