(* ===== verification/OrderSubdivision.thy ===== *)
theory OrderSubdivision
  imports PyValues
begin

text \<open>
  The subdivision of an order range whose query returns too many results,
  \<^verbatim>\<open>modules/sheets/src/zeler_sheets/history_order_subdivision.py\<close>: a node is a half-open interval of
  at most ninety days, and a saturated node is split at a whole hour into two exact children. The hash
  is an argument.
\<close>

section \<open>Nodes\<close>

record range_node =
  nd_node_id :: string
  nd_root_id :: string
  nd_parent_id :: "string option"
  nd_date_from :: instant
  nd_date_to :: instant
  nd_depth :: int

definition max_subdivision_depth :: int where
  "max_subdivision_depth = 12"

datatype subdivision_error = ValidationError | InvalidTotal | InvalidBudget | SaturatedOrderHourError | HistoryLimitError

text \<open>The model's field constraints and \<^verbatim>\<open>validate_bounds\<close>.\<close>

definition valid_node :: "range_node \<Rightarrow> bool" where
  "valid_node n \<longleftrightarrow> nd_node_id n \<noteq> [] \<and> nd_root_id n \<noteq> [] \<and> nd_parent_id n \<noteq> Some [] \<and>
    0 \<le> nd_depth n \<and> nd_depth n \<le> max_subdivision_depth \<and>
    0 < nd_date_to n - nd_date_from n \<and> nd_date_to n - nd_date_from n \<le> days_us 90 \<and>
    (nd_depth n = 0 \<longleftrightarrow> nd_parent_id n = None) \<and> (nd_depth n = 0 \<longrightarrow> nd_node_id n = nd_root_id n)"

definition make_node :: "range_node \<Rightarrow> (subdivision_error, range_node) result" where
  "make_node n = (if valid_node n then Inr n else Inl ValidationError)"

definition hour_us :: duration where
  "hour_us = hours_us 1"

definition floor_hour :: "instant \<Rightarrow> instant" where
  "floor_hour t = t div hour_us * hour_us"

definition provider_hours :: "range_node \<Rightarrow> instant \<times> instant" where
  "provider_hours n =
    (let lower = floor_hour (nd_date_from n); upper = floor_hour (nd_date_to n)
     in (lower, if upper = nd_date_to n then upper - hour_us else upper))"

text \<open>\<^verbatim>\<open>isoformat(timespec="microseconds")\<close>: the fraction is always written.\<close>

definition isoformat_micro :: "instant \<Rightarrow> string" where
  "isoformat_micro t =
    (let day = t div 86400000000; us = t mod 86400000000;
         (y, m, d) = civil_from_days day; s = us div 1000000
     in pad 4 y @ ''-'' @ pad 2 m @ ''-'' @ pad 2 d @ ''T'' @ pad 2 (s div 3600) @ '':'' @
        pad 2 (s div 60 mod 60) @ '':'' @ pad 2 (s mod 60) @ ''.'' @ pad 6 (us mod 1000000) @ ''+00:00'')"

definition child_node :: "(string \<Rightarrow> string) \<Rightarrow> range_node \<Rightarrow> instant \<Rightarrow> instant \<Rightarrow> range_node" where
  "child_node H n st en = \<lparr>
     nd_node_id = H (join [char_of (0 :: nat)] [nd_node_id n, isoformat_micro st, isoformat_micro en]),
     nd_root_id = nd_root_id n, nd_parent_id = Some (nd_node_id n), nd_date_from = st, nd_date_to = en,
     nd_depth = nd_depth n + 1\<rparr>"

definition hours_of :: "range_node \<Rightarrow> int" where
  "hours_of n = (case provider_hours n of (lower, upper) \<Rightarrow> (upper - lower) div hour_us + 1)"

definition midpoint :: "range_node \<Rightarrow> instant" where
  "midpoint n = fst (provider_hours n) + hours_of n div 2 * hour_us"

definition subdivide_order_range ::
  "(string \<Rightarrow> string) \<Rightarrow> range_node \<Rightarrow> int \<Rightarrow> int \<Rightarrow> (subdivision_error, range_node list) result" where
  "subdivide_order_range H n observed_total budget =
    rbind (make_node n) (\<lambda>n.
    rbind (require (0 \<le> observed_total) InvalidTotal) (\<lambda>_.
    rbind (require (1 \<le> budget) InvalidBudget) (\<lambda>_.
    if observed_total \<le> budget then Inr [n]
    else if hours_of n = 1 then Inl SaturatedOrderHourError
    else if nd_depth n = max_subdivision_depth then Inl HistoryLimitError
    else rbind (make_node (child_node H n (nd_date_from n) (midpoint n))) (\<lambda>a.
         rbind (make_node (child_node H n (midpoint n) (nd_date_to n))) (\<lambda>b.
         Inr [a, b])))))"

text \<open>The nodes a caller can reach from a root by splitting again and again.\<close>

inductive planned :: "(string \<Rightarrow> string) \<Rightarrow> range_node \<Rightarrow> bool" for H where
  planned_root: "\<lbrakk>make_node n = Inr n; nd_depth n = 0\<rbrakk> \<Longrightarrow> planned H n"
| planned_child: "\<lbrakk>planned H n; subdivide_order_range H n seen budget = Inr ns; c \<in> set ns\<rbrakk> \<Longrightarrow> planned H c"

section \<open>Facts\<close>

lemma hour_us_pos: "0 < hour_us"
  by (simp add: hour_us_def time_defs)

lemma floor_hour_le: "floor_hour t \<le> t" and floor_hour_gt: "t < floor_hour t + hour_us"
  using div_block [OF hour_us_pos, of t] by (simp_all add: floor_hour_def distrib_right)

lemma provider_hours_block:
  obtains a b where "provider_hours n = (a * hour_us, b * hour_us)" and "hours_of n = b - a + 1"
    and "a * hour_us \<le> nd_date_from n" and "nd_date_from n < (a + 1) * hour_us"
    and "b * hour_us < nd_date_to n" and "nd_date_to n \<le> (b + 1) * hour_us"
proof -
  let ?a = "nd_date_from n div hour_us" and ?q = "nd_date_to n div hour_us"
  let ?b = "if ?q * hour_us = nd_date_to n then ?q - 1 else ?q"
  note la = div_block [OF hour_us_pos, of "nd_date_from n"] and lb = div_block [OF hour_us_pos, of "nd_date_to n"]
  have ph: "provider_hours n = (?a * hour_us, ?b * hour_us)"
    by (simp add: provider_hours_def floor_hour_def Let_def left_diff_distrib)
  moreover have "hours_of n = ?b - ?a + 1"
    using hour_us_pos by (simp add: hours_of_def ph left_diff_distrib [symmetric])
  ultimately show thesis
    using la lb hour_us_pos by (intro that [of ?a ?b]) (auto simp: algebra_simps)
qed

lemma hours_pos:
  assumes "nd_date_from n < nd_date_to n"
  shows "1 \<le> hours_of n"
proof -
  obtain a b where n: "hours_of n = b - a + 1" "a * hour_us \<le> nd_date_from n" "nd_date_to n \<le> (b + 1) * hour_us"
    by (rule provider_hours_block [of n]) blast
  then have "a * hour_us < (b + 1) * hour_us" using assms by linarith
  then show ?thesis using n(1) hour_us_pos by simp
qed

lemma hours_bound:
  assumes "valid_node n"
  shows "hours_of n \<le> 2161"
proof -
  obtain a b where n: "hours_of n = b - a + 1" "nd_date_from n < (a + 1) * hour_us" "b * hour_us < nd_date_to n"
    by (rule provider_hours_block [of n]) blast
  have "nd_date_to n - nd_date_from n \<le> 2160 * hour_us" using assms by (simp add: valid_node_def hour_us_def time_defs)
  with n(2,3) have "(b - a - 1) * hour_us < 2160 * hour_us" by (simp add: algebra_simps)
  then have "b - a - 1 < 2160" using hour_us_pos by simp
  then show ?thesis using n(1) by simp
qed

lemma midpoint_inside:
  assumes "nd_date_from n < nd_date_to n" and "hours_of n \<noteq> 1"
  shows "nd_date_from n < midpoint n" and "midpoint n < nd_date_to n"
    and "hours_of (child_node H n (nd_date_from n) (midpoint n)) = hours_of n div 2"
    and "hours_of (child_node H n (midpoint n) (nd_date_to n)) = hours_of n - hours_of n div 2"
proof -
  obtain a b where ph: "provider_hours n = (a * hour_us, b * hour_us)" and n: "hours_of n = b - a + 1"
    "a * hour_us \<le> nd_date_from n" "nd_date_from n < (a + 1) * hour_us"
    "b * hour_us < nd_date_to n" "nd_date_to n \<le> (b + 1) * hour_us"
    by (rule provider_hours_block [of n]) blast
  define h where "h = hours_of n div 2"
  have h: "1 \<le> h" "a + h \<le> b" using hours_pos [OF assms(1)] assms(2) n(1) by (auto simp: h_def)
  have mid: "midpoint n = (a + h) * hour_us" by (simp add: midpoint_def ph h_def algebra_simps)
  have "(a + 1) * hour_us \<le> (a + h) * hour_us" using h(1) hour_us_pos by (simp add: mult_right_mono)
  then show "nd_date_from n < midpoint n" using n(3) mid by linarith
  have "(a + h) * hour_us \<le> b * hour_us" using h(2) hour_us_pos by (simp add: mult_right_mono)
  then show "midpoint n < nd_date_to n" using n(4) mid by linarith
  have fa: "nd_date_from n div hour_us = a"
    using n(2,3) by (intro int_div_pos_eq [of _ _ _ "nd_date_from n - a * hour_us"]) (auto simp: algebra_simps)
  have fm: "midpoint n div hour_us = a + h" using hour_us_pos by (simp add: mid)
  have "provider_hours (child_node H n (nd_date_from n) (midpoint n)) = (a * hour_us, (a + h - 1) * hour_us)"
    using fa fm mid by (simp add: provider_hours_def child_node_def floor_hour_def Let_def left_diff_distrib)
  then show "hours_of (child_node H n (nd_date_from n) (midpoint n)) = hours_of n div 2"
    using hour_us_pos
    by (simp add: hours_of_def [of "child_node H n (nd_date_from n) (midpoint n)"] left_diff_distrib [symmetric] h_def)
  have "snd (provider_hours (child_node H n (midpoint n) (nd_date_to n))) = snd (provider_hours n)"
    by (simp add: provider_hours_def child_node_def Let_def)
  then have "provider_hours (child_node H n (midpoint n) (nd_date_to n)) = ((a + h) * hour_us, b * hour_us)"
    using ph fm by (simp add: provider_hours_def child_node_def Let_def floor_hour_def)
  then show "hours_of (child_node H n (midpoint n) (nd_date_to n)) = hours_of n - hours_of n div 2"
    using hour_us_pos n(1) by (simp add: hours_of_def [of "child_node H n (midpoint n) (nd_date_to n)"] left_diff_distrib [symmetric] h_def)
qed

lemma valid_node_lt: "valid_node n \<Longrightarrow> nd_date_from n < nd_date_to n"
  by (simp add: valid_node_def)

text \<open>The three outcomes of a split, for a valid node and a budget it exceeds.\<close>

lemma subdivide_saturated:
  assumes "valid_node n" and "1 \<le> budget" and "budget < seen" and "\<And>x. H x \<noteq> []"
  shows "subdivide_order_range H n seen budget =
    (if hours_of n = 1 then Inl SaturatedOrderHourError
     else if nd_depth n = max_subdivision_depth then Inl HistoryLimitError
     else Inr [child_node H n (nd_date_from n) (midpoint n), child_node H n (midpoint n) (nd_date_to n)])"
proof (cases "hours_of n = 1 \<or> nd_depth n = max_subdivision_depth")
  case True
  with assms show ?thesis by (auto simp: subdivide_order_range_def make_node_def)
next
  case False
  note mid = midpoint_inside(1,2) [OF valid_node_lt [OF assms(1)]]
  have "nd_date_from n < midpoint n" "midpoint n < nd_date_to n" using mid False by auto
  then have "valid_node (child_node H n (nd_date_from n) (midpoint n))" "valid_node (child_node H n (midpoint n) (nd_date_to n))"
    using assms(1,4) False by (auto simp: valid_node_def child_node_def)
  with assms False show ?thesis by (simp add: subdivide_order_range_def make_node_def)
qed

text \<open>A node at depth \<open>k\<close> of a plan spans at most \<open>2161 / 2^k\<close> provider hours, rounded up.\<close>

definition hour_budget :: "int \<Rightarrow> int" where
  "hour_budget k = ceil_div 2161 (2 ^ nat k)"

lemma half_hours:
  assumes "h \<le> ceil_div a (2 ^ k)" and "1 \<le> h"
  shows "h div 2 \<le> ceil_div a (2 ^ Suc k) \<and> h - h div 2 \<le> ceil_div a (2 ^ Suc k)"
proof -
  have "ceil_div a (2 ^ Suc k) = ceil_div (ceil_div a (2 ^ k)) 2"
    by (simp add: ceil_div_def zdiv_zmult2_eq power_Suc2 del: power_Suc)
  moreover have "h - h div 2 \<le> ceil_div (ceil_div a (2 ^ k)) 2" using assms by (simp add: ceil_div_def)
  ultimately show ?thesis by linarith
qed

lemma planned_spec:
  assumes "planned H n" and "\<And>x. H x \<noteq> []"
  shows "valid_node n \<and> hours_of n \<le> hour_budget (nd_depth n)"
  using assms(1)
proof (induction rule: planned.induct)
  case (planned_root n)
  then have "valid_node n" by (simp add: make_node_def split: if_splits)
  with hours_bound [OF this] planned_root(2) show ?case by (simp add: hour_budget_def ceil_div_def)
next
  case (planned_child n seen budget ns c)
  then have v: "valid_node n" and hb: "hours_of n \<le> hour_budget (nd_depth n)" by simp_all
  have b: "1 \<le> budget" "0 \<le> seen" using planned_child(2) by (auto simp: subdivide_order_range_def rbind_eq_Inr)
  show ?case
  proof (cases "seen \<le> budget")
    case True
    with planned_child v hb show ?thesis
      by (auto simp: subdivide_order_range_def rbind_eq_Inr make_node_def split: if_splits)
  next
    case False
    with subdivide_saturated [OF v b(1) _ assms(2), of seen] planned_child(2)
    have ns: "ns = [child_node H n (nd_date_from n) (midpoint n), child_node H n (midpoint n) (nd_date_to n)]"
      and ne: "hours_of n \<noteq> 1" by (auto split: if_splits)
    have vc: "valid_node c"
      using planned_child(2,3) False unfolding ns
      by (auto simp: subdivide_order_range_def rbind_eq_Inr make_node_def split: if_splits)
    have d: "nd_depth c = nd_depth n + 1" using planned_child(3) by (auto simp: ns child_node_def)
    have "0 \<le> nd_depth n" using v by (simp add: valid_node_def)
    then have pow: "hour_budget (nd_depth c) = ceil_div 2161 (2 ^ Suc (nat (nd_depth n)))"
      by (simp add: hour_budget_def d nat_add_distrib)
    have "hours_of c \<le> hour_budget (nd_depth c)"
      using half_hours [of "hours_of n" 2161 "nat (nd_depth n)"] hb hours_pos [OF valid_node_lt [OF v]]
        midpoint_inside(3,4) [OF valid_node_lt [OF v] ne] planned_child(3)
      unfolding pow by (auto simp: ns hour_budget_def)
    with vc show ?thesis by simp
  qed
qed

section \<open>Properties\<close>

text \<open>
  C16. A split is exact. A valid node whose total exceeds the budget is either a single provider hour,
  which is an error, or at the depth limit, or becomes two valid children under it, one level deeper,
  that share a whole-hour boundary strictly inside: every instant of the node lies in exactly one
  child, and the provider hours of the children are disjoint and together those of the node.
\<close>

theorem subdivision_exact:
  assumes "valid_node n" and "1 \<le> budget" and "budget < seen" and "\<And>x. H x \<noteq> []"
    and "hours_of n \<noteq> 1" and "nd_depth n < 12"
  shows "\<exists>a b. subdivide_order_range H n seen budget = Inr [a, b] \<and> valid_node a \<and> valid_node b \<and>
    nd_depth a = nd_depth n + 1 \<and> nd_depth b = nd_depth n + 1 \<and>
    nd_parent_id a = Some (nd_node_id n) \<and> nd_parent_id b = Some (nd_node_id n) \<and>
    nd_date_from a = nd_date_from n \<and> nd_date_to a = nd_date_from b \<and> nd_date_to b = nd_date_to n \<and>
    hour_us dvd nd_date_to a \<and> nd_date_from a < nd_date_to a \<and> nd_date_from b < nd_date_to b \<and>
    hours_of a + hours_of b = hours_of n"
proof -
  let ?a = "child_node H n (nd_date_from n) (midpoint n)" and ?b = "child_node H n (midpoint n) (nd_date_to n)"
  have eq: "subdivide_order_range H n seen budget = Inr [?a, ?b]"
    using assms by (simp add: subdivide_saturated max_subdivision_depth_def)
  have v: "valid_node ?a" "valid_node ?b"
    using eq assms(3) by (auto simp: subdivide_order_range_def rbind_eq_Inr make_node_def split: if_splits)
  obtain a b where "provider_hours n = (a * hour_us, b * hour_us)" by (rule provider_hours_block [of n]) blast
  then have "hour_us dvd midpoint n" by (simp add: midpoint_def)
  with eq v midpoint_inside [OF valid_node_lt [OF assms(1)] assms(5)] show ?thesis
    by (intro exI [of _ ?a] exI [of _ ?b]) (auto simp: child_node_def)
qed

definition demo_node :: range_node where
  "demo_node = \<lparr>nd_node_id = ''r'', nd_root_id = ''r'', nd_parent_id = None, nd_date_from = 0,
     nd_date_to = days_us 90, nd_depth = 0\<rparr>"

lemma demo_node: "valid_node demo_node" "hours_of demo_node = 2160" "make_node demo_node = Inr demo_node"
  by (simp_all add: demo_node_def valid_node_def max_subdivision_depth_def time_defs hours_of_def provider_hours_def
      floor_hour_def hour_us_def make_node_def Let_def)

theorem subdivision_exact_witness:
  "\<exists>a b. subdivide_order_range (\<lambda>x. ''h'') demo_node 10001 10000 = Inr [a, b] \<and> hours_of a + hours_of b = 2160"
  using subdivision_exact [of demo_node 10000 10001 "\<lambda>x. ''h''"] demo_node by (auto simp: demo_node_def)

text \<open>
  The depth limit is never what stops a plan. For every node reachable from a root by splitting,
  a total over the budget is refused only because the node is down to a single provider hour; the
  error of the depth limit cannot occur.
\<close>

theorem depth_budget_suffices:
  assumes "planned H n" and "\<And>x. H x \<noteq> []"
  shows "subdivide_order_range H n seen budget \<noteq> Inl HistoryLimitError"
proof
  assume limit: "subdivide_order_range H n seen budget = Inl HistoryLimitError"
  from planned_spec [OF assms] have v: "valid_node n" and hb: "hours_of n \<le> hour_budget (nd_depth n)" by simp_all
  have b: "1 \<le> budget" "budget < seen" "0 \<le> seen"
    using limit v by (auto simp: subdivide_order_range_def make_node_def require_def split: if_splits)
  from subdivide_saturated [OF v b(1,2) assms(2)] limit have "hours_of n \<noteq> 1" "nd_depth n = 12"
    by (auto simp: max_subdivision_depth_def split: if_splits)
  with hb hours_pos [OF valid_node_lt [OF v]] show False by (simp add: hour_budget_def ceil_div_def)
qed

theorem depth_budget_suffices_witness:
  "subdivide_order_range (\<lambda>x. ''h'') demo_node 10001 10000 \<noteq> Inl HistoryLimitError"
  using depth_budget_suffices [of "\<lambda>x. ''h''" demo_node 10001 10000] demo_node
  by (simp add: planned_root demo_node_def)

end
