(* ===== verification/Dispatcher.thy ===== *)
theory Dispatcher
  imports BootstrapJobs
begin

text \<open>
  The dispatcher that starts a bootstrap job when an account is linked,
  \<^verbatim>\<open>bootstrap/src/zeler_bootstrap/dispatcher.py\<close>, and the broker decision on its result,
  \<^verbatim>\<open>accounts_consumer.py\<close>. \<open>env\<close> arguments are what other processes do between the reads and the
  writes of the code.
\<close>

section \<open>Data\<close>

record lock_doc =
  lk_count :: int
  lk_acquired_at :: instant
  lk_expires_at :: instant

record 'c dispatcher =
  dp_jobs :: "'c job_doc mongo"
  dp_locks :: "lock_doc mongo"
  dp_max_concurrent :: int
  dp_max_attempts :: int

definition default_dispatcher :: "'c job_doc mongo \<Rightarrow> lock_doc mongo \<Rightarrow> 'c dispatcher" where
  "default_dispatcher J L = \<lparr>dp_jobs = J, dp_locks = L, dp_max_concurrent = 5, dp_max_attempts = 3\<rparr>"

datatype dispatch_error = RunJobFailed string

definition counter_id :: string where
  "counter_id = ''counter''"

section \<open>The slot counter\<close>

definition acquire_lock ::
  "'c dispatcher \<Rightarrow> (lock_doc coll \<Rightarrow> lock_doc coll) \<Rightarrow> instant \<Rightarrow> lock_doc coll \<Rightarrow> bool \<times> lock_doc coll" where
  "acquire_lock D env now l =
    (let bump = (\<lambda>d. \<lparr>lk_count = lk_count d + 1, lk_acquired_at = now, lk_expires_at = now + seconds 60\<rparr>) in
     case find_one (dp_locks D) l counter_id (\<lambda>_. True) of
       None \<Rightarrow>
         (case upsert_one (dp_locks D) (env l) counter_id (\<lambda>_. True) bump
                 \<lparr>lk_count = 1, lk_acquired_at = now, lk_expires_at = now + seconds 60\<rparr> of
            Inl _ \<Rightarrow> (True, env l) | Inr (_, l') \<Rightarrow> (True, l'))
     | Some current \<Rightarrow>
         if lk_count current \<ge> dp_max_concurrent D then (False, l)
         else (True, snd (find_one_and_update_before (dp_locks D) (env l) counter_id (\<lambda>_. True) bump)))"

definition release_lock ::
  "'c dispatcher \<Rightarrow> (lock_doc coll \<Rightarrow> lock_doc coll) \<Rightarrow> lock_doc coll \<Rightarrow> lock_doc coll" where
  "release_lock D env l =
    (case find_one (dp_locks D) l counter_id (\<lambda>_. True) of
       None \<Rightarrow> l
     | Some current \<Rightarrow>
         if lk_count current \<le> 0 then l
         else snd (find_one_and_update_before (dp_locks D) (env l) counter_id (\<lambda>_. True)
                (\<lambda>d. d\<lparr>lk_count := lk_count d - 1\<rparr>)))"

section \<open>Dispatch\<close>

definition mark_failed :: "'c dispatcher \<Rightarrow> string \<Rightarrow> instant \<Rightarrow> 'c job_doc coll \<Rightarrow> 'c job_doc coll" where
  "mark_failed D job_id now jobs =
    snd (find_one_and_update_before (dp_jobs D) jobs job_id (\<lambda>_. True)
      (\<lambda>d. d\<lparr>jb_state := ''failed'', jb_last_error := Some ''max dispatch attempts exceeded'',
             jb_updated_at := now, jb_failed_at := Some now\<rparr>))"

definition claim_job ::
  "'c dispatcher \<Rightarrow> string \<Rightarrow> 'c job_doc \<Rightarrow> instant \<Rightarrow> 'c job_doc coll \<Rightarrow> bool \<times> 'c job_doc coll" where
  "claim_job D job_id pending now jobs =
    (case find_one_and_update_before (dp_jobs D) jobs job_id (\<lambda>d. jb_state d = ''pending'')
       (\<lambda>d. d\<lparr>jb_state := ''running'', jb_updated_at := now,
              jb_started_at := (case jb_started_at pending of None \<Rightarrow> Some now | Some t \<Rightarrow> Some t),
              jb_dispatch_attempts := inc (jb_dispatch_attempts d), jb_attempt_count := inc (jb_attempt_count d)\<rparr>) of
       (r, jobs') \<Rightarrow> (r \<noteq> None, jobs'))"

definition unclaim_job :: "'c dispatcher \<Rightarrow> string \<Rightarrow> instant \<Rightarrow> 'c job_doc coll \<Rightarrow> 'c job_doc coll" where
  "unclaim_job D job_id now jobs =
    snd (find_one_and_update_before (dp_jobs D) jobs job_id (\<lambda>d. jb_state d = ''running'')
      (\<lambda>d. d\<lparr>jb_state := ''pending'', jb_updated_at := now\<rparr>))"

text \<open>
  The job documents carry their identifier in the collection; \<open>find\<close> gives the identifier and the
  document a query by seller and state returns. \<open>run\<close> is the call that starts the worker: the
  exception it raises, and what happened to the jobs meanwhile.
\<close>

definition handle_accounts_linked ::
  "'c dispatcher \<Rightarrow> ('c job_doc coll \<Rightarrow> string list \<Rightarrow> (string \<times> 'c job_doc) option) \<Rightarrow>
   ('c job_doc coll \<Rightarrow> 'c job_doc coll) \<Rightarrow> (lock_doc coll \<Rightarrow> lock_doc coll) \<Rightarrow>
   (string \<Rightarrow> 'c job_doc coll \<Rightarrow> string option \<times> 'c job_doc coll) \<Rightarrow> instant \<Rightarrow>
   'c job_doc coll \<times> lock_doc coll \<Rightarrow> (dispatch_error, string) result \<times> 'c job_doc coll \<times> lock_doc coll" where
  "handle_accounts_linked D look env lenv run now s = (case s of (jobs, locks) \<Rightarrow>
    if look jobs [''running'', ''dispatched''] \<noteq> None then (Inr ''skipped'', jobs, locks)
    else case look jobs [''pending''] of
      None \<Rightarrow> (Inr ''skipped'', jobs, locks)
    | Some (job_id, pending) \<Rightarrow>
        if count_of (jb_dispatch_attempts pending) \<ge> dp_max_attempts D
        then (Inr ''failed'', mark_failed D job_id now (env jobs), locks)
        else (case acquire_lock D lenv now locks of
                (False, locks1) \<Rightarrow> (Inr ''backpressure'', jobs, locks1)
              | (True, locks1) \<Rightarrow>
                 (case claim_job D job_id pending now (env jobs) of
                    (False, jobs1) \<Rightarrow> (Inr ''skipped'', jobs1, release_lock D lenv locks1)
                  | (True, jobs1) \<Rightarrow>
                     (case run job_id jobs1 of
                        (None, jobs2) \<Rightarrow> (Inr ''running'', jobs2, release_lock D lenv locks1)
                      | (Some e, jobs2) \<Rightarrow>
                          (Inl (RunJobFailed e), unclaim_job D job_id now jobs2, release_lock D lenv locks1)))))"

datatype account_action = AckEvent | RejectEvent | RetryEvent

text \<open>\<^verbatim>\<open>BootstrapAccountsConsumer.handle_message\<close> on the dispatcher's result.\<close>

definition account_action :: "(dispatch_error, string) result \<Rightarrow> account_action" where
  "account_action r = (case r of
     Inl _ \<Rightarrow> RetryEvent
   | Inr s \<Rightarrow> if s \<in> {''running'', ''skipped''} then AckEvent
       else if s = ''failed'' then RejectEvent
       else if s = ''backpressure'' then RetryEvent
       else RejectEvent)"

text \<open>The broker gives a retried message back at once; the answers to up to \<open>n\<close> deliveries of it.\<close>

fun redeliver ::
  "'c dispatcher \<Rightarrow> ('c job_doc coll \<Rightarrow> string list \<Rightarrow> (string \<times> 'c job_doc) option) \<Rightarrow>
   (string \<Rightarrow> 'c job_doc coll \<Rightarrow> string option \<times> 'c job_doc coll) \<Rightarrow> instant \<Rightarrow> nat \<Rightarrow>
   'c job_doc coll \<times> lock_doc coll \<Rightarrow> account_action list \<times> 'c job_doc coll \<times> lock_doc coll" where
  "redeliver D look run now 0 s = ([], s)"
| "redeliver D look run now (Suc n) s =
    (case handle_accounts_linked D look id id run now s of
       (r, s') \<Rightarrow> if account_action r = RetryEvent
         then (case redeliver D look run now n s' of (as, s'') \<Rightarrow> (RetryEvent # as, s''))
         else ([account_action r], s'))"

text \<open>\<^verbatim>\<open>_parse_event\<close> on the text of the seller identifier: decimal digits of a positive number.\<close>

definition valid_seller :: "string \<Rightarrow> bool" where
  "valid_seller s \<longleftrightarrow> all_digits s \<and> 0 < digits_nat s"

text \<open>What is in use of the slots.\<close>

definition slots :: "lock_doc coll \<Rightarrow> int" where
  "slots l = (case l counter_id of None \<Rightarrow> 0 | Some d \<Rightarrow> lk_count d)"

text \<open>A query by seller and state: it returns a job of that seller in one of the states, if there is one.\<close>

definition job_query ::
  "('c job_doc coll \<Rightarrow> string list \<Rightarrow> (string \<times> 'c job_doc) option) \<Rightarrow> string \<Rightarrow> 'c job_doc coll \<Rightarrow> bool" where
  "job_query look seller c \<longleftrightarrow> (\<forall>sts. case look c sts of
     None \<Rightarrow> \<forall>d \<in> ran c. jb_seller_id d = seller \<longrightarrow> jb_state d \<notin> set sts
   | Some (k, d) \<Rightarrow> c k = Some d \<and> jb_seller_id d = seller \<and> jb_state d \<in> set sts)"

definition job_on_seller :: "string \<Rightarrow> string \<Rightarrow> 'c job_doc coll \<Rightarrow> string list \<Rightarrow> (string \<times> 'c job_doc) option" where
  "job_on_seller k seller c sts = (case c k of
     Some d \<Rightarrow> if jb_seller_id d = seller \<and> jb_state d \<in> set sts then Some (k, d) else None
   | None \<Rightarrow> None)"

lemma job_on_seller_query: "dom c \<subseteq> {k} \<Longrightarrow> job_query (job_on_seller k seller) seller c"
  by (auto simp: job_query_def job_on_seller_def ran_def split: option.splits if_splits)

lemma dom_one: "dom c \<subseteq> {k} \<Longrightarrow> dom (c(k \<mapsto> d)) \<subseteq> {k}"
  by simp

section \<open>Facts\<close>

locale dispatch = jobs: mongo_collection "dp_jobs D" + locks: mongo_collection "dp_locks D"
  for D :: "'c dispatcher"
begin

lemma acquire_refused: "\<not> fst (acquire_lock D env now l) \<Longrightarrow> snd (acquire_lock D env now l) = l"
  by (auto simp: acquire_lock_def Let_def split: option.splits if_splits sum.splits)

lemma acquire_alone:
  "acquire_lock D id now l = (True, l1) \<Longrightarrow> slots l1 = slots l + 1 \<and> (l counter_id \<noteq> None \<longrightarrow> slots l < dp_max_concurrent D)"
  by (auto simp: acquire_lock_def slots_def locks.point_laws Let_def matches_def split: option.splits if_splits)

lemma release_alone: "0 < slots l \<Longrightarrow> slots (release_lock D id l) = slots l - 1"
  by (auto simp: release_lock_def slots_def locks.point_laws matches_def split: option.splits)

lemma claim_job_cases:
  "claim_job D k d now c =
    (if matches c k (\<lambda>d. jb_state d = ''pending'')
     then (True, c(k \<mapsto> (the (c k))\<lparr>jb_state := ''running'', jb_updated_at := now,
        jb_started_at := (case jb_started_at d of None \<Rightarrow> Some now | Some t \<Rightarrow> Some t),
        jb_dispatch_attempts := inc (jb_dispatch_attempts (the (c k))), jb_attempt_count := inc (jb_attempt_count (the (c k)))\<rparr>))
     else (False, c))"
  by (auto simp: claim_job_def jobs.point_laws elim: matchesE)

text \<open>The slot is given back whatever happens after it was taken.\<close>

lemma slot_returned:
  assumes "0 \<le> slots l"
  shows "slots (snd (snd (handle_accounts_linked D look env id run now (c, l)))) = slots l"
proof (cases "fst (acquire_lock D id now l)")
  case False
  with acquire_refused [OF False] show ?thesis
    by (cases "acquire_lock D id now l") (auto simp: handle_accounts_linked_def split: option.splits)
next
  case True
  then obtain l1 where l1: "acquire_lock D id now l = (True, l1)" by (metis prod.collapse)
  from acquire_alone [OF l1] assms have "slots (release_lock D id l1) = slots l" by (simp add: release_alone)
  with l1 show ?thesis
    by (auto simp: handle_accounts_linked_def split: option.splits bool.splits prod.splits)
qed

text \<open>A job that no one else touches and whose start raises: one delivery.\<close>

lemma failing_start:
  assumes "job_query look s c" and "dom c \<subseteq> {k}" and "c k = Some d" and "jb_seller_id d = s" and "jb_state d = ''pending''"
    and "count_of (jb_dispatch_attempts d) < dp_max_attempts D"
    and "0 \<le> slots l" and "slots l < dp_max_concurrent D" and "\<And>k c. run k c = (Some e, c)"
  shows "\<exists>d' l'. handle_accounts_linked D look id id run now (c, l) = (Inl (RunJobFailed e), c(k \<mapsto> d'), l') \<and>
    jb_seller_id d' = s \<and> jb_state d' = ''pending'' \<and>
    jb_dispatch_attempts d' = Some (count_of (jb_dispatch_attempts d) + 1) \<and> slots l' = slots l"
proof -
  have only: "k' = k \<and> d' = d" if "look c sts = Some (k', d')" for sts k' d'
  proof -
    have "c k' = Some d'" using assms(1) that unfolding job_query_def by (auto dest!: spec [of _ sts])
    moreover from this have "k' \<in> dom c" by (rule domI)
    ultimately show ?thesis using assms(2,3) by auto
  qed
  have "look c [''running'', ''dispatched''] = None"
  proof (cases "look c [''running'', ''dispatched'']")
    case (Some p)
    then have "look c [''running'', ''dispatched''] = Some (k, d)" using only by (cases p) auto
    then have "jb_state d \<in> {''running'', ''dispatched''}"
      using assms(1) unfolding job_query_def by (auto dest!: spec [of _ "[''running'', ''dispatched'']"])
    with assms(5) show ?thesis by simp
  qed simp
  moreover have "look c [''pending''] = Some (k, d)"
  proof (cases "look c [''pending'']")
    case None
    then have "\<forall>d \<in> ran c. jb_seller_id d = s \<longrightarrow> jb_state d \<noteq> ''pending''"
      using assms(1) unfolding job_query_def by (auto dest!: spec [of _ "[''pending'']"])
    with assms(3-5) show ?thesis by (auto intro: ranI)
  next
    case (Some p)
    with only show ?thesis by (cases p) auto
  qed
  moreover obtain l1 where l1: "acquire_lock D id now l = (True, l1)"
    using assms(8) by (auto simp: acquire_lock_def slots_def locks.point_laws matches_def Let_def split: option.splits)
  moreover have "slots (release_lock D id l1) = slots l"
    using acquire_alone [OF l1] assms(7) by (simp add: release_alone)
  ultimately show ?thesis
    using assms(3-6,9)
    by (simp add: handle_accounts_linked_def claim_job_cases unclaim_job_def jobs.point_laws inc_def)
       (rule exI, intro conjI, rule refl, simp_all)
qed

lemma redeliver_gives_up:
  assumes "dom c \<subseteq> {k}" and "c k = Some d" and "jb_seller_id d = s" and "jb_state d = ''pending''"
    and "0 \<le> slots l" and "slots l < dp_max_concurrent D"
    and "dp_max_attempts D - count_of (jb_dispatch_attempts d) = int n" and "n < m"
  shows "\<exists>c' l' d'. redeliver D (job_on_seller k s) (\<lambda>_ c. (Some e, c)) now m (c, l) =
      (replicate n RetryEvent @ [RejectEvent], c', l') \<and>
    c' k = Some d' \<and> jb_state d' = ''failed'' \<and> slots l' = slots l"
  using assms
proof (induction n arbitrary: c d l m)
  case 0
  obtain m' where m: "m = Suc m'" using 0(8) by (cases m) auto
  show ?case
    using 0(2-4,7)
    by (simp add: m handle_accounts_linked_def job_on_seller_def mark_failed_def jobs.point_laws account_action_def)
next
  case (Suc n)
  obtain m' where m: "m = Suc m'" "n < m'" using Suc.prems(8) by (cases m) auto
  have "count_of (jb_dispatch_attempts d) < dp_max_attempts D" using Suc.prems(7) by simp
  from failing_start [OF job_on_seller_query [OF Suc.prems(1)] Suc.prems(1-4) this Suc.prems(5,6), where run = "\<lambda>_ c. (Some e, c)" and e = e and now = now]
  obtain d' l1 where h: "handle_accounts_linked D (job_on_seller k s) id id (\<lambda>_ c. (Some e, c)) now (c, l) =
      (Inl (RunJobFailed e), c(k \<mapsto> d'), l1)"
    and d': "jb_seller_id d' = s" "jb_state d' = ''pending''"
      "jb_dispatch_attempts d' = Some (count_of (jb_dispatch_attempts d) + 1)" "slots l1 = slots l"
    by blast
  have "\<exists>c' l' d''. redeliver D (job_on_seller k s) (\<lambda>_ c. (Some e, c)) now m' (c(k \<mapsto> d'), l1) =
      (replicate n RetryEvent @ [RejectEvent], c', l') \<and>
    c' k = Some d'' \<and> jb_state d'' = ''failed'' \<and> slots l' = slots l1"
  proof (rule Suc.IH)
    show "dom (c(k \<mapsto> d')) \<subseteq> {k}" using Suc.prems(1) by (rule dom_one)
    show "dp_max_attempts D - count_of (jb_dispatch_attempts d') = int n"
      using Suc.prems(7) by (simp add: d'(3) count_of_def [of "Some _"])
  qed (use Suc.prems(5,6) d' m(2) in simp_all)
  with h d'(4) show ?case by (auto simp: m(1) account_action_def)
qed

text \<open>The counter seen just under the bound by two dispatchers.\<close>

lemma acquire_race:
  assumes "l counter_id = Some d" and "lk_count d = dp_max_concurrent D - 1"
  shows "\<exists>l'. acquire_lock D (\<lambda>l. snd (acquire_lock D id now1 l)) now2 l = (True, l') \<and>
    fst (acquire_lock D id now1 l) \<and> slots l' = dp_max_concurrent D + 1"
  using assms by (simp add: acquire_lock_def Let_def locks.point_laws slots_def)

end

text \<open>The production bounds, on in-memory collections.\<close>

interpretation mem_dispatch: dispatch "default_dispatcher mem_mongo mem_mongo"
  by (intro dispatch.intro) (simp_all add: default_dispatcher_def mem.mongo_collection_axioms)

section \<open>Properties\<close>


abbreviation pending_job :: "string job_doc" where
  "pending_job \<equiv> demo_job ''pending'' None"


text \<open>
  A start that always fails is given up. Redelivered while its worker cannot be started, a
  pending job with \<open>a\<close> dispatch attempts is retried by the broker exactly \<open>max_attempts - a\<close> times and
  then dead-lettered, with the job stored as \<^verbatim>\<open>failed\<close> and every slot given back.
\<close>

theorem failing_start_given_up:
  assumes "mongo_collection (dp_jobs D)" and "mongo_collection (dp_locks D)"
    and "dom c \<subseteq> {k}" and "c k = Some d" and "jb_seller_id d = s" and "jb_state d = ''pending''"
    and "0 \<le> slots l" and "slots l < dp_max_concurrent D"
    and "dp_max_attempts D - count_of (jb_dispatch_attempts d) = int n" and "n < m"
  shows "\<exists>c' l' d'. redeliver D (job_on_seller k s) (\<lambda>_ c. (Some e, c)) now m (c, l) =
      (replicate n RetryEvent @ [RejectEvent], c', l') \<and>
    c' k = Some d' \<and> jb_state d' = ''failed'' \<and> slots l' = slots l"
  using dispatch.redeliver_gives_up [OF dispatch.intro [OF assms(1,2)] assms(3-10)] .

theorem failing_start_given_up_witness:
  "\<exists>c' l' d'. redeliver (default_dispatcher mem_mongo mem_mongo) (job_on_seller ''j'' ''7'') (\<lambda>_ c. (Some ''quota'', c)) 5 9
      ([''j'' \<mapsto> pending_job], Map.empty) = (replicate 3 RetryEvent @ [RejectEvent], c', l') \<and>
    c' ''j'' = Some d' \<and> jb_state d' = ''failed'' \<and> slots l' = 0"
  using failing_start_given_up [OF mem_dispatch.jobs.mongo_collection_axioms mem_dispatch.locks.mongo_collection_axioms,
      of "[''j'' \<mapsto> pending_job]" "''j''" pending_job "''7''" "Map.empty" 3 9 "''quota''" 5]
  by (simp add: demo_job_def default_dispatcher_def slots_def count_of_def)

text \<open>
  The concurrency bound is not enforced under concurrency. The counter is read and then
  incremented without a condition, so two dispatchers that both see it one under the bound both get
  a slot, and the counter passes the bound.
\<close>

theorem concurrency_bound_race:
  assumes "mongo_collection (dp_jobs D)" and "mongo_collection (dp_locks D)"
    and "l counter_id = Some d" and "lk_count d = dp_max_concurrent D - 1"
  shows "\<exists>l'. acquire_lock D (\<lambda>l. snd (acquire_lock D id now1 l)) now2 l = (True, l') \<and>
    fst (acquire_lock D id now1 l) \<and> slots l' = dp_max_concurrent D + 1"
  using dispatch.acquire_race [of D l d now1 now2, OF dispatch.intro [OF assms(1,2)] assms(3,4)] .

theorem concurrency_bound_race_witness:
  "\<exists>l'. acquire_lock (default_dispatcher (mem_mongo :: string job_doc mongo) mem_mongo)
      (\<lambda>l. snd (acquire_lock (default_dispatcher (mem_mongo :: string job_doc mongo) mem_mongo) id 1 l)) 2
      [counter_id \<mapsto> \<lparr>lk_count = 4, lk_acquired_at = 0, lk_expires_at = seconds 60\<rparr>] = (True, l') \<and> slots l' = 6"
  using concurrency_bound_race [OF mem_dispatch.jobs.mongo_collection_axioms mem_dispatch.locks.mongo_collection_axioms,
      of "[counter_id \<mapsto> \<lparr>lk_count = 4, lk_acquired_at = 0, lk_expires_at = seconds 60\<rparr>]" _ 1 2]
  by (simp add: default_dispatcher_def) (blast | auto)

end
