(* ===== verification/PublishRetry.thy ===== *)
theory PublishRetry
  imports Complex_Main Prelude
begin

text \<open>
  The retry loop around the publication of a bootstrap completion event, \<^verbatim>\<open>_publish_with_retry\<close> of
  \<^verbatim>\<open>bootstrap/src/zeler_bootstrap/runtime.py\<close>. The publisher, the clock and the random draw are
  arguments; the model records every publication and every sleep. Seconds are rationals, where the
  code has floats.
\<close>

section \<open>Data\<close>

datatype publish_exception = PubTimeout | PubConnection | PubAmqp string | PubOther string

definition is_retryable_publish_error :: "publish_exception \<Rightarrow> bool" where
  "is_retryable_publish_error e = (case e of PubOther _ \<Rightarrow> False | _ \<Rightarrow> True)"

datatype publish_failure = InvalidMaxAttempts | PublishFailed nat publish_exception

record publish_config =
  pb_max_attempts :: int
  pb_base_delay :: rat
  pb_factor :: rat
  pb_jitter_pct :: rat
  pb_per_sleep_cap :: rat
  pb_wall_clock_cap :: rat

definition default_publish :: publish_config where
  "default_publish = \<lparr>pb_max_attempts = 3, pb_base_delay = 1/2, pb_factor = 2, pb_jitter_pct = 1/5,
     pb_per_sleep_cap = 5, pb_wall_clock_cap = 30\<rparr>"

text \<open>
  Around attempt \<open>n\<close>: the exception of the publication (a timeout of \<^verbatim>\<open>wait_for\<close> included) or
  \<open>None\<close>, the clock when a failure is handled (\<open>bk_start\<close> at the call), and the draw of the jitter.
\<close>

record broker =
  bk_publish :: "nat \<Rightarrow> publish_exception option"
  bk_start :: rat
  bk_clock :: "nat \<Rightarrow> rat"
  bk_jitter :: "nat \<Rightarrow> rat"

datatype publish_step = Published nat | Paused nat rat

section \<open>The loop\<close>

definition retry_delay :: "publish_config \<Rightarrow> broker \<Rightarrow> nat \<Rightarrow> rat" where
  "retry_delay C B n =
    (let raw_delay = pb_base_delay C * pb_factor C ^ (n - 1);
         jitter_multiplier = 1 + (bk_jitter B n * 2 - 1) * pb_jitter_pct C
     in min (raw_delay * jitter_multiplier) (pb_per_sleep_cap C))"

definition remaining :: "publish_config \<Rightarrow> broker \<Rightarrow> nat \<Rightarrow> rat" where
  "remaining C B n = pb_wall_clock_cap C - (bk_clock B n - bk_start B)"

function publish_from :: "publish_config \<Rightarrow> broker \<Rightarrow> nat \<Rightarrow> (publish_failure, unit) result \<times> publish_step list" where
  "publish_from C B n =
    (if pb_max_attempts C < int n then (Inr (), [])
     else case bk_publish B n of
       None \<Rightarrow> (Inr (), [Published n])
     | Some e \<Rightarrow>
         if \<not> is_retryable_publish_error e then (Inl (PublishFailed n e), [Published n])
         else if pb_max_attempts C \<le> int n then (Inl (PublishFailed n e), [Published n])
         else if remaining C B n \<le> 0 then (Inl (PublishFailed n e), [Published n])
         else (case publish_from C B (n + 1) of
                 (r, tr) \<Rightarrow> (r, Published n # Paused n (min (retry_delay C B n) (remaining C B n)) # tr)))"
  by pat_completeness auto
termination
  by (relation "measure (\<lambda>(C, B, n). Suc (nat (pb_max_attempts C)) - n)") auto

declare publish_from.simps [simp del]

definition publish_with_retry :: "publish_config \<Rightarrow> broker \<Rightarrow> (publish_failure, unit) result \<times> publish_step list" where
  "publish_with_retry C B =
    (if pb_max_attempts C < 1 then (Inl InvalidMaxAttempts, []) else publish_from C B 1)"

section \<open>Facts\<close>

definition publications :: "publish_step list \<Rightarrow> nat list" where
  "publications tr = concat (map (\<lambda>s. case s of Published n \<Rightarrow> [n] | Paused _ _ \<Rightarrow> []) tr)"

definition slept :: "publish_step list \<Rightarrow> rat" where
  "slept tr = sum_list (map (\<lambda>s. case s of Published _ \<Rightarrow> 0 | Paused _ q \<Rightarrow> q) tr)"

lemma publish_trace_simps [simp]:
  "publications [] = []" "slept [] = 0"
  "publications (Published n # tr) = n # publications tr" "publications (Paused n q # tr) = publications tr"
  "slept (Published n # tr) = slept tr" "slept (Paused n q # tr) = q + slept tr"
  by (simp_all add: publications_def slept_def)

text \<open>A clock that moves on by at least each sleep, and never back.\<close>

definition clock_ok :: "publish_config \<Rightarrow> broker \<Rightarrow> bool" where
  "clock_ok C B \<longleftrightarrow> bk_start B \<le> bk_clock B 1 \<and>
    (\<forall>n \<ge> 1. bk_clock B n + max 0 (min (retry_delay C B n) (remaining C B n)) \<le> bk_clock B (n + 1))"

lemma publish_from_outcome:
  assumes "int n \<le> pb_max_attempts C" and "publish_from C B n = (r, tr)"
  shows "\<exists>m \<ge> n. int m \<le> pb_max_attempts C \<and> publications tr = [n ..< Suc m] \<and>
    (\<forall>i \<in> {n ..< m}. \<exists>e. bk_publish B i = Some e \<and> is_retryable_publish_error e) \<and>
    (case bk_publish B m of None \<Rightarrow> r = Inr ()
     | Some e \<Rightarrow> r = Inl (PublishFailed m e) \<and>
         (is_retryable_publish_error e \<longrightarrow> int m = pb_max_attempts C \<or> remaining C B m \<le> 0))"
  using assms
proof (induction C B n arbitrary: r tr rule: publish_from.induct)
  case (1 C B n)
  show ?case
  proof (cases "\<exists>e. bk_publish B n = Some e \<and> is_retryable_publish_error e \<and> int n < pb_max_attempts C \<and>
      0 < remaining C B n")
    case False
    with 1(2,3) show ?thesis
      by (intro exI [of _ n]) (auto simp: publish_from.simps [of C B n] split: option.splits if_splits)
  next
    case True
    then obtain e where e: "bk_publish B n = Some e" "is_retryable_publish_error e" "int n < pb_max_attempts C"
      "0 < remaining C B n" by blast
    obtain r' tr' where rec: "publish_from C B (n + 1) = (r', tr')" by fastforce
    have res: "r = r'" "publications tr = n # publications tr'"
      using 1(3) e rec by (auto simp: publish_from.simps [of C B n])
    have "\<exists>m\<ge>n + 1. int m \<le> pb_max_attempts C \<and> publications tr' = [n + 1 ..< Suc m] \<and>
       (\<forall>i \<in> {n + 1 ..< m}. \<exists>e. bk_publish B i = Some e \<and> is_retryable_publish_error e) \<and>
       (case bk_publish B m of None \<Rightarrow> r' = Inr ()
        | Some e \<Rightarrow> r' = Inl (PublishFailed m e) \<and>
            (is_retryable_publish_error e \<longrightarrow> int m = pb_max_attempts C \<or> remaining C B m \<le> 0))"
      using e rec by (intro 1(1)) auto
    then obtain m where m: "n + 1 \<le> m" "int m \<le> pb_max_attempts C" "publications tr' = [n + 1 ..< Suc m]"
       "\<forall>i \<in> {n + 1 ..< m}. \<exists>e. bk_publish B i = Some e \<and> is_retryable_publish_error e"
       "case bk_publish B m of None \<Rightarrow> r' = Inr ()
        | Some e \<Rightarrow> r' = Inl (PublishFailed m e) \<and>
            (is_retryable_publish_error e \<longrightarrow> int m = pb_max_attempts C \<or> remaining C B m \<le> 0)"
      by blast
    have "publications tr = [n ..< Suc m]" using res(2) m(1,3) by (simp add: upt_rec [of n m])
    moreover have "\<forall>i \<in> {n ..< m}. \<exists>e. bk_publish B i = Some e \<and> is_retryable_publish_error e"
      using m(4) e(1,2) by (metis Suc_eq_plus1 Suc_leI atLeastLessThan_iff le_neq_implies_less)
    ultimately show ?thesis using m res(1) by (intro exI [of _ m]) auto
  qed
qed

text \<open>What is slept from attempt \<open>n\<close> on fits in what is left of the wall-clock budget there.\<close>

lemma publish_from_slept:
  assumes "clock_ok C B" and "1 \<le> n" and "publish_from C B n = (r, tr)"
  shows "slept tr \<le> max 0 (remaining C B n)"
  using assms
proof (induction C B n arbitrary: r tr rule: publish_from.induct)
  case (1 C B n)
  show ?case
  proof (cases "\<exists>e. bk_publish B n = Some e \<and> is_retryable_publish_error e \<and> int n < pb_max_attempts C \<and>
      0 < remaining C B n")
    case False
    with 1(4) show ?thesis by (auto simp: publish_from.simps [of C B n] split: option.splits if_splits)
  next
    case True
    then obtain e where e: "bk_publish B n = Some e" "is_retryable_publish_error e" "int n < pb_max_attempts C"
      "0 < remaining C B n" by blast
    obtain r' tr' where rec: "publish_from C B (n + 1) = (r', tr')" by fastforce
    let ?q = "min (retry_delay C B n) (remaining C B n)"
    have "slept tr = ?q + slept tr'" using 1(4) e rec by (auto simp: publish_from.simps [of C B n])
    moreover have "slept tr' \<le> max 0 (remaining C B (n + 1))" using e rec 1(2,3) by (intro 1(1)) auto
    moreover have "remaining C B (n + 1) \<le> remaining C B n - max 0 ?q"
      using 1(2,3) unfolding clock_ok_def remaining_def by (auto dest: spec [of _ n])
    ultimately show ?thesis using e(4) by (auto simp: max_def min_def split: if_splits)
  qed
qed

section \<open>Properties\<close>

text \<open>
  The publication is tried at most \<^verbatim>\<open>max_attempts\<close> times, once per attempt number; every attempt
  but the last failed with a retryable error; the call returns exactly when the last one succeeded
  and otherwise raises with the number and the error of that attempt, which was not retryable, the
  last allowed, or past the wall-clock budget; and the sleeps together stay within that budget.
\<close>

theorem publish_settles:
  assumes "clock_ok C B" and "1 \<le> pb_max_attempts C" and "0 \<le> pb_wall_clock_cap C"
    and "publish_with_retry C B = (r, tr)"
  shows "\<exists>m \<ge> 1. int m \<le> pb_max_attempts C \<and> publications tr = [1 ..< Suc m] \<and>
    (\<forall>i \<in> {1 ..< m}. \<exists>e. bk_publish B i = Some e \<and> is_retryable_publish_error e) \<and>
    (case bk_publish B m of None \<Rightarrow> r = Inr ()
     | Some e \<Rightarrow> r = Inl (PublishFailed m e) \<and>
         (is_retryable_publish_error e \<longrightarrow> int m = pb_max_attempts C \<or> remaining C B m \<le> 0)) \<and>
    slept tr \<le> pb_wall_clock_cap C"
proof -
  have p: "publish_from C B 1 = (r, tr)" using assms(2,4) by (simp add: publish_with_retry_def)
  have "slept tr \<le> max 0 (remaining C B 1)" using assms(1) p by (intro publish_from_slept) auto
  moreover have "remaining C B 1 \<le> pb_wall_clock_cap C" using assms(1) by (simp add: clock_ok_def remaining_def)
  ultimately have "slept tr \<le> pb_wall_clock_cap C" using assms(3) by simp
  with publish_from_outcome [OF _ p] assms(2) show ?thesis by auto
qed

text \<open>A broker that refuses two connections and then accepts; its clock is five seconds further at each.\<close>

definition demo_broker :: broker where
  "demo_broker = \<lparr>bk_publish = (\<lambda>n. if n < 3 then Some PubConnection else None), bk_start = 0,
     bk_clock = (\<lambda>n. of_nat n * 5), bk_jitter = (\<lambda>_. 1/2)\<rparr>"

lemma demo_broker_clock: "clock_ok default_publish demo_broker"
proof -
  have "retry_delay default_publish demo_broker n \<le> 5" for n
    by (simp add: retry_delay_def default_publish_def Let_def)
  then have "max 0 (min (retry_delay default_publish demo_broker n) q) \<le> 5" for n q
    by (meson max.boundedI min.coboundedI1 zero_le_numeral)
  then show ?thesis by (simp add: clock_ok_def) (simp add: demo_broker_def algebra_simps)
qed

theorem publish_settles_witness:
  "\<exists>tr. publish_with_retry default_publish demo_broker = (Inr (), tr) \<and> publications tr = [1, 2, 3] \<and> slept tr \<le> 30"
proof -
  obtain r tr where p: "publish_with_retry default_publish demo_broker = (r, tr)" by fastforce
  then have "r = Inr () \<and> publications tr = [1, 2, 3]"
    by (auto simp: publish_with_retry_def publish_from.simps default_publish_def demo_broker_def remaining_def
        is_retryable_publish_error_def)
  moreover have "slept tr \<le> 30"
    using publish_settles [OF demo_broker_clock _ _ p] by (auto simp: default_publish_def)
  ultimately show ?thesis using p by blast
qed

end
