(* ===== verification/WebhookClassifier.thy ===== *)
theory WebhookClassifier
  imports PyValues
begin

text \<open>
  The classification of marketplace notifications, \<^verbatim>\<open>gateway/src/zeler_gateway/webhooks/classifier.py\<close>:
  the routing key and idempotency key of a notification, the canonical resource of a claim and the
  envelope that is published.
\<close>

section \<open>Notification values\<close>

text \<open>
  The values of a stored notification. \<open>VOther\<close> is a value of any other type with the text
  \<^verbatim>\<open>str\<close> gives; the text of a list or an object is an argument of \<open>py_str\<close>.
\<close>

datatype pyval = VNone | VBool bool | VInt int | VStr string | VDate py_datetime
  | VList "pyval list" | VObj "(string \<times> pyval) list" | VOther string

type_synonym event = "(string \<times> pyval) list"

definition truthy :: "pyval \<Rightarrow> bool" where
  "truthy v = (case v of VNone \<Rightarrow> False | VBool b \<Rightarrow> b | VInt i \<Rightarrow> i \<noteq> 0 | VStr s \<Rightarrow> s \<noteq> []
     | VList xs \<Rightarrow> xs \<noteq> [] | VObj kvs \<Rightarrow> kvs \<noteq> [] | _ \<Rightarrow> True)"

definition py_str :: "(pyval \<Rightarrow> string) \<Rightarrow> pyval \<Rightarrow> string" where
  "py_str R v = (case v of VNone \<Rightarrow> ''None'' | VBool b \<Rightarrow> if b then ''True'' else ''False''
     | VInt i \<Rightarrow> int_str i | VStr s \<Rightarrow> s | VOther s \<Rightarrow> s | _ \<Rightarrow> R v)"

definition get :: "event \<Rightarrow> string \<Rightarrow> pyval" where
  "get ev k = (case map_of ev k of None \<Rightarrow> VNone | Some v \<Rightarrow> v)"

definition get_text :: "(pyval \<Rightarrow> string) \<Rightarrow> event \<Rightarrow> string \<Rightarrow> string" where
  "get_text R ev k = (case map_of ev k of None \<Rightarrow> [] | Some v \<Rightarrow> py_str R v)"

section \<open>Routing\<close>

datatype classify_error = UnknownWebhookTopicError string | MissingEventId | KeyError string | ValueError | TypeError

definition topic_routing_keys :: "(string \<times> string) list" where
  "topic_routing_keys = [
     (''items'', ''items.updated''), (''orders_v2'', ''orders.updated''),
     (''shipments'', ''shipments.updated''), (''questions'', ''questions.new''),
     (''messages'', ''messages.new''), (''items_prices'', ''items.price_updated''),
     (''catalog_item_competition_status'', ''catalog_item_competition_status.updated''),
     (''user-products-families'', ''user_products.families_updated''),
     (''stock-locations'', ''stock_locations.updated''),
     (''price_suggestion'', ''price_suggestion.updated''),
     (''fbm_stock_operations'', ''fbm_stock_operations.new'')]"

definition claim_prefix :: string where
  "claim_prefix = ''/post-purchase/v1/claims/''"

definition actions_suffix :: string where
  "actions_suffix = ''/actions-history''"

text \<open>The claim identifier of the two patterns, on a full match.\<close>

definition claim_resource :: "string \<Rightarrow> string option" where
  "claim_resource s =
    (let rest = drop (length claim_prefix) s in
     if starts_with claim_prefix s \<and> all_digits rest then Some rest else None)"

definition claim_actions_resource :: "string \<Rightarrow> string option" where
  "claim_actions_resource s =
    (if ends_with actions_suffix s then claim_resource (take (length s - length actions_suffix) s) else None)"

definition post_purchase_claim_resource :: "string \<Rightarrow> string option" where
  "post_purchase_claim_resource s =
    (case (case claim_resource s of None \<Rightarrow> claim_actions_resource s | Some i \<Rightarrow> Some i) of
       None \<Rightarrow> None | Some i \<Rightarrow> Some (claim_prefix @ i))"

definition classify_webhook_topic :: "string \<Rightarrow> string \<Rightarrow> (classify_error, string) result" where
  "classify_webhook_topic topic resource =
    (if topic = ''post_purchase'' \<and> post_purchase_claim_resource resource \<noteq> None then Inr ''claims.updated''
     else (case map_of topic_routing_keys topic of
             None \<Rightarrow> Inl (UnknownWebhookTopicError topic)
           | Some k \<Rightarrow> Inr k))"

text \<open>\<^verbatim>\<open>WebhookTopicClassification.idempotency_key\<close>.\<close>

definition topic_idempotency_key :: "string \<Rightarrow> string \<Rightarrow> string" where
  "topic_idempotency_key routing_key notification_id = routing_key @ '':'' @ notification_id"

definition event_id :: "(pyval \<Rightarrow> string) \<Rightarrow> event \<Rightarrow> (classify_error, string) result" where
  "event_id R ev =
    (let v = (if truthy (get ev ''_id'') then get ev ''_id''
              else if truthy (get ev ''notification_id'') then get ev ''notification_id''
              else get ev ''id'')
     in if v = VNone then Inl MissingEventId else Inr (py_str R v))"

definition event_actions :: "event \<Rightarrow> pyval" where
  "event_actions ev =
    (case get ev ''actions'' of
       VNone \<Rightarrow> (case get ev ''raw_body'' of VObj body \<Rightarrow> get body ''actions'' | _ \<Rightarrow> VNone)
     | v \<Rightarrow> v)"

definition normalize_post_purchase_claim_event ::
  "(pyval \<Rightarrow> string) \<Rightarrow> event \<Rightarrow> (classify_error, string) result" where
  "normalize_post_purchase_claim_event R ev =
    (let resource = get_text R ev ''resource''; actions = event_actions ev in
     if claim_resource resource \<noteq> None \<and> actions = VList [VStr ''claims''] then Inr resource
     else (case claim_actions_resource resource of
             Some i \<Rightarrow> if actions = VList [VStr ''claims_actions''] then Inr (claim_prefix @ i)
                       else Inl (UnknownWebhookTopicError ''post_purchase'')
           | None \<Rightarrow> Inl (UnknownWebhookTopicError ''post_purchase'')))"

record classified =
  cw_routing_key :: string
  cw_event_type :: string
  cw_idempotency_key :: string
  cw_resource :: string

definition classify_webhook_event :: "(pyval \<Rightarrow> string) \<Rightarrow> event \<Rightarrow> (classify_error, classified) result" where
  "classify_webhook_event R ev =
    (let topic = get_text R ev ''topic''; resource = get_text R ev ''resource'' in
     rbind (if topic = ''post_purchase''
            then rbind (normalize_post_purchase_claim_event R ev) (\<lambda>r. Inr (r, Some ''claims.updated''))
            else Inr (resource, map_of topic_routing_keys topic)) (\<lambda>(normalized, routing_key).
     case routing_key of None \<Rightarrow> Inl (UnknownWebhookTopicError topic)
     | Some k \<Rightarrow> rbind (event_id R ev) (\<lambda>notification_id.
         Inr \<lparr>cw_routing_key = k, cw_event_type = k,
              cw_idempotency_key = topic @ '':'' @ normalized @ '':'' @ notification_id,
              cw_resource = normalized\<rparr>)))"

section \<open>Envelope\<close>

text \<open>\<open>local\<close> is the zone a date without zone is taken in, \<open>now\<close> the clock.\<close>

definition format_occurred_at :: "(int \<Rightarrow> instant) \<Rightarrow> instant \<Rightarrow> pyval \<Rightarrow> string" where
  "format_occurred_at local now v =
    (let timestamp = (case v of VDate (Aware t) \<Rightarrow> t | VDate (Naive t) \<Rightarrow> local t | _ \<Rightarrow> now);
         s = isoformat timestamp
     in take (length s - length ''+00:00'') s @ ''Z'')"

record envelope =
  env_event_id :: string
  env_event_type :: string
  env_occurred_at :: string
  env_seller_id :: int
  env_resource :: string
  env_trace_id :: string
  env_schema_version :: int

definition seller_of :: "event \<Rightarrow> (classify_error, int) result" where
  "seller_of ev = (case map_of ev ''user_id'' of
     None \<Rightarrow> Inl (KeyError ''user_id'')
   | Some (VInt i) \<Rightarrow> Inr i
   | Some (VBool b) \<Rightarrow> Inr (if b then 1 else 0)
   | Some (VStr s) \<Rightarrow> (case py_int_text s of None \<Rightarrow> Inl ValueError | Some i \<Rightarrow> Inr i)
   | Some _ \<Rightarrow> Inl TypeError)"

definition build_event_envelope ::
  "(pyval \<Rightarrow> string) \<Rightarrow> (int \<Rightarrow> instant) \<Rightarrow> instant \<Rightarrow> event \<Rightarrow> string option \<Rightarrow> (classify_error, envelope) result" where
  "build_event_envelope R local now ev trace_id =
    rbind (classify_webhook_event R ev) (\<lambda>c.
    rbind (event_id R ev) (\<lambda>i.
    rbind (seller_of ev) (\<lambda>seller.
    Inr \<lparr>env_event_id = i, env_event_type = cw_event_type c,
         env_occurred_at = format_occurred_at local now (get ev ''received_at''), env_seller_id = seller,
         env_resource = cw_resource c, env_trace_id = or_str trace_id [], env_schema_version = 1\<rparr>)))"

section \<open>Facts\<close>

lemma claim_resource_eq: "claim_resource s = Some i \<longleftrightarrow> s = claim_prefix @ i \<and> all_digits i"
  by (auto simp: claim_resource_def Let_def starts_with_def split: if_splits)
     (metis append_take_drop_id)

lemma claim_actions_eq:
  "claim_actions_resource s = Some i \<longleftrightarrow> s = claim_prefix @ i @ actions_suffix \<and> all_digits i"
proof
  assume "claim_actions_resource s = Some i"
  then have "ends_with actions_suffix s" "take (length s - length actions_suffix) s = claim_prefix @ i" "all_digits i"
    by (auto simp: claim_actions_resource_def claim_resource_eq split: if_splits)
  then show "s = claim_prefix @ i @ actions_suffix \<and> all_digits i"
    unfolding ends_with_def by (metis append.assoc append_take_drop_id)
next
  assume "s = claim_prefix @ i @ actions_suffix \<and> all_digits i"
  then show "claim_actions_resource s = Some i"
    using ends_with_append [of actions_suffix "claim_prefix @ i"]
    by (simp add: claim_actions_resource_def claim_resource_eq)
qed

text \<open>The topics that classify: one of the table, or the claims topic.\<close>

definition known_topic :: "string \<Rightarrow> bool" where
  "known_topic t \<longleftrightarrow> t = ''post_purchase'' \<or> map_of topic_routing_keys t \<noteq> None"

lemma known_topic_plain: "known_topic t \<Longrightarrow> CHR '':'' \<notin> set t"
  by (auto simp: known_topic_def topic_routing_keys_def split: if_splits)

lemma classify_parts:
  assumes "classify_webhook_event R ev = Inr c"
  shows "\<exists>i. known_topic (get_text R ev ''topic'') \<and> event_id R ev = Inr i \<and>
    cw_idempotency_key c = get_text R ev ''topic'' @ '':'' @ cw_resource c @ '':'' @ i"
  using assms
  by (auto simp: classify_webhook_event_def known_topic_def Let_def rbind_eq_Inr split: if_splits option.splits)

text \<open>A claim and its action history are one resource, which both classifiers route alike.\<close>

lemma classified_claim:
  assumes "classify_webhook_event R ev = Inr c" and "get_text R ev ''topic'' = ''post_purchase''"
  shows "\<exists>i. all_digits i \<and> cw_resource c = claim_prefix @ i \<and> cw_routing_key c = ''claims.updated'' \<and>
    get_text R ev ''resource'' \<in> {claim_prefix @ i, claim_prefix @ i @ actions_suffix}"
  using assms
  by (auto simp: classify_webhook_event_def normalize_post_purchase_claim_event_def Let_def rbind_eq_Inr
      claim_resource_eq claim_actions_eq split: if_splits option.splits)

lemma classified_topic:
  assumes "classify_webhook_event R ev = Inr c"
  shows "classify_webhook_topic (get_text R ev ''topic'') (get_text R ev ''resource'') = Inr (cw_routing_key c)"
proof (cases "get_text R ev ''topic'' = ''post_purchase''")
  case True
  from classified_claim [OF assms True] obtain i where i: "all_digits i" "cw_routing_key c = ''claims.updated''"
    "get_text R ev ''resource'' \<in> {claim_prefix @ i, claim_prefix @ i @ actions_suffix}" by blast
  then have "claim_resource (get_text R ev ''resource'') = Some i \<or> claim_actions_resource (get_text R ev ''resource'') = Some i"
    by (auto simp: claim_resource_eq claim_actions_eq)
  with i(2) True show ?thesis
    by (auto simp: classify_webhook_topic_def post_purchase_claim_resource_def split: option.splits)
next
  case False
  with assms show ?thesis
    by (auto simp: classify_webhook_event_def classify_webhook_topic_def Let_def rbind_eq_Inr split: option.splits)
qed

section \<open>Properties\<close>

text \<open>
  C18. The idempotency key identifies a notification. Two classified notifications whose identifiers
  have no colon get the same key exactly when topic, canonical resource and identifier agree; they
  are then routed alike, by the same key as the classification of the topic alone gives.
\<close>

theorem webhook_key_identifies:
  assumes "classify_webhook_event R e1 = Inr c1" and "classify_webhook_event R e2 = Inr c2"
    and "event_id R e1 = Inr i1" and "event_id R e2 = Inr i2" and "CHR '':'' \<notin> set i1" and "CHR '':'' \<notin> set i2"
  shows "(cw_idempotency_key c1 = cw_idempotency_key c2 \<longleftrightarrow>
      get_text R e1 ''topic'' = get_text R e2 ''topic'' \<and> cw_resource c1 = cw_resource c2 \<and> i1 = i2) \<and>
    (cw_idempotency_key c1 = cw_idempotency_key c2 \<longrightarrow> cw_routing_key c1 = cw_routing_key c2) \<and>
    classify_webhook_topic (get_text R e1 ''topic'') (get_text R e1 ''resource'') = Inr (cw_routing_key c1)"
proof -
  let ?t1 = "get_text R e1 ''topic''" and ?t2 = "get_text R e2 ''topic''"
  have k1: "known_topic ?t1" "cw_idempotency_key c1 = ?t1 @ CHR '':'' # cw_resource c1 @ CHR '':'' # i1"
    using classify_parts [OF assms(1)] assms(3) by auto
  have k2: "known_topic ?t2" "cw_idempotency_key c2 = ?t2 @ CHR '':'' # cw_resource c2 @ CHR '':'' # i2"
    using classify_parts [OF assms(2)] assms(4) by auto
  have iff: "cw_idempotency_key c1 = cw_idempotency_key c2 \<longleftrightarrow> ?t1 = ?t2 \<and> cw_resource c1 = cw_resource c2 \<and> i1 = i2"
    using sep_split_first [of ?t1 "CHR '':''" "cw_resource c1 @ CHR '':'' # i1" ?t2 "cw_resource c2 @ CHR '':'' # i2"]
      sep_split_last [of "cw_resource c1" "CHR '':''" i1 "cw_resource c2" i2]
      known_topic_plain [OF k1(1)] known_topic_plain [OF k2(1)] assms(5,6) k1(2) k2(2)
    by auto
  have "cw_routing_key c1 = cw_routing_key c2" if "?t1 = ?t2"
    using assms(1,2) that
    by (auto simp: classify_webhook_event_def Let_def rbind_eq_Inr split: if_splits option.splits)
  with iff classified_topic [OF assms(1)] show ?thesis by blast
qed

definition claim_event :: "string \<Rightarrow> string \<Rightarrow> string \<Rightarrow> event" where
  "claim_event resource action i = [(''_id'', VStr i), (''topic'', VStr ''post_purchase''),
     (''resource'', VStr resource), (''raw_body'', VObj [(''actions'', VList [VStr action])])]"

theorem webhook_key_identifies_witness:
  "\<exists>c1 c2. classify_webhook_event (\<lambda>_. []) (claim_event ''/post-purchase/v1/claims/12'' ''claims'' ''n1'') = Inr c1 \<and>
    classify_webhook_event (\<lambda>_. []) (claim_event ''/post-purchase/v1/claims/12/actions-history'' ''claims_actions'' ''n1'') = Inr c2 \<and>
    cw_idempotency_key c1 = cw_idempotency_key c2"
proof -
  let ?e1 = "claim_event ''/post-purchase/v1/claims/12'' ''claims'' ''n1''"
  let ?e2 = "claim_event ''/post-purchase/v1/claims/12/actions-history'' ''claims_actions'' ''n1''"
  have d: "all_digits ''12''" by code_simp
  have r: "claim_resource ''/post-purchase/v1/claims/12'' = Some ''12''"
    "claim_actions_resource ''/post-purchase/v1/claims/12/actions-history'' = Some ''12''"
    "claim_resource ''/post-purchase/v1/claims/12/actions-history'' = None" by code_simp+
  obtain c1 c2 where c: "classify_webhook_event (\<lambda>_. []) ?e1 = Inr c1" "classify_webhook_event (\<lambda>_. []) ?e2 = Inr c2"
    and res: "cw_resource c1 = ''/post-purchase/v1/claims/12''" "cw_resource c2 = ''/post-purchase/v1/claims/12''"
    using r by (simp add: classify_webhook_event_def normalize_post_purchase_claim_event_def claim_event_def get_text_def
        get_def event_actions_def event_id_def py_str_def truthy_def claim_prefix_def Let_def)
  from webhook_key_identifies [OF c, of "''n1''" "''n1''"] res have "cw_idempotency_key c1 = cw_idempotency_key c2"
    by (simp add: claim_event_def event_id_def get_text_def get_def py_str_def truthy_def Let_def)
  with c show ?thesis by blast
qed

end
