(* ===== verification/Calendar.thy ===== *)
theory Calendar
  imports PyValues
begin

text \<open>
  The calendar of Python's \<^verbatim>\<open>date\<close>: day numbers and civil dates are inverse to each other, a
  UTC date in Python's range is determined by its \<^verbatim>\<open>isoformat()\<close>, and the date one calendar year
  earlier as \<^verbatim>\<open>core/history_onboarding.py\<close> computes it.
\<close>

section \<open>Day numbers\<close>

definition days_from_civil :: "int \<Rightarrow> int \<Rightarrow> int \<Rightarrow> int" where
  "days_from_civil y m d =
    (let y' = (if m \<le> 2 then y - 1 else y);
         era = y' div 400; yoe = y' mod 400;
         mp = (m + 9) mod 12;
         doy = (153 * mp + 2) div 5 + d - 1;
         doe = yoe * 365 + yoe div 4 - yoe div 100 + doy
     in era * 146097 + doe - 719468)"

lemma year_of_era:
  fixes doe :: int
  assumes "0 \<le> doe" "doe < 146097"
  defines "yoe \<equiv> (doe - doe div 1460 + doe div 36524 - doe div 146096) div 365"
  defines "doy \<equiv> doe - (365 * yoe + yoe div 4 - yoe div 100)"
  shows "0 \<le> yoe \<and> yoe < 400 \<and> 0 \<le> doy \<and> doy \<le> 365"
proof -
  define a b c where "a = doe div 1460" and "b = doe div 36524" and "c = doe div 146096"
  define q r where "q = yoe div 4" and "r = yoe div 100"
  have a: "1460 * a \<le> doe" "doe < 1460 * a + 1460" unfolding a_def by presburger+
  have b: "36524 * b \<le> doe" "doe < 36524 * b + 36524" unfolding b_def by presburger+
  have c: "146096 * c \<le> doe" "doe < 146096 * c + 146096" unfolding c_def by presburger+
  have y: "365 * yoe \<le> doe - a + b - c" "doe - a + b - c < 365 * yoe + 365"
    unfolding yoe_def a_def b_def c_def by presburger+
  have q: "4 * q \<le> yoe" "yoe < 4 * q + 4" unfolding q_def by presburger+
  have r: "100 * r \<le> yoe" "yoe < 100 * r + 100" unfolding r_def by presburger+
  have doy: "doy = doe - 365 * yoe - q + r" by (simp add: doy_def q_def r_def)
  have cc: "c = 0 \<and> doe < 146096 \<or> c = 1 \<and> b = 4 \<and> doe = 146096"
    using c b assms(1,2) by linarith
  have bb: "b = 0 \<or> b = 1 \<or> b = 2 \<or> b = 3 \<or> b = 4" using b assms(1,2) by linarith
  have y0: "0 \<le> yoe" using cc
  proof
    assume "c = 0 \<and> doe < 146096" with y a b assms(1) show ?thesis by linarith
  next
    assume "c = 1 \<and> b = 4 \<and> doe = 146096" with y a show ?thesis by linarith
  qed
  have y1: "yoe < 400" using bb
    apply (elim disjE) using y a b c cc assms(2) by linarith+
  have rr: "r = 0 \<or> r = 1 \<or> r = 2 \<or> r = 3" using r y0 y1 by linarith
  have d0: "0 \<le> doy" using bb rr unfolding doy
    apply (elim disjE) using y a b c q r cc assms(1,2) by linarith+
  have d1: "doy \<le> 365" using bb rr unfolding doy
    apply (elim disjE) using y a b c q r cc assms(1,2) by linarith+
  show ?thesis using y0 y1 d0 d1 by simp
qed

lemma civil_roundtrip:
  assumes "civil_from_days n = (y, m, d)"
  shows "days_from_civil y m d = n" and "1 \<le> m \<and> m \<le> 12" and "1 \<le> d \<and> d \<le> 31"
proof -
  define z era doe yoe doy mp where "z = n + 719468" and "era = z div 146097" and "doe = z mod 146097"
    and "yoe = (doe - doe div 1460 + doe div 36524 - doe div 146096) div 365"
    and "doy = doe - (365 * yoe + yoe div 4 - yoe div 100)" and "mp = (5 * doy + 2) div 153"
  have doe: "0 \<le> doe" "doe < 146097" by (simp_all add: doe_def)
  from year_of_era [OF this] have ye: "0 \<le> yoe" "yoe < 400" "0 \<le> doy" "doy \<le> 365"
    unfolding yoe_def doy_def by simp_all
  have mpb: "mp * 153 \<le> 5 * doy + 2" "5 * doy + 2 < (mp + 1) * 153"
    unfolding mp_def by (rule div_block; simp)+
  have "0 < (mp + 1) * 153" using mpb(2) ye(3) by linarith
  then have mp0: "0 \<le> mp" by simp
  have "mp * 153 < 12 * 153" using mpb(1) ye(4) by linarith
  then have mp1: "mp \<le> 11" by simp
  note mp = mp0 mp1
  have "civil_from_days n = (yoe + era * 400 + (if (if mp < 10 then mp + 3 else mp - 9) \<le> 2 then 1 else 0),
      (if mp < 10 then mp + 3 else mp - 9), doy - (153 * mp + 2) div 5 + 1)"
    unfolding civil_from_days_def Let_def mp_def doy_def yoe_def era_def doe_def z_def ..
  with assms have r: "y = yoe + era * 400 + (if m \<le> 2 then 1 else 0)" "m = (if mp < 10 then mp + 3 else mp - 9)"
    "d = doy - (153 * mp + 2) div 5 + 1" by auto
  show "1 \<le> m \<and> m \<le> 12" using r(2) mp by (simp split: if_splits)
  have q: "q * 5 \<le> 153 * mp + 2 \<Longrightarrow> 153 * mp + 2 < (q + 1) * 5 \<Longrightarrow> q \<le> doy \<and> doy \<le> q + 30" for q
    using mpb by (auto simp: distrib_right)
  have "(153 * mp + 2) div 5 \<le> doy \<and> doy \<le> (153 * mp + 2) div 5 + 30"
    by (rule q; rule div_block) simp_all
  then show "1 \<le> d \<and> d \<le> 31" using r(3) by simp
  have m9: "(m + 9) mod 12 = mp" using r(2) mp by (auto split: if_splits)
  have y': "(if m \<le> 2 then y - 1 else y) = yoe + era * 400" using r(1) by simp
  have "days_from_civil y m d = era * 146097 + (yoe * 365 + yoe div 4 - yoe div 100 + doy) - 719468"
    unfolding days_from_civil_def Let_def y' m9 r(3) using ye(1,2) by simp
  also have "yoe * 365 + yoe div 4 - yoe div 100 + doy = doe" by (simp add: doy_def)
  also have "era * 146097 + doe - 719468 = n" by (simp add: era_def doe_def z_def)
  finally show "days_from_civil y m d = n" .
qed

lemma civil_from_days_inject: "civil_from_days m = civil_from_days n \<Longrightarrow> m = n"
  using civil_roundtrip(1) by (metis prod_cases3)

section \<open>Fixed-width numerals\<close>

lemma length_nat_str: "n < 10 ^ k \<Longrightarrow> 0 < k \<Longrightarrow> length (nat_str n) \<le> k"
proof (induction k arbitrary: n)
  case (Suc k)
  show ?case
  proof (cases "n < 10")
    case False
    then have "0 < k" using Suc.prems(1) by (cases k) auto
    moreover have "n div 10 < 10 ^ k" using Suc.prems(1) by (simp add: less_mult_imp_div_less)
    ultimately have "length (nat_str (n div 10)) \<le> k" by (intro Suc.IH)
    with False show ?thesis by (simp add: nat_str.simps [of n])
  qed (simp add: nat_str.simps)
qed simp

lemma pad_length:
  assumes "0 \<le> i" "i < 10 ^ k" "0 < k"
  shows "length (pad k i) = k"
proof -
  have "nat i < 10 ^ k" using assms(1,2) by (simp add: nat_less_iff)
  then show ?thesis using length_nat_str [of "nat i" k] assms(1,3) by (simp add: pad_def int_str_nonneg Let_def)
qed

lemma pad2: "0 \<le> i \<Longrightarrow> i < 100 \<Longrightarrow> length (pad 2 i) = 2"
  and pad4: "0 \<le> i \<Longrightarrow> i < 10000 \<Longrightarrow> length (pad 4 i) = 4"
  and pad6: "0 \<le> i \<Longrightarrow> i < 1000000 \<Longrightarrow> length (pad 6 i) = 6"
  using pad_length [of i 2] pad_length [of i 4] pad_length [of i 6] by simp_all

lemma digits_nat_zeros: "digits_nat (replicate m (CHR ''0'') @ s) = digits_nat s"
  by (induction m) (simp_all add: digits_nat_def digit_val_def)

lemma pad_inject:
  assumes "pad k i = pad k j" "0 \<le> i" "0 \<le> j"
  shows "i = j"
proof -
  have "digits_nat (pad k i) = nat i" "digits_nat (pad k j) = nat j"
    using assms(2,3) by (simp_all add: pad_def Let_def digits_nat_zeros int_str_nonneg digits_nat_nat_str)
  with assms show ?thesis by simp
qed

section \<open>Dates as text\<close>

definition day_us :: int where
  "day_us = 86400000000"

text \<open>Python's dates have a year from 1 to 9999.\<close>

definition in_date_range :: "instant \<Rightarrow> bool" where
  "in_date_range t \<longleftrightarrow> (case civil_from_days (t div day_us) of (y, _, _) \<Rightarrow> 1 \<le> y \<and> y \<le> 9999)"

lemma isoformat_parts:
  assumes "in_date_range t" and "civil_from_days (t div day_us) = (y, m, d)"
  defines "us \<equiv> t mod day_us"
  shows "isoformat t = pad 4 y @ ''-'' @ pad 2 m @ ''-'' @ pad 2 d @ ''T'' @ pad 2 (us div 1000000 div 3600) @ '':'' @
      pad 2 (us div 1000000 div 60 mod 60) @ '':'' @ pad 2 (us div 1000000 mod 60) @
      (if us mod 1000000 = 0 then [] else ''.'' @ pad 6 (us mod 1000000)) @ ''+00:00''"
    and "length (pad 4 y) = 4" "length (pad 2 m) = 2" "length (pad 2 d) = 2"
    and "length (pad 2 (us div 1000000 div 3600)) = 2" "length (pad 2 (us div 1000000 div 60 mod 60)) = 2"
    and "length (pad 2 (us div 1000000 mod 60)) = 2" "length (pad 6 (us mod 1000000)) = 6"
    and "1 \<le> y" "1 \<le> m" "1 \<le> d"
proof -
  show "isoformat t = pad 4 y @ ''-'' @ pad 2 m @ ''-'' @ pad 2 d @ ''T'' @ pad 2 (us div 1000000 div 3600) @ '':'' @
      pad 2 (us div 1000000 div 60 mod 60) @ '':'' @ pad 2 (us div 1000000 mod 60) @
      (if us mod 1000000 = 0 then [] else ''.'' @ pad 6 (us mod 1000000)) @ ''+00:00''"
    using assms(2) unfolding day_us_def us_def by (simp add: isoformat_def datetime_text_def Let_def)
  note c = civil_roundtrip(2,3) [OF assms(2)]
  have y: "1 \<le> y" "y \<le> 9999" using assms(1,2) by (simp_all add: in_date_range_def)
  show "1 \<le> y" "1 \<le> m" "1 \<le> d" using y c by auto
  have us: "0 \<le> us" "us < 86400000000" unfolding us_def day_us_def by simp_all
  have "us div 1000000 * 1000000 \<le> us" "us < (us div 1000000 + 1) * 1000000" by (rule div_block; simp)+
  moreover have "us div 1000000 div 3600 * 3600 \<le> us div 1000000"
    "us div 1000000 < (us div 1000000 div 3600 + 1) * 3600" by (rule div_block; simp)+
  ultimately have h0: "0 \<le> us div 1000000 div 3600" and h1: "us div 1000000 div 3600 < 100" using us by linarith+
  have f0: "0 \<le> us mod 1000000" and f1: "us mod 1000000 < 1000000" by simp_all
  have s0: "0 \<le> us div 1000000 mod 60" and s1: "us div 1000000 mod 60 < 100"
    using pos_mod_sign [of 60 "us div 1000000"] pos_mod_bound [of 60 "us div 1000000"] by linarith+
  have i0: "0 \<le> us div 1000000 div 60 mod 60" and i1: "us div 1000000 div 60 mod 60 < 100"
    using pos_mod_sign [of 60 "us div 1000000 div 60"] pos_mod_bound [of 60 "us div 1000000 div 60"] by linarith+
  show "length (pad 4 y) = 4" using y by (intro pad4) linarith+
  show "length (pad 2 m) = 2" using c by (intro pad2) linarith+
  show "length (pad 2 d) = 2" using c by (intro pad2) linarith+
  show "length (pad 2 (us div 1000000 div 3600)) = 2" by (rule pad2 [OF h0 h1])
  show "length (pad 2 (us div 1000000 div 60 mod 60)) = 2" by (rule pad2 [OF i0 i1])
  show "length (pad 2 (us div 1000000 mod 60)) = 2" by (rule pad2 [OF s0 s1])
  show "length (pad 6 (us mod 1000000)) = 6" by (rule pad6 [OF f0 f1])
qed

lemma clock_parts:
  fixes x y :: int
  assumes "x div 3600 = y div 3600" and "x div 60 mod 60 = y div 60 mod 60" and "x mod 60 = y mod 60"
  shows "x = y"
proof -
  have "x div 60 div 60 = y div 60 div 60" using assms(1) by (simp add: zdiv_zmult2_eq [symmetric])
  with assms(2) have "x div 60 = y div 60" by (metis mult_div_mod_eq)
  with assms(3) show ?thesis by (metis mult_div_mod_eq)
qed

lemma date_text_split:
  assumes "a1 @ ''-'' @ a2 @ ''-'' @ a3 @ ''T'' @ a4 @ '':'' @ a5 @ '':'' @ a6 @ a7 @ z =
      b1 @ ''-'' @ b2 @ ''-'' @ b3 @ ''T'' @ b4 @ '':'' @ b5 @ '':'' @ b6 @ b7 @ z"
    and "length a1 = length b1" "length a2 = length b2" "length a3 = length b3" "length a4 = length b4"
    "length a5 = length b5" "length a6 = length b6"
  shows "a1 = b1 \<and> a2 = b2 \<and> a3 = b3 \<and> a4 = b4 \<and> a5 = b5 \<and> a6 = b6 \<and> a7 = b7"
  using assms by simp

lemma isoformat_inject:
  assumes "isoformat t = isoformat u" and "in_date_range t" and "in_date_range u"
  shows "t = u"
proof -
  obtain y m d where td: "civil_from_days (t div day_us) = (y, m, d)" by (metis prod_cases3)
  obtain y' m' d' where ud: "civil_from_days (u div day_us) = (y', m', d')" by (metis prod_cases3)
  note T = isoformat_parts [OF assms(2) td] and U = isoformat_parts [OF assms(3) ud]
  let ?a = "t mod day_us" and ?b = "u mod day_us"
  have eq: "pad 4 y = pad 4 y' \<and> pad 2 m = pad 2 m' \<and> pad 2 d = pad 2 d' \<and>
    pad 2 (?a div 1000000 div 3600) = pad 2 (?b div 1000000 div 3600) \<and>
    pad 2 (?a div 1000000 div 60 mod 60) = pad 2 (?b div 1000000 div 60 mod 60) \<and>
    pad 2 (?a div 1000000 mod 60) = pad 2 (?b div 1000000 mod 60) \<and>
    (if ?a mod 1000000 = 0 then [] else ''.'' @ pad 6 (?a mod 1000000)) =
     (if ?b mod 1000000 = 0 then [] else ''.'' @ pad 6 (?b mod 1000000))"
  proof (rule date_text_split)
    from assms(1) show "pad 4 y @ ''-'' @ pad 2 m @ ''-'' @ pad 2 d @ ''T'' @ pad 2 (?a div 1000000 div 3600) @ '':'' @
      pad 2 (?a div 1000000 div 60 mod 60) @ '':'' @ pad 2 (?a div 1000000 mod 60) @
      (if ?a mod 1000000 = 0 then [] else ''.'' @ pad 6 (?a mod 1000000)) @ ''+00:00'' =
      pad 4 y' @ ''-'' @ pad 2 m' @ ''-'' @ pad 2 d' @ ''T'' @ pad 2 (?b div 1000000 div 3600) @ '':'' @
      pad 2 (?b div 1000000 div 60 mod 60) @ '':'' @ pad 2 (?b div 1000000 mod 60) @
      (if ?b mod 1000000 = 0 then [] else ''.'' @ pad 6 (?b mod 1000000)) @ ''+00:00''"
      unfolding T(1) U(1) .
  qed (simp_all only: T(2-7) U(2-7))
  note e = eq [THEN conjunct1] eq [THEN conjunct2, THEN conjunct1] eq [THEN conjunct2, THEN conjunct2, THEN conjunct1]
    eq [THEN conjunct2, THEN conjunct2, THEN conjunct2, THEN conjunct1]
    eq [THEN conjunct2, THEN conjunct2, THEN conjunct2, THEN conjunct2, THEN conjunct1]
    eq [THEN conjunct2, THEN conjunct2, THEN conjunct2, THEN conjunct2, THEN conjunct2, THEN conjunct1]
    eq [THEN conjunct2, THEN conjunct2, THEN conjunct2, THEN conjunct2, THEN conjunct2, THEN conjunct2]
  have nn: "0 \<le> ?a" "0 \<le> ?b" by (simp_all add: day_us_def)
  have "y = y'" "m = m'" "d = d'"
    using pad_inject [OF e(1)] pad_inject [OF e(2)] pad_inject [OF e(3)] T(9-11) U(9-11) by simp_all
  then have "t div day_us = u div day_us" using td ud by (intro civil_from_days_inject) simp
  moreover have "?a = ?b"
  proof -
    have "?a div 1000000 div 3600 = ?b div 1000000 div 3600"
      using nn by (intro pad_inject [OF e(4)]) (simp_all add: pos_imp_zdiv_nonneg_iff)
    moreover have "?a div 1000000 div 60 mod 60 = ?b div 1000000 div 60 mod 60" by (intro pad_inject [OF e(5)]) simp_all
    moreover have "?a div 1000000 mod 60 = ?b div 1000000 mod 60" by (intro pad_inject [OF e(6)]) simp_all
    ultimately have s: "?a div 1000000 = ?b div 1000000" by (rule clock_parts)
    have f: "?a mod 1000000 = ?b mod 1000000"
    proof (cases "?a mod 1000000 = 0 \<or> ?b mod 1000000 = 0")
      case True
      with e(7) show ?thesis by (cases "?a mod 1000000 = 0"; cases "?b mod 1000000 = 0") simp_all
    next
      case False
      with e(7) have "pad 6 (?a mod 1000000) = pad 6 (?b mod 1000000)" by simp
      then show ?thesis by (rule pad_inject) simp_all
    qed
    show ?thesis using s f by (metis mult_div_mod_eq)
  qed
  ultimately show ?thesis by (metis mult_div_mod_eq)
qed

section \<open>One calendar year earlier\<close>

definition leap_year :: "int \<Rightarrow> bool" where
  "leap_year y \<longleftrightarrow> y mod 4 = 0 \<and> (y mod 100 \<noteq> 0 \<or> y mod 400 = 0)"

text \<open>\<^verbatim>\<open>calendar.monthrange(y, m)[1]\<close>.\<close>

definition month_days :: "int \<Rightarrow> int \<Rightarrow> int" where
  "month_days y m = (if m = 2 then (if leap_year y then 29 else 28) else if m \<in> {4, 6, 9, 11} then 30 else 31)"

text \<open>\<^verbatim>\<open>cutoff.replace(year=cutoff.year - 1, day=min(...))\<close>; there is no year 0.\<close>

definition calendar_year_back :: "instant \<Rightarrow> instant option" where
  "calendar_year_back t =
    (case civil_from_days (t div day_us) of (y, m, d) \<Rightarrow>
       if y \<le> 1 then None
       else Some (days_from_civil (y - 1) m (min d (month_days (y - 1) m)) * day_us + t mod day_us))"

lemma days_before_year:
  fixes z :: int
  shows "(z div 400) * 146097 + ((z mod 400) * 365 + (z mod 400) div 4 - (z mod 400) div 100) =
    365 * z + z div 4 - z div 100 + z div 400"
proof -
  define k w where "k = z div 400" and "w = z mod 400"
  have z: "z = w + (100 * k) * 4" "z = w + (4 * k) * 100" by (simp_all add: k_def w_def)
  have a: "z div 4 = 100 * k + w div 4" by (subst z(1)) simp
  have b: "z div 100 = 4 * k + w div 100" by (subst z(2)) simp
  have "365 * z = 365 * w + 146000 * k" using z(1) by simp
  with a b have "k * 146097 + (w * 365 + w div 4 - w div 100) = 365 * z + z div 4 - z div 100 + k"
    by simp
  then show ?thesis by (simp only: k_def w_def)
qed

lemma leap_days_mono:
  fixes z :: int
  shows "(z - 1) div 4 - (z - 1) div 100 + (z - 1) div 400 \<le> z div 4 - z div 100 + z div 400"
proof -
  have "(z - 1) div 400 \<le> z div 400" by (rule zdiv_mono1) simp_all
  moreover have "(z - 1) div 4 - (z - 1) div 100 \<le> z div 4 - z div 100"
  proof -
    define u v where "u = z div 4" and "v = (z - 1) div 4"
    have "z div 100 = u div 25" "(z - 1) div 100 = v div 25"
      by (simp_all add: u_def v_def zdiv_zmult2_eq [symmetric])
    moreover have "v = u \<or> v + 1 = u" unfolding u_def v_def by presburger
    moreover have "(v + 1) div 25 \<le> v div 25 + 1" by presburger
    ultimately show ?thesis unfolding u_def [symmetric] v_def [symmetric] by auto
  qed
  ultimately show ?thesis by linarith
qed

definition leap_days :: "int \<Rightarrow> int" where
  "leap_days z = z div 4 - z div 100 + z div 400"

lemma days_from_civil_split:
  fixes y m d :: int
  defines "z \<equiv> if m \<le> 2 then y - 1 else y"
  shows "days_from_civil y m d = 365 * z + leap_days z + ((153 * ((m + 9) mod 12) + 2) div 5 + d - 1 - 719468)"
proof -
  define c :: int where "c = (153 * ((m + 9) mod 12) + 2) div 5 + d - 1 - 719468"
  have "days_from_civil y m d = (z div 400) * 146097 + ((z mod 400) * 365 + (z mod 400) div 4 - (z mod 400) div 100) + c"
    unfolding days_from_civil_def Let_def z_def [symmetric] c_def by (simp only: add_ac diff_conv_add_uminus)
  then show ?thesis unfolding days_before_year leap_days_def c_def [symmetric] by (simp only: add_ac diff_conv_add_uminus)
qed

lemma days_from_civil_year:
  "365 \<le> days_from_civil y m d - days_from_civil (y - 1) m d"
proof -
  let ?z = "if m \<le> 2 then y - 1 else y"
  have "(if m \<le> 2 then y - 1 - 1 else y - 1) = ?z - 1" by simp
  moreover have "leap_days (?z - 1) \<le> leap_days ?z" unfolding leap_days_def by (rule leap_days_mono)
  ultimately show ?thesis unfolding days_from_civil_split by simp
qed

lemma calendar_year_back_before:
  assumes "calendar_year_back t = Some s"
  shows "365 * day_us \<le> t - s"
proof -
  obtain y m d where c: "civil_from_days (t div day_us) = (y, m, d)" by (metis prod_cases3)
  let ?d' = "min d (month_days (y - 1) m)"
  have s: "s = days_from_civil (y - 1) m ?d' * day_us + t mod day_us"
    using assms c by (simp add: calendar_year_back_def split: if_splits)
  have "days_from_civil (y - 1) m ?d' \<le> days_from_civil (y - 1) m d" by (simp add: days_from_civil_def Let_def)
  also have "\<dots> \<le> t div day_us - 365"
    using days_from_civil_year [of y m d] civil_roundtrip(1) [OF c] by linarith
  finally have "days_from_civil (y - 1) m ?d' * day_us \<le> (t div day_us - 365) * day_us"
    by (simp add: day_us_def)
  moreover have "(t div day_us - 365) * day_us = t - t mod day_us - 365 * day_us"
    by (simp add: left_diff_distrib minus_mod_eq_div_mult)
  ultimately show ?thesis using s by linarith
qed

end
