(* ===== verification/RecoveryRequests.thy ===== *)
theory RecoveryRequests
  imports Calendar
begin

text \<open>
  The requests of the durable recovery queue,
  \<^verbatim>\<open>modules/sheets/src/zeler_sheets/formulas/recovery.py\<close>: what each kind accepts and normalises when
  it is built, and the key under which equal requests share one job. The hash and the parser of ISO
  dates are arguments.
\<close>

section \<open>Kinds of request\<close>

datatype request =
    RangeRequest string string instant instant
  | YearHistoryRequest string string instant instant
  | QuestionScanRequest string string instant instant
  | OrderHistoryRequest string string instant instant
  | OrderIdsRequest string "string list"
  | ModifiedOrderRequest string string string string
  | ShipmentIdsRequest string "string list"
  | ItemIdsRequest string string "string list"
  | CatalogProductsRequest string "string list"
  | CatalogRequest string string "string list"
  | RenewalRequest string string "string list" instant
  | InventoryRequest string

datatype request_error = RequestValueError string

definition recoverable_models :: "string list" where
  "recoverable_models = [''questions'', ''orders'', ''shipments'', ''item_formula_rows'',
     ''catalog_product_snapshots'', ''catalog_buybox_snapshots'']"

definition year_history_models :: "string list" where
  "year_history_models = [''orders'', ''questions'']"

definition renewal_read_models :: "string list" where
  "renewal_read_models = [''catalog_buybox_snapshots'', ''item_formula_rows'']"

fun request_seller :: "request \<Rightarrow> string" where
  "request_seller (RangeRequest s _ _ _) = s"
| "request_seller (YearHistoryRequest s _ _ _) = s"
| "request_seller (QuestionScanRequest s _ _ _) = s"
| "request_seller (OrderHistoryRequest s _ _ _) = s"
| "request_seller (OrderIdsRequest s _) = s"
| "request_seller (ModifiedOrderRequest s _ _ _) = s"
| "request_seller (ShipmentIdsRequest s _) = s"
| "request_seller (ItemIdsRequest s _ _) = s"
| "request_seller (CatalogProductsRequest s _) = s"
| "request_seller (CatalogRequest s _ _) = s"
| "request_seller (RenewalRequest s _ _ _) = s"
| "request_seller (InventoryRequest s) = s"

fun request_model :: "request \<Rightarrow> string" where
  "request_model (RangeRequest _ m _ _) = m"
| "request_model (YearHistoryRequest _ m _ _) = m"
| "request_model (QuestionScanRequest _ _ _ _) = ''questions''"
| "request_model (OrderHistoryRequest _ _ _ _) = ''orders''"
| "request_model (OrderIdsRequest _ _) = ''orders''"
| "request_model (ModifiedOrderRequest _ _ _ _) = ''orders''"
| "request_model (ShipmentIdsRequest _ _) = ''shipments''"
| "request_model (ItemIdsRequest _ m _) = m"
| "request_model (CatalogProductsRequest _ _) = ''catalog_product_snapshots''"
| "request_model (CatalogRequest _ m _) = m"
| "request_model (RenewalRequest _ m _ _) = m"
| "request_model (InventoryRequest _) = ''item_formula_rows''"

section \<open>Construction\<close>

text \<open>BSON keeps milliseconds: the bounds are rounded outwards.\<close>

definition floor_ms :: "instant \<Rightarrow> instant" where
  "floor_ms t = t - t mod 1000"

definition ceil_ms :: "instant \<Rightarrow> instant" where
  "ceil_ms t = t + (- t) mod 1000"

definition check_range :: "string \<Rightarrow> string \<Rightarrow> py_datetime \<Rightarrow> py_datetime \<Rightarrow> (request_error, instant \<times> instant) result" where
  "check_range seller model dfrom dto =
    rbind (require (strip seller \<noteq> [] \<and> model \<in> set recoverable_models)
             (RequestValueError ''a seller and recoverable read model are required'')) (\<lambda>_.
    rbind (require (is_aware dfrom \<and> is_aware dto) (RequestValueError ''recovery dates must include timezone'')) (\<lambda>_.
    rbind (require (0 < utc_of dto - utc_of dfrom \<and> utc_of dto - utc_of dfrom \<le> days_us 90)
             (RequestValueError ''recovery range must be positive and at most 90 days'')) (\<lambda>_.
    Inr (floor_ms (utc_of dfrom), ceil_ms (utc_of dto)))))"

definition make_range :: "string \<Rightarrow> string \<Rightarrow> py_datetime \<Rightarrow> py_datetime \<Rightarrow> (request_error, request) result" where
  "make_range seller model dfrom dto =
    rbind (check_range seller model dfrom dto) (\<lambda>(a, b). Inr (RangeRequest seller model a b))"

definition make_year_history :: "string \<Rightarrow> string \<Rightarrow> py_datetime \<Rightarrow> py_datetime \<Rightarrow> (request_error, request) result" where
  "make_year_history seller model dfrom dto =
    rbind (require (model \<in> set year_history_models) (RequestValueError ''year history covers orders and questions'')) (\<lambda>_.
    rbind (check_range seller model dfrom dto) (\<lambda>(a, b). Inr (YearHistoryRequest seller model a b)))"

definition make_question_scan :: "string \<Rightarrow> string \<Rightarrow> py_datetime \<Rightarrow> py_datetime \<Rightarrow> (request_error, request) result" where
  "make_question_scan seller plan dfrom dto =
    rbind (require (all_digits seller \<and> strip plan \<noteq> [] \<and> is_aware dfrom \<and> is_aware dto)
             (RequestValueError ''question scan requires seller, plan and aware bounds'')) (\<lambda>_.
    case calendar_year_back (utc_of dto) of
      None \<Rightarrow> Inl (RequestValueError ''question scan plan requires twelve calendar months'')
    | Some expected \<Rightarrow>
        rbind (require (utc_of dfrom = expected \<and> utc_of dfrom mod 1000 = 0 \<and> utc_of dto mod 1000 = 0)
                 (RequestValueError ''question scan plan requires exact twelve-month BSON bounds'')) (\<lambda>_.
        Inr (QuestionScanRequest seller plan (utc_of dfrom) (utc_of dto))))"

definition make_order_history :: "string \<Rightarrow> string \<Rightarrow> py_datetime \<Rightarrow> py_datetime \<Rightarrow> (request_error, request) result" where
  "make_order_history seller plan dfrom dto =
    rbind (check_range seller ''orders'' dfrom dto) (\<lambda>(a, b).
    rbind (require (strip plan \<noteq> [] \<and> all_digits seller \<and> a = utc_of dfrom \<and> b = utc_of dto)
             (RequestValueError ''order history requires a fixed plan and BSON-aligned order interval'')) (\<lambda>_.
    Inr (OrderHistoryRequest seller plan a b)))"

definition sorted_ids :: "string list \<Rightarrow> string list" where
  "sorted_ids ids = sort (remdups ids)"

definition make_order_ids :: "string \<Rightarrow> string list \<Rightarrow> (request_error, request) result" where
  "make_order_ids seller ids =
    rbind (require (strip seller \<noteq> [] \<and> 1 \<le> length ids \<and> length ids \<le> 100 \<and> list_all all_digits ids)
             (RequestValueError ''a seller and at most 100 numeric order IDs are required'')) (\<lambda>_.
    Inr (OrderIdsRequest seller (sorted_ids ids)))"

definition is_hex64 :: "string \<Rightarrow> bool" where
  "is_hex64 s \<longleftrightarrow> length s = 64 \<and> list_all is_hex_lower s"

definition make_modified_order ::
  "(string \<Rightarrow> py_datetime option) \<Rightarrow> string \<Rightarrow> string list \<Rightarrow> string \<Rightarrow> string \<Rightarrow> (request_error, request) result" where
  "make_modified_order parse seller ids version hash =
    rbind (make_order_ids seller ids) (\<lambda>r.
    case parse version of
      None \<Rightarrow> Inl (RequestValueError ''Invalid isoformat string'')
    | Some observed \<Rightarrow>
        (case r of OrderIdsRequest s [i] \<Rightarrow>
           rbind (require (is_aware observed \<and> is_hex64 hash)
                    (RequestValueError ''modification recovery requires one ID, aware version and source hash'')) (\<lambda>_.
           Inr (ModifiedOrderRequest s i (isoformat (utc_of observed)) hash))
         | _ \<Rightarrow> Inl (RequestValueError ''modification recovery requires one ID, aware version and source hash'')))"

definition make_shipment_ids :: "string \<Rightarrow> string list \<Rightarrow> (request_error, request) result" where
  "make_shipment_ids seller ids =
    rbind (require (strip seller \<noteq> [] \<and> 1 \<le> length ids \<and> length ids \<le> 100 \<and> list_all all_digits ids)
             (RequestValueError ''a seller and at most 100 numeric shipment IDs are required'')) (\<lambda>_.
    Inr (ShipmentIdsRequest seller (sorted_ids ids)))"

text \<open>\<^verbatim>\<open>re.fullmatch("ML[A-Z][0-9]+", s)\<close>.\<close>

definition is_publication_id :: "string \<Rightarrow> bool" where
  "is_publication_id s \<longleftrightarrow> (case s of
     a # b # c # ds \<Rightarrow> a = CHR ''M'' \<and> b = CHR ''L'' \<and> 65 \<le> (of_char c :: nat) \<and> (of_char c :: nat) \<le> 90 \<and> all_digits ds
   | _ \<Rightarrow> False)"

definition make_item_ids :: "string \<Rightarrow> string \<Rightarrow> string list \<Rightarrow> (request_error, request) result" where
  "make_item_ids seller model ids =
    rbind (require (all_digits seller \<and> model \<in> {''item_formula_rows'', ''catalog_buybox_snapshots''} \<and>
             1 \<le> length ids \<and> length ids \<le> 20 \<and> list_all is_publication_id ids)
             (RequestValueError ''item recovery requires a seller and 1 to 20 publication IDs'')) (\<lambda>_.
    Inr (ItemIdsRequest seller model (sorted_ids ids)))"

definition make_catalog_products :: "string \<Rightarrow> string list \<Rightarrow> (request_error, request) result" where
  "make_catalog_products seller ids =
    rbind (require (all_digits seller \<and> 1 \<le> length ids \<and> length ids \<le> 20 \<and> list_all is_publication_id ids)
             (RequestValueError ''catalog recovery requires a seller and 1 to 20 product IDs'')) (\<lambda>_.
    Inr (CatalogProductsRequest seller (sorted_ids ids)))"

definition check_catalog :: "string \<Rightarrow> string \<Rightarrow> string list \<Rightarrow> (request_error, string list) result" where
  "check_catalog seller model ids =
    rbind (require (all_digits seller \<and>
             model \<in> {''catalog_product_snapshots'', ''catalog_buybox_snapshots'', ''item_formula_rows''} \<and>
             1 \<le> length ids \<and> length ids \<le> 10000 \<and> list_all is_publication_id ids)
             (RequestValueError ''catalog intent requires a seller and at most 10000 explicit IDs'')) (\<lambda>_.
    Inr (sorted_ids ids))"

definition make_catalog :: "string \<Rightarrow> string \<Rightarrow> string list \<Rightarrow> (request_error, request) result" where
  "make_catalog seller model ids =
    rbind (check_catalog seller model ids) (\<lambda>ids. Inr (CatalogRequest seller model ids))"

definition make_renewal :: "string \<Rightarrow> string \<Rightarrow> string list \<Rightarrow> py_datetime \<Rightarrow> (request_error, request) result" where
  "make_renewal seller model ids slot =
    rbind (require (model \<in> set renewal_read_models \<and> is_aware slot)
             (RequestValueError ''renewal requires buybox or item rows and an aware slot'')) (\<lambda>_.
    rbind (check_catalog seller model ids) (\<lambda>ids. Inr (RenewalRequest seller model ids (utc_of slot))))"

definition make_inventory :: "string \<Rightarrow> (request_error, request) result" where
  "make_inventory seller =
    rbind (require (all_digits seller) (RequestValueError ''inventory recovery requires a numeric seller'')) (\<lambda>_.
    Inr (InventoryRequest seller))"

section \<open>Keys\<close>

text \<open>\<^verbatim>\<open>f"orders:{date_from:%Y%m%d}:{date_to:%Y%m%d}"\<close>.\<close>

definition compact_day :: "instant \<Rightarrow> string" where
  "compact_day t = (case civil_from_days (t div day_us) of (y, m, d) \<Rightarrow> int_str y @ pad 2 m @ pad 2 d)"

definition order_scope_id :: "instant \<Rightarrow> instant \<Rightarrow> string" where
  "order_scope_id a b = ''orders:'' @ compact_day a @ '':'' @ compact_day b"

fun request_parts :: "request \<Rightarrow> string list" where
  "request_parts (RangeRequest s m a b) = [s, m, isoformat a, isoformat b]"
| "request_parts (YearHistoryRequest s m a b) = [s, m, ''year_history'', isoformat a, isoformat b]"
| "request_parts (QuestionScanRequest s p _ _) = [s, ''questions'', ''seller_scan'', p]"
| "request_parts (OrderHistoryRequest s p a b) = [s, p, order_scope_id a b]"
| "request_parts (OrderIdsRequest s ids) = [s, ''orders'', ''ids''] @ ids"
| "request_parts (ModifiedOrderRequest s i v h) = [s, ''orders'', ''modified'', i, v, h]"
| "request_parts (ShipmentIdsRequest s ids) = [s, ''shipments'', ''ids''] @ ids"
| "request_parts (ItemIdsRequest s m ids) = [s, m, ''ids''] @ ids"
| "request_parts (CatalogProductsRequest s ids) = [s, ''catalog_product_snapshots'', ''products''] @ ids"
| "request_parts (CatalogRequest s m ids) = [s, m, ''catalog_intent''] @ ids"
| "request_parts (RenewalRequest s m _ slot) = [s, m, ''renewal'', isoformat slot]"
| "request_parts (InventoryRequest s) = [s, ''item_formula_rows'', ''inventory'']"

definition request_key :: "(string \<Rightarrow> string) \<Rightarrow> request \<Rightarrow> string" where
  "request_key H r = H (join [char_of (0 :: nat)] (request_parts r))"

section \<open>Well-formed requests\<close>

text \<open>A request some constructor returned.\<close>

inductive built :: "(string \<Rightarrow> py_datetime option) \<Rightarrow> request \<Rightarrow> bool" for parse where
  built_range: "make_range seller model a b = Inr r \<Longrightarrow> built parse r"
| built_year: "make_year_history seller model a b = Inr r \<Longrightarrow> built parse r"
| built_questions: "make_question_scan seller plan a b = Inr r \<Longrightarrow> built parse r"
| built_orders: "make_order_history seller plan a b = Inr r \<Longrightarrow> built parse r"
| built_order_ids: "make_order_ids seller ids = Inr r \<Longrightarrow> built parse r"
| built_modified: "make_modified_order parse seller ids version hash = Inr r \<Longrightarrow> built parse r"
| built_shipments: "make_shipment_ids seller ids = Inr r \<Longrightarrow> built parse r"
| built_items: "make_item_ids seller model ids = Inr r \<Longrightarrow> built parse r"
| built_products: "make_catalog_products seller ids = Inr r \<Longrightarrow> built parse r"
| built_catalog: "make_catalog seller model ids = Inr r \<Longrightarrow> built parse r"
| built_renewal: "make_renewal seller model ids slot = Inr r \<Longrightarrow> built parse r"
| built_inventory: "make_inventory seller = Inr r \<Longrightarrow> built parse r"

definition id_set :: "(string \<Rightarrow> bool) \<Rightarrow> nat \<Rightarrow> string list \<Rightarrow> bool" where
  "id_set P n ids \<longleftrightarrow> ids \<noteq> [] \<and> length ids \<le> n \<and> sorted ids \<and> distinct ids \<and> list_all P ids"

definition ms_range :: "instant \<Rightarrow> instant \<Rightarrow> bool" where
  "ms_range a b \<longleftrightarrow> a < b \<and> b - a < days_us 90 + 2000 \<and> a mod 1000 = 0 \<and> b mod 1000 = 0"

fun well_formed :: "request \<Rightarrow> bool" where
  "well_formed (RangeRequest s m a b) \<longleftrightarrow> strip s \<noteq> [] \<and> m \<in> set recoverable_models \<and> ms_range a b"
| "well_formed (YearHistoryRequest s m a b) \<longleftrightarrow> strip s \<noteq> [] \<and> m \<in> set year_history_models \<and> ms_range a b"
| "well_formed (QuestionScanRequest s p a b) \<longleftrightarrow> all_digits s \<and> strip p \<noteq> [] \<and> calendar_year_back b = Some a \<and>
     365 * day_us \<le> b - a \<and> a mod 1000 = 0 \<and> b mod 1000 = 0"
| "well_formed (OrderHistoryRequest s p a b) \<longleftrightarrow> all_digits s \<and> strip p \<noteq> [] \<and> ms_range a b \<and> b - a \<le> days_us 90"
| "well_formed (OrderIdsRequest s ids) \<longleftrightarrow> strip s \<noteq> [] \<and> id_set all_digits 100 ids"
| "well_formed (ModifiedOrderRequest s i v h) \<longleftrightarrow> strip s \<noteq> [] \<and> all_digits i \<and> (\<exists>t. v = isoformat t) \<and> is_hex64 h"
| "well_formed (ShipmentIdsRequest s ids) \<longleftrightarrow> strip s \<noteq> [] \<and> id_set all_digits 100 ids"
| "well_formed (ItemIdsRequest s m ids) \<longleftrightarrow> all_digits s \<and> m \<in> set renewal_read_models \<and> id_set is_publication_id 20 ids"
| "well_formed (CatalogProductsRequest s ids) \<longleftrightarrow> all_digits s \<and> id_set is_publication_id 20 ids"
| "well_formed (CatalogRequest s m ids) \<longleftrightarrow> all_digits s \<and>
     m \<in> {''catalog_product_snapshots'', ''catalog_buybox_snapshots'', ''item_formula_rows''} \<and>
     id_set is_publication_id 10000 ids"
| "well_formed (RenewalRequest s m ids slot) \<longleftrightarrow> all_digits s \<and> m \<in> set renewal_read_models \<and>
     id_set is_publication_id 10000 ids"
| "well_formed (InventoryRequest s) \<longleftrightarrow> all_digits s"

lemma floor_ms_bounds: "floor_ms t \<le> t \<and> t < floor_ms t + 1000 \<and> floor_ms t mod 1000 = 0"
proof -
  have "floor_ms t mod 1000 = 0" unfolding floor_ms_def by (simp add: minus_mod_eq_mult_div)
  then show ?thesis
    using pos_mod_sign [of 1000 t] pos_mod_bound [of 1000 t] unfolding floor_ms_def by auto
qed

lemma ceil_ms_bounds: "t \<le> ceil_ms t \<and> ceil_ms t < t + 1000 \<and> ceil_ms t mod 1000 = 0"
  unfolding ceil_ms_def by (simp add: mod_add_right_eq)

lemma check_range_Inr:
  assumes "check_range s m a b = Inr (x, y)"
  shows "strip s \<noteq> [] \<and> m \<in> set recoverable_models \<and> ms_range x y \<and> x \<le> utc_of a \<and> utc_of b \<le> y \<and>
    utc_of b - utc_of a \<le> days_us 90"
  using assms floor_ms_bounds [of "utc_of a"] ceil_ms_bounds [of "utc_of b"]
  by (auto simp: check_range_def rbind_eq_Inr ms_range_def)

lemma sorted_ids_set:
  assumes "1 \<le> length ids" "length ids \<le> n" "list_all P ids"
  shows "id_set P n (sorted_ids ids)"
proof -
  have "length (remdups ids) \<le> n" using assms(2) length_remdups_leq [of ids] by linarith
  moreover have "sort (remdups ids) \<noteq> []" using assms(1) by (metis length_0_conv not_one_le_zero set_empty set_remdups set_sort)
  ultimately show ?thesis using assms by (auto simp: id_set_def sorted_ids_def list_all_iff)
qed

lemma floor_ms_same: "floor_ms t = t \<Longrightarrow> t mod 1000 = 0" and ceil_ms_same: "ceil_ms t = t \<Longrightarrow> t mod 1000 = 0"
  using floor_ms_bounds [of t] ceil_ms_bounds [of t] by auto

lemma built_well_formed: "built parse r \<Longrightarrow> well_formed r"
proof (induction rule: built.induct)
  case (built_orders seller plan a b r)
  then show ?case by (auto simp: make_order_history_def rbind_eq_Inr dest!: check_range_Inr)
next
  case (built_questions seller plan a b r)
  then show ?case
    by (auto simp: make_question_scan_def rbind_eq_Inr calendar_year_back_before split: option.splits)
next
  case (built_modified seller ids version hash r)
  then show ?case
    by (auto simp: make_modified_order_def make_order_ids_def rbind_eq_Inr sorted_ids_def list_all_iff
        split: option.splits list.splits)
       (metis list.set_intros(1) set_remdups set_sort)+
qed (auto simp: make_range_def make_year_history_def make_order_ids_def make_shipment_ids_def make_item_ids_def
    make_catalog_products_def make_catalog_def check_catalog_def make_renewal_def make_inventory_def rbind_eq_Inr
    sorted_ids_set renewal_read_models_def dest!: check_range_Inr)

section \<open>Keys identify jobs\<close>

abbreviation nul :: char where
  "nul \<equiv> char_of (0 :: nat)"

text \<open>The free texts of a request have no NUL, and its dates are Python dates.\<close>

fun plain_request :: "request \<Rightarrow> bool" where
  "plain_request (RangeRequest s _ a b) \<longleftrightarrow> nul \<notin> set s \<and> in_date_range a \<and> in_date_range b"
| "plain_request (YearHistoryRequest s _ a b) \<longleftrightarrow> nul \<notin> set s \<and> in_date_range a \<and> in_date_range b"
| "plain_request (QuestionScanRequest _ p _ _) \<longleftrightarrow> nul \<notin> set p"
| "plain_request (OrderHistoryRequest _ p a b) \<longleftrightarrow> nul \<notin> set p \<and> in_date_range a \<and> in_date_range b"
| "plain_request (OrderIdsRequest s _) \<longleftrightarrow> nul \<notin> set s"
| "plain_request (ModifiedOrderRequest s _ _ _) \<longleftrightarrow> nul \<notin> set s"
| "plain_request (ShipmentIdsRequest s _) \<longleftrightarrow> nul \<notin> set s"
| "plain_request (RenewalRequest _ _ _ slot) \<longleftrightarrow> in_date_range slot"
| "plain_request _ \<longleftrightarrow> True"

text \<open>
  What a key stands for: the request, except that a question scan is one per plan, an order history
  one per plan and pair of days, a renewal one per slot.
\<close>

fun job_identity :: "request \<Rightarrow> request" where
  "job_identity (QuestionScanRequest s p _ _) = QuestionScanRequest s p 0 0"
| "job_identity (OrderHistoryRequest s p a b) = OrderHistoryRequest s p (a div day_us) (b div day_us)"
| "job_identity (RenewalRequest s m _ slot) = RenewalRequest s m [] slot"
| "job_identity r = r"

lemma nul_eq [simp]: "nul = c \<longleftrightarrow> (of_char c :: nat) = 0" "c = nul \<longleftrightarrow> (of_char c :: nat) = 0"
proof -
  have "of_char nul = (0 :: nat)" by simp
  then show "nul = c \<longleftrightarrow> (of_char c :: nat) = 0" "c = nul \<longleftrightarrow> (of_char c :: nat) = 0"
    using of_char_eq_iff [of nul c] by (metis of_char_eq_iff)+
qed

lemma nat_str_chars: "c \<in> set (nat_str n) \<Longrightarrow> is_digit c"
  using all_digits_nat_str [of n] by (simp add: all_digits_def list_all_iff)

lemma digits_plain: "all_digits s \<Longrightarrow> nul \<notin> set s"
  by (auto simp: all_digits_def list_all_iff is_digit_def)

lemma publication_plain: "is_publication_id s \<Longrightarrow> nul \<notin> set s"
  by (auto simp: is_publication_id_def dest: digits_plain split: list.splits)

lemma hex_plain: "is_hex64 s \<Longrightarrow> nul \<notin> set s"
  by (auto simp: is_hex64_def list_all_iff is_hex_lower_def is_digit_def)

lemma int_str_plain: "nul \<notin> set (int_str i)"
  using digits_plain [OF all_digits_nat_str] by (auto simp: int_str_def)

lemma pad_plain: "nul \<notin> set (pad k i)"
  using int_str_plain [of i] by (auto simp: pad_def Let_def)

lemma isoformat_plain: "nul \<notin> set (isoformat t)"
  by (auto simp: isoformat_def datetime_text_def Let_def pad_plain split: prod.splits)

lemma scope_plain: "nul \<notin> set (order_scope_id a b)"
  by (auto simp: order_scope_id_def compact_day_def int_str_plain pad_plain split: prod.splits)

lemma join_inject:
  assumes "\<forall>x \<in> set xs \<union> set ys. c \<notin> set x" and "xs \<noteq> []" and "ys \<noteq> []" and "join [c] xs = join [c] ys"
  shows "xs = ys"
  using assms
proof (induction xs arbitrary: ys)
  case (Cons x xs)
  obtain y ys' where ys: "ys = y # ys'" using Cons.prems(3) by (cases ys) auto
  have x: "join [c] (x # xs) = (if xs = [] then x else x @ c # join [c] xs)" by (cases xs) auto
  have y: "join [c] ys = (if ys' = [] then y else y @ c # join [c] ys')" by (cases ys') (auto simp: ys)
  have nx: "c \<notin> set x" and ny: "c \<notin> set y" using Cons.prems(1) ys by auto
  show ?case
  proof (cases "xs = [] \<or> ys' = []")
    case True
    have eq: "(if xs = [] then x else x @ c # join [c] xs) = (if ys' = [] then y else y @ c # join [c] ys')"
      using Cons.prems(4) unfolding x y .
    have "xs = []" using True eq ny by (rule_tac ccontr) (auto split: if_splits)
    moreover have "ys' = []" using True eq nx by (rule_tac ccontr) (auto split: if_splits)
    ultimately show ?thesis using eq by (simp add: ys)
  next
    case False
    then have "x @ c # join [c] xs = y @ c # join [c] ys'" using Cons.prems(4) x y by simp
    from sep_split_first [OF this nx ny] have "x = y" "join [c] xs = join [c] ys'" by auto
    with Cons.IH [of ys'] Cons.prems(1) False ys show ?thesis by auto
  qed
qed simp

lemma compact_day_inject:
  assumes "compact_day a = compact_day b" and "in_date_range a" and "in_date_range b"
  shows "a div day_us = b div day_us"
proof -
  obtain y m d where ca: "civil_from_days (a div day_us) = (y, m, d)" by (metis prod_cases3)
  obtain y' m' d' where cb: "civil_from_days (b div day_us) = (y', m', d')" by (metis prod_cases3)
  note A = isoformat_parts(3,4,9-11) [OF assms(2) ca] and B = isoformat_parts(3,4,9-11) [OF assms(3) cb]
  have "int_str y @ pad 2 m @ pad 2 d = int_str y' @ pad 2 m' @ pad 2 d'"
    using assms(1) ca cb by (simp add: compact_day_def)
  then have "int_str y = int_str y' \<and> pad 2 m = pad 2 m' \<and> pad 2 d = pad 2 d'"
    using A(1,2) B(1,2) by (auto simp: append_eq_append_conv)
  then have "y = y'" "m = m'" "d = d'" using A(4,5) B(4,5) by (auto dest: pad_inject)
  with ca cb show ?thesis by (intro civil_from_days_inject) simp
qed

lemma compact_day_no_colon: "CHR '':'' \<notin> set (compact_day a)"
proof -
  have "CHR '':'' \<notin> set (int_str i)" for i
    by (auto simp: int_str_def is_digit_def dest!: nat_str_chars)
  then show ?thesis by (auto simp: compact_day_def pad_def Let_def split: prod.splits)
qed

lemma scope_inject:
  assumes "order_scope_id a b = order_scope_id a' b'" and "in_date_range a" "in_date_range b" "in_date_range a'" "in_date_range b'"
  shows "a div day_us = a' div day_us \<and> b div day_us = b' div day_us"
proof -
  have "compact_day a @ CHR '':'' # compact_day b = compact_day a' @ CHR '':'' # compact_day b'"
    using assms(1) by (simp add: order_scope_id_def)
  from sep_split_first [OF this compact_day_no_colon compact_day_no_colon] show ?thesis
    using compact_day_inject assms(2-5) by blast
qed

lemma isoformat_long: "in_date_range t \<Longrightarrow> 25 \<le> length (isoformat t)"
proof -
  assume t: "in_date_range t"
  obtain y m d where "civil_from_days (t div day_us) = (y, m, d)" by (metis prod_cases3)
  note P = isoformat_parts [OF t this]
  show ?thesis unfolding P(1) using P(2-7) by simp
qed

lemma isoformat_not_tag:
  assumes "in_date_range t"
  shows "isoformat t \<notin> {''ids'', ''products'', ''catalog_intent'', ''modified'', ''renewal'', ''seller_scan'',
    ''year_history'', ''inventory''}"
  using isoformat_long [OF assms] by auto

lemmas tag_neq = isoformat_not_tag [simplified]

lemma scope_not_tag:
  "order_scope_id a b \<noteq> ''inventory''" "order_scope_id a b \<noteq> ''ids''" "''inventory'' \<noteq> order_scope_id a b"
  "''ids'' \<noteq> order_scope_id a b"
  by (simp_all add: order_scope_id_def)

lemma parts_plain:
  assumes "well_formed r" and "plain_request r"
  shows "\<forall>x \<in> set (request_parts r). nul \<notin> set x"
  using assms
  by (cases r) (auto simp: digits_plain publication_plain hex_plain isoformat_plain scope_plain id_set_def list_all_iff
      recoverable_models_def year_history_models_def renewal_read_models_def)

lemma parts_identity:
  assumes "well_formed r" "well_formed r'" "plain_request r" "plain_request r'"
  shows "request_parts r = request_parts r' \<longleftrightarrow> job_identity r = job_identity r'"
proof
  assume "job_identity r = job_identity r'"
  then show "request_parts r = request_parts r'"
    by (cases r; cases r') (simp_all add: order_scope_id_def compact_day_def)
next
  assume "request_parts r = request_parts r'"
  then show "job_identity r = job_identity r'"
    using assms
    by (cases r; cases r')
       (auto simp: id_set_def tag_neq scope_not_tag renewal_read_models_def dest: isoformat_inject scope_inject tag_neq
         dest: isoformat_not_tag [OF _, simplified])
qed

section \<open>Properties\<close>

text \<open>
  C19. Every request a constructor returns is normalised: it names a recoverable model and a seller,
  its identifiers are sorted, distinct, of the right shape and within the limit of its kind, its
  bounds are whole milliseconds in order, and a question scan spans the calendar year before its end.
\<close>

theorem built_requests_well_formed:
  assumes "built parse r"
  shows "well_formed r"
  using assms by (rule built_well_formed)

theorem built_requests_well_formed_witness:
  "make_shipment_ids ''7'' [''30'', ''4'', ''30''] = Inr (ShipmentIdsRequest ''7'' [''30'', ''4'']) \<and>
    well_formed (ShipmentIdsRequest ''7'' [''30'', ''4''])"
proof -
  have "make_shipment_ids ''7'' [''30'', ''4'', ''30''] = Inr (ShipmentIdsRequest ''7'' [''30'', ''4''])" by code_simp
  with built_requests_well_formed [OF built_shipments [OF this, where parse = "\<lambda>_. None"]] show ?thesis by blast
qed

lemma request_keys:
  assumes "inj H" and "well_formed r" and "well_formed r'" and "plain_request r" and "plain_request r'"
  shows "request_key H r = request_key H r' \<longleftrightarrow> job_identity r = job_identity r'"
proof -
  have "request_parts r \<noteq> []" "request_parts r' \<noteq> []" by (cases r; simp) (cases r'; simp)
  then have "request_key H r = request_key H r' \<longleftrightarrow> request_parts r = request_parts r'"
    using join_inject [of "request_parts r" "request_parts r'" nul] parts_plain [OF assms(2,4)]
      parts_plain [OF assms(3,5)] injD [OF assms(1)] by (auto simp: request_key_def)
  with parts_identity [OF assms(2-5)] show ?thesis by blast
qed

lemma identity_same:
  "job_identity r = job_identity r' \<Longrightarrow> request_seller r = request_seller r' \<and> request_model r = request_model r'"
  by (cases r; cases r') simp_all

text \<open>
  Requests share a job exactly when they stand for the same work: with a hash that separates
  texts, two requests without NUL characters have the same key only if they are equal, up to the
  dates of a question scan, the time of day of an order history and the items of a renewal slot.
\<close>

theorem request_key_identifies:
  assumes "inj H" and "built parse r" and "built parse r'" and "plain_request r" and "plain_request r'"
  shows "request_key H r = request_key H r' \<longleftrightarrow> job_identity r = job_identity r'"
  by (rule request_keys [OF assms(1) built_well_formed [OF assms(2)] built_well_formed [OF assms(3)] assms(4,5)])

theorem request_key_identifies_witness:
  "request_key id (OrderIdsRequest ''7'' [''12'']) \<noteq> request_key id (OrderIdsRequest ''7'' [''1'', ''2''])"
proof -
  have "make_order_ids ''7'' [''12''] = Inr (OrderIdsRequest ''7'' [''12''])"
    "make_order_ids ''7'' [''2'', ''1''] = Inr (OrderIdsRequest ''7'' [''1'', ''2''])" by code_simp+
  from request_key_identifies [OF inj_on_id built_order_ids [OF this(1), where parse = "\<lambda>_. None"]
      built_order_ids [OF this(2), where parse = "\<lambda>_. None"]]
  show ?thesis by simp
qed

end
