(* ===== verification/MongoQueries.thy ===== *)
theory MongoQueries
  imports MongoCollection PyValues "HOL-Library.Product_Lexorder"
begin

text \<open>
  Queries of a collection by a filter that does not name the document: the first match under a sort,
  any match, a bounded count, a bounded listing. \<open>mongo_queries\<close> extends the contract of a collection
  with what the server documents for them on finitely many documents; \<open>mem_queries\<close> meets it.
\<close>

section \<open>Operations\<close>

text \<open>
  \<open>mq_first c P key\<close> is the identifier a call with a sort returns: the sort's fields are a list of
  numbers (negated for a descending field), and \<^verbatim>\<open>_id\<close> is the last field.
\<close>

record 'd mongo_q =
  mq_base :: "'d mongo"
  mq_first :: "'d coll \<Rightarrow> ('d \<Rightarrow> bool) \<Rightarrow> ('d \<Rightarrow> int list) \<Rightarrow> string option"
  mq_any :: "'d coll \<Rightarrow> ('d \<Rightarrow> bool) \<Rightarrow> string option"
  mq_count :: "'d coll \<Rightarrow> ('d \<Rightarrow> bool) \<Rightarrow> nat \<Rightarrow> nat"
  mq_find :: "'d coll \<Rightarrow> ('d \<Rightarrow> bool) \<Rightarrow> nat \<Rightarrow> (string \<times> 'd) list"

definition matching :: "'d coll \<Rightarrow> ('d \<Rightarrow> bool) \<Rightarrow> string set" where
  "matching c P = {k. matches c k P}"

locale mongo_queries = base: mongo_collection "mq_base Q" for Q :: "'d mongo_q" +
  assumes first_Some: "finite (dom c) \<Longrightarrow> mq_first Q c P key = Some k \<Longrightarrow>
      k \<in> matching c P \<and> (\<forall>k' \<in> matching c P. (key (the (c k)), k) \<le> (key (the (c k')), k'))"
    and first_None: "finite (dom c) \<Longrightarrow> mq_first Q c P key = None \<Longrightarrow> matching c P = {}"
    and any_Some: "mq_any Q c P = Some k \<Longrightarrow> k \<in> matching c P"
    and any_None: "mq_any Q c P = None \<Longrightarrow> matching c P = {}"
    and count_law: "finite (dom c) \<Longrightarrow> mq_count Q c P n = min n (card (matching c P))"
    and find_law: "finite (dom c) \<Longrightarrow> distinct (map fst (mq_find Q c P n)) \<and>
      set (mq_find Q c P n) \<subseteq> {(k, d). c k = Some d \<and> P d} \<and>
      length (mq_find Q c P n) = min n (card (matching c P))"

text \<open>\<^verbatim>\<open>find_one_and_update\<close> with a sort and the updated document as its result, with its identifier.\<close>

definition update_first ::
  "'d mongo_q \<Rightarrow> 'd coll \<Rightarrow> ('d \<Rightarrow> bool) \<Rightarrow> ('d \<Rightarrow> int list) \<Rightarrow> ('d \<Rightarrow> 'd) \<Rightarrow> (string \<times> 'd) option \<times> 'd coll" where
  "update_first Q c P key u = (case mq_first Q c P key of
     None \<Rightarrow> (None, c)
   | Some k \<Rightarrow> (case find_one_and_update (mq_base Q) c k P u of
                 (r, c') \<Rightarrow> (map_option (\<lambda>d. (k, d)) r, c')))"

definition update_any ::
  "'d mongo_q \<Rightarrow> 'd coll \<Rightarrow> ('d \<Rightarrow> bool) \<Rightarrow> ('d \<Rightarrow> 'd) \<Rightarrow> (string \<times> 'd) option \<times> 'd coll" where
  "update_any Q c P u = (case mq_any Q c P of
     None \<Rightarrow> (None, c)
   | Some k \<Rightarrow> (case find_one_and_update (mq_base Q) c k P u of
                 (r, c') \<Rightarrow> (map_option (\<lambda>d. (k, d)) r, c')))"

lemma matching_iff [simp]: "k \<in> matching c P \<longleftrightarrow> matches c k P"
  by (simp add: matching_def)

lemma matching_sub: "matching c P \<subseteq> dom c"
  by (auto simp: matching_def matches_def split: option.splits)

lemma finite_matching: "finite (dom c) \<Longrightarrow> finite (matching c P)"
  using matching_sub by (rule finite_subset)

context mongo_queries
begin

lemma update_first_Some:
  assumes "finite (dom c)" and "update_first Q c P key u = (Some (k, d'), c')"
  obtains d where "c k = Some d" "P d" "d' = u d" "c' = c(k \<mapsto> u d)"
    "\<And>k' e. c k' = Some e \<Longrightarrow> P e \<Longrightarrow> (key d, k) \<le> (key e, k')"
proof -
  have f: "mq_first Q c P key = Some k"
    using assms(2) by (auto simp: update_first_def split: option.splits prod.splits)
  with assms(2) obtain d where d: "c k = Some d" "P d" "d' = u d" "c' = c(k \<mapsto> u d)"
    by (auto simp: update_first_def base.point_laws matches_def split: option.splits if_splits)
  have "(key d, k) \<le> (key e, k')" if "c k' = Some e" "P e" for k' e
  proof -
    from that have "k' \<in> matching c P" by simp
    with first_Some [OF assms(1) f] have "(key (the (c k)), k) \<le> (key (the (c k')), k')" by (metis (no_types, lifting))
    with d(1) that(1) show ?thesis by (simp only: option.sel)
  qed
  with d show thesis by (rule that)
qed

lemma update_first_None:
  assumes "finite (dom c)" and "update_first Q c P key u = (None, c')"
  shows "c' = c \<and> (\<forall>k d. c k = Some d \<longrightarrow> \<not> P d)"
  using assms first_None [OF assms(1), of P key] first_Some [OF assms(1), of P key]
  by (fastforce simp: update_first_def base.point_laws matches_def matching_def split: option.splits if_splits)

lemma update_any_Some:
  assumes "update_any Q c P u = (Some (k, d'), c')"
  obtains d where "c k = Some d" "P d" "d' = u d" "c' = c(k \<mapsto> u d)"
  using assms any_Some [of c P k]
  by (auto simp: update_any_def base.point_laws matches_def split: option.splits if_splits)

lemma update_any_None:
  assumes "update_any Q c P u = (None, c')"
  shows "c' = c \<and> (\<forall>k d. c k = Some d \<longrightarrow> \<not> P d)"
  using assms any_None [of c P] any_Some [of c P]
  by (fastforce simp: update_any_def base.point_laws matches_def matching_def split: option.splits if_splits)

end

section \<open>An in-memory instance\<close>

definition mem_queries :: "'d mongo_q" where
  "mem_queries = \<lparr>mq_base = mem_mongo,
     mq_first = (\<lambda>c P key. if matching c P = {} then None
       else Some (snd (Min ((\<lambda>k. (key (the (c k)), k)) ` matching c P)))),
     mq_any = (\<lambda>c P. if matching c P = {} then None else Some (SOME k. k \<in> matching c P)),
     mq_count = (\<lambda>c P n. min n (card (matching c P))),
     mq_find = (\<lambda>c P n. SOME xs. distinct (map fst xs) \<and> set xs \<subseteq> {(k, d). c k = Some d \<and> P d} \<and>
       length xs = min n (card (matching c P)))\<rparr>"

lemma mem_find_exists:
  assumes "finite (dom c)"
  shows "\<exists>xs. distinct (map fst xs) \<and> set xs \<subseteq> {(k, d). c k = Some d \<and> P d} \<and>
    length xs = min n (card (matching c P))"
proof -
  obtain ks where ks: "set ks = matching c P" "distinct ks"
    using finite_distinct_list [OF finite_matching [OF assms]] by blast
  let ?xs = "map (\<lambda>k. (k, the (c k))) (take n ks)"
  have "distinct (map fst ?xs)" using ks(2) by (simp add: comp_def)
  moreover have "set ?xs \<subseteq> {(k, d). c k = Some d \<and> P d}"
    using ks(1) set_take_subset [of n ks] by (fastforce elim: matchesE)
  moreover have "length ?xs = min n (card (matching c P))"
    using ks by (simp add: min.commute distinct_card [symmetric])
  ultimately show ?thesis by blast
qed

interpretation mem_q: mongo_queries mem_queries
proof (intro mongo_queries.intro mongo_queries_axioms.intro)
  show "mongo_collection (mq_base mem_queries)" by (simp add: mem_queries_def mem.mongo_collection_axioms)
next
  fix c :: "'b coll" and P key k
  assume fin: "finite (dom c)" and f: "mq_first mem_queries c P key = Some k"
  let ?S = "(\<lambda>k. (key (the (c k)), k)) ` matching c P"
  have ne: "?S \<noteq> {}" "finite ?S" using f finite_matching [OF fin] by (auto simp: mem_queries_def split: if_splits)
  have k: "k = snd (Min ?S)" using f by (auto simp: mem_queries_def split: if_splits)
  from Min_in [OF ne(2,1)] obtain k0 where k0: "k0 \<in> matching c P" "Min ?S = (key (the (c k0)), k0)" by auto
  with k have eq: "k0 = k" by (simp only: snd_conv)
  have "(key (the (c k)), k) \<le> (key (the (c k')), k')" if "k' \<in> matching c P" for k'
    using Min_le [OF ne(2) imageI [OF that]] unfolding k0(2) eq .
  with k0(1) eq show "k \<in> matching c P \<and> (\<forall>k' \<in> matching c P. (key (the (c k)), k) \<le> (key (the (c k')), k'))"
    by (simp only:) blast
next
  fix c :: "'b coll" and P k
  assume k: "mq_any mem_queries c P = Some k"
  have q: "mq_any mem_queries c P = (if matching c P = {} then None else Some (SOME k. k \<in> matching c P))"
    unfolding mem_queries_def mongo_q.simps ..
  show "k \<in> matching c P"
  proof (cases "matching c P = {}")
    case False
    with some_in_eq [of "matching c P"] q k show ?thesis by (simp only: if_False option.inject not_False_eq_True)
  qed (use q k in simp)
next
  fix c :: "'b coll" and P n
  assume "finite (dom c)"
  from someI_ex [OF mem_find_exists [OF this, of P n]]
  show "distinct (map fst (mq_find mem_queries c P n)) \<and>
      set (mq_find mem_queries c P n) \<subseteq> {(k, d). c k = Some d \<and> P d} \<and>
      length (mq_find mem_queries c P n) = min n (card (matching c P))"
    unfolding mem_queries_def mongo_q.simps .
qed (simp_all add: mem_queries_def split: if_splits)

text \<open>On collections of at most one document these operations compute.\<close>

lemma matching_single [simp]: "matching [k \<mapsto> d] P = (if P d then {k} else {})"
  and matching_none [simp]: "matching Map.empty P = {}"
  by (auto simp: matching_def matches_def split: option.splits if_splits)

lemma mem_single [simp]:
  "mq_base mem_queries = mem_mongo"
  "mq_first mem_queries [k \<mapsto> d] P key = (if P d then Some k else None)"
  "mq_any mem_queries [k \<mapsto> d] P = (if P d then Some k else None)"
  "mq_count mem_queries [k \<mapsto> d] P n = min n (if P d then 1 else 0)"
  "mq_count mem_queries Map.empty P n = 0"
  by (auto simp: mem_queries_def simp del: matching_iff)

lemma mem_update_single: "update_many mem_mongo [k \<mapsto> d] P u = [k \<mapsto> if P d then u d else d]"
  by (auto simp: fun_eq_iff)

lemma mem_find_single: "mq_find mem_queries [k \<mapsto> d] P n = (if P d \<and> 0 < n then [(k, d)] else [])"
proof -
  let ?L = "\<lambda>xs. distinct (map fst xs) \<and> set xs \<subseteq> {(k', d'). [k \<mapsto> d] k' = Some d' \<and> P d'} \<and>
    length xs = min n (card (matching [k \<mapsto> d] P))"
  have "mq_find mem_queries [k \<mapsto> d] P n = (SOME xs. ?L xs)" by (simp add: mem_queries_def)
  also have "\<dots> = (if P d \<and> 0 < n then [(k, d)] else [])"
  proof (rule some_equality)
    show "?L (if P d \<and> 0 < n then [(k, d)] else [])" by auto
    show "xs = (if P d \<and> 0 < n then [(k, d)] else [])" if l: "?L xs" for xs
    proof (cases "P d \<and> 0 < n")
      case True
      with l have "length xs = 1" by simp
      then obtain x where "xs = [x]" by (auto simp: length_Suc_conv)
      with l True show ?thesis by (auto split: if_splits)
    next
      case False
      with l have "length xs = 0" by (auto split: if_splits)
      with False show ?thesis by auto
    qed
  qed
  finally show ?thesis .
qed

end
