(* ===== verification/RecoveryQueue.thy ===== *)
theory RecoveryQueue
  imports RecoveryRequests MongoQueries
begin

text \<open>
  The durable recovery queue \<^verbatim>\<open>FormulaRecoveryQueue\<close> of
  \<^verbatim>\<open>modules/sheets/src/zeler_sheets/formulas/recovery.py\<close>: admission under a bounded number of
  active jobs per seller, claims under a lease, retries, the chunked catalog and inventory jobs and
  the shipment cursor. A job is a document of \<^verbatim>\<open>sheets_formula_recovery_jobs\<close> under the key of its
  request; every handler is a function of the collection, the clock's reading and the fresh token.
\<close>

section \<open>Jobs\<close>

datatype job_status = Pending | Running | Completed | Failed

text \<open>The acquisition fields of a history job (\<^verbatim>\<open>history_protocol_version\<close> is 1 exactly on these).\<close>

record history_fields =
  hy_plan_id :: string
  hy_acquisition_id :: string
  hy_generation :: int
  hy_pass_number :: int
  hy_checkpoint_revision :: int

record cursor_entry =
  ce_offset :: int
  ce_completed_at :: instant
  ce_request_key :: string
  ce_seller :: string

text \<open>
  \<open>None\<close> is an absent field. The two fields read with an empty default (the failed offsets and the
  unavailable items) are lists, and flags that the code compares with \<^verbatim>\<open>True\<close> are booleans.
\<close>

record job =
  jb_seller :: string
  jb_model :: string
  jb_state :: job_status
  jb_attempts :: int
  jb_created_at :: instant
  jb_updated_at :: instant
  jb_available_at :: instant
  jb_authority :: "string option"
  jb_token :: "string option"
  jb_lease_until :: "instant option"
  jb_failure_reason :: "string option"
  jb_range :: "(instant \<times> instant) option"
  jb_year_history :: bool
  jb_history :: "history_fields option"
  jb_item_ids :: "string list option"
  jb_product_ids :: "string list option"
  jb_order_ids :: "string list option"
  jb_shipment_ids :: "string list option"
  jb_modification :: "(py_datetime \<times> string \<times> string) option"
  jb_catalog_offset :: "int option"
  jb_catalog_failed :: "int list"
  jb_catalog_reason :: "string option"
  jb_inventory_scope :: bool
  jb_inventory_ids :: "string list option"
  jb_inventory_offset :: "int option"
  jb_inventory_unavailable :: "string list"
  jb_inventory_observed :: "instant option"
  jb_shipment_offset :: "int option"
  jb_shipment_history :: "cursor_entry list"

datatype queue_error = QueueValueError string | RecoveryCapacityError | QueueKeyError string | QueueIndexError | QueueDuplicateKey

definition recovery_lease :: duration where "recovery_lease = minutes 10"
definition recovery_cooldown :: duration where "recovery_cooldown = minutes 15"
definition inventory_refresh_interval :: duration where "inventory_refresh_interval = minutes 10"
definition recovery_max_attempts :: int where "recovery_max_attempts = 3"

lemmas [time_defs] = recovery_lease_def recovery_cooldown_def inventory_refresh_interval_def

section \<open>The queue\<close>

text \<open>
  The constructor's settings; \<open>rq_gate\<close> is the seller gate, a service outside the repository's
  process. \<open>rq_allowed = None\<close> is the mode without allowlist.
\<close>

record recovery_queue =
  rq_enabled :: "string list"
  rq_allowed :: "string list option"
  rq_gate :: "(string \<Rightarrow> bool) option"
  rq_capacity :: nat
  rq_reserved :: nat
  rq_authority :: "string option"
  rq_year_history :: bool

definition make_queue ::
  "string list \<Rightarrow> string list option \<Rightarrow> (string \<Rightarrow> bool) option \<Rightarrow> int \<Rightarrow> int \<Rightarrow> string option \<Rightarrow> bool \<Rightarrow>
   (queue_error, recovery_queue) result" where
  "make_queue enabled allowed gate capacity reserved authority year =
    rbind (require (1 \<le> capacity) (QueueValueError ''recovery capacity must be a positive integer'')) (\<lambda>_.
    rbind (require (0 \<le> reserved \<and> reserved \<le> min 1 capacity)
             (QueueValueError ''inventory reservation must be zero or one within capacity'')) (\<lambda>_.
    Inr \<lparr>rq_enabled = enabled, rq_allowed = allowed, rq_gate = gate, rq_capacity = nat capacity,
         rq_reserved = nat reserved, rq_authority = authority, rq_year_history = year\<rparr>))"

text \<open>
  What the queue runs on: the hash and date parser of the standard library, and the operations of
  the two collections. \<open>recovery_db\<close> holds their documents.
\<close>

record recovery_env =
  rv_hash :: "string \<Rightarrow> string"
  rv_parse :: "string \<Rightarrow> py_datetime option"
  rv_jobs :: "job mongo_q"
  rv_admission :: "int mongo"

record recovery_db =
  rd_jobs :: "job coll"
  rd_admission :: "int coll"

definition is_live :: "job \<Rightarrow> bool" where
  "is_live j \<longleftrightarrow> jb_state j \<in> {Pending, Running}"

text \<open>\<^verbatim>\<open>_owned\<close>: the job as the attempt claimed it, under an unexpired lease.\<close>

definition owned :: "job \<Rightarrow> instant \<Rightarrow> job \<Rightarrow> bool" where
  "owned doc now j \<longleftrightarrow> jb_state j = Running \<and> jb_token j \<noteq> None \<and> jb_token j = jb_token doc \<and>
     (case jb_lease_until j of None \<Rightarrow> False | Some u \<Rightarrow> now < u)"

section \<open>Admission\<close>

fun is_history_request :: "request \<Rightarrow> bool" where
  "is_history_request (QuestionScanRequest _ _ _ _) = True"
| "is_history_request (OrderHistoryRequest _ _ _ _) = True"
| "is_history_request _ = False"

fun is_shipment_request :: "request \<Rightarrow> bool" where
  "is_shipment_request (ShipmentIdsRequest _ _) = True"
| "is_shipment_request _ = False"

fun is_catalog_request :: "request \<Rightarrow> bool" where
  "is_catalog_request (CatalogRequest _ _ _) = True"
| "is_catalog_request (RenewalRequest _ _ _ _) = True"
| "is_catalog_request _ = False"

fun is_inventory_request :: "request \<Rightarrow> bool" where
  "is_inventory_request (InventoryRequest _) = True"
| "is_inventory_request _ = False"

fun is_modified_request :: "request \<Rightarrow> bool" where
  "is_modified_request (ModifiedOrderRequest _ _ _ _) = True"
| "is_modified_request _ = False"

fun is_items_request :: "request \<Rightarrow> bool" where
  "is_items_request (ItemIdsRequest _ _ _) = True"
| "is_items_request _ = False"

fun is_products_request :: "request \<Rightarrow> bool" where
  "is_products_request (CatalogProductsRequest _ _) = True"
| "is_products_request _ = False"

definition check_scope :: "recovery_queue \<Rightarrow> request \<Rightarrow> (queue_error, unit) result" where
  "check_scope q r =
    (let m = request_model r in
     rbind (require (case rq_allowed q of None \<Rightarrow> True | Some ss \<Rightarrow> request_seller r \<in> set ss)
              (QueueValueError ''recovery seller is not enabled'')) (\<lambda>_.
     rbind (require (m \<in> set (rq_enabled q)) (QueueValueError ''recovery source is not enabled'')) (\<lambda>_.
     rbind (require (m = ''shipments'' \<longrightarrow> is_shipment_request r)
              (QueueValueError ''shipment recovery requires explicit IDs'')) (\<lambda>_.
     rbind (require (m = ''catalog_product_snapshots'' \<longrightarrow> is_products_request r \<or> is_catalog_request r)
              (QueueValueError ''catalog recovery requires explicit product IDs'')) (\<lambda>_.
     rbind (require (m = ''catalog_buybox_snapshots'' \<longrightarrow> is_items_request r \<or> is_catalog_request r)
              (QueueValueError ''buybox recovery requires explicit publication IDs'')) (\<lambda>_.
     rbind (require (m = ''item_formula_rows'' \<longrightarrow> is_items_request r \<or> is_inventory_request r \<or> is_catalog_request r)
              (QueueValueError ''item recovery requires explicit IDs or an inventory request'')) (\<lambda>_.
     require (case rq_gate q of None \<Rightarrow> True | Some g \<Rightarrow> g (request_seller r))
       (QueueValueError ''recovery seller is not enabled''))))))))"

text \<open>\<^verbatim>\<open>validate_existing\<close> of the three kinds of request that have it.\<close>

fun validate_existing :: "recovery_env \<Rightarrow> request \<Rightarrow> (string \<times> job) option \<Rightarrow> (queue_error, unit) result" where
  "validate_existing E (QuestionScanRequest s p a b) (Some (k, j)) =
    require (jb_seller j = s \<and> jb_model j = ''questions'' \<and> map_option hy_plan_id (jb_history j) = Some p \<and>
             jb_range j = Some (a, b))
      (QueueValueError ''question scan plan identity or fixed bounds changed'')"
| "validate_existing E (OrderHistoryRequest s p a b) (Some (k, j)) =
    require (jb_seller j = s \<and> jb_model j = ''orders'' \<and> map_option hy_plan_id (jb_history j) = Some p \<and>
             jb_range j = Some (a, b))
      (QueueValueError ''order history plan identity or fixed bounds changed'')"
| "validate_existing E (ShipmentIdsRequest s ids) (Some (k, j)) =
    require (k = request_key (rv_hash E) (ShipmentIdsRequest s ids) \<and> jb_seller j = s \<and>
             jb_model j = ''shipments'' \<and> jb_shipment_ids j = Some ids)
      (QueueValueError ''shipment request identity changed'')"
| "validate_existing E _ _ = Inr ()"

definition blank_job :: "string \<Rightarrow> string \<Rightarrow> string option \<Rightarrow> instant \<Rightarrow> job" where
  "blank_job seller model authority now =
    \<lparr>jb_seller = seller, jb_model = model, jb_state = Pending, jb_attempts = 0, jb_created_at = now,
     jb_updated_at = now, jb_available_at = now, jb_authority = authority, jb_token = None,
     jb_lease_until = None, jb_failure_reason = None, jb_range = None, jb_year_history = False,
     jb_history = None, jb_item_ids = None, jb_product_ids = None, jb_order_ids = None,
     jb_shipment_ids = None, jb_modification = None, jb_catalog_offset = None, jb_catalog_failed = [],
     jb_catalog_reason = None, jb_inventory_scope = False, jb_inventory_ids = None,
     jb_inventory_offset = None, jb_inventory_unavailable = [], jb_inventory_observed = None,
     jb_shipment_offset = None, jb_shipment_history = []\<rparr>"

definition catalog_fields :: "string \<Rightarrow> string list \<Rightarrow> job \<Rightarrow> job" where
  "catalog_fields model ids j =
    (if model \<noteq> ''catalog_product_snapshots'' then j\<lparr>jb_item_ids := Some ids, jb_catalog_offset := Some 0\<rparr>
     else j\<lparr>jb_product_ids := Some ids, jb_catalog_offset := Some 0\<rparr>)"

definition history_start :: "string \<Rightarrow> string \<Rightarrow> history_fields" where
  "history_start plan key = \<lparr>hy_plan_id = plan, hy_acquisition_id = key, hy_generation = 1, hy_pass_number = 1,
     hy_checkpoint_revision = 0\<rparr>"

text \<open>The document of a first admission: \<^verbatim>\<open>initial\<close>.\<close>

fun request_fields :: "recovery_env \<Rightarrow> request \<Rightarrow> job \<Rightarrow> (queue_error, job) result" where
  "request_fields E (RangeRequest s m a b) j = Inr (j\<lparr>jb_range := Some (a, b)\<rparr>)"
| "request_fields E (YearHistoryRequest s m a b) j = Inr (j\<lparr>jb_range := Some (a, b), jb_year_history := True\<rparr>)"
| "request_fields E (QuestionScanRequest s p a b) j = Inr (j\<lparr>jb_range := Some (a, b),
     jb_history := Some (history_start p (request_key (rv_hash E) (QuestionScanRequest s p a b)))\<rparr>)"
| "request_fields E (OrderHistoryRequest s p a b) j = Inr (j\<lparr>jb_range := Some (a, b),
     jb_history := Some (history_start p (request_key (rv_hash E) (OrderHistoryRequest s p a b)))\<rparr>)"
| "request_fields E (OrderIdsRequest s ids) j = Inr (j\<lparr>jb_order_ids := Some ids\<rparr>)"
| "request_fields E (ModifiedOrderRequest s i v h) j = (case rv_parse E v of
     None \<Rightarrow> Inl (QueueValueError ''Invalid isoformat string'')
   | Some t \<Rightarrow> Inr (j\<lparr>jb_order_ids := Some [i], jb_modification := Some (t, v, h)\<rparr>))"
| "request_fields E (ShipmentIdsRequest s ids) j = Inr (j\<lparr>jb_shipment_ids := Some ids\<rparr>)"
| "request_fields E (ItemIdsRequest s m ids) j = Inr (j\<lparr>jb_item_ids := Some ids\<rparr>)"
| "request_fields E (CatalogProductsRequest s ids) j = Inr (j\<lparr>jb_product_ids := Some ids\<rparr>)"
| "request_fields E (CatalogRequest s m ids) j = Inr (catalog_fields m ids j)"
| "request_fields E (RenewalRequest s m ids t) j = Inr (catalog_fields m ids j)"
| "request_fields E (InventoryRequest s) j = Inr (j\<lparr>jb_inventory_scope := True\<rparr>)"

definition initial_job :: "recovery_env \<Rightarrow> recovery_queue \<Rightarrow> request \<Rightarrow> instant \<Rightarrow> (queue_error, job) result" where
  "initial_job E q r now = request_fields E r (blank_job (request_seller r) (request_model r) (rq_authority q) now)"

text \<open>
  A request for explicit items leaves out what live jobs of the seller already fetch. The constructor
  of the narrowed request validates it again.
\<close>

fun requested_ids :: "request \<Rightarrow> string list" where
  "requested_ids (CatalogRequest _ _ ids) = ids"
| "requested_ids (RenewalRequest _ _ ids _) = ids"
| "requested_ids (ItemIdsRequest _ _ ids) = ids"
| "requested_ids _ = []"

fun lift_request_error :: "(request_error, 'a) result \<Rightarrow> (queue_error, 'a) result" where
  "lift_request_error (Inl (RequestValueError e)) = Inl (QueueValueError e)"
| "lift_request_error (Inr r) = Inr r"

fun narrow :: "request \<Rightarrow> string list \<Rightarrow> (queue_error, request) result" where
  "narrow (CatalogRequest s m _) ids = lift_request_error (make_catalog s m ids)"
| "narrow (RenewalRequest s m _ t) ids = lift_request_error (make_renewal s m ids (Aware t))"
| "narrow (ItemIdsRequest s m _) ids = lift_request_error (make_item_ids s m ids)"
| "narrow r ids = Inr r"

text \<open>
  The first half of \<^verbatim>\<open>admit\<close>: either the requested items are all covered by a live job, or the unit to
  admit has the key under which the collection is read (\<^verbatim>\<open>admitted_key\<close>, a variable of the enclosing
  call), the \<^verbatim>\<open>_id\<close> of the document to insert, and that document.
\<close>

datatype admit_plan = CoveredBy string | AdmitAs string string job

definition plan_admission ::
  "recovery_env \<Rightarrow> recovery_queue \<Rightarrow> request \<Rightarrow> job \<Rightarrow> job coll \<Rightarrow> string \<Rightarrow> (queue_error, admit_plan) result" where
  "plan_admission E q r init c admitted =
    (if request_model r \<in> {''item_formula_rows'', ''catalog_buybox_snapshots''} \<and> (is_catalog_request r \<or> is_items_request r)
     then let active = mq_find (rv_jobs E) c (\<lambda>j. jb_seller j = request_seller r \<and> jb_model j = request_model r \<and>
                is_live j \<and> jb_item_ids j \<noteq> None) (rq_capacity q);
              covered = concat (map (\<lambda>(k, j). case jb_item_ids j of None \<Rightarrow> [] | Some ids \<Rightarrow> ids) active);
              requested = requested_ids r;
              remaining = filter (\<lambda>i. i \<notin> set covered) requested
          in if remaining = [] then (case active of [] \<Rightarrow> Inl QueueIndexError | (k, _) # _ \<Rightarrow> Inr (CoveredBy k))
             else if remaining \<noteq> requested
             then rbind (narrow r remaining) (\<lambda>r'.
                    let k = request_key (rv_hash E) r' in Inr (AdmitAs k k (init\<lparr>jb_item_ids := Some remaining\<rparr>)))
             else Inr (AdmitAs admitted (request_key (rv_hash E) r) init)
     else Inr (AdmitAs admitted (request_key (rv_hash E) r) init))"

definition check_capacity :: "recovery_env \<Rightarrow> recovery_queue \<Rightarrow> request \<Rightarrow> job coll \<Rightarrow> (queue_error, unit) result" where
  "check_capacity E q r c =
    (let s = request_seller r;
         active = mq_count (rv_jobs E) c (\<lambda>j. jb_seller j = s \<and> is_live j) (rq_capacity q)
     in if rq_reserved q \<noteq> 0 \<and> \<not> is_inventory_request r \<and>
           rq_capacity q - rq_reserved q \<le>
             mq_count (rv_jobs E) c (\<lambda>j. jb_seller j = s \<and> is_live j \<and> \<not> jb_inventory_scope j) (rq_capacity q)
        then Inl RecoveryCapacityError
        else require (active < rq_capacity q) RecoveryCapacityError)"

text \<open>Reopening an ended job: the attempts it restarts with and the entry its shipment cursor leaves.\<close>

definition reopen_cursor :: "recovery_env \<Rightarrow> request \<Rightarrow> job \<Rightarrow> (queue_error, int \<times> cursor_entry option) result" where
  "reopen_cursor E r j = (case (r, jb_shipment_offset j) of
     (ShipmentIdsRequest s ids, Some offset) \<Rightarrow>
       rbind (require (0 \<le> offset \<and> offset \<le> int (length ids)) (QueueValueError ''shipment cursor malformed during reopen'')) (\<lambda>_.
       if jb_state j = Completed \<and> offset = int (length ids)
       then Inr (0, Some \<lparr>ce_offset = offset, ce_completed_at = jb_updated_at j,
                          ce_request_key = request_key (rv_hash E) r, ce_seller = s\<rparr>)
       else Inr (jb_attempts j, None))
   | _ \<Rightarrow> Inr (0, None))"

definition reopen_fields :: "request \<Rightarrow> instant \<Rightarrow> int \<times> cursor_entry option \<Rightarrow> job \<Rightarrow> job" where
  "reopen_fields r now ae j =
    (let j1 = j\<lparr>jb_state := Pending, jb_attempts := fst ae, jb_updated_at := now\<rparr>;
         j2 = (case snd ae of None \<Rightarrow> j1
               | Some e \<Rightarrow> j1\<lparr>jb_shipment_offset := Some 0, jb_shipment_history := jb_shipment_history j1 @ [e]\<rparr>)
     in if is_inventory_request r then j2\<lparr>jb_inventory_offset := None, jb_inventory_unavailable := []\<rparr>
        else if is_catalog_request r
        then j2\<lparr>jb_catalog_offset := Some 0, jb_catalog_failed := [], jb_catalog_reason := None\<rparr>
        else j2)"

definition reopen_job ::
  "recovery_env \<Rightarrow> request \<Rightarrow> instant \<Rightarrow> job coll \<Rightarrow> string \<Rightarrow> job \<Rightarrow> (queue_error, job coll) result" where
  "reopen_job E r now c k j =
    rbind (reopen_cursor E r j) (\<lambda>ae.
    case find_one_and_update (mq_base (rv_jobs E)) c k
           (\<lambda>d. case (r, jb_shipment_offset j) of
                  (ShipmentIdsRequest s ids, Some offset) \<Rightarrow>
                    jb_shipment_ids d = Some ids \<and> jb_state d = jb_state j \<and> jb_shipment_offset d = Some offset
                | _ \<Rightarrow> True)
           (reopen_fields r now ae) of
      (None, c') \<Rightarrow> if is_shipment_request r then Inl (QueueValueError ''shipment reopen identity changed'') else Inr c'
    | (Some _, c') \<Rightarrow> Inr c')"

text \<open>The second half of \<^verbatim>\<open>admit\<close>, on the snapshot of its transaction.\<close>

definition admit_unit ::
  "recovery_env \<Rightarrow> recovery_queue \<Rightarrow> request \<Rightarrow> bool \<Rightarrow> instant \<Rightarrow> job coll \<Rightarrow> string \<Rightarrow> string \<Rightarrow> job \<Rightarrow>
   (queue_error, job coll) result" where
  "admit_unit E q r reopen_terminal now c admitted key doc =
    (let existing = find_one (mq_base (rv_jobs E)) c admitted (\<lambda>_. True)
     in case existing of
          None \<Rightarrow> rbind (check_capacity E q r c) (\<lambda>_.
            case insert_one (mq_base (rv_jobs E)) c key doc of Inl _ \<Rightarrow> Inl QueueDuplicateKey | Inr c' \<Rightarrow> Inr c')
        | Some j \<Rightarrow>
            if jb_authority j \<noteq> rq_authority q then Inr c
            else rbind (validate_existing E r (Some (admitted, j))) (\<lambda>_.
              if is_history_request r \<or> is_modified_request r \<or> \<not> reopen_terminal \<or> is_live j then Inr c
              else rbind (check_capacity E q r c) (\<lambda>_. reopen_job E r now c admitted j)))"

definition seed_admission :: "recovery_env \<Rightarrow> string \<Rightarrow> recovery_db \<Rightarrow> recovery_db" where
  "seed_admission E s db = (case upsert_one (rv_admission E) (rd_admission db) s (\<lambda>_. True) (\<lambda>n. n) 0 of
     Inl _ \<Rightarrow> db | Inr (_, a) \<Rightarrow> db\<lparr>rd_admission := a\<rparr>)"

definition bump_admission :: "recovery_env \<Rightarrow> string \<Rightarrow> recovery_db \<Rightarrow> recovery_db" where
  "bump_admission E s db =
    db\<lparr>rd_admission := snd (find_one_and_update (rv_admission E) (rd_admission db) s (\<lambda>_. True) (\<lambda>n. n + 1))\<rparr>"

text \<open>
  \<^verbatim>\<open>with_transaction\<close> runs \<^verbatim>\<open>admit\<close> again after a transient error. The attempt's writes are lost, the
  value it gave to \<^verbatim>\<open>admitted_key\<close> is not: \<open>aborted\<close> lists the snapshots that such attempts read.
\<close>

fun aborted_attempts ::
  "recovery_env \<Rightarrow> recovery_queue \<Rightarrow> request \<Rightarrow> job \<Rightarrow> job coll list \<Rightarrow> string \<Rightarrow> (queue_error, string) result" where
  "aborted_attempts E q r init [] admitted = Inr admitted"
| "aborted_attempts E q r init (c # cs) admitted = (case plan_admission E q r init c admitted of
     Inl e \<Rightarrow> Inl e
   | Inr (CoveredBy k) \<Rightarrow> aborted_attempts E q r init cs k
   | Inr (AdmitAs k _ _) \<Rightarrow> aborted_attempts E q r init cs k)"

definition admit_transaction ::
  "recovery_env \<Rightarrow> recovery_queue \<Rightarrow> request \<Rightarrow> bool \<Rightarrow> instant \<Rightarrow> job \<Rightarrow> job coll list \<Rightarrow> recovery_db \<Rightarrow>
   (queue_error, string) result \<times> recovery_db" where
  "admit_transaction E q r reopen_terminal now init aborted db =
    (case aborted_attempts E q r init aborted (request_key (rv_hash E) r) of
       Inl e \<Rightarrow> (Inl e, db)
     | Inr admitted \<Rightarrow>
         (case plan_admission E q r init (rd_jobs db) admitted of
            Inl e \<Rightarrow> (Inl e, db)
          | Inr (CoveredBy k) \<Rightarrow> (Inr k, bump_admission E (request_seller r) db)
          | Inr (AdmitAs k key doc) \<Rightarrow>
              (case admit_unit E q r reopen_terminal now (rd_jobs db) k key doc of
                 Inl e \<Rightarrow> (Inl e, db)
               | Inr c \<Rightarrow> (Inr k, bump_admission E (request_seller r) (db\<lparr>rd_jobs := c\<rparr>)))))"

definition enqueue ::
  "recovery_env \<Rightarrow> recovery_queue \<Rightarrow> request \<Rightarrow> bool \<Rightarrow> instant \<Rightarrow> job coll list \<Rightarrow> recovery_db \<Rightarrow>
   (queue_error, string) result \<times> recovery_db" where
  "enqueue E q r reopen_terminal now aborted db =
    (let key = request_key (rv_hash E) r;
         active = find_one (mq_base (rv_jobs E)) (rd_jobs db) key
           (\<lambda>j. jb_seller j = request_seller r \<and> jb_model j = request_model r \<and> is_live j)
     in case rbind (check_scope q r) (\<lambda>_. validate_existing E r (map_option (\<lambda>j. (key, j)) active)) of
          Inl e \<Rightarrow> (Inl e, db)
        | Inr _ \<Rightarrow>
            if active \<noteq> None then (Inr key, db)
            else (case initial_job E q r now of
                    Inl e \<Rightarrow> (Inl e, db)
                  | Inr init \<Rightarrow>
                      admit_transaction E q r reopen_terminal now init aborted (seed_admission E (request_seller r) db)))"

section \<open>Attempts\<close>

text \<open>
  The end of an attempt. A handler's update is computed from the document the attempt claimed
  (\<open>doc\<close>, with its \<^verbatim>\<open>_id\<close>) and applied to the stored one if the attempt still owns it.
\<close>

definition end_attempt :: "job \<Rightarrow> job" where
  "end_attempt j = j\<lparr>jb_token := None, jb_lease_until := None\<rparr>"

definition update_owned ::
  "recovery_env \<Rightarrow> string \<Rightarrow> job \<Rightarrow> instant \<Rightarrow> (job \<Rightarrow> bool) \<Rightarrow> (job \<Rightarrow> job) \<Rightarrow> job coll \<Rightarrow> bool \<times> job coll" where
  "update_owned E k doc now P u c =
    (case find_one_and_update (mq_base (rv_jobs E)) c k (\<lambda>j. owned doc now j \<and> P j) u of
       (r, c') \<Rightarrow> (r \<noteq> None, c'))"

definition finish_reasons :: "string list" where
  "finish_reasons = [''recovery_failed'', ''source_temporarily_unavailable'', ''source_rejected'',
     ''source_cursor_expired'', ''source_incomplete'', ''storage_unavailable'']"

text \<open>\<^verbatim>\<open>30 * 2 ** (attempts - 1)\<close> seconds; a negative exponent is a fraction in Python.\<close>

definition retry_backoff :: "int \<Rightarrow> duration" where
  "retry_backoff attempts = (if 1 \<le> attempts then seconds (30 * 2 ^ nat (attempts - 1))
     else seconds 30 div 2 ^ nat (1 - attempts))"

subsection \<open>Inventory chunks\<close>

definition inventory_checkpoint_valid :: "job \<Rightarrow> string list \<Rightarrow> int \<Rightarrow> bool \<Rightarrow> bool" where
  "inventory_checkpoint_valid doc ids offset unavailable \<longleftrightarrow>
     jb_inventory_scope doc \<and> length ids \<le> 10000 \<and> ids = sorted_ids ids \<and> list_all is_publication_id ids \<and>
     \<not> (unavailable \<and> jb_inventory_offset doc = None) \<and> 0 \<le> offset \<and> offset \<le> int (length ids) \<and>
     (case jb_inventory_offset doc of
        None \<Rightarrow> offset = 0
      | Some old \<Rightarrow> jb_inventory_ids doc = Some ids \<and> old < offset \<and> offset \<le> old + 20)"

definition inventory_missing :: "job \<Rightarrow> string list \<Rightarrow> int \<Rightarrow> bool \<Rightarrow> string list" where
  "inventory_missing doc ids offset unavailable =
    sorted_ids (jb_inventory_unavailable doc @
      (case (unavailable, jb_inventory_offset doc) of
         (True, Some old) \<Rightarrow> drop (nat old) (take (nat offset) ids)
       | _ \<Rightarrow> []))"

definition inventory_fields :: "job \<Rightarrow> string list \<Rightarrow> int \<Rightarrow> bool \<Rightarrow> instant \<Rightarrow> job \<Rightarrow> job" where
  "inventory_fields doc ids offset unavailable now j =
    (let completed = offset = int (length ids);
         missing = inventory_missing doc ids offset unavailable;
         failed = completed \<and> missing \<noteq> [];
         observed = (case jb_inventory_observed doc of Some t \<Rightarrow> t | None \<Rightarrow> jb_updated_at doc)
     in end_attempt (j\<lparr>jb_inventory_ids := Some ids, jb_inventory_offset := Some offset,
          jb_inventory_unavailable := missing,
          jb_inventory_observed := (if jb_inventory_offset doc = None then Some (jb_updated_at doc)
                                    else jb_inventory_observed j),
          jb_state := (if failed then Failed else if completed then Completed else Pending),
          jb_attempts := 0, jb_updated_at := now,
          jb_available_at := (if \<not> completed then now else if failed then now + recovery_cooldown
                              else max now (observed + inventory_refresh_interval)),
          jb_failure_reason := (if failed then Some ''source_incomplete'' else None)\<rparr>))"

definition checkpoint_inventory ::
  "recovery_env \<Rightarrow> string \<Rightarrow> job \<Rightarrow> string list \<Rightarrow> int \<Rightarrow> bool \<Rightarrow> instant \<Rightarrow> job coll \<Rightarrow>
   (queue_error, bool) result \<times> job coll" where
  "checkpoint_inventory E k doc ids offset unavailable now c =
    (if \<not> inventory_checkpoint_valid doc ids offset unavailable
     then (Inl (QueueValueError ''invalid inventory checkpoint''), c)
     else (case update_owned E k doc now (\<lambda>_. True) (inventory_fields doc ids offset unavailable now) c of
             (b, c') \<Rightarrow> (Inr b, c')))"

subsection \<open>Finishing\<close>

text \<open>
  The outcome fields of an attempt without continuation. A success of the two catalog models counts
  its cooldown from the start of the attempt.
\<close>

definition will_retry :: "job \<Rightarrow> bool \<Rightarrow> bool \<Rightarrow> bool" where
  "will_retry doc succeeded retryable \<longleftrightarrow> \<not> succeeded \<and> retryable \<and> jb_attempts doc < recovery_max_attempts"

definition outcome_fields :: "job \<Rightarrow> bool \<Rightarrow> bool \<Rightarrow> string \<Rightarrow> instant \<Rightarrow> job \<Rightarrow> job" where
  "outcome_fields doc succeeded retry reason now j =
    end_attempt (j\<lparr>jb_state := (if succeeded then Completed else if retry then Pending else Failed),
      jb_available_at :=
        (if succeeded \<and> jb_model doc \<in> {''catalog_product_snapshots'', ''catalog_buybox_snapshots''}
         then max now (jb_updated_at doc + recovery_cooldown)
         else now + (if retry then retry_backoff (jb_attempts doc) else recovery_cooldown)),
      jb_updated_at := now,
      jb_failure_reason := (if succeeded then None else Some reason)\<rparr>)"

text \<open>A catalog job goes on with its next 20 identifiers; its failed chunks are remembered.\<close>

definition catalog_ids :: "job \<Rightarrow> string list option" where
  "catalog_ids j = (if jb_model j \<noteq> ''catalog_product_snapshots'' then jb_item_ids j else jb_product_ids j)"

definition chunk_fields :: "job \<Rightarrow> bool \<Rightarrow> string \<Rightarrow> instant \<Rightarrow> int \<Rightarrow> int \<Rightarrow> string option \<Rightarrow> job \<Rightarrow> job" where
  "chunk_fields doc succeeded reason now offset next old_reason j =
    (let failed = jb_catalog_failed doc @ (if succeeded then [] else [offset]);
         finished = (case catalog_ids doc of None \<Rightarrow> True | Some ids \<Rightarrow> next = int (length ids));
         j1 = j\<lparr>jb_catalog_offset := Some next, jb_catalog_failed := failed, jb_attempts := 0,
                jb_state := (if finished then (if failed = [] then Completed else Failed) else Pending),
                jb_available_at := (if finished then now + recovery_cooldown else now)\<rparr>;
         j2 = (if succeeded then j1 else j1\<lparr>jb_catalog_reason := Some reason\<rparr>)
     in if failed = [] then j2
        else j2\<lparr>jb_failure_reason := (if succeeded then old_reason else Some reason)\<rparr>)"

definition finish_fields :: "job \<Rightarrow> bool \<Rightarrow> bool \<Rightarrow> string \<Rightarrow> instant \<Rightarrow> (queue_error, job \<Rightarrow> job) result" where
  "finish_fields doc succeeded retryable reason now =
    (let retry = will_retry doc succeeded retryable; base = outcome_fields doc succeeded retry reason now
     in case jb_catalog_offset doc of
          None \<Rightarrow> Inr base
        | Some offset \<Rightarrow>
            if retry then Inr base
            else (case catalog_ids doc of
                    None \<Rightarrow> Inl (QueueKeyError ''item_ids'')
                  | Some ids \<Rightarrow>
                      if \<not> (0 \<le> offset \<and> offset < int (length ids)) \<or> offset mod 20 \<noteq> 0
                      then Inl (QueueValueError ''invalid catalog continuation offset'')
                      else if succeeded \<and> jb_catalog_failed doc \<noteq> [] \<and> jb_catalog_reason doc = None
                      then Inl (QueueKeyError ''catalog_failure_reason'')
                      else Inr (\<lambda>j. chunk_fields doc succeeded reason now offset
                                     (min (offset + 20) (int (length ids))) (jb_catalog_reason doc) (base j))))"

definition finish ::
  "recovery_env \<Rightarrow> string \<Rightarrow> job \<Rightarrow> bool \<Rightarrow> bool \<Rightarrow> string \<Rightarrow> bool option \<Rightarrow> instant \<Rightarrow> job coll \<Rightarrow>
   (queue_error, bool) result \<times> job coll" where
  "finish E k doc succeeded retryable reason session now c =
    (if session = Some False then (Inl (QueueValueError ''recovery publication requires an active transaction''), c)
     else if reason \<notin> set finish_reasons then (Inl (QueueValueError ''unsupported public recovery failure reason''), c)
     else if \<not> succeeded \<and> \<not> will_retry doc succeeded retryable \<and> jb_inventory_scope doc \<and>
             jb_inventory_offset doc \<noteq> None \<and> reason \<in> {''source_incomplete'', ''source_temporarily_unavailable''}
     then (case (jb_inventory_ids doc, jb_inventory_offset doc) of
             (Some ids, Some old) \<Rightarrow> checkpoint_inventory E k doc ids (min (old + 20) (int (length ids))) True now c
           | _ \<Rightarrow> (Inl (QueueKeyError ''inventory_ids''), c))
     else (case finish_fields doc succeeded retryable reason now of
             Inl e \<Rightarrow> (Inl e, c)
           | Inr u \<Rightarrow> (case update_owned E k doc now (\<lambda>_. True) u c of (b, c') \<Rightarrow> (Inr b, c'))))"

text \<open>A quota deferral returns the attempt; a renewal extends the lease.\<close>

definition defer_fields :: "instant \<Rightarrow> job \<Rightarrow> job" where
  "defer_fields now j = end_attempt (j\<lparr>jb_state := Pending, jb_updated_at := now, jb_available_at := now + seconds 1,
     jb_attempts := jb_attempts j - 1\<rparr>)"

definition defer_quota :: "recovery_env \<Rightarrow> string \<Rightarrow> job \<Rightarrow> instant \<Rightarrow> job coll \<Rightarrow> bool \<times> job coll" where
  "defer_quota E k doc now c = update_owned E k doc now (\<lambda>_. True) (defer_fields now) c"

definition renew_fields :: "instant \<Rightarrow> job \<Rightarrow> job" where
  "renew_fields now j = j\<lparr>jb_lease_until := Some (now + recovery_lease), jb_updated_at := now\<rparr>"

definition renew :: "recovery_env \<Rightarrow> string \<Rightarrow> job \<Rightarrow> instant \<Rightarrow> job coll \<Rightarrow> bool \<times> job coll" where
  "renew E k doc now c = update_owned E k doc now (\<lambda>_. True) (renew_fields now) c"

subsection \<open>The shipment cursor\<close>

definition cursor_binding :: "recovery_env \<Rightarrow> recovery_queue \<Rightarrow> string \<Rightarrow> job \<Rightarrow> (queue_error, job \<Rightarrow> bool) result" where
  "cursor_binding E q k doc = (case jb_shipment_ids doc of
     None \<Rightarrow> Inl (QueueKeyError ''shipment_ids'')
   | Some ids \<Rightarrow>
       rbind (lift_request_error (make_shipment_ids (jb_seller doc) ids)) (\<lambda>r.
       rbind (require (k = request_key (rv_hash E) r \<and> jb_model doc = ''shipments'' \<and> ids = sorted_ids ids \<and>
                ''shipments'' \<in> set (rq_enabled q) \<and>
                (case rq_allowed q of None \<Rightarrow> True | Some ss \<Rightarrow> jb_seller doc \<in> set ss) \<and>
                jb_authority doc = rq_authority q)
              (QueueValueError ''shipment cursor identity unavailable'')) (\<lambda>_.
       Inr (\<lambda>j. jb_seller j = jb_seller doc \<and> jb_model j = ''shipments'' \<and> jb_shipment_ids j = Some ids \<and>
                jb_authority j = rq_authority q))))"

definition initialize_shipment_cursor ::
  "recovery_env \<Rightarrow> recovery_queue \<Rightarrow> string \<Rightarrow> job \<Rightarrow> instant \<Rightarrow> job coll \<Rightarrow> (queue_error, int) result \<times> job coll" where
  "initialize_shipment_cursor E q k doc now c = (case cursor_binding E q k doc of
     Inl e \<Rightarrow> (Inl e, c)
   | Inr P \<Rightarrow>
       (let size = (case jb_shipment_ids doc of None \<Rightarrow> 0 | Some ids \<Rightarrow> int (length ids));
            offset = (case jb_shipment_offset doc of None \<Rightarrow> 0 | Some n \<Rightarrow> n)
        in if \<not> (0 \<le> offset \<and> offset \<le> size) then (Inl (QueueValueError ''shipment cursor malformed''), c)
           else (case update_owned E k doc now (\<lambda>j. P j \<and> jb_shipment_offset j = jb_shipment_offset doc)
                        (\<lambda>j. j\<lparr>jb_shipment_offset := Some offset\<rparr>) c of
                   (True, c') \<Rightarrow> (Inr offset, c')
                 | (False, c') \<Rightarrow> (Inl (QueueValueError ''shipment cursor initialization lost ownership''), c'))))"

definition checkpoint_shipment_cursor ::
  "recovery_env \<Rightarrow> recovery_queue \<Rightarrow> string \<Rightarrow> job \<Rightarrow> int \<Rightarrow> int \<Rightarrow> bool \<Rightarrow> instant \<Rightarrow> job coll \<Rightarrow>
   (queue_error, bool) result \<times> job coll" where
  "checkpoint_shipment_cursor E q k doc expected next in_transaction now c =
    (if \<not> in_transaction then (Inl (QueueValueError ''shipment cursor requires publication transaction''), c)
     else case cursor_binding E q k doc of
       Inl e \<Rightarrow> (Inl e, c)
     | Inr P \<Rightarrow>
         (let size = (case jb_shipment_ids doc of None \<Rightarrow> 0 | Some ids \<Rightarrow> int (length ids))
          in if \<not> (0 \<le> expected \<and> expected \<le> next \<and> next \<le> size \<and> (next = expected \<or> next = expected + 1))
             then (Inl (QueueValueError ''shipment cursor transition malformed''), c)
             else (case update_owned E k doc now (\<lambda>j. P j \<and> jb_shipment_offset j = Some expected)
                          (\<lambda>j. j\<lparr>jb_shipment_offset := Some next\<rparr>) c of
                     (b, c') \<Rightarrow> (Inr b, c'))))"

section \<open>Claims\<close>

definition recovery_lane_filter :: "string option \<Rightarrow> (queue_error, job \<Rightarrow> bool) result" where
  "recovery_lane_filter lane =
    (let listed = (\<lambda>j. jb_item_ids j \<noteq> None \<or> jb_product_ids j \<noteq> None \<or> jb_order_ids j \<noteq> None \<or> jb_shipment_ids j \<noteq> None)
     in case lane of
          None \<Rightarrow> Inr (\<lambda>_. True)
        | Some l \<Rightarrow>
            if l = ''inventory'' then Inr jb_inventory_scope
            else if l = ''ids'' then Inr (\<lambda>j. \<not> jb_inventory_scope j \<and> listed j)
            else if l = ''ranges'' then Inr (\<lambda>j. \<not> jb_inventory_scope j \<and> \<not> listed j)
            else Inl (QueueValueError ''unknown recovery lane''))"

definition claim_scope :: "recovery_queue \<Rightarrow> (job \<Rightarrow> bool) \<Rightarrow> bool \<Rightarrow> job \<Rightarrow> bool" where
  "claim_scope q in_lane history j \<longleftrightarrow>
     (case rq_allowed q of None \<Rightarrow> True | Some ss \<Rightarrow> jb_seller j \<in> set ss) \<and>
     jb_authority j = rq_authority q \<and> in_lane j \<and> (jb_history j \<noteq> None) = history \<and>
     (rq_year_history q \<or> \<not> jb_year_history j)"

definition expired :: "instant \<Rightarrow> job \<Rightarrow> bool" where
  "expired now j \<longleftrightarrow> jb_state j = Running \<and> (case jb_lease_until j of None \<Rightarrow> False | Some u \<Rightarrow> u \<le> now)"

definition claim_ready :: "recovery_queue \<Rightarrow> (job \<Rightarrow> bool) \<Rightarrow> bool \<Rightarrow> instant \<Rightarrow> job \<Rightarrow> bool" where
  "claim_ready q in_lane history now j \<longleftrightarrow> claim_scope q in_lane history j \<and> jb_attempts j < recovery_max_attempts \<and>
     jb_model j \<in> set (rq_enabled q) \<and> jb_available_at j \<le> now \<and> (jb_state j = Pending \<or> expired now j)"

definition take_fields :: "string \<Rightarrow> instant \<Rightarrow> job \<Rightarrow> job" where
  "take_fields token now j = j\<lparr>jb_state := Running, jb_token := Some token,
     jb_lease_until := Some (now + recovery_lease), jb_updated_at := now, jb_attempts := jb_attempts j + 1\<rparr>"

text \<open>
  Before it claims, a worker settles the expired jobs without attempts left: one catalog job is leased
  again and its chunk recorded as failed (the next chunk goes on), every other job fails.
\<close>

definition catalog_exhausted :: "recovery_queue \<Rightarrow> (job \<Rightarrow> bool) \<Rightarrow> bool \<Rightarrow> instant \<Rightarrow> job \<Rightarrow> bool" where
  "catalog_exhausted q in_lane history now j \<longleftrightarrow> claim_scope q in_lane history j \<and> expired now j \<and>
     jb_catalog_offset j \<noteq> None \<and> jb_model j \<in> set (rq_enabled q) \<and> recovery_max_attempts \<le> jb_attempts j"

definition release_catalog ::
  "recovery_env \<Rightarrow> recovery_queue \<Rightarrow> (job \<Rightarrow> bool) \<Rightarrow> bool \<Rightarrow> string \<Rightarrow> instant \<Rightarrow> instant \<Rightarrow> job coll \<Rightarrow>
   (queue_error, unit) result \<times> job coll" where
  "release_catalog E q in_lane history token now finished_at c =
    (case update_any (rv_jobs E) c (catalog_exhausted q in_lane history now)
            (\<lambda>j. j\<lparr>jb_lease_until := Some (now + recovery_lease), jb_token := Some token\<rparr>) of
       (None, c') \<Rightarrow> (Inr (), c')
     | (Some (k, doc), c') \<Rightarrow>
         (case finish E k doc False False ''recovery_failed'' None finished_at c' of
            (Inl e, c'') \<Rightarrow> (Inl e, c'')
          | (Inr _, c'') \<Rightarrow> (Inr (), c'')))"

definition fail_exhausted :: "instant \<Rightarrow> job \<Rightarrow> job" where
  "fail_exhausted now j = end_attempt (j\<lparr>jb_state := Failed, jb_failure_reason := Some ''attempts_exhausted'',
     jb_updated_at := now, jb_available_at := now + recovery_cooldown\<rparr>)"

definition drop_exhausted ::
  "recovery_env \<Rightarrow> recovery_queue \<Rightarrow> (job \<Rightarrow> bool) \<Rightarrow> bool \<Rightarrow> instant \<Rightarrow> job coll \<Rightarrow> job coll" where
  "drop_exhausted E q in_lane history now c =
    update_many (mq_base (rv_jobs E)) c
      (\<lambda>j. claim_scope q in_lane history j \<and> jb_catalog_offset j = None \<and> expired now j \<and> recovery_max_attempts \<le> jb_attempts j)
      (fail_exhausted now)"

definition close_ineligible :: "recovery_env \<Rightarrow> string \<Rightarrow> job \<Rightarrow> instant \<Rightarrow> job coll \<Rightarrow> job coll" where
  "close_ineligible E k doc now c =
    snd (update_owned E k doc now (\<lambda>_. True)
      (\<lambda>j. end_attempt (j\<lparr>jb_state := Failed, jb_failure_reason := Some ''seller_not_eligible'', jb_updated_at := now,
                          jb_available_at := now + recovery_cooldown\<rparr>)) c)"

text \<open>
  The range lane prefers a ready sweep of the most recent hours; otherwise the oldest ready job by
  \<^verbatim>\<open>available_at\<close> and identifier is taken. A job whose seller is no longer eligible is closed and the
  next one tried: one unit of \<open>fuel\<close> is one turn of that loop.
\<close>

definition tail_sweep :: "instant \<Rightarrow> job \<Rightarrow> bool" where
  "tail_sweep now j \<longleftrightarrow> jb_model j = ''orders'' \<and>
     (case jb_range j of None \<Rightarrow> False | Some (a, b) \<Rightarrow> now - hours_us 3 \<le> a \<and> now - hours_us 2 \<le> b)"

definition claim_once ::
  "recovery_env \<Rightarrow> recovery_queue \<Rightarrow> string option \<Rightarrow> (job \<Rightarrow> bool) \<Rightarrow> bool \<Rightarrow> string \<Rightarrow> instant \<Rightarrow> job coll \<Rightarrow>
   (string \<times> job) option \<times> job coll" where
  "claim_once E q lane in_lane history token now c =
    (let ready = claim_ready q in_lane history now;
         ordinary = (\<lambda>c. update_first (rv_jobs E) c ready (\<lambda>j. [jb_available_at j]) (take_fields token now))
     in if lane = Some ''ranges'' \<and> \<not> history \<and> ''orders'' \<in> set (rq_enabled q)
        then (case update_first (rv_jobs E) c (\<lambda>j. ready j \<and> tail_sweep now j)
                     (\<lambda>j. [- snd (the (jb_range j)), jb_available_at j]) (take_fields token now) of
                (Some kj, c') \<Rightarrow> (Some kj, c')
              | (None, c') \<Rightarrow> ordinary c')
        else ordinary c)"

fun recovery_claim_loop ::
  "recovery_env \<Rightarrow> recovery_queue \<Rightarrow> string option \<Rightarrow> (job \<Rightarrow> bool) \<Rightarrow> bool \<Rightarrow> string \<Rightarrow> instant \<Rightarrow> nat \<Rightarrow> job coll \<Rightarrow>
   (string \<times> job) option option \<times> job coll" where
  "recovery_claim_loop E q lane in_lane history token now 0 c = (None, c)"
| "recovery_claim_loop E q lane in_lane history token now (Suc fuel) c =
    (case claim_once E q lane in_lane history token now c of
       (None, c') \<Rightarrow> (Some None, c')
     | (Some (k, doc), c') \<Rightarrow>
         (if case rq_gate q of None \<Rightarrow> True | Some g \<Rightarrow> g (jb_seller doc) then (Some (Some (k, doc)), c')
          else recovery_claim_loop E q lane in_lane history token now fuel (close_ineligible E k doc now c')))"

definition recovery_claim ::
  "recovery_env \<Rightarrow> recovery_queue \<Rightarrow> string option \<Rightarrow> bool \<Rightarrow> string \<Rightarrow> string \<Rightarrow> instant \<Rightarrow> instant \<Rightarrow> nat \<Rightarrow> job coll \<Rightarrow>
   (queue_error, (string \<times> job) option option) result \<times> job coll" where
  "recovery_claim E q lane history exhausted_token token now finished_at fuel c =
    (case recovery_lane_filter lane of
       Inl e \<Rightarrow> (Inl e, c)
     | Inr in_lane \<Rightarrow>
         (case release_catalog E q in_lane history exhausted_token now finished_at c of
            (Inl e, c') \<Rightarrow> (Inl e, c')
          | (Inr _, c') \<Rightarrow>
              (case recovery_claim_loop E q lane in_lane history token now fuel (drop_exhausted E q in_lane history now c') of
                 (r, c'') \<Rightarrow> (Inr r, c''))))"

end
