(* ===== verification/RecoveryLifecycle.thy ===== *)
theory RecoveryLifecycle
  imports RecoveryQueue
begin

text \<open>
  What the recovery queue promises: an abstract lifecycle of one job (absent, idle, held under a token
  until a time, ended), the proof that every operation of \<^verbatim>\<open>FormulaRecoveryQueue\<close> moves each job along
  it, and the invariant of the collection: bounded attempts, a bounded number of live jobs per seller,
  a slot kept for the inventory.
\<close>

section \<open>The abstract lifecycle\<close>

datatype life = Idle int | Held string instant int | Ended int

definition life_of :: "job \<Rightarrow> life" where
  "life_of j = (case jb_state j of
     Pending \<Rightarrow> Idle (jb_attempts j)
   | Running \<Rightarrow> Held (the (jb_token j)) (the (jb_lease_until j)) (jb_attempts j)
   | _ \<Rightarrow> Ended (jb_attempts j))"

text \<open>
  One move of a job at time \<open>now\<close> by a party whose tokens are \<open>A\<close>. A holder is disturbed by another
  party only after its lease; a job without attempts left is taken only to be settled.
\<close>

inductive life_move :: "instant \<Rightarrow> string set \<Rightarrow> life \<Rightarrow> life \<Rightarrow> bool" for now A where
  reopen: "m \<in> {0, n} \<Longrightarrow> life_move now A (Ended n) (Idle m)"
| take: "n < 3 \<Longrightarrow> t \<in> A \<Longrightarrow> life_move now A (Idle n) (Held t (now + minutes 10) (n + 1))"
| take_over: "u \<le> now \<Longrightarrow> n < 3 \<Longrightarrow> t' \<in> A \<Longrightarrow> life_move now A (Held t u n) (Held t' (now + minutes 10) (n + 1))"
| exhaust: "u \<le> now \<Longrightarrow> 3 \<le> n \<Longrightarrow> life_move now A (Held t u n) (Ended n)"
| recover: "u \<le> now \<Longrightarrow> 3 \<le> n \<Longrightarrow> t' \<in> A \<Longrightarrow> life_move now A (Held t u n) (Held t' (now + minutes 10) n)"
| extend: "now < u \<Longrightarrow> t \<in> A \<Longrightarrow> life_move now A (Held t u n) (Held t (now + minutes 10) n)"
| release: "now < u \<Longrightarrow> t \<in> A \<Longrightarrow> m \<in> {0, n - 1, n} \<Longrightarrow> life_move now A (Held t u n) (Idle m)"
| settle: "now < u \<Longrightarrow> t \<in> A \<Longrightarrow> m \<in> {0, n} \<Longrightarrow> life_move now A (Held t u n) (Ended m)"

inductive_cases life_move_HeldE: "life_move now A (Held t u n) l"
inductive_cases life_move_IdleE: "life_move now A (Idle n) l"
inductive_cases life_move_EndedE: "life_move now A (Ended n) l"

definition life_run :: "instant set \<Rightarrow> string set \<Rightarrow> life \<Rightarrow> life \<Rightarrow> bool" where
  "life_run T A = (\<lambda>l l'. \<exists>now \<in> T. life_move now A l l')\<^sup>*\<^sup>*"

text \<open>The attempts of a job stay within the allowance.\<close>

fun life_ok :: "life \<Rightarrow> bool" where
  "life_ok (Idle n) \<longleftrightarrow> 0 \<le> n \<and> n \<le> 3"
| "life_ok (Held t u n) \<longleftrightarrow> 1 \<le> n \<and> n \<le> 3"
| "life_ok (Ended n) \<longleftrightarrow> 0 \<le> n \<and> n \<le> 3"

lemma life_move_ok: "life_move now A l l' \<Longrightarrow> life_ok l \<Longrightarrow> life_ok l'"
  by (induction rule: life_move.induct) auto

lemma life_run_ok: "life_run T A l l' \<Longrightarrow> life_ok l \<Longrightarrow> life_ok l'"
  unfolding life_run_def by (induction rule: rtranclp_induct) (auto intro: life_move_ok)

text \<open>A holder is alone until its lease ends: a party without its token changes nothing.\<close>

lemma life_run_held:
  assumes "life_run T A l l'" and "l = Held t u n" and "t \<notin> A" and "\<forall>now \<in> T. now < u"
  shows "l' = Held t u n"
  using assms(1) unfolding life_run_def
proof (induction rule: rtranclp_induct)
  case (step y z)
  then obtain now where "now \<in> T" "life_move now A (Held t u n) z" using assms(2) by auto
  moreover from \<open>now \<in> T\<close> assms(4) have "now < u" by blast
  ultimately show ?case using assms(3) by (auto elim!: life_move_HeldE)
qed (rule assms(2))

section \<open>Steps of a job\<close>

definition shape_ok :: "job \<Rightarrow> bool" where
  "shape_ok j \<longleftrightarrow> (jb_state j = Running \<longrightarrow> jb_token j \<noteq> None \<and> jb_lease_until j \<noteq> None)"

definition same_identity :: "job \<Rightarrow> job \<Rightarrow> bool" where
  "same_identity j j' \<longleftrightarrow> jb_seller j' = jb_seller j \<and> jb_model j' = jb_model j \<and>
     jb_inventory_scope j' = jb_inventory_scope j \<and> jb_authority j' = jb_authority j \<and> jb_item_ids j' = jb_item_ids j"

text \<open>
  One update of a stored job after its admission: it stays the same unit, a job that is not live
  stays so, and its lifecycle makes one move or none.
\<close>

definition job_step :: "instant \<Rightarrow> string set \<Rightarrow> job \<Rightarrow> job \<Rightarrow> bool" where
  "job_step now A j j' \<longleftrightarrow> same_identity j j' \<and> (is_live j' \<longrightarrow> is_live j) \<and>
     (shape_ok j \<longrightarrow> shape_ok j' \<and> (life_of j' = life_of j \<or> life_move now A (life_of j) (life_of j')))"

definition recovery_job_steps :: "instant set \<Rightarrow> string set \<Rightarrow> job \<Rightarrow> job \<Rightarrow> bool" where
  "recovery_job_steps T A = (\<lambda>j j'. \<exists>now \<in> T. job_step now A j j')\<^sup>*\<^sup>*"

lemma job_steps_identity: "recovery_job_steps T A j j' \<Longrightarrow> same_identity j j' \<and> (is_live j' \<longrightarrow> is_live j)"
  unfolding recovery_job_steps_def by (induction rule: rtranclp_induct) (auto simp: job_step_def same_identity_def)

lemma job_steps_life:
  assumes "recovery_job_steps T A j j'" and "shape_ok j"
  shows "shape_ok j' \<and> life_run T A (life_of j) (life_of j')"
  using assms unfolding recovery_job_steps_def
proof (induction rule: rtranclp_induct)
  case (step y z)
  then show ?case
    by (auto simp: job_step_def life_run_def intro: rtranclp.rtrancl_into_rtrancl)
qed (simp add: life_run_def)

lemma job_step_single: "job_step now A j j' \<Longrightarrow> now \<in> T \<Longrightarrow> recovery_job_steps T A j j'"
  unfolding recovery_job_steps_def by (rule r_into_rtranclp) blast

text \<open>Every stored job makes steps; none appears or goes.\<close>

definition evolve :: "instant set \<Rightarrow> string set \<Rightarrow> job coll \<Rightarrow> job coll \<Rightarrow> bool" where
  "evolve T A c c' \<longleftrightarrow> (\<forall>k. rel_option (recovery_job_steps T A) (c k) (c' k))"

lemma job_steps_refl [simp]: "recovery_job_steps T A j j"
  by (simp add: recovery_job_steps_def)

lemma evolve_refl [simp]: "evolve T A c c"
  by (simp add: evolve_def option.rel_refl)

lemma job_steps_transp: "transp (recovery_job_steps T A)"
  unfolding recovery_job_steps_def by (intro transpI) (rule rtranclp_trans)

lemma evolve_trans [trans]: "evolve T A c c' \<Longrightarrow> evolve T A c' c'' \<Longrightarrow> evolve T A c c''"
  unfolding evolve_def using transpD [OF option.rel_transp [OF job_steps_transp]] by blast

lemma evolve_upd:
  "c k = Some j \<Longrightarrow> job_step now A j j' \<Longrightarrow> now \<in> T \<Longrightarrow> evolve T A c (c(k \<mapsto> j'))"
  by (auto simp: evolve_def option.rel_refl intro: job_step_single)

lemma evolve_dom: "evolve T A c c' \<Longrightarrow> dom c' = dom c"
  unfolding evolve_def by (auto simp: dom_def option_rel_Some1 option_rel_Some2 split: option.splits) (metis option.rel_distinct(1,2) not_Some_eq)+

lemma evolve_Some:
  assumes "evolve T A c c'" and "c' k = Some j'"
  obtains j where "c k = Some j" and "recovery_job_steps T A j j'"
  using assms by (metis evolve_def option_rel_Some2)

text \<open>More time and more parties allow more.\<close>

lemma life_move_mono: "life_move now A l l' \<Longrightarrow> A \<subseteq> B \<Longrightarrow> life_move now B l l'"
  by (induction rule: life_move.induct) (auto intro: life_move.intros)

lemma job_step_mono: "job_step now A j j' \<Longrightarrow> A \<subseteq> B \<Longrightarrow> job_step now B j j'"
  by (auto simp: job_step_def intro: life_move_mono)

lemma job_steps_mono: "recovery_job_steps T A j j' \<Longrightarrow> T \<subseteq> T' \<Longrightarrow> A \<subseteq> B \<Longrightarrow> recovery_job_steps T' B j j'"
  unfolding recovery_job_steps_def by (erule rtranclp_mono [THEN predicate2D, rotated]) (auto intro: job_step_mono)

lemma evolve_mono: "evolve T A c c' \<Longrightarrow> T \<subseteq> T' \<Longrightarrow> A \<subseteq> B \<Longrightarrow> evolve T' B c c'"
  unfolding evolve_def by (metis (no_types, lifting) option.rel_mono_strong job_steps_mono)

section \<open>The updates are steps\<close>

lemma owned_life:
  assumes "owned doc now j" and "jb_token doc = Some t"
  obtains u where "life_of j = Held t u (jb_attempts j)" and "now < u" and "is_live j" and "jb_state j = Running"
    and "jb_token j = Some t" and "jb_lease_until j = Some u"
  using assms by (auto simp: owned_def life_of_def is_live_def split: option.splits)

lemma end_step:
  assumes o: "owned doc now j" and t: "jb_token doc = Some t" and i: "same_identity j j'"
    and s: "jb_state j' \<noteq> Running"
    and a: "jb_attempts j' \<in> {0, jb_attempts j} \<or> jb_state j' = Pending \<and> jb_attempts j' = jb_attempts j - 1"
  shows "job_step now {t} j j'"
proof -
  obtain u where u: "life_of j = Held t u (jb_attempts j)" "now < u" "is_live j" using owned_life [OF o t] by blast
  have "life_move now {t} (life_of j) (life_of j')"
    using a s u(1,2) by (auto simp: life_of_def [of j'] intro: life_move.intros split: job_status.splits)
  with i s u(3) show ?thesis by (simp add: job_step_def shape_ok_def)
qed

lemma running_step:
  assumes o: "owned doc now j" and t: "jb_token doc = Some t" and i: "same_identity j j'"
    and s: "jb_state j' = Running" "jb_token j' = Some t" "jb_attempts j' = jb_attempts j"
    and l: "jb_lease_until j' \<in> {jb_lease_until j, Some (now + minutes 10)}"
  shows "job_step now {t} j j'"
proof -
  obtain u where u: "life_of j = Held t u (jb_attempts j)" "now < u" "is_live j" "jb_lease_until j = Some u"
    using owned_life [OF o t] by blast
  have "life_of j' = life_of j \<or> life_move now {t} (life_of j) (life_of j')"
    using l s u by (auto simp: life_of_def intro: life_move.extend)
  with i s u(3,4) l show ?thesis by (auto simp: job_step_def shape_ok_def)
qed

lemmas identity_defs = same_identity_def end_attempt_def outcome_fields_def chunk_fields_def inventory_fields_def
  defer_fields_def renew_fields_def take_fields_def fail_exhausted_def Let_def

lemma finish_fields_step:
  assumes f: "finish_fields doc succeeded retryable reason now = Inr u"
    and o: "owned doc now j" and t: "jb_token doc = Some t"
  shows "job_step now {t} j (u j)"
proof (rule end_step [OF o t])
  show "same_identity j (u j)" "jb_state (u j) \<noteq> Running"
    "jb_attempts (u j) \<in> {0, jb_attempts j} \<or> jb_state (u j) = Pending \<and> jb_attempts (u j) = jb_attempts j - 1"
    using f by (auto simp: finish_fields_def identity_defs split: option.splits if_splits)
qed

lemma inventory_fields_step:
  "owned doc now j \<Longrightarrow> jb_token doc = Some t \<Longrightarrow> job_step now {t} j (inventory_fields doc ids offset unavailable now j)"
  by (rule end_step) (auto simp: identity_defs)

lemma defer_step: "owned doc now j \<Longrightarrow> jb_token doc = Some t \<Longrightarrow> job_step now {t} j (defer_fields now j)"
  by (rule end_step) (auto simp: identity_defs)

lemma renew_step:
  assumes "owned doc now j" and "jb_token doc = Some t"
  shows "job_step now {t} j (renew_fields now j)"
  by (rule owned_life [OF assms], rule running_step [OF assms]) (simp_all add: identity_defs recovery_lease_def)

lemma cursor_step:
  assumes "owned doc now j" and "jb_token doc = Some t"
  shows "job_step now {t} j (j\<lparr>jb_shipment_offset := n\<rparr>)"
  by (rule owned_life [OF assms], rule running_step [OF assms]) (simp_all add: identity_defs)

lemma claim_step:
  assumes "claim_ready q in_lane history now j" and "t \<in> A"
  shows "job_step now A j (take_fields t now j)"
  using assms
  by (auto simp: claim_ready_def job_step_def identity_defs is_live_def shape_ok_def life_of_def expired_def
      recovery_max_attempts_def recovery_lease_def intro: life_move.take life_move.take_over split: option.splits)

lemma exhausted_step:
  assumes "expired now j" and "recovery_max_attempts \<le> jb_attempts j"
  shows "job_step now A j (fail_exhausted now j)"
  using assms
  by (auto simp: job_step_def identity_defs is_live_def shape_ok_def life_of_def expired_def
      recovery_max_attempts_def intro: life_move.exhaust split: option.splits)

lemma release_step:
  assumes "catalog_exhausted q in_lane history now j" and "t \<in> A"
  shows "job_step now A j (j\<lparr>jb_lease_until := Some (now + recovery_lease), jb_token := Some t\<rparr>)"
  using assms
  by (auto simp: catalog_exhausted_def job_step_def identity_defs is_live_def shape_ok_def life_of_def expired_def
      recovery_max_attempts_def recovery_lease_def intro: life_move.recover split: option.splits)

section \<open>The handlers on the collection\<close>

lemma snd_case_pair [simp]: "snd (case p of (b, c) \<Rightarrow> (f b, c)) = snd p"
  by (cases p) simp

lemma snd_case_flag [simp]: "snd (case p of (True, c) \<Rightarrow> (x, c) | (False, c) \<Rightarrow> (y, c)) = snd p"
  by (cases p) (simp split: bool.splits)

text \<open>What the queue's environment promises: the two collections and a hash that separates texts.\<close>

locale recovery_store =
  fixes E :: recovery_env
  assumes jobs_ok: "mongo_queries (rv_jobs E)"
    and admission_ok: "mongo_collection (rv_admission E)"
    and hash_ok: "inj (rv_hash E)"
begin

sublocale jobs: mongo_queries "rv_jobs E" by (rule jobs_ok)
sublocale admission: mongo_collection "rv_admission E" by (rule admission_ok)

lemma update_owned_cases:
  "update_owned E k doc now P u c =
    (case c k of Some j \<Rightarrow> if owned doc now j \<and> P j then (True, c(k \<mapsto> u j)) else (False, c) | None \<Rightarrow> (False, c))"
  by (simp add: update_owned_def jobs.base.find_one_and_update_law matches_def split: option.splits)

lemma update_owned_evolve:
  assumes "\<And>j. owned doc now j \<Longrightarrow> P j \<Longrightarrow> job_step now A j (u j)" and "now \<in> T"
  shows "evolve T A c (snd (update_owned E k doc now P u c))"
  using assms evolve_upd [of c k _ now A _ T] by (auto simp: update_owned_cases split: option.splits)

lemma checkpoint_inventory_evolve:
  assumes "jb_token doc = Some t" and "now \<in> T"
  shows "evolve T {t} c (snd (checkpoint_inventory E k doc ids offset unavailable now c))"
  using update_owned_evolve [OF inventory_fields_step [OF _ assms(1)] assms(2)]
  by (simp add: checkpoint_inventory_def)

lemma finish_evolve:
  assumes "jb_token doc = Some t" and "now \<in> T"
  shows "evolve T {t} c (snd (finish E k doc succeeded retryable reason session now c))"
proof -
  have "evolve T {t} c (snd (update_owned E k doc now (\<lambda>_. True) u c))"
    if "finish_fields doc succeeded retryable reason now = Inr u" for u
    using finish_fields_step [OF that _ assms(1)] by (intro update_owned_evolve assms(2))
  then show ?thesis
    using checkpoint_inventory_evolve [OF assms] by (simp add: finish_def split: sum.splits option.splits)
qed

lemma defer_evolve: "jb_token doc = Some t \<Longrightarrow> now \<in> T \<Longrightarrow> evolve T {t} c (snd (defer_quota E k doc now c))"
  unfolding defer_quota_def by (rule update_owned_evolve [OF defer_step])

lemma renew_evolve: "jb_token doc = Some t \<Longrightarrow> now \<in> T \<Longrightarrow> evolve T {t} c (snd (renew E k doc now c))"
  unfolding renew_def by (rule update_owned_evolve [OF renew_step])

lemma initialize_cursor_evolve:
  assumes "jb_token doc = Some t" and "now \<in> T"
  shows "evolve T {t} c (snd (initialize_shipment_cursor E q k doc now c))"
  using update_owned_evolve [OF cursor_step [OF _ assms(1)] assms(2)]
  by (simp add: initialize_shipment_cursor_def Let_def split: sum.splits)

lemma checkpoint_cursor_evolve:
  assumes "jb_token doc = Some t" and "now \<in> T"
  shows "evolve T {t} c (snd (checkpoint_shipment_cursor E q k doc expected next in_transaction now c))"
  using update_owned_evolve [OF cursor_step [OF _ assms(1)] assms(2)]
  by (simp add: checkpoint_shipment_cursor_def Let_def split: sum.splits)


lemma drop_exhausted_evolve: "now \<in> T \<Longrightarrow> evolve T A c (drop_exhausted E q in_lane history now c)"
  unfolding evolve_def drop_exhausted_def jobs.base.update_many_law
  by (auto simp: rel_option_iff intro: job_step_single exhausted_step split: option.splits)

lemma release_catalog_evolve:
  assumes "now \<in> T" and "finished_at \<in> T"
  shows "evolve T {t} c (snd (release_catalog E q in_lane history t now finished_at c))"
proof (cases "update_any (rv_jobs E) c (catalog_exhausted q in_lane history now)
    (\<lambda>j. j\<lparr>jb_lease_until := Some (now + recovery_lease), jb_token := Some t\<rparr>)")
  case (Pair r c')
  show ?thesis
  proof (cases r)
    case None
    then have "c' = c" using jobs.update_any_None Pair by blast
    with Pair None show ?thesis by (simp add: release_catalog_def)
  next
    case (Some kd)
    then obtain k doc where kd: "r = Some (k, doc)" by (cases kd) auto
    from jobs.update_any_Some [OF Pair [unfolded kd]] obtain j where j: "c k = Some j"
      "catalog_exhausted q in_lane history now j"
      "doc = j\<lparr>jb_lease_until := Some (now + recovery_lease), jb_token := Some t\<rparr>" "c' = c(k \<mapsto> doc)" by metis
    have "evolve T {t} c c'" unfolding j(4) j(3) by (rule evolve_upd, rule j(1), rule release_step [OF j(2)]) (simp_all add: assms(1))
    moreover have "evolve T {t} c' (snd (finish E k doc False False ''recovery_failed'' None finished_at c'))"
      using j(3) by (intro finish_evolve assms(2)) simp
    ultimately show ?thesis
      using Pair kd by (auto simp: release_catalog_def intro: evolve_trans split: prod.splits sum.splits)
  qed
qed

text \<open>One claim: the first ready job, under a lease of ten minutes.\<close>

lemma claim_once_Some:
  assumes fin: "finite (dom c)" and r: "claim_once E q lane in_lane history t now c = (Some (k, doc), c')"
  obtains j where "c k = Some j" and "claim_ready q in_lane history now j" and "doc = take_fields t now j"
    and "c' = c(k \<mapsto> doc)"
    and "\<And>k' j'. lane \<noteq> Some ''ranges'' \<or> history \<Longrightarrow> c k' = Some j' \<Longrightarrow> claim_ready q in_lane history now j' \<Longrightarrow>
      ([jb_available_at j], k) \<le> ([jb_available_at j'], k')"
proof (cases "lane = Some ''ranges'' \<and> \<not> history \<and> ''orders'' \<in> set (rq_enabled q)")
  case True
  show ?thesis
  proof (cases "update_first (rv_jobs E) c (\<lambda>j. claim_ready q in_lane history now j \<and> tail_sweep now j)
      (\<lambda>j. [- snd (the (jb_range j)), jb_available_at j]) (take_fields t now)")
    case (Pair a b)
    show ?thesis
    proof (cases a)
      case None
      with Pair jobs.update_first_None [OF fin] have b: "b = c" by blast
      from r True None Pair b have "update_first (rv_jobs E) c (claim_ready q in_lane history now)
        (\<lambda>j. [jb_available_at j]) (take_fields t now) = (Some (k, doc), c')" by (simp add: claim_once_def)
      from jobs.update_first_Some [OF fin this] that True show ?thesis by metis
    next
      case (Some kd)
      with r True Pair have "a = Some (k, doc)" "b = c'" by (auto simp: claim_once_def)
      from jobs.update_first_Some [OF fin Pair [unfolded this]] that True show ?thesis by metis
    qed
  qed
next
  case False
  then have "update_first (rv_jobs E) c (claim_ready q in_lane history now)
    (\<lambda>j. [jb_available_at j]) (take_fields t now) = (Some (k, doc), c')" using r by (auto simp: claim_once_def)
  from jobs.update_first_Some [OF fin this] that show ?thesis by metis
qed

lemma claim_once_None:
  assumes "finite (dom c)" and "claim_once E q lane in_lane history t now c = (None, c')"
  shows "c' = c \<and> (\<forall>k j. c k = Some j \<longrightarrow> \<not> claim_ready q in_lane history now j)"
proof -
  have "\<exists>c0. c0 = c \<and> update_first (rv_jobs E) c0 (claim_ready q in_lane history now)
    (\<lambda>j. [jb_available_at j]) (take_fields t now) = (None, c')"
    using assms(2) jobs.update_first_None [OF assms(1)]
    by (auto simp: claim_once_def Let_def split: if_splits prod.splits option.splits)
  with jobs.update_first_None [OF assms(1)] show ?thesis by blast
qed


text \<open>A job the gate refuses is closed: one ready job fewer.\<close>

lemma close_ineligible_eq:
  assumes "c k = Some doc" and "jb_state doc = Running" and "jb_token doc = Some t" and "jb_lease_until doc = Some u" and "now < u"
  shows "close_ineligible E k doc now c = c(k \<mapsto> end_attempt (doc\<lparr>jb_state := Failed,
    jb_failure_reason := Some ''seller_not_eligible'', jb_updated_at := now, jb_available_at := now + recovery_cooldown\<rparr>))"
  using assms by (simp add: close_ineligible_def update_owned_cases owned_def)

lemma close_ineligible_evolve:
  assumes "jb_token doc = Some t" and "now \<in> T"
  shows "evolve T {t} c (close_ineligible E k doc now c)"
  unfolding close_ineligible_def
  by (rule update_owned_evolve [OF end_step [OF _ assms(1)] assms(2)]) (simp_all add: identity_defs)

lemma claim_once_evolve:
  assumes "finite (dom c)" and "claim_once E q lane in_lane history t now c = (Some (k, doc), c')" and "now \<in> T"
  shows "evolve T {t} c c' \<and> jb_token doc = Some t"
proof -
  obtain j where j: "c k = Some j" "claim_ready q in_lane history now j" "doc = take_fields t now j" "c' = c(k \<mapsto> doc)"
    using claim_once_Some [OF assms(1,2)] by metis
  have "evolve T {t} c c'" unfolding j(4) j(3) by (rule evolve_upd, rule j(1), rule claim_step [OF j(2)]) (simp_all add: assms(3))
  with j(3) show ?thesis by (simp add: take_fields_def)
qed

lemma claim_loop_evolve:
  "finite (dom c) \<Longrightarrow> now \<in> T \<Longrightarrow> evolve T {t} c (snd (recovery_claim_loop E q lane in_lane history t now fuel c))"
proof (induction fuel arbitrary: c)
  case (Suc fuel)
  show ?case
  proof (cases "claim_once E q lane in_lane history t now c")
    case (Pair r c1)
    show ?thesis
    proof (cases r)
      case None
      with Pair Suc.prems claim_once_None [OF Suc.prems(1)] have "c1 = c" by blast
      with Pair None show ?thesis by simp
    next
      case (Some kd)
      then obtain k doc where kd: "r = Some (k, doc)" by (cases kd) auto
      from claim_once_evolve [OF Suc.prems(1) Pair [unfolded kd] Suc.prems(2)]
      have e: "evolve T {t} c c1" and tk: "jb_token doc = Some t" by simp_all
      let ?c = "close_ineligible E k doc now c1"
      have e': "evolve T {t} c ?c" by (rule evolve_trans [OF e close_ineligible_evolve [OF tk Suc.prems(2)]])
      from evolve_dom [OF this] Suc.prems(1) have "finite (dom ?c)" by simp
      from evolve_trans [OF e' Suc.IH [OF this Suc.prems(2)]] e Pair kd show ?thesis by simp
    qed
  qed
qed simp

lemma claim_job_evolve:
  assumes fin: "finite (dom c)"
  shows "evolve {now, finished_at} {t0, t} c (snd (recovery_claim E q lane history t0 t now finished_at fuel c))"
proof (cases "recovery_lane_filter lane")
  case (Inr in_lane)
  let ?T = "{now, finished_at}"
  obtain r c1 where rel: "release_catalog E q in_lane history t0 now finished_at c = (r, c1)" by fastforce
  have e1: "evolve ?T {t0} c c1"
    using release_catalog_evolve [where t = t0 and q = q and in_lane = in_lane and history = history and c = c,
        of now ?T finished_at] rel by simp
  let ?c2 = "drop_exhausted E q in_lane history now c1"
  have e2: "evolve ?T {t} c1 ?c2" by (rule drop_exhausted_evolve) simp
  from evolve_dom [OF e1] evolve_dom [OF e2] fin have "finite (dom ?c2)" by simp
  from claim_loop_evolve [OF this, of now ?T t q lane in_lane history fuel]
  have "evolve ?T {t} ?c2 (snd (recovery_claim_loop E q lane in_lane history t now fuel ?c2))" by simp
  from evolve_trans [OF e2 this] have e3: "evolve ?T {t0, t} c1 (snd (recovery_claim_loop E q lane in_lane history t now fuel ?c2))"
    by (rule evolve_mono) auto
  have e1': "evolve ?T {t0, t} c c1" by (rule evolve_mono [OF e1]) auto
  from e1' evolve_trans [OF e1' e3] Inr rel show ?thesis by (simp add: recovery_claim_def split: sum.splits)
qed (simp add: recovery_claim_def)

end

section \<open>Admission\<close>

text \<open>
  A stored job is filed under the key of a request of its seller and model; the inventory job of a
  seller is filed under the inventory's key.
\<close>

definition files :: "recovery_env \<Rightarrow> string \<Rightarrow> string \<Rightarrow> string \<Rightarrow> bool \<Rightarrow> bool" where
  "files E k seller model inventory \<longleftrightarrow> (\<exists>r. well_formed r \<and> plain_request r \<and> k = request_key (rv_hash E) r \<and>
     request_seller r = seller \<and> request_model r = model \<and> is_inventory_request r = inventory)"

definition filed :: "recovery_env \<Rightarrow> string \<Rightarrow> job \<Rightarrow> bool" where
  "filed E k j \<longleftrightarrow> files E k (jb_seller j) (jb_model j) (jb_inventory_scope j) \<and>
     (jb_inventory_scope j \<longrightarrow> jb_item_ids j = None)"

abbreviation keyed :: "recovery_env \<Rightarrow> request \<Rightarrow> string \<Rightarrow> bool" where
  "keyed E r k \<equiv> files E k (request_seller r) (request_model r) (is_inventory_request r)"

definition all_filed :: "recovery_env \<Rightarrow> job coll \<Rightarrow> bool" where
  "all_filed E c \<longleftrightarrow> finite (dom c) \<and> (\<forall>k j. c k = Some j \<longrightarrow> filed E k j)"

lemma keyed_self: "well_formed r \<Longrightarrow> plain_request r \<Longrightarrow> keyed E r (request_key (rv_hash E) r)"
  by (auto simp: files_def)

lemma identity_inventory: "job_identity r = job_identity r' \<Longrightarrow> is_inventory_request r = is_inventory_request r'"
  by (cases r; cases r') simp_all

lemma narrow_keyed:
  assumes "narrow r ids = Inr r'" and "well_formed r" and "plain_request r"
  shows "keyed E r (request_key (rv_hash E) r')"
proof -
  have n: "lift_request_error x = Inr y \<Longrightarrow> x = Inr y" for x :: "(request_error, request) result" and y
    by (cases x rule: lift_request_error.cases) auto
  have "well_formed r'" using assms
    by (cases r) (auto dest!: n intro: built_well_formed [OF built_catalog] built_well_formed [OF built_renewal]
        built_well_formed [OF built_items])
  moreover have "plain_request r' \<and> request_seller r' = request_seller r \<and> request_model r' = request_model r \<and>
      is_inventory_request r' = is_inventory_request r"
    using assms by (cases r) (auto dest!: n simp: make_catalog_def make_renewal_def make_item_ids_def rbind_eq_Inr utc_of_def)
  ultimately show ?thesis by (auto simp: files_def)
qed

lemma initial_job_Inr:
  assumes "initial_job E q r now = Inr j"
  shows "jb_seller j = request_seller r \<and> jb_model j = request_model r \<and> jb_state j = Pending \<and> jb_attempts j = 0 \<and>
    jb_inventory_scope j = is_inventory_request r \<and> (is_inventory_request r \<longrightarrow> jb_item_ids j = None)"
  using assms by (cases r) (auto simp: initial_job_def blank_job_def catalog_fields_def split: option.splits if_splits)

definition fresh_for :: "recovery_env \<Rightarrow> request \<Rightarrow> job \<Rightarrow> bool" where
  "fresh_for E r j \<longleftrightarrow> jb_seller j = request_seller r \<and> jb_model j = request_model r \<and> jb_state j = Pending \<and>
     jb_attempts j = 0 \<and> jb_inventory_scope j = is_inventory_request r \<and> (is_inventory_request r \<longrightarrow> jb_item_ids j = None)"

context recovery_store
begin

lemma keyed_filed:
  assumes "keyed E r k" and "files E k s m i"
  shows "s = request_seller r \<and> m = request_model r \<and> i = is_inventory_request r"
  using assms request_keys [OF hash_ok] identity_same identity_inventory unfolding files_def by metis

lemma plan_keyed:
  assumes p: "plan_admission E q r init c admitted = Inr p" and w: "well_formed r" "plain_request r"
    and f: "all_filed E c" and a: "keyed E r admitted" and i: "fresh_for E r init"
  shows "case p of CoveredBy k \<Rightarrow> keyed E r k | AdmitAs k key doc \<Rightarrow> keyed E r k \<and> keyed E r key \<and> fresh_for E r doc"
proof -
  let ?P = "\<lambda>j. jb_seller j = request_seller r \<and> jb_model j = request_model r \<and> is_live j \<and> jb_item_ids j \<noteq> None"
  have cov: "keyed E r k" if "mq_find (rv_jobs E) c ?P (rq_capacity q) = (k, j) # rest"
    and n: "\<not> is_inventory_request r" for k j rest
  proof -
    from that(1) jobs.find_law [of c ?P "rq_capacity q"] f have "c k = Some j" "?P j" by (auto simp: all_filed_def)
    moreover from this f have "filed E k j" by (auto simp: all_filed_def)
    ultimately show ?thesis using n by (auto simp: filed_def)
  qed
  have inv: "is_catalog_request r \<or> is_items_request r \<Longrightarrow> \<not> is_inventory_request r" by (cases r) auto
  show ?thesis
    using p narrow_keyed [OF _ w] keyed_self [OF w] a i cov inv
    by (auto simp: plan_admission_def Let_def rbind_eq_Inr fresh_for_def split: if_splits list.splits)
qed

lemma aborted_keyed:
  assumes "aborted_attempts E q r init cs admitted = Inr k" and "well_formed r" "plain_request r"
    and "\<forall>c \<in> set cs. all_filed E c" and "keyed E r admitted" and "fresh_for E r init"
  shows "keyed E r k"
  using assms(1,4,5)
proof (induction cs arbitrary: admitted)
  case (Cons c cs)
  from Cons.prems(1) obtain p where p: "plan_admission E q r init c admitted = Inr p" by (auto split: sum.splits)
  from plan_keyed [OF p assms(2,3) _ Cons.prems(3) assms(6)] Cons p show ?case by (cases p) auto
qed simp

lemma check_capacity_Inr:
  assumes "check_capacity E q r c = Inr u" and "finite (dom c)"
  shows "card (matching c (\<lambda>j. jb_seller j = request_seller r \<and> is_live j)) < rq_capacity q"
    and "rq_reserved q \<noteq> 0 \<Longrightarrow> \<not> is_inventory_request r \<Longrightarrow>
      card (matching c (\<lambda>j. jb_seller j = request_seller r \<and> is_live j \<and> \<not> jb_inventory_scope j)) < rq_capacity q - rq_reserved q"
  using assms by (auto simp: check_capacity_def Let_def jobs.count_law split: if_splits)

end

text \<open>What an admission does to the collection.\<close>

inductive admitted_as ::
  "recovery_env \<Rightarrow> recovery_queue \<Rightarrow> request \<Rightarrow> instant \<Rightarrow> job coll \<Rightarrow> job coll \<Rightarrow> bool" for E q r now c where
  coalesced: "admitted_as E q r now c c"
| added: "c k = None \<Longrightarrow> keyed E r k \<Longrightarrow> fresh_for E r j \<Longrightarrow> check_capacity E q r c = Inr () \<Longrightarrow>
    admitted_as E q r now c (c(k \<mapsto> j))"
| reopened: "c k = Some j \<Longrightarrow> \<not> is_live j \<Longrightarrow> keyed E r k \<Longrightarrow> reopen_cursor E r j = Inr ae \<Longrightarrow>
    check_capacity E q r c = Inr () \<Longrightarrow> admitted_as E q r now c (c(k \<mapsto> reopen_fields r now ae j))"

context recovery_store
begin

lemma admit_unit_effect:
  assumes a: "admit_unit E q r reopen_terminal now c admitted key doc = Inr c'"
    and k: "keyed E r admitted" "keyed E r key" and d: "fresh_for E r doc"
  shows "admitted_as E q r now c c'"
proof (cases "c admitted")
  case None
  with a have "check_capacity E q r c = Inr ()" "c key = None" "c' = c(key \<mapsto> doc)"
    by (auto simp: admit_unit_def Let_def jobs.base.point_laws rbind_eq_Inr split: if_splits)
  with k d show ?thesis by (simp add: added)
next
  case (Some j)
  show ?thesis
  proof (cases "c' = c")
    case False
    with a Some have l: "\<not> is_live j" and cc: "check_capacity E q r c = Inr ()"
      and re: "reopen_job E r now c admitted j = Inr c'"
      by (auto simp: admit_unit_def Let_def jobs.base.point_laws rbind_eq_Inr split: if_splits)
    from re obtain ae where ae: "reopen_cursor E r j = Inr ae" by (auto simp: reopen_job_def rbind_eq_Inr)
    with re False have "c' = c(admitted \<mapsto> reopen_fields r now ae j)"
      by (auto simp: reopen_job_def jobs.base.point_laws matches_def Some split: if_splits option.splits request.splits)
    with Some l k ae cc show ?thesis by (simp add: reopened)
  qed (simp add: coalesced)
qed

lemma enqueue_effect:
  assumes w: "well_formed r" "plain_request r" and f: "all_filed E (rd_jobs db)" "\<forall>c \<in> set aborted. all_filed E c"
  shows "admitted_as E q r now (rd_jobs db) (rd_jobs (snd (enqueue E q r reopen_terminal now aborted db)))"
proof -
  have seeded: "rd_jobs (seed_admission E s db) = rd_jobs db" for s by (simp add: seed_admission_def split: sum.splits)
  have txn: "admitted_as E q r now (rd_jobs d) (rd_jobs (snd (admit_transaction E q r reopen_terminal now init aborted d)))"
    if i: "initial_job E q r now = Inr init" and fd: "all_filed E (rd_jobs d)" for init d
  proof -
    have init: "fresh_for E r init" using initial_job_Inr [OF i] by (simp add: fresh_for_def)
    show ?thesis
    proof (cases "aborted_attempts E q r init aborted (request_key (rv_hash E) r)")
      case (Inr k)
      from aborted_keyed [OF this w f(2) keyed_self [OF w] init] have k: "keyed E r k" .
      show ?thesis
      proof (cases "plan_admission E q r init (rd_jobs d) k")
        case (Inr p)
        from plan_keyed [OF this w fd k init]
        show ?thesis using Inr \<open>aborted_attempts E q r init aborted (request_key (rv_hash E) r) = Inr k\<close>
          by (auto simp: admit_transaction_def bump_admission_def coalesced split: admit_plan.splits sum.splits
              intro: admit_unit_effect)
      qed (simp add: admit_transaction_def \<open>aborted_attempts E q r init aborted (request_key (rv_hash E) r) = Inr k\<close> coalesced)
    qed (simp add: admit_transaction_def coalesced)
  qed
  show ?thesis
    using txn [of _ "seed_admission E (request_seller r) db"] f(1)
    by (auto simp: enqueue_def Let_def seeded coalesced split: sum.splits)
qed

end

section \<open>The invariant of the collection\<close>

definition live_jobs :: "job coll \<Rightarrow> string \<Rightarrow> string set" where
  "live_jobs c s = matching c (\<lambda>j. jb_seller j = s \<and> is_live j)"

definition other_jobs :: "job coll \<Rightarrow> string \<Rightarrow> string set" where
  "other_jobs c s = matching c (\<lambda>j. jb_seller j = s \<and> is_live j \<and> \<not> jb_inventory_scope j)"

definition queue_inv :: "recovery_env \<Rightarrow> recovery_queue \<Rightarrow> job coll \<Rightarrow> bool" where
  "queue_inv E q c \<longleftrightarrow> all_filed E c \<and> (\<forall>k j. c k = Some j \<longrightarrow> shape_ok j \<and> life_ok (life_of j)) \<and>
     (\<forall>s. card (live_jobs c s) \<le> rq_capacity q) \<and>
     (rq_reserved q \<noteq> 0 \<longrightarrow> (\<forall>s. card (other_jobs c s) \<le> rq_capacity q - rq_reserved q))"

lemma in_live_jobs: "k \<in> live_jobs c s \<longleftrightarrow> (\<exists>j. c k = Some j \<and> jb_seller j = s \<and> is_live j)"
  by (auto simp: live_jobs_def matches_def split: option.splits)

lemma in_other_jobs:
  "k \<in> other_jobs c s \<longleftrightarrow> (\<exists>j. c k = Some j \<and> jb_seller j = s \<and> is_live j \<and> \<not> jb_inventory_scope j)"
  by (auto simp: other_jobs_def matches_def split: option.splits)

lemma evolve_sub:
  assumes "evolve T A c c'"
  shows "live_jobs c' s \<subseteq> live_jobs c s" and "other_jobs c' s \<subseteq> other_jobs c s"
proof -
  have "\<exists>j. c k = Some j \<and> jb_seller j = jb_seller j' \<and> jb_inventory_scope j = jb_inventory_scope j' \<and> is_live j"
    if "c' k = Some j'" "is_live j'" for k j'
    using evolve_Some [OF assms that(1)] job_steps_identity that(2) unfolding same_identity_def by metis
  then show "live_jobs c' s \<subseteq> live_jobs c s" "other_jobs c' s \<subseteq> other_jobs c s"
    by (fastforce simp: in_live_jobs in_other_jobs)+
qed

lemma evolve_inv:
  assumes e: "evolve T A c c'" and i: "queue_inv E q c"
  shows "queue_inv E q c'"
proof -
  have fin: "finite (dom c)" using i by (simp add: queue_inv_def all_filed_def)
  have fin': "finite (live_jobs c s)" "finite (other_jobs c s)" for s
    unfolding live_jobs_def other_jobs_def by (rule finite_matching [OF fin])+
  have "card (live_jobs c' s) \<le> card (live_jobs c s)" "card (other_jobs c' s) \<le> card (other_jobs c s)" for s
    using card_mono [OF _ evolve_sub(1) [OF e]] card_mono [OF _ evolve_sub(2) [OF e]] fin' by blast+
  moreover have "filed E k j' \<and> shape_ok j' \<and> life_ok (life_of j')" if k: "c' k = Some j'" for k j'
  proof -
    obtain j where j: "c k = Some j" "recovery_job_steps T A j j'" using evolve_Some [OF e k] by blast
    with i have "filed E k j" "shape_ok j" "life_ok (life_of j)" by (auto simp: queue_inv_def all_filed_def)
    with job_steps_identity [OF j(2)] job_steps_life [OF j(2)] life_run_ok show ?thesis
      by (auto simp: filed_def same_identity_def)
  qed
  ultimately show ?thesis using i fin evolve_dom [OF e] unfolding queue_inv_def all_filed_def by (metis le_trans)
qed

lemma live_jobs_upd:
  "live_jobs (c(k \<mapsto> j)) s \<subseteq> (if jb_seller j = s then insert k (live_jobs c s) else live_jobs c s)"
  "other_jobs (c(k \<mapsto> j)) s \<subseteq>
     (if jb_seller j = s \<and> \<not> jb_inventory_scope j then insert k (other_jobs c s) else other_jobs c s)"
  by (auto simp: in_live_jobs in_other_jobs split: if_splits)

lemma card_insert_bound:
  assumes "B \<subseteq> insert k A" and "finite A" and "card A < n"
  shows "card B \<le> n"
proof -
  have "card B \<le> card (insert k A)" using assms(1,2) by (intro card_mono) auto
  also have "\<dots> \<le> Suc (card A)" by (rule card_insert_le_m1) simp_all
  finally show ?thesis using assms(3) by linarith
qed

lemma reopen_fields_keeps:
  "jb_seller (reopen_fields r now ae j) = jb_seller j" "jb_model (reopen_fields r now ae j) = jb_model j"
  "jb_inventory_scope (reopen_fields r now ae j) = jb_inventory_scope j"
  "jb_item_ids (reopen_fields r now ae j) = jb_item_ids j"
  "jb_state (reopen_fields r now ae j) = Pending" "jb_attempts (reopen_fields r now ae j) = fst ae"
  by (simp_all add: reopen_fields_def Let_def split: option.splits)

lemma reopen_cursor_attempts: "reopen_cursor E r j = Inr ae \<Longrightarrow> fst ae \<in> {0, jb_attempts j}"
  by (auto simp: reopen_cursor_def rbind_eq_Inr split: request.splits option.splits if_splits)

context recovery_store
begin

lemma put_inv:
  assumes i: "queue_inv E q c" and k: "keyed E r k" and cc: "check_capacity E q r c = Inr ()"
    and j: "jb_seller j = request_seller r" "jb_model j = request_model r" "jb_inventory_scope j = is_inventory_request r"
      "jb_inventory_scope j \<longrightarrow> jb_item_ids j = None" "jb_state j = Pending" "0 \<le> jb_attempts j" "jb_attempts j \<le> 3"
  shows "queue_inv E q (c(k \<mapsto> j))"
proof -
  have fin: "finite (dom c)" using i by (simp add: queue_inv_def all_filed_def)
  have fl: "finite (live_jobs c s)" "finite (other_jobs c s)" for s
    unfolding live_jobs_def other_jobs_def by (rule finite_matching [OF fin])+
  have old: "card (live_jobs c s) \<le> rq_capacity q"
    "rq_reserved q \<noteq> 0 \<Longrightarrow> card (other_jobs c s) \<le> rq_capacity q - rq_reserved q" for s
    using i by (simp_all add: queue_inv_def)
  have "card (live_jobs (c(k \<mapsto> j)) s) \<le> rq_capacity q" for s
  proof (cases "jb_seller j = s")
    case True
    with live_jobs_upd(1) [of c k j s] have "live_jobs (c(k \<mapsto> j)) s \<subseteq> insert k (live_jobs c s)" by simp
    from card_insert_bound [OF this fl(1)] check_capacity_Inr(1) [OF cc fin] True j(1) show ?thesis
      by (simp add: live_jobs_def)
  next
    case False
    with live_jobs_upd(1) [of c k j s] have "live_jobs (c(k \<mapsto> j)) s \<subseteq> live_jobs c s" by simp
    from card_mono [OF fl(1) this] old(1) [of s] show ?thesis by linarith
  qed
  moreover have "card (other_jobs (c(k \<mapsto> j)) s) \<le> rq_capacity q - rq_reserved q" if r: "rq_reserved q \<noteq> 0" for s
  proof (cases "jb_seller j = s \<and> \<not> jb_inventory_scope j")
    case True
    with live_jobs_upd(2) [of c k j s] have "other_jobs (c(k \<mapsto> j)) s \<subseteq> insert k (other_jobs c s)" by simp
    from card_insert_bound [OF this fl(2)] check_capacity_Inr(2) [OF cc fin r] True j(1,3) show ?thesis
      by (simp add: other_jobs_def)
  next
    case False
    with live_jobs_upd(2) [of c k j s] have "other_jobs (c(k \<mapsto> j)) s \<subseteq> other_jobs c s" by simp
    from card_mono [OF fl(2) this] old(2) [OF r, of s] show ?thesis by linarith
  qed
  moreover have "filed E k j \<and> shape_ok j \<and> life_ok (life_of j)"
    using k j by (simp add: filed_def shape_ok_def life_of_def)
  ultimately show ?thesis using i unfolding queue_inv_def all_filed_def by (auto split: if_splits)
qed

lemma admitted_inv: "admitted_as E q r now c c' \<Longrightarrow> queue_inv E q c \<Longrightarrow> queue_inv E q c'"
proof (induction rule: admitted_as.induct)
  case (added k j)
  then show ?case by (intro put_inv [where r = r]) (auto simp: fresh_for_def)
next
  case (reopened k j ae)
  from reopened.prems reopened.hyps(1) have "filed E k j" "life_ok (life_of j)" by (auto simp: queue_inv_def all_filed_def)
  moreover from this(2) reopened.hyps(2) have "0 \<le> jb_attempts j \<and> jb_attempts j \<le> 3"
    by (cases "jb_state j") (auto simp: life_of_def is_live_def)
  ultimately show ?case
    using reopen_cursor_attempts [OF reopened.hyps(4)] keyed_filed [OF reopened.hyps(3)]
    by (intro put_inv [OF reopened.prems reopened.hyps(3,5)]) (auto simp: reopen_fields_keeps filed_def)
qed

text \<open>With a slot reserved, the inventory's own admission always finds room.\<close>

lemma inventory_fits:
  assumes i: "queue_inv E q c" and r: "rq_reserved q = 1" "1 \<le> rq_capacity q" and w: "all_digits s"
    and k: "\<And>j. c (request_key (rv_hash E) (InventoryRequest s)) = Some j \<Longrightarrow> \<not> is_live j"
  shows "check_capacity E q (InventoryRequest s) c = Inr ()"
proof -
  have fin: "finite (dom c)" using i by (simp add: queue_inv_def all_filed_def)
  have "live_jobs c s \<subseteq> other_jobs c s"
  proof
    fix k assume "k \<in> live_jobs c s"
    then obtain j where j: "c k = Some j" "jb_seller j = s" "is_live j" by (auto simp: in_live_jobs)
    have "\<not> jb_inventory_scope j"
    proof
      assume "jb_inventory_scope j"
      with i j(1) obtain r' where "well_formed r'" "plain_request r'" "k = request_key (rv_hash E) r'"
        "request_seller r' = jb_seller j" "is_inventory_request r'"
        by (auto simp: queue_inv_def all_filed_def filed_def files_def)
      then have "k = request_key (rv_hash E) (InventoryRequest s)" using j(2) by (cases r') auto
      with assms(5) [of j] j(1,3) show False by simp
    qed
    with j show "k \<in> other_jobs c s" by (auto simp: in_other_jobs)
  qed
  then have "card (live_jobs c s) \<le> card (other_jobs c s)"
    unfolding live_jobs_def other_jobs_def by (intro card_mono finite_matching fin)
  also have "\<dots> \<le> rq_capacity q - 1" using i r by (simp add: queue_inv_def)
  finally have "card (matching c (\<lambda>j. jb_seller j = s \<and> is_live j)) < rq_capacity q"
    using r(2) by (simp add: live_jobs_def)
  then show ?thesis using fin by (simp add: check_capacity_def Let_def jobs.count_law)
qed

end

end
