(* ===== verification/RecoveryRuns.thy ===== *)
theory RecoveryRuns
  imports RecoveryLifecycle
begin

text \<open>
  Runs of the recovery queue: any interleaving of admissions by the API processes and of claims,
  checkpoints, renewals, deferrals and ends of attempts by the workers. The properties of the queue
  over runs, and those of single operations.
\<close>

section \<open>Runs\<close>

text \<open>
  One operation by some process, in the times \<open>T\<close> of its clock readings and by a party with the tokens
  \<open>A\<close>. A transaction attempt that was aborted read one of the earlier states \<open>seen\<close>; a handler is
  called with any document that carries a token.
\<close>

inductive recovery_step ::
  "recovery_env \<Rightarrow> recovery_queue \<Rightarrow> job coll list \<Rightarrow> instant set \<Rightarrow> string set \<Rightarrow> recovery_db \<Rightarrow> recovery_db \<Rightarrow> bool"
  for E q seen where
  admission: "well_formed r \<Longrightarrow> plain_request r \<Longrightarrow> set aborted \<subseteq> set seen \<Longrightarrow>
    recovery_step E q seen {now} {} db (snd (enqueue E q r reopen_terminal now aborted db))"
| claim: "recovery_step E q seen {now, finished_at} {t0, t} db
    (db\<lparr>rd_jobs := snd (recovery_claim E q lane history t0 t now finished_at fuel (rd_jobs db))\<rparr>)"
| finish: "jb_token doc = Some t \<Longrightarrow> recovery_step E q seen {now} {t} db
    (db\<lparr>rd_jobs := snd (finish E k doc succeeded retryable reason session now (rd_jobs db))\<rparr>)"
| inventory: "jb_token doc = Some t \<Longrightarrow> recovery_step E q seen {now} {t} db
    (db\<lparr>rd_jobs := snd (checkpoint_inventory E k doc ids offset unavailable now (rd_jobs db))\<rparr>)"
| deferred: "jb_token doc = Some t \<Longrightarrow> recovery_step E q seen {now} {t} db
    (db\<lparr>rd_jobs := snd (defer_quota E k doc now (rd_jobs db))\<rparr>)"
| renewed: "jb_token doc = Some t \<Longrightarrow> recovery_step E q seen {now} {t} db
    (db\<lparr>rd_jobs := snd (renew E k doc now (rd_jobs db))\<rparr>)"
| cursor: "jb_token doc = Some t \<Longrightarrow> recovery_step E q seen {now} {t} db
    (db\<lparr>rd_jobs := snd (initialize_shipment_cursor E q k doc now (rd_jobs db))\<rparr>)"
| advance: "jb_token doc = Some t \<Longrightarrow> recovery_step E q seen {now} {t} db
    (db\<lparr>rd_jobs := snd (checkpoint_shipment_cursor E q k doc expected next in_txn now (rd_jobs db))\<rparr>)"

inductive recovery_run :: "recovery_env \<Rightarrow> recovery_queue \<Rightarrow> job coll list \<Rightarrow> recovery_db \<Rightarrow> bool" for E q where
  start: "recovery_run E q [] \<lparr>rd_jobs = Map.empty, rd_admission = Map.empty\<rparr>"
| step: "recovery_run E q seen db \<Longrightarrow> recovery_step E q (rd_jobs db # seen) T A db db' \<Longrightarrow>
    recovery_run E q (rd_jobs db # seen) db'"

text \<open>The abstract view of a step: an absent job may be admitted, a present one runs its lifecycle.\<close>

inductive life_step :: "instant set \<Rightarrow> string set \<Rightarrow> life option \<Rightarrow> life option \<Rightarrow> bool" for T A where
  absent: "life_step T A None None"
| admitted: "life_step T A None (Some (Idle 0))"
| runs: "life_run T A l l' \<Longrightarrow> life_step T A (Some l) (Some l')"

inductive_cases life_step_SomeE: "life_step T A (Some l) l'"

lemma life_step_refl [simp]: "life_step T A l l"
  by (cases l) (auto simp: life_run_def intro: life_step.intros)

lemma evolve_life:
  assumes "evolve T A c c'" and "\<forall>k j. c k = Some j \<longrightarrow> shape_ok j"
  shows "life_step T A (map_option life_of (c k)) (map_option life_of (c' k))"
proof (cases "c k")
  case None
  with evolve_dom [OF assms(1)] have "c' k = None" by (metis domIff)
  with None show ?thesis by (simp add: life_step.absent)
next
  case (Some j)
  with assms(1) obtain j' where "c' k = Some j'" "recovery_job_steps T A j j'" by (metis evolve_def option_rel_Some1)
  with Some assms(2) job_steps_life show ?thesis by (simp add: life_step.runs)
qed

lemma admitted_life:
  assumes "admitted_as E q r now c c'" and "\<forall>k j. c k = Some j \<longrightarrow> shape_ok j"
  shows "life_step {now} {} (map_option life_of (c k)) (map_option life_of (c' k))"
  using assms(1)
proof cases
  case (added k' j)
  then show ?thesis by (auto simp: fresh_for_def life_of_def intro: life_step.admitted)
next
  case (reopened k' j ae)
  have "life_of j = Ended (jb_attempts j)" using reopened(3) by (cases "jb_state j") (auto simp: life_of_def is_live_def)
  moreover have "life_of (reopen_fields r now ae j) = Idle (fst ae)" by (simp add: life_of_def reopen_fields_keeps)
  ultimately have "life_move now {} (life_of j) (life_of (reopen_fields r now ae j))"
    using reopen_cursor_attempts [OF reopened(5)] by (auto intro: life_move.reopen)
  then have "life_run {now} {} (life_of j) (life_of (reopen_fields r now ae j))"
    unfolding life_run_def by (intro r_into_rtranclp) simp
  with reopened(1,2) show ?thesis by (auto intro: life_step.runs)
qed simp

context recovery_store
begin

lemma worker_evolve:
  assumes "recovery_step E q seen T A db db'" and "finite (dom (rd_jobs db))"
  obtains r aborted now reopen_terminal where "T = {now}" "A = {}" "well_formed r" "plain_request r"
      "set aborted \<subseteq> set seen" "db' = snd (enqueue E q r reopen_terminal now aborted db)"
    | "evolve T A (rd_jobs db) (rd_jobs db')"
  using assms(1)
proof cases
  case (admission r aborted now reopen_terminal)
  with that(1) show ?thesis by blast
qed (simp_all add: that(2) claim_job_evolve [OF assms(2)] finish_evolve checkpoint_inventory_evolve defer_evolve
    renew_evolve initialize_cursor_evolve checkpoint_cursor_evolve)

lemma step_inv:
  assumes "recovery_step E q seen T A db db'" and i: "queue_inv E q (rd_jobs db)"
    and "\<forall>c \<in> set seen. queue_inv E q c"
  shows "queue_inv E q (rd_jobs db') \<and>
    life_step T A (map_option life_of (rd_jobs db k)) (map_option life_of (rd_jobs db' k))"
proof -
  have fin: "finite (dom (rd_jobs db))" and sh: "\<forall>k j. rd_jobs db k = Some j \<longrightarrow> shape_ok j"
    using i by (auto simp: queue_inv_def all_filed_def)
  show ?thesis
  proof (rule worker_evolve [OF assms(1) fin])
    fix r aborted now reopen_terminal
    assume a: "T = {now}" "A = {}" "well_formed r" "plain_request r" "set aborted \<subseteq> set seen"
      "db' = snd (enqueue E q r reopen_terminal now aborted db)"
    have "admitted_as E q r now (rd_jobs db) (rd_jobs db')" unfolding a(6)
      by (rule enqueue_effect) (use a assms(3) i in \<open>auto simp: queue_inv_def\<close>)
    from admitted_inv [OF this i] admitted_life [OF this sh] a(1,2) show ?thesis by blast
  next
    assume "evolve T A (rd_jobs db) (rd_jobs db')"
    from evolve_inv [OF this i] evolve_life [OF this sh] show ?thesis by blast
  qed
qed

lemma run_inv: "recovery_run E q seen db \<Longrightarrow> queue_inv E q (rd_jobs db) \<and> (\<forall>c \<in> set seen. queue_inv E q c)"
proof (induction rule: recovery_run.induct)
  case start
  show ?case by (simp add: queue_inv_def all_filed_def live_jobs_def other_jobs_def matching_def)
next
  case (step seen db T A db')
  then show ?case using step_inv [OF step.hyps(2)] by auto
qed

end

section \<open>Properties of runs\<close>

definition mem_env :: recovery_env where
  "mem_env = \<lparr>rv_hash = id, rv_parse = (\<lambda>_. None), rv_jobs = mem_queries, rv_admission = mem_mongo\<rparr>"

interpretation mem_recovery: recovery_store mem_env
  by (intro recovery_store.intro)
     (simp_all add: mem_env_def mem_q.mongo_queries_axioms mem.mongo_collection_axioms)

definition demo_queue :: recovery_queue where
  "demo_queue = \<lparr>rq_enabled = recoverable_models, rq_allowed = None, rq_gate = None, rq_capacity = 2,
     rq_reserved = 1, rq_authority = None, rq_year_history = True\<rparr>"

definition empty_queue :: recovery_db where
  "empty_queue = \<lparr>rd_jobs = Map.empty, rd_admission = Map.empty\<rparr>"

abbreviation demo_admit :: "request \<Rightarrow> recovery_db" where
  "demo_admit r \<equiv> snd (enqueue mem_env demo_queue r True 0 [] empty_queue)"

lemma demo_run:
  assumes "well_formed r" and "plain_request r"
  shows "recovery_run mem_env demo_queue [Map.empty] (demo_admit r)"
  using recovery_run.step [OF recovery_run.start recovery_step.admission [OF assms, where aborted = "[]" and now = 0
      and reopen_terminal = True], of mem_env demo_queue]
  by (simp add: empty_queue_def)

text \<open>
  C20. Admission is bounded: in every run of the queue each seller has at most the configured number of
  pending or running jobs, those other than its inventory leave the reserved slot free, and every job
  has used between zero and three attempts, one at least while it runs.
\<close>

theorem recovery_queue_invariant:
  assumes "recovery_store E" and "recovery_run E q seen db"
  shows "card (live_jobs (rd_jobs db) s) \<le> rq_capacity q \<and>
    (rq_reserved q \<noteq> 0 \<longrightarrow> card (other_jobs (rd_jobs db) s) \<le> rq_capacity q - rq_reserved q) \<and>
    (\<forall>k j. rd_jobs db k = Some j \<longrightarrow> 0 \<le> jb_attempts j \<and> jb_attempts j \<le> 3 \<and>
      (jb_state j = Running \<longrightarrow> 1 \<le> jb_attempts j \<and> jb_token j \<noteq> None \<and> jb_lease_until j \<noteq> None))"
proof -
  from recovery_store.run_inv [OF assms] have i: "queue_inv E q (rd_jobs db)" by blast
  have "0 \<le> jb_attempts j \<and> jb_attempts j \<le> 3 \<and>
      (jb_state j = Running \<longrightarrow> 1 \<le> jb_attempts j \<and> jb_token j \<noteq> None \<and> jb_lease_until j \<noteq> None)"
    if "rd_jobs db k = Some j" for k j
  proof -
    from i that have "shape_ok j" "life_ok (life_of j)" by (simp_all add: queue_inv_def)
    then show ?thesis by (cases "jb_state j") (simp_all add: shape_ok_def life_of_def)
  qed
  with i show ?thesis by (simp add: queue_inv_def)
qed

abbreviation demo_key :: string where
  "demo_key \<equiv> request_key id (InventoryRequest ''7'')"

definition demo_recovery_job :: job where
  "demo_recovery_job = (blank_job ''7'' ''item_formula_rows'' None 0)\<lparr>jb_inventory_scope := True\<rparr>"

lemma demo_inventory_job: "rd_jobs (demo_admit (InventoryRequest ''7'')) = [demo_key \<mapsto> demo_recovery_job]"
  by (simp add: enqueue_def admit_transaction_def mem_env_def demo_queue_def empty_queue_def Let_def check_scope_def
      initial_job_def plan_admission_def admit_unit_def check_capacity_def seed_admission_def
      bump_admission_def recoverable_models_def demo_recovery_job_def)

lemma demo_inventory_run: "recovery_run mem_env demo_queue [Map.empty] (demo_admit (InventoryRequest ''7''))"
proof -
  have "all_digits ''7''" by code_simp
  then show ?thesis by (intro demo_run) simp_all
qed

lemma demo_recovery_claim:
  "recovery_claim mem_env demo_queue None False ''e'' ''t'' 5 5 (Suc 0) [demo_key \<mapsto> demo_recovery_job] =
    (Inr (Some (Some (demo_key, take_fields ''t'' 5 demo_recovery_job))), [demo_key \<mapsto> take_fields ''t'' 5 demo_recovery_job])"
  by (simp add: recovery_claim_def recovery_lane_filter_def release_catalog_def update_any_def mem_env_def catalog_exhausted_def
      drop_exhausted_def claim_once_def update_first_def claim_ready_def claim_scope_def expired_def demo_recovery_job_def
      blank_job_def demo_queue_def recovery_max_attempts_def recoverable_models_def mem_update_single Let_def del: mem_update_many)

lemma demo_life [simp]: "life_of demo_recovery_job = Idle 0"
  "life_of (take_fields ''t'' 5 demo_recovery_job) = Held ''t'' (5 + minutes 10) 1"
  by (simp_all add: life_of_def demo_recovery_job_def blank_job_def take_fields_def recovery_lease_def)

theorem recovery_queue_invariant_witness:
  "card (live_jobs (rd_jobs (demo_admit (InventoryRequest ''7''))) ''7'') \<le> 2 \<and>
   demo_key \<in> live_jobs (rd_jobs (demo_admit (InventoryRequest ''7''))) ''7''"
  using recovery_queue_invariant [OF mem_recovery.recovery_store_axioms demo_inventory_run, of "''7''"] demo_inventory_job
  by (auto simp: demo_queue_def in_live_jobs is_live_def demo_recovery_job_def blank_job_def)



text \<open>
  C22. A claimed job is its worker's alone: until the lease ends, an operation by a party without the
  attempt's token leaves the job running under the same token and lease, with the same attempts.
\<close>

theorem held_job_undisturbed:
  assumes "recovery_store E" and "recovery_run E q seen db" and "recovery_step E q (rd_jobs db # seen) T A db db'"
    and j: "rd_jobs db k = Some j" "jb_state j = Running" "jb_token j = Some t" "jb_lease_until j = Some u"
    and "t \<notin> A" and "\<forall>now \<in> T. now < u"
  shows "\<exists>j'. rd_jobs db' k = Some j' \<and> jb_state j' = Running \<and> jb_token j' = Some t \<and> jb_lease_until j' = Some u \<and>
    jb_attempts j' = jb_attempts j"
proof -
  have l: "life_of j = Held t u (jb_attempts j)" using j by (simp add: life_of_def)
  have i: "queue_inv E q (rd_jobs db')"
    and st: "life_step T A (map_option life_of (rd_jobs db k)) (map_option life_of (rd_jobs db' k))"
    using recovery_store.step_inv [OF assms(1,3)] recovery_store.run_inv [OF assms(1,2)] by simp_all
  then obtain l' where "map_option life_of (rd_jobs db' k) = Some l'" "life_run T A (life_of j) l'"
    using j(1) by (auto elim: life_step_SomeE)
  with life_run_held [OF this(2) l assms(8,9)] obtain j' where j': "rd_jobs db' k = Some j'"
    "life_of j' = Held t u (jb_attempts j)" by auto
  with i have "shape_ok j'" by (auto simp: queue_inv_def)
  with j' show ?thesis by (cases "jb_state j'") (auto simp: life_of_def shape_ok_def)
qed

theorem held_job_undisturbed_witness:
  "\<exists>j'. snd (defer_quota mem_env demo_key (take_fields ''x'' 5 demo_recovery_job) 6 [demo_key \<mapsto> take_fields ''t'' 5 demo_recovery_job]) demo_key =
     Some j' \<and> jb_token j' = Some ''t'' \<and> jb_attempts j' = 1"
proof -
  let ?db = "demo_admit (InventoryRequest ''7'')"
  let ?db' = "?db\<lparr>rd_jobs := [demo_key \<mapsto> take_fields ''t'' 5 demo_recovery_job]\<rparr>"
  have r: "recovery_run mem_env demo_queue [[demo_key \<mapsto> demo_recovery_job], Map.empty] ?db'"
    using recovery_run.step [OF demo_inventory_run recovery_step.claim [where lane = None and history = False
        and ?t0.0 = "''e''" and t = "''t''" and now = 5 and finished_at = 5 and fuel = "Suc 0"]]
    by (simp add: demo_inventory_job demo_recovery_claim)
  have d: "jb_token (take_fields ''x'' 5 demo_recovery_job) = Some ''x''" by (simp add: take_fields_def)
  from held_job_undisturbed [OF mem_recovery.recovery_store_axioms r recovery_step.deferred [OF d, where now = 6 and k = demo_key],
      of demo_key "take_fields ''t'' 5 demo_recovery_job" "''t''" "5 + minutes 10"]
  show ?thesis by (auto simp: take_fields_def recovery_lease_def demo_recovery_job_def blank_job_def time_defs)
qed

section \<open>Properties of operations\<close>

context recovery_store
begin

lemma aborted_inventory:
  "aborted_attempts E q (InventoryRequest s) init cs admitted = Inr admitted"
  by (induction cs) (simp_all add: plan_admission_def)

lemma inventory_not_refused:
  assumes i: "queue_inv E q (rd_jobs db)" and r: "rq_reserved q = 1" "1 \<le> rq_capacity q" and s: "all_digits s"
  shows "fst (enqueue E q (InventoryRequest s) reopen_terminal now aborted db) \<noteq> Inl RecoveryCapacityError"
proof -
  let ?k = "request_key (rv_hash E) (InventoryRequest s)" and ?d = "seed_admission E s db"
  have jobs: "rd_jobs ?d = rd_jobs db" by (simp add: seed_admission_def split: sum.splits)
  have txn: "fst (admit_transaction E q (InventoryRequest s) reopen_terminal now init aborted ?d) \<noteq> Inl RecoveryCapacityError" for init
  proof (cases "\<exists>j. rd_jobs db ?k = Some j \<and> is_live j")
    case True
    then show ?thesis
      by (auto simp: admit_transaction_def aborted_inventory plan_admission_def admit_unit_def jobs Let_def
          jobs.base.find_one_law split: if_splits)
  next
    case False
    then have "check_capacity E q (InventoryRequest s) (rd_jobs db) = Inr ()" by (intro inventory_fits [OF i r s]) auto
    then show ?thesis
      by (auto simp: admit_transaction_def aborted_inventory plan_admission_def admit_unit_def jobs Let_def
          reopen_job_def reopen_cursor_def jobs.base.point_laws split: option.splits sum.splits prod.splits)
  qed
  have scope: "check_scope q (InventoryRequest s) \<noteq> Inl RecoveryCapacityError"
    by (auto simp: check_scope_def Let_def require_def rbind_def split: sum.splits)
  have "rbind (check_scope q (InventoryRequest s)) (\<lambda>_. Inr ()) \<noteq> Inl RecoveryCapacityError"
    using scope by (cases "check_scope q (InventoryRequest s)") auto
  with txn show ?thesis by (auto simp: enqueue_def Let_def initial_job_def split: sum.splits)
qed

text \<open>What is left ready after a claim comes later in the order; jobs the gate refused are not ready.\<close>

lemma claim_once_rest:
  assumes fin: "finite (dom c)" and r: "claim_once E q lane in_lane history t now c = (Some (k, doc), c')"
  obtains j where "c k = Some j" and "claim_ready q in_lane history now j" and "doc = take_fields t now j"
    and "c' = c(k \<mapsto> doc)" and "\<not> claim_ready q in_lane history now doc"
proof -
  obtain j where j: "c k = Some j" "claim_ready q in_lane history now j" "doc = take_fields t now j" "c' = c(k \<mapsto> doc)"
    using claim_once_Some [OF fin r] by metis
  have "\<not> claim_ready q in_lane history now doc"
    by (simp add: j(3) claim_ready_def take_fields_def expired_def recovery_lease_def time_defs)
  with j that show thesis by blast
qed

lemma claim_loop_Some:
  assumes "recovery_claim_loop E q lane in_lane history t now fuel c = (Some (Some (k, doc)), c')" and "finite (dom c)"
  shows "c' k = Some doc \<and> (\<exists>j. claim_ready q in_lane history now j \<and> doc = take_fields t now j) \<and>
    (case rq_gate q of None \<Rightarrow> True | Some g \<Rightarrow> g (jb_seller doc)) \<and>
    (\<forall>k' j'. (lane \<noteq> Some ''ranges'' \<or> history) \<and> c' k' = Some j' \<and> claim_ready q in_lane history now j' \<longrightarrow>
       ([jb_available_at doc], k) \<le> ([jb_available_at j'], k'))"
  using assms
proof (induction fuel arbitrary: c)
  case (Suc fuel)
  obtain r c1 where once: "claim_once E q lane in_lane history t now c = (r, c1)" by fastforce
  with Suc.prems(1) obtain k1 doc1 where kd: "r = Some (k1, doc1)"
    by (cases r) (auto split: prod.splits)
  obtain j where j: "c k1 = Some j" "claim_ready q in_lane history now j" "doc1 = take_fields t now j" "c1 = c(k1 \<mapsto> doc1)"
    and m: "\<And>k' j'. lane \<noteq> Some ''ranges'' \<or> history \<Longrightarrow> c k' = Some j' \<Longrightarrow> claim_ready q in_lane history now j' \<Longrightarrow>
      ([jb_available_at j], k1) \<le> ([jb_available_at j'], k')"
    using claim_once_Some [OF Suc.prems(2) once [unfolded kd]] by metis
  obtain n: "\<not> claim_ready q in_lane history now doc1"
    using claim_once_rest [OF Suc.prems(2) once [unfolded kd]] by metis
  show ?case
  proof (cases "case rq_gate q of None \<Rightarrow> True | Some g \<Rightarrow> g (jb_seller doc1)")
    case True
    with Suc.prems(1) once kd have eq: "k = k1" "doc = doc1" "c' = c1" by auto
    have av: "jb_available_at doc = jb_available_at j" by (simp add: eq(2) j(3) take_fields_def)
    have "([jb_available_at doc], k) \<le> ([jb_available_at j'], k')"
      if "lane \<noteq> Some ''ranges'' \<or> history" "c' k' = Some j'" "claim_ready q in_lane history now j'" for k' j'
    proof -
      have "k' \<noteq> k1" using that(2,3) n eq j(4) by auto
      then have "c k' = Some j'" using that(2) eq(3) j(4) by simp
      from m [OF that(1) this that(3)] show ?thesis by (simp only: eq(1) av)
    qed
    moreover have "c' k = Some doc" by (simp add: eq j(4))
    ultimately show ?thesis using True eq(2) j(2,3) by blast
  next
    case False
    let ?c = "close_ineligible E k1 doc1 now c1"
    have "evolve {now} {t} c1 ?c" by (rule close_ineligible_evolve) (simp_all add: j(3) take_fields_def)
    then have "dom ?c = dom c1" by (rule evolve_dom)
    with Suc.prems(2) j(4) have fin: "finite (dom ?c)" by simp
    from Suc.prems(1) once kd False
    have "recovery_claim_loop E q lane in_lane history t now fuel ?c = (Some (Some (k, doc)), c')" by simp
    from Suc.IH [OF this fin] show ?thesis .
  qed
qed simp

text \<open>Every turn of the loop closes one ready job.\<close>

lemma claim_loop_returns:
  assumes "finite (dom c)" and "card (matching c (claim_ready q in_lane history now)) < fuel"
  shows "fst (recovery_claim_loop E q lane in_lane history t now fuel c) \<noteq> None"
  using assms
proof (induction fuel arbitrary: c)
  case (Suc fuel)
  let ?R = "claim_ready q in_lane history now"
  show ?case
  proof (cases "claim_once E q lane in_lane history t now c")
    case (Pair r c1)
    show ?thesis
    proof (cases r)
      case (Some kd)
      then obtain k doc where kd: "r = Some (k, doc)" by (cases kd) auto
      obtain j where j: "c k = Some j" "?R j" "doc = take_fields t now j" "c1 = c(k \<mapsto> doc)" "\<not> ?R doc"
        using claim_once_rest [OF Suc.prems(1) Pair [unfolded kd]] by metis
      let ?c = "close_ineligible E k doc now c1"
      have eq: "?c = c(k \<mapsto> end_attempt (doc\<lparr>jb_state := Failed,
          jb_failure_reason := Some ''seller_not_eligible'', jb_updated_at := now, jb_available_at := now + recovery_cooldown\<rparr>))"
        using close_ineligible_eq [of c1 k doc t "now + recovery_lease" now] j(3,4)
        by (simp add: take_fields_def recovery_lease_def time_defs)
      have "matching ?c ?R \<subseteq> matching c ?R - {k}"
        by (auto simp: eq matching_def matches_def claim_ready_def end_attempt_def expired_def split: option.splits if_splits)
      moreover have "k \<in> matching c ?R" using j(1,2) by simp
      moreover have fin: "finite (matching c ?R)" by (rule finite_matching [OF Suc.prems(1)])
      ultimately have "card (matching ?c ?R) < card (matching c ?R)"
        by (intro psubset_card_mono) auto
      with Suc.prems(2) have "card (matching ?c ?R) < fuel" by linarith
      moreover have "finite (dom ?c)" using Suc.prems(1) by (simp add: eq)
      ultimately have "fst (recovery_claim_loop E q lane in_lane history t now fuel ?c) \<noteq> None" by (intro Suc.IH)
      with Pair kd show ?thesis by simp
    qed (use Pair in simp)
  qed
qed simp

lemma settled_dom:
  assumes "release_catalog E q in_lane history t0 now finished_at c = (x, c1)"
  shows "dom (drop_exhausted E q in_lane history now c1) = dom c"
proof -
  have "evolve {now, finished_at} {t0} c c1"
    using release_catalog_evolve [where t = t0 and q = q and in_lane = in_lane and history = history and c = c,
        of now "{now, finished_at}" finished_at] assms by simp
  moreover have "evolve {now} {} c1 (drop_exhausted E q in_lane history now c1)" by (rule drop_exhausted_evolve) simp
  ultimately show ?thesis by (metis evolve_dom)
qed

lemma claim_job_Some:
  assumes fin: "finite (dom c)" and lane: "recovery_lane_filter lane = Inr in_lane"
    and r: "recovery_claim E q lane history t0 t now finished_at fuel c = (Inr (Some (Some (k, doc))), c')"
  shows "c' k = Some doc \<and> (\<exists>j. claim_ready q in_lane history now j \<and> doc = take_fields t now j) \<and>
    (case rq_gate q of None \<Rightarrow> True | Some g \<Rightarrow> g (jb_seller doc)) \<and>
    (\<forall>k' j'. (lane \<noteq> Some ''ranges'' \<or> history) \<and> c' k' = Some j' \<and> claim_ready q in_lane history now j' \<longrightarrow>
       ([jb_available_at doc], k) \<le> ([jb_available_at j'], k'))"
proof -
  obtain x c1 where rel: "release_catalog E q in_lane history t0 now finished_at c = (x, c1)" by fastforce
  from settled_dom [OF rel] fin have f: "finite (dom (drop_exhausted E q in_lane history now c1))" by simp
  have "recovery_claim_loop E q lane in_lane history t now fuel (drop_exhausted E q in_lane history now c1) = (Some (Some (k, doc)), c')"
    using r lane rel by (auto simp: recovery_claim_def split: sum.splits prod.splits)
  from claim_loop_Some [OF this f] show ?thesis .
qed

lemma claim_job_returns:
  assumes "finite (dom c)" and "card (dom c) < fuel"
  shows "fst (recovery_claim E q lane history t0 t now finished_at fuel c) \<noteq> Inr None"
proof (cases "recovery_lane_filter lane")
  case (Inr in_lane)
  obtain x c1 where rel: "release_catalog E q in_lane history t0 now finished_at c = (x, c1)" by fastforce
  let ?c = "drop_exhausted E q in_lane history now c1"
  from settled_dom [OF rel] assms(1) have d: "dom ?c = dom c" and f: "finite (dom ?c)" by simp_all
  have "card (matching ?c (claim_ready q in_lane history now)) \<le> card (dom ?c)"
    by (rule card_mono [OF f matching_sub])
  with assms(2) d have "fst (recovery_claim_loop E q lane in_lane history t now fuel ?c) \<noteq> None"
    by (intro claim_loop_returns [OF f]) simp
  then show ?thesis using Inr rel by (auto simp: recovery_claim_def split: sum.splits prod.splits)
qed (simp add: recovery_claim_def)

end

text \<open>
  With its slot reserved, a seller's inventory is never refused for capacity: in every run its
  admission is accepted, coalesced, or fails for another reason, however many other jobs wait.
\<close>

theorem inventory_never_refused:
  assumes "recovery_store E" and "recovery_run E q seen db" and "rq_reserved q = 1" and "1 \<le> rq_capacity q"
    and "make_inventory s = Inr r"
  shows "fst (enqueue E q r reopen_terminal now aborted db) \<noteq> Inl RecoveryCapacityError"
proof -
  have "r = InventoryRequest s" "all_digits s" using assms(5) by (auto simp: make_inventory_def rbind_eq_Inr)
  with recovery_store.inventory_not_refused [OF assms(1) _ assms(3,4)] recovery_store.run_inv [OF assms(1,2)]
  show ?thesis by blast
qed

theorem inventory_never_refused_witness:
  "fst (enqueue mem_env demo_queue (InventoryRequest ''8'') True 9 [] (demo_admit (InventoryRequest ''7''))) \<noteq>
     Inl RecoveryCapacityError"
proof -
  have "make_inventory ''8'' = Inr (InventoryRequest ''8'')" by code_simp
  from inventory_never_refused [OF mem_recovery.recovery_store_axioms demo_inventory_run _ _ this]
  show ?thesis by (simp add: demo_queue_def)
qed

text \<open>
  A claim gives the worker a job of an enabled model and an accepted seller, running under its own
  token for ten minutes and in its first to third attempt; outside the range lane every job that is
  still ready comes later in the order of availability and identifier.
\<close>

theorem claim_takes_first_ready:
  assumes "recovery_store E" and fin: "finite (dom c)" and lane: "recovery_lane_filter lane = Inr in_lane"
    and r: "recovery_claim E q lane history t0 t now finished_at fuel c = (Inr (Some (Some (k, doc))), c')"
  shows "c' k = Some doc \<and> jb_state doc = Running \<and> jb_token doc = Some t \<and> jb_lease_until doc = Some (now + minutes 10) \<and>
    jb_attempts doc \<le> 3 \<and> jb_authority doc = rq_authority q \<and> jb_model doc \<in> set (rq_enabled q) \<and>
    (case rq_allowed q of None \<Rightarrow> True | Some ss \<Rightarrow> jb_seller doc \<in> set ss) \<and>
    (case rq_gate q of None \<Rightarrow> True | Some g \<Rightarrow> g (jb_seller doc)) \<and>
    (\<forall>k' j'. (lane \<noteq> Some ''ranges'' \<or> history) \<and> c' k' = Some j' \<and> claim_ready q in_lane history now j' \<longrightarrow>
       ([jb_available_at doc], k) \<le> ([jb_available_at j'], k'))"
proof -
  from recovery_store.claim_job_Some [OF assms] obtain j where j: "claim_ready q in_lane history now j" "doc = take_fields t now j"
    by blast
  have "jb_state doc = Running \<and> jb_token doc = Some t \<and> jb_lease_until doc = Some (now + minutes 10) \<and>
    jb_attempts doc \<le> 3 \<and> jb_authority doc = rq_authority q \<and> jb_model doc \<in> set (rq_enabled q)"
    using j(1) by (simp add: j(2) claim_ready_def claim_scope_def take_fields_def recovery_lease_def recovery_max_attempts_def)
  moreover have "case rq_allowed q of None \<Rightarrow> True | Some ss \<Rightarrow> jb_seller doc \<in> set ss"
    using j by (auto simp: claim_ready_def claim_scope_def take_fields_def split: option.splits)
  ultimately show ?thesis using recovery_store.claim_job_Some [OF assms] by blast
qed

text \<open>
  A claim returns: with more turns than there are jobs the loop that closes jobs of refused sellers
  comes to an end, with a job, with none, or with an error of the settled catalog job.
\<close>

theorem claim_returns:
  assumes "recovery_store E" and "finite (dom c)" and "card (dom c) < fuel"
  shows "fst (recovery_claim E q lane history t0 t now finished_at fuel c) \<noteq> Inr None"
  by (rule recovery_store.claim_job_returns [OF assms])

theorem claim_returns_witness:
  "fst (recovery_claim mem_env (demo_queue\<lparr>rq_gate := Some (\<lambda>_. False)\<rparr>) None False ''e'' ''t'' 5 5 2 [demo_key \<mapsto> demo_recovery_job]) \<noteq> Inr None"
  by (rule claim_returns [OF mem_recovery.recovery_store_axioms]) simp_all

theorem claim_takes_first_ready_witness:
  "jb_lease_until (take_fields ''t'' 5 demo_recovery_job) = Some (5 + minutes 10) \<and> jb_attempts (take_fields ''t'' 5 demo_recovery_job) \<le> 3"
proof -
  have "recovery_lane_filter None = Inr (\<lambda>_. True)" by (simp add: recovery_lane_filter_def)
  from claim_takes_first_ready [OF mem_recovery.recovery_store_axioms _ this demo_recovery_claim] show ?thesis by simp
qed

end
