(* ===== verification/RecoveryOutcomes.thy ===== *)
theory RecoveryOutcomes
  imports RecoveryRuns
begin

text \<open>
  How jobs of the recovery queue end: a lost lease, the chunks of a catalog job, and two behaviours of
  reopening and admission that the code does not mean (a job that can never be claimed again, a key
  without a job).
\<close>

section \<open>Lost leases\<close>

definition holds_job :: "job coll \<Rightarrow> string \<Rightarrow> job \<Rightarrow> instant \<Rightarrow> bool" where
  "holds_job c k doc now \<longleftrightarrow> matches c k (owned doc now)"

context recovery_store
begin

lemma update_owned_lost:
  "\<not> holds_job c k doc now \<Longrightarrow> update_owned E k doc now P u c = (False, c)"
  by (auto simp: update_owned_cases holds_job_def matches_def split: option.splits)

lemma lost_attempt:
  assumes "\<not> holds_job c k doc now"
  shows "finish E k doc succeeded retryable reason session now c \<in> {(Inr False, c)} \<union> range (\<lambda>e. (Inl e, c))"
    and "checkpoint_inventory E k doc ids offset unavailable now c \<in> {(Inr False, c)} \<union> range (\<lambda>e. (Inl e, c))"
    and "defer_quota E k doc now c = (False, c)" and "renew E k doc now c = (False, c)"
    and "initialize_shipment_cursor E q k doc now c \<in> range (\<lambda>e. (Inl e, c))"
    and "checkpoint_shipment_cursor E q k doc expected next in_txn now c \<in> {(Inr False, c)} \<union> range (\<lambda>e. (Inl e, c))"
  by (auto simp: finish_def checkpoint_inventory_def defer_quota_def renew_def initialize_shipment_cursor_def
      checkpoint_shipment_cursor_def Let_def update_owned_lost [OF assms] split: option.splits sum.splits)

end

text \<open>
  An attempt that lost its job (the lease ended, another attempt took over, or the job was settled)
  changes nothing: every call with it leaves the collection as it is and reports the loss or fails.
\<close>

theorem lost_attempt_changes_nothing:
  assumes "recovery_store E" and "\<not> holds_job c k doc now"
  shows "snd (finish E k doc succeeded retryable reason session now c) = c \<and>
    fst (finish E k doc succeeded retryable reason session now c) \<noteq> Inr True \<and>
    snd (checkpoint_inventory E k doc ids offset unavailable now c) = c \<and>
    fst (checkpoint_inventory E k doc ids offset unavailable now c) \<noteq> Inr True \<and>
    defer_quota E k doc now c = (False, c) \<and> renew E k doc now c = (False, c) \<and>
    (\<exists>e. initialize_shipment_cursor E q k doc now c = (Inl e, c)) \<and>
    snd (checkpoint_shipment_cursor E q k doc expected next in_txn now c) = c \<and>
    fst (checkpoint_shipment_cursor E q k doc expected next in_txn now c) \<noteq> Inr True"
proof -
  note lost = recovery_store.lost_attempt [OF assms]
  from lost(1) [of succeeded retryable reason session] lost(2) [of ids offset unavailable] lost(3,4) lost(5) [of q]
    lost(6) [of q expected "next" in_txn]
  show ?thesis by auto
qed

theorem lost_attempt_changes_nothing_witness:
  "renew mem_env demo_key (take_fields ''t'' 5 demo_recovery_job) (5 + minutes 10) [demo_key \<mapsto> take_fields ''t'' 5 demo_recovery_job] =
     (False, [demo_key \<mapsto> take_fields ''t'' 5 demo_recovery_job])"
proof -
  have "\<not> holds_job [demo_key \<mapsto> take_fields ''t'' 5 demo_recovery_job] demo_key (take_fields ''t'' 5 demo_recovery_job) (5 + minutes 10)"
    by (simp add: holds_job_def owned_def take_fields_def recovery_lease_def)
  from lost_attempt_changes_nothing [OF mem_recovery.recovery_store_axioms this] show ?thesis by blast
qed

section \<open>Catalog jobs\<close>

text \<open>
  The attempts of a catalog job one after another: each claims the job and finishes its chunk of 20
  identifiers, with success or without.
\<close>

fun run_chunks ::
  "recovery_env \<Rightarrow> string \<Rightarrow> string \<Rightarrow> string \<Rightarrow> instant \<Rightarrow> bool list \<Rightarrow> job coll \<Rightarrow> (queue_error, job coll) result" where
  "run_chunks E k t reason now [] c = Inr c"
| "run_chunks E k t reason now (ok # oks) c = (case c k of
     None \<Rightarrow> Inl (QueueKeyError k)
   | Some j \<Rightarrow>
       (let doc = take_fields t now j in
        case finish E k doc ok False reason None now (c(k \<mapsto> doc)) of
          (Inl e, _) \<Rightarrow> Inl e
        | (Inr _, c') \<Rightarrow> run_chunks E k t reason now oks c'))"

text \<open>The offsets of the chunks that failed, from \<open>offset\<close> on.\<close>

fun failed_chunks :: "int \<Rightarrow> bool list \<Rightarrow> int list" where
  "failed_chunks offset [] = []"
| "failed_chunks offset (ok # oks) = (if ok then [] else [offset]) @ failed_chunks (offset + 20) oks"

definition chunked :: "string list \<Rightarrow> int \<Rightarrow> job \<Rightarrow> bool" where
  "chunked ids offset j \<longleftrightarrow> catalog_ids j = Some ids \<and> jb_catalog_offset j = Some offset \<and>
     \<not> jb_inventory_scope j \<and> (jb_catalog_failed j \<noteq> [] \<longrightarrow> jb_catalog_reason j \<noteq> None)"

context recovery_store
begin

lemma finish_chunk:
  assumes j: "c k = Some j" "chunked ids offset j" and r: "reason \<in> set finish_reasons"
    and o: "0 \<le> offset" "offset < int (length ids)" "offset mod 20 = 0"
  obtains j' where "finish E k (take_fields t now j) ok False reason None now (c(k \<mapsto> take_fields t now j)) = (Inr True, c(k \<mapsto> j'))"
    and "chunked ids (min (offset + 20) (int (length ids))) j'"
    and "jb_catalog_failed j' = jb_catalog_failed j @ (if ok then [] else [offset])"
    and "jb_state j' = (if offset + 20 < int (length ids) then Pending
      else if jb_catalog_failed j' = [] then Completed else Failed)"
    and "jb_attempts j' = 0"
proof -
  let ?doc = "take_fields t now j" and ?next = "min (offset + 20) (int (length ids))"
  let ?u = "\<lambda>d. chunk_fields ?doc ok reason now offset ?next (jb_catalog_reason ?doc)
    (outcome_fields ?doc ok False reason now d)"
  have ids: "catalog_ids ?doc = Some ids" "jb_catalog_offset ?doc = Some offset" "jb_catalog_failed ?doc = jb_catalog_failed j"
    "jb_catalog_reason ?doc = jb_catalog_reason j" "\<not> jb_inventory_scope ?doc"
    using j(2) by (auto simp: chunked_def catalog_ids_def take_fields_def)
  have "finish_fields ?doc ok False reason now = Inr ?u"
    using ids o j(2) by (auto simp: finish_fields_def will_retry_def Let_def chunked_def)
  moreover have "owned ?doc now ?doc" by (simp add: owned_def take_fields_def recovery_lease_def time_defs)
  ultimately have f: "finish E k ?doc ok False reason None now (c(k \<mapsto> ?doc)) = (Inr True, c(k \<mapsto> ?u ?doc))"
    using r ids(5) by (simp add: finish_def update_owned_cases)
  have lt: "(?next = int (length ids)) = (\<not> offset + 20 < int (length ids))" by linarith
  have "catalog_ids (?u ?doc) = Some ids"
    using ids(1) by (auto simp: chunk_fields_def outcome_fields_def end_attempt_def Let_def catalog_ids_def)
  then have "chunked ids ?next (?u ?doc)"
    using j(2) by (auto simp: chunked_def chunk_fields_def outcome_fields_def end_attempt_def Let_def take_fields_def)
  moreover have "jb_catalog_failed (?u ?doc) = jb_catalog_failed j @ (if ok then [] else [offset])" "jb_attempts (?u ?doc) = 0"
    by (simp_all add: chunk_fields_def Let_def take_fields_def)
  moreover have "jb_state (?u ?doc) = (if offset + 20 < int (length ids) then Pending
      else if jb_catalog_failed (?u ?doc) = [] then Completed else Failed)"
    by (simp add: chunk_fields_def Let_def ids(1) lt)
  ultimately show thesis using f that by blast
qed

lemma chunks_drain:
  assumes "c k = Some j" and "chunked ids offset j" and "reason \<in> set finish_reasons"
    and "0 \<le> offset" and "offset < int (length ids)" and "offset mod 20 = 0" and "oks \<noteq> []"
    and "int (length ids) \<le> offset + 20 * int (length oks)" and "offset + 20 * (int (length oks) - 1) < int (length ids)"
  shows "\<exists>c' j'. run_chunks E k t reason now oks c = Inr c' \<and> c' k = Some j' \<and>
    jb_catalog_offset j' = Some (int (length ids)) \<and>
    jb_catalog_failed j' = jb_catalog_failed j @ failed_chunks offset oks \<and>
    jb_state j' = (if jb_catalog_failed j' = [] then Completed else Failed)"
  using assms
proof (induction oks arbitrary: c j offset)
  case (Cons ok oks)
  obtain j' where f: "finish E k (take_fields t now j) ok False reason None now (c(k \<mapsto> take_fields t now j)) = (Inr True, c(k \<mapsto> j'))"
    and ch: "chunked ids (min (offset + 20) (int (length ids))) j'"
    and fl: "jb_catalog_failed j' = jb_catalog_failed j @ (if ok then [] else [offset])"
    and st: "jb_state j' = (if offset + 20 < int (length ids) then Pending
      else if jb_catalog_failed j' = [] then Completed else Failed)"
    using finish_chunk [where c = c and k = k and t = t and now = now and ok = ok, OF Cons.prems(1-6)] by blast
  have run: "run_chunks E k t reason now (ok # oks) c = run_chunks E k t reason now oks (c(k \<mapsto> j'))"
    using Cons.prems(1) f by (simp add: Let_def)
  show ?case
  proof (cases "oks = []")
    case True
    with Cons.prems(8) have "int (length ids) \<le> offset + 20" by simp
    with True run ch fl st show ?thesis by (simp add: chunked_def)
  next
    case False
    then have "1 \<le> int (length oks)" by (cases oks) simp_all
    with Cons.prems(8,9) have b: "offset + 20 < int (length ids)" "int (length ids) \<le> (offset + 20) + 20 * int (length oks)"
      "(offset + 20) + 20 * (int (length oks) - 1) < int (length ids)" by (simp_all add: algebra_simps)
    have m: "(offset + 20) mod 20 = 0" using Cons.prems(6) by presburger
    from ch b(1) have ch': "chunked ids (offset + 20) j'" by simp
    have "(c(k \<mapsto> j')) k = Some j'" "0 \<le> offset + 20" using Cons.prems(4) by simp_all
    from Cons.IH [where c = "c(k \<mapsto> j')", OF this(1) ch' Cons.prems(3) this(2) b(1) m False b(2,3)] obtain c' j2 where
      "run_chunks E k t reason now oks (c(k \<mapsto> j')) = Inr c'" "c' k = Some j2"
      "jb_catalog_offset j2 = Some (int (length ids))"
      "jb_catalog_failed j2 = jb_catalog_failed j' @ failed_chunks (offset + 20) oks"
      "jb_state j2 = (if jb_catalog_failed j2 = [] then Completed else Failed)" by blast
    then show ?thesis unfolding run fl by (intro exI [of _ c'] exI [of _ j2]) simp
  qed
qed simp

end

text \<open>
  A catalog job is drained chunk by chunk: after as many attempts as it has chunks of 20
  identifiers, whatever their outcomes, its offset is its number of identifiers, the failed offsets are
  exactly those of the failed attempts, and it is completed if there are none and failed otherwise.
\<close>

theorem catalog_job_drains:
  assumes "recovery_store E" and "c k = Some j" and "catalog_ids j = Some ids" and "ids \<noteq> []"
    and "jb_catalog_offset j = Some 0" and "jb_catalog_failed j = []" and "\<not> jb_inventory_scope j"
    and "reason \<in> set finish_reasons" and "length oks = (length ids + 19) div 20"
  shows "\<exists>c' j'. run_chunks E k t reason now oks c = Inr c' \<and> c' k = Some j' \<and>
    jb_catalog_offset j' = Some (int (length ids)) \<and> jb_catalog_failed j' = failed_chunks 0 oks \<and>
    jb_state j' = (if failed_chunks 0 oks = [] then Completed else Failed)"
proof -
  have "0 < length ids" using assms(4) by simp
  then have b: "length ids \<le> 20 * length oks" "20 * length oks < length ids + 20" "0 < length oks"
    unfolding assms(9) by presburger+
  have "chunked ids 0 j" using assms(3,5,6,7) by (simp add: chunked_def)
  from recovery_store.chunks_drain [where t = t and now = now and c = c and k = k and oks = oks, OF assms(1,2) this assms(8)] b \<open>0 < length ids\<close> assms(6)
  show ?thesis by (auto simp: algebra_simps)
qed

definition demo_catalog :: job where
  "demo_catalog = (blank_job ''7'' ''item_formula_rows'' None 0)\<lparr>jb_item_ids := Some (replicate 30 ''MLA1''), jb_catalog_offset := Some 0\<rparr>"

theorem catalog_job_drains_witness:
  "\<exists>c' j'. run_chunks mem_env ''k'' ''t'' ''source_rejected'' 5 [False, True] [''k'' \<mapsto> demo_catalog] = Inr c' \<and> c' ''k'' = Some j' \<and>
     jb_catalog_offset j' = Some 30 \<and> jb_catalog_failed j' = [0] \<and> jb_state j' = Failed"
  using catalog_job_drains [where c = "[''k'' \<mapsto> demo_catalog]" and k = "''k''" and j = demo_catalog and t = "''t''"
      and now = 5 and oks = "[False, True]" and ids = "replicate 30 ''MLA1''" and reason = "''source_rejected''",
      OF mem_recovery.recovery_store_axioms]
  by (simp add: demo_catalog_def catalog_ids_def blank_job_def finish_reasons_def numeral_2_eq_2)

section \<open>Reopening a failed shipment job\<close>

text \<open>The operations that follow a state of a run.\<close>

definition later :: "recovery_env \<Rightarrow> recovery_queue \<Rightarrow> job coll list \<times> recovery_db \<Rightarrow> job coll list \<times> recovery_db \<Rightarrow> bool" where
  "later E q = (\<lambda>(seen, db) (seen', db'). seen' = rd_jobs db # seen \<and> (\<exists>T A. recovery_step E q seen' T A db db'))\<^sup>*\<^sup>*"

lemma idle_exhausted: "life_run T A (Idle 3) l \<Longrightarrow> l = Idle 3"
  unfolding life_run_def by (induction rule: rtranclp_induct) (auto elim!: life_move_IdleE)

context recovery_store
begin

lemma exhausted_stays:
  assumes "later E q s s'" and "recovery_run E q (fst s) (snd s)"
    and "map_option life_of (rd_jobs (snd s) k) = Some (Idle 3)"
  shows "recovery_run E q (fst s') (snd s') \<and> map_option life_of (rd_jobs (snd s') k) = Some (Idle 3)"
  using assms(1) unfolding later_def
proof (induction rule: rtranclp_induct)
  case (step y z)
  obtain T A where st: "fst z = rd_jobs (snd y) # fst y" "recovery_step E q (fst z) T A (snd y) (snd z)"
    using step.hyps(2) by (auto split: prod.splits)
  from step.IH have r: "recovery_run E q (fst y) (snd y)" and l: "map_option life_of (rd_jobs (snd y) k) = Some (Idle 3)" by simp_all
  have "recovery_run E q (fst z) (snd z)" using recovery_run.step [OF r] st by simp
  moreover have "life_step T A (map_option life_of (rd_jobs (snd y) k)) (map_option life_of (rd_jobs (snd z) k))"
    using step_inv [OF st(2)] run_inv [OF r] st(1) by simp
  ultimately show ?case using l by (auto elim!: life_step_SomeE dest: idle_exhausted)
qed (use assms(2,3) in simp)

text \<open>An accepted request for shipments reopens the ended job with the attempts it had.\<close>

lemma shipment_reopened:
  assumes a: "enqueue E q (ShipmentIdsRequest s ids) True now [] db = (Inr k', db')"
    and k: "k = request_key (rv_hash E) (ShipmentIdsRequest s ids)"
    and j: "rd_jobs db k = Some j" "jb_state j = Failed" "jb_shipment_offset j = Some n" "jb_authority j = rq_authority q"
  shows "\<exists>j'. rd_jobs db' k = Some j' \<and> jb_state j' = Pending \<and> jb_attempts j' = jb_attempts j"
proof -
  have jobs: "rd_jobs (seed_admission E s db) = rd_jobs db" by (simp add: seed_admission_def split: sum.splits)
  have u: "admit_unit E q (ShipmentIdsRequest s ids) True now (rd_jobs db) k k doc = Inr c \<Longrightarrow>
      \<exists>j'. c k = Some j' \<and> jb_state j' = Pending \<and> jb_attempts j' = jb_attempts j" for doc c
    using j by (auto simp: admit_unit_def Let_def jobs.base.point_laws rbind_eq_Inr is_live_def reopen_job_def
        reopen_cursor_def matches_def reopen_fields_keeps split: if_splits)
  show ?thesis
    using a j(1,2) k u
    by (auto simp: enqueue_def Let_def jobs.base.find_one_law matches_def is_live_def initial_job_def
        admit_transaction_def plan_admission_def jobs bump_admission_def split: sum.splits)
qed

end

text \<open>
  C23. Reopening a failed shipment job can lose it: when the job has a cursor and used its three attempts,
  the next accepted request makes it pending with three attempts, and from then on no operation of the
  queue ever runs, ends or reopens it; it stays pending and keeps its seller's slot.
\<close>

theorem exhausted_shipment_never_claimed:
  assumes store: "recovery_store E" and run: "recovery_run E q seen db"
    and r: "make_shipment_ids s given = Inr (ShipmentIdsRequest s ids)" "nul \<notin> set s"
    and j: "rd_jobs db (request_key (rv_hash E) (ShipmentIdsRequest s ids)) = Some j" "jb_state j = Failed"
      "jb_attempts j = 3" "jb_shipment_offset j = Some n" "jb_authority j = rq_authority q"
    and a: "enqueue E q (ShipmentIdsRequest s ids) True now [] db = (Inr k, db')"
    and l: "later E q (rd_jobs db # seen, db') (seen'', db'')"
  shows "\<exists>j'. rd_jobs db'' (request_key (rv_hash E) (ShipmentIdsRequest s ids)) = Some j' \<and> jb_state j' = Pending \<and> jb_attempts j' = 3"
proof -
  let ?k = "request_key (rv_hash E) (ShipmentIdsRequest s ids)"
  have w: "well_formed (ShipmentIdsRequest s ids)" "plain_request (ShipmentIdsRequest s ids)"
    using built_well_formed [OF built_shipments [OF r(1)]] r(2) by simp_all
  have "recovery_step E q (rd_jobs db # seen) {now} {} db (snd (enqueue E q (ShipmentIdsRequest s ids) True now [] db))"
    by (rule recovery_step.admission [OF w]) simp
  with a have run': "recovery_run E q (rd_jobs db # seen) db'" using recovery_run.step [OF run] by simp
  obtain j1 where "rd_jobs db' ?k = Some j1" "jb_state j1 = Pending" "jb_attempts j1 = 3"
    using recovery_store.shipment_reopened [OF store a refl j(1,2,4,5)] j(3) by auto
  then have "map_option life_of (rd_jobs db' ?k) = Some (Idle 3)" by (simp add: life_of_def)
  with recovery_store.exhausted_stays [OF store l, of ?k] run'
  obtain j2 where "rd_jobs db'' ?k = Some j2" "life_of j2 = Idle 3" by auto
  then show ?thesis by (cases "jb_state j2") (auto simp: life_of_def)
qed

subsection \<open>A run that gets there\<close>

lemma claim_single:
  assumes "claim_ready demo_queue (\<lambda>_. True) False now j"
  shows "recovery_claim mem_env demo_queue None False t0 t now finished_at (Suc n) [k \<mapsto> j] =
    (Inr (Some (Some (k, take_fields t now j))), [k \<mapsto> take_fields t now j])"
  using assms
  by (simp add: recovery_claim_def recovery_lane_filter_def release_catalog_def update_any_def mem_env_def catalog_exhausted_def
      drop_exhausted_def claim_once_def update_first_def mem_update_single claim_ready_def Let_def demo_queue_def
      del: mem_update_many)

abbreviation demo_shipments :: request where
  "demo_shipments \<equiv> ShipmentIdsRequest ''7'' [''1'']"

abbreviation shipment_key :: string where
  "shipment_key \<equiv> request_key id demo_shipments"

definition shipment_job :: job where
  "shipment_job = (blank_job ''7'' ''shipments'' None 0)\<lparr>jb_shipment_ids := Some [''1'']\<rparr>"

definition shipment_claimed :: "nat \<Rightarrow> job" where
  "shipment_claimed n = shipment_job\<lparr>jb_shipment_offset := Some 0, jb_state := Running, jb_token := Some ''t'',
     jb_lease_until := Some (minutes (10 * int n) + recovery_lease), jb_updated_at := minutes (10 * int n),
     jb_attempts := int n + 1\<rparr>"

definition shipment_failed :: job where
  "shipment_failed = outcome_fields (shipment_claimed 2) False False ''source_rejected'' (minutes 20) (shipment_claimed 2)"

definition shipment_db :: "job \<Rightarrow> recovery_db" where
  "shipment_db j = \<lparr>rd_jobs = [shipment_key \<mapsto> j], rd_admission = [''7'' \<mapsto> 1]\<rparr>"

definition reaches :: "recovery_db \<Rightarrow> bool" where
  "reaches db \<longleftrightarrow> (\<exists>seen. recovery_run mem_env demo_queue seen db)"

lemma reaches_step: "reaches db \<Longrightarrow> (\<And>seen. recovery_step mem_env demo_queue seen T A db db') \<Longrightarrow> reaches db'"
  unfolding reaches_def using recovery_run.step by blast

lemma demo_make_shipments: "make_shipment_ids ''7'' [''1''] = Inr demo_shipments"
  by code_simp

lemma demo_shipments_ok: "well_formed demo_shipments" "plain_request demo_shipments"
  using built_well_formed [OF built_shipments [OF demo_make_shipments]] by simp_all

lemma reaches_admitted: "reaches (shipment_db shipment_job)"
proof -
  have "demo_admit demo_shipments = shipment_db shipment_job"
    by (simp add: enqueue_def admit_transaction_def mem_env_def demo_queue_def empty_queue_def Let_def check_scope_def
        initial_job_def plan_admission_def admit_unit_def check_capacity_def seed_admission_def
        bump_admission_def recoverable_models_def shipment_job_def shipment_db_def)
  with demo_run [OF demo_shipments_ok] show ?thesis by (auto simp: reaches_def)
qed

lemmas shipment_defs = shipment_claimed_def shipment_job_def shipment_failed_def blank_job_def shipment_db_def

lemma reaches_claimed: "reaches (shipment_db (shipment_claimed n))" if "n \<le> 2" for n
  using that
proof (induction n)
  case 0
  let ?c = "take_fields ''t'' 0 shipment_job"
  have "claim_ready demo_queue (\<lambda>_. True) False 0 shipment_job"
    by (simp add: claim_ready_def claim_scope_def shipment_defs demo_queue_def recovery_max_attempts_def recoverable_models_def)
  from reaches_step [OF reaches_admitted recovery_step.claim [where lane = None and history = False and ?t0.0 = "''e''" and t = "''t''"
      and now = 0 and finished_at = 0 and fuel = "Suc 0"]] claim_single [OF this]
  have c: "reaches (shipment_db ?c)" by (simp add: shipment_db_def)
  have "owned ?c 0 ?c" by (simp add: owned_def take_fields_def recovery_lease_def time_defs)
  then have "snd (initialize_shipment_cursor mem_env demo_queue shipment_key ?c 0 [shipment_key \<mapsto> ?c]) =
      [shipment_key \<mapsto> shipment_claimed 0]"
    using demo_make_shipments
    by (simp add: initialize_shipment_cursor_def cursor_binding_def shipment_defs take_fields_def mem_env_def demo_queue_def
        mem_recovery.update_owned_cases [unfolded mem_env_def] recoverable_models_def sorted_ids_def minutes_def seconds_def)
  with reaches_step [OF c recovery_step.cursor [where doc = ?c and t = "''t''" and now = 0 and k = shipment_key]]
  show ?case by (simp add: shipment_db_def take_fields_def)
next
  case (Suc n)
  let ?now = "minutes (10 * int (Suc n))"
  have "claim_ready demo_queue (\<lambda>_. True) False ?now (shipment_claimed n)"
    using Suc.prems by (simp add: claim_ready_def claim_scope_def shipment_defs demo_queue_def recovery_max_attempts_def expired_def
        recoverable_models_def time_defs)
  from reaches_step [OF Suc.IH recovery_step.claim [where lane = None and history = False and ?t0.0 = "''e''" and t = "''t''"
      and now = ?now and finished_at = ?now and fuel = "Suc 0"]] claim_single [OF this] Suc.prems
  show ?case by (simp add: shipment_db_def shipment_claimed_def take_fields_def)
qed

lemma reaches_failed: "reaches (shipment_db shipment_failed)"
proof -
  have c: "reaches (shipment_db (shipment_claimed 2))" by (rule reaches_claimed) simp
  have "finish mem_env shipment_key (shipment_claimed 2) False False ''source_rejected'' None (minutes 20)
      [shipment_key \<mapsto> shipment_claimed 2] = (Inr True, [shipment_key \<mapsto> shipment_failed])"
    by (simp add: finish_def finish_reasons_def finish_fields_def will_retry_def mem_recovery.update_owned_cases owned_def
        shipment_claimed_def shipment_job_def blank_job_def shipment_failed_def recovery_lease_def time_defs)
  with reaches_step [OF c recovery_step.finish [where doc = "shipment_claimed 2" and t = "''t''" and now = "minutes 20"
      and k = shipment_key and succeeded = False and retryable = False and reason = "''source_rejected''" and session = None]]
  show ?thesis by (simp add: shipment_db_def shipment_claimed_def)
qed

theorem exhausted_shipment_never_claimed_witness:
  "\<exists>j'. snd (recovery_claim mem_env demo_queue None False ''e'' ''t'' (minutes 60) (minutes 60) 1
      (rd_jobs (snd (enqueue mem_env demo_queue demo_shipments True (minutes 40) [] (shipment_db shipment_failed))))) shipment_key =
     Some j' \<and> jb_state j' = Pending \<and> jb_attempts j' = 3"
proof -
  let ?db' = "snd (enqueue mem_env demo_queue demo_shipments True (minutes 40) [] (shipment_db shipment_failed))"
  obtain seen where run: "recovery_run mem_env demo_queue seen (shipment_db shipment_failed)"
    using reaches_failed by (auto simp: reaches_def)
  have key: "request_key (rv_hash mem_env) demo_shipments = shipment_key" by (simp add: mem_env_def)
  have j: "rd_jobs (shipment_db shipment_failed) (request_key (rv_hash mem_env) demo_shipments) = Some shipment_failed"
    "jb_state shipment_failed = Failed" "jb_attempts shipment_failed = 3" "jb_shipment_offset shipment_failed = Some 0"
    "jb_authority shipment_failed = rq_authority demo_queue"
    unfolding key by (simp_all add: shipment_defs outcome_fields_def end_attempt_def demo_queue_def)
  have "fst (enqueue mem_env demo_queue demo_shipments True (minutes 40) [] (shipment_db shipment_failed)) = Inr shipment_key"
    by (simp add: enqueue_def admit_transaction_def mem_env_def demo_queue_def Let_def check_scope_def
        initial_job_def plan_admission_def admit_unit_def check_capacity_def seed_admission_def is_live_def
        recoverable_models_def shipment_defs outcome_fields_def end_attempt_def reopen_job_def reopen_cursor_def)
  then have a: "enqueue mem_env demo_queue demo_shipments True (minutes 40) [] (shipment_db shipment_failed) = (Inr shipment_key, ?db')"
    by (simp add: prod_eq_iff)
  have "later mem_env demo_queue (rd_jobs (shipment_db shipment_failed) # seen, ?db')
      (rd_jobs ?db' # rd_jobs (shipment_db shipment_failed) # seen,
       ?db'\<lparr>rd_jobs := snd (recovery_claim mem_env demo_queue None False ''e'' ''t'' (minutes 60) (minutes 60) 1 (rd_jobs ?db'))\<rparr>)"
    unfolding later_def by (intro r_into_rtranclp) (auto intro: recovery_step.claim)
  from exhausted_shipment_never_claimed [OF mem_recovery.recovery_store_axioms run demo_make_shipments _ j a this]
  show ?thesis by (simp add: key)
qed

section \<open>The key of a retried admission\<close>

context recovery_store
begin

lemma retried_admission:
  assumes "check_scope q r = Inr ()" and "rd_jobs db (request_key (rv_hash E) r) = None" and "initial_job E q r now = Inr init"
    and "plan_admission E q r init c0 (request_key (rv_hash E) r) = Inr (AdmitAs k k d)"
    and "plan_admission E q r init (rd_jobs db) k = Inr (AdmitAs k (request_key (rv_hash E) r) init)"
    and "rd_jobs db k = None" and "check_capacity E q r (rd_jobs db) = Inr ()"
  shows "fst (enqueue E q r reopen_terminal now [c0] db) = Inr k"
    and "rd_jobs (snd (enqueue E q r reopen_terminal now [c0] db)) = (rd_jobs db)(request_key (rv_hash E) r \<mapsto> init)"
proof -
  have jobs: "rd_jobs (seed_admission E s db) = rd_jobs db" for s by (simp add: seed_admission_def split: sum.splits)
  have "validate_existing E r None = Inr ()" by (cases r) simp_all
  then show "fst (enqueue E q r reopen_terminal now [c0] db) = Inr k"
    "rd_jobs (snd (enqueue E q r reopen_terminal now [c0] db)) = (rd_jobs db)(request_key (rv_hash E) r \<mapsto> init)"
    using assms
    by (simp_all add: enqueue_def Let_def jobs.base.point_laws admit_transaction_def admit_unit_def jobs bump_admission_def)
qed

end

text \<open>
  A retried admission can return a key without a job: when an aborted attempt narrowed the request and
  the retry finds nothing left to leave out, the whole request is stored under its own key, but the caller
  is given the key of the narrowed one, under which nothing is stored.
\<close>

theorem retried_admission_stale_key:
  assumes "recovery_store E" and "check_scope q r = Inr ()" and "rd_jobs db (request_key (rv_hash E) r) = None"
    and "initial_job E q r now = Inr init"
    and "plan_admission E q r init c0 (request_key (rv_hash E) r) = Inr (AdmitAs k k d)"
    and "plan_admission E q r init (rd_jobs db) k = Inr (AdmitAs k (request_key (rv_hash E) r) init)"
    and "k \<noteq> request_key (rv_hash E) r" and "rd_jobs db k = None" and "check_capacity E q r (rd_jobs db) = Inr ()"
  shows "\<exists>db'. enqueue E q r reopen_terminal now [c0] db = (Inr k, db') \<and> rd_jobs db' k = None \<and>
    rd_jobs db' (request_key (rv_hash E) r) = Some init"
  using recovery_store.retried_admission [OF assms(1-6,8,9), of reopen_terminal] assms(7,8)
  by (cases "enqueue E q r reopen_terminal now [c0] db") simp

abbreviation demo_items :: "string list \<Rightarrow> request" where
  "demo_items ids \<equiv> ItemIdsRequest ''7'' ''item_formula_rows'' ids"

theorem retried_admission_stale_key_witness:
  "\<exists>db'. enqueue mem_env demo_queue (demo_items [''MLA1'', ''MLA2'']) True 9
       [[''x'' \<mapsto> (blank_job ''7'' ''item_formula_rows'' None 0)\<lparr>jb_item_ids := Some [''MLA1'']\<rparr>]] empty_queue =
       (Inr (request_key id (demo_items [''MLA2''])), db') \<and>
     rd_jobs db' (request_key id (demo_items [''MLA2''])) = None"
proof -
  let ?r = "demo_items [''MLA1'', ''MLA2'']" and ?n = "demo_items [''MLA2'']"
  let ?c0 = "[''x'' \<mapsto> (blank_job ''7'' ''item_formula_rows'' None 0)\<lparr>jb_item_ids := Some [''MLA1'']\<rparr>]"
  let ?init = "(blank_job ''7'' ''item_formula_rows'' None 9)\<lparr>jb_item_ids := Some [''MLA1'', ''MLA2'']\<rparr>"
  let ?d = "?init\<lparr>jb_item_ids := Some [''MLA2'']\<rparr>"
  have nr: "make_item_ids ''7'' ''item_formula_rows'' [''MLA2''] = Inr ?n" by code_simp
  have k: "request_key (rv_hash mem_env) r = request_key id r" for r by (simp add: mem_env_def)
  have neq: "request_key id ?n \<noteq> request_key id ?r" by code_simp
  have find0: "mq_find mem_queries Map.empty P n = []" for P :: "job \<Rightarrow> bool" and n
    using mem_q.find_law [of Map.empty P n] by simp
  have scope: "check_scope demo_queue ?r = Inr ()" by (simp add: check_scope_def demo_queue_def recoverable_models_def)
  have init: "initial_job mem_env demo_queue ?r 9 = Inr ?init" by (simp add: initial_job_def demo_queue_def)
  have p0: "plan_admission mem_env demo_queue ?r ?init ?c0 (request_key (rv_hash mem_env) ?r) =
      Inr (AdmitAs (request_key id ?n) (request_key id ?n) ?d)"
    by (simp add: plan_admission_def mem_find_single mem_env_def demo_queue_def blank_job_def is_live_def Let_def nr)
  have p1: "plan_admission mem_env demo_queue ?r ?init (rd_jobs empty_queue) (request_key id ?n) =
      Inr (AdmitAs (request_key id ?n) (request_key (rv_hash mem_env) ?r) ?init)"
    by (simp add: plan_admission_def mem_env_def empty_queue_def find0 Let_def)
  have cap: "check_capacity mem_env demo_queue ?r (rd_jobs empty_queue) = Inr ()"
    by (simp add: check_capacity_def mem_env_def empty_queue_def demo_queue_def Let_def)
  from retried_admission_stale_key [OF mem_recovery.recovery_store_axioms scope _ init p0 p1 _ _ cap, of True] neq k
  show ?thesis by (auto simp: empty_queue_def)
qed

end
