(* ===== verification/HistoryPolicy.thy ===== *)
theory HistoryPolicy
  imports Calendar
begin

text \<open>
  The execution window of a seller's history plan, \<^verbatim>\<open>core/history_onboarding.py\<close>: the query that gates
  an update of the plan and the predicate that mirrors it on a plan already read, and the trace by
  which the gateway (\<^verbatim>\<open>gateway/proxy/router.py\<close>) learns on whose credit a request runs.
\<close>

section \<open>Documents\<close>

text \<open>
  A field of the plan is scalar, a list of scalars, or a document (into which these rules do not look).
  MongoDB applies a comparison of a query to the field and, when it is a list, to its elements; an
  aggregation expression (\<^verbatim>\<open>$expr\<close>) compares the field itself. An integer is one of 32 bits, as the
  driver writes every number of these fields; a 64-bit one would pass the query and be refused by the
  predicate, because the driver decodes it to a proper subclass of \<^verbatim>\<open>int\<close>.
\<close>

datatype plan_value = Scalar bson | Items "bson list" | Subdocument

type_synonym plan_fields = "string \<rightharpoonup> plan_value"

definition candidates :: "plan_value option \<Rightarrow> bson list" where
  "candidates v = (case v of Some (Scalar b) \<Rightarrow> [b] | Some (Items bs) \<Rightarrow> bs | _ \<Rightarrow> [])"

definition some_value :: "(bson \<Rightarrow> bool) \<Rightarrow> plan_value option \<Rightarrow> bool" where
  "some_value P v \<longleftrightarrow> list_ex P (candidates v)"

text \<open>\<^verbatim>\<open>{"$type": ["int", "long"], "$gte": 0}\<close> on one value; each operator may be met by its own element.\<close>

definition int_type :: "bson \<Rightarrow> bool" where
  "int_type b = (case b of BInt _ \<Rightarrow> True | _ \<Rightarrow> False)"

definition gte_zero :: "bson \<Rightarrow> bool" where
  "gte_zero b = (case b of BInt i \<Rightarrow> 0 \<le> i | _ \<Rightarrow> False)"

definition counter_query :: "plan_value option \<Rightarrow> bool" where
  "counter_query v \<longleftrightarrow> some_value int_type v \<and> some_value gte_zero v"

text \<open>
  The order of values that \<^verbatim>\<open>$lt\<close> and \<^verbatim>\<open>$lte\<close> of an expression use, as far as the rules below need it:
  integers by their value; a list is greater than every number. \<open>other\<close> answers for the pairs that no
  guarded query reaches.
\<close>

definition expr_le :: "(plan_value \<Rightarrow> plan_value \<Rightarrow> bool) \<Rightarrow> plan_value \<Rightarrow> plan_value \<Rightarrow> bool" where
  "expr_le other a b = (case (a, b) of (Scalar (BInt x), Scalar (BInt y)) \<Rightarrow> x \<le> y | _ \<Rightarrow> other a b)"

definition expr_lt :: "(plan_value \<Rightarrow> plan_value \<Rightarrow> bool) \<Rightarrow> plan_value \<Rightarrow> plan_value \<Rightarrow> bool" where
  "expr_lt other a b = (case (a, b) of (Scalar (BInt x), Scalar (BInt y)) \<Rightarrow> x < y | _ \<Rightarrow> other a b)"

section \<open>The execution window\<close>

text \<open>A stored date has milliseconds, and so has the date of a query: the driver drops the rest.\<close>

definition bson_ms :: "instant \<Rightarrow> instant" where
  "bson_ms t = t - t mod 1000"

definition after_query :: "instant \<Rightarrow> bson \<Rightarrow> bool" where
  "after_query now b = (case b of BDate d \<Rightarrow> bson_ms now < utc_of d | _ \<Rightarrow> False)"

definition date_text :: "instant \<Rightarrow> string" where
  "date_text t = (case civil_from_days (t div day_us) of (y, m, d) \<Rightarrow> pad 4 y @ ''-'' @ pad 2 m @ ''-'' @ pad 2 d)"

definition history_execution_query ::
  "(plan_value \<Rightarrow> plan_value \<Rightarrow> bool) \<Rightarrow> instant \<Rightarrow> bool \<Rightarrow> plan_fields \<Rightarrow> bool" where
  "history_execution_query other now charged p \<longleftrightarrow>
    (p ''execution_until'' = None \<or> some_value (after_query now) (p ''execution_until'')) \<and>
    (p ''execution_utc_day'' = None \<or> some_value (\<lambda>b. b = BStr (date_text now)) (p ''execution_utc_day'')) \<and>
    (case p ''execution_attempt_limit'' of
       None \<Rightarrow> True
     | Some limit \<Rightarrow>
         counter_query (Some limit) \<and>
         (p ''execution_consumed'' = None \<or> counter_query (p ''execution_consumed'')) \<and>
         (let consumed = (case p ''execution_consumed'' of
                None \<Rightarrow> Scalar (BInt 0) | Some (Scalar BNull) \<Rightarrow> Scalar (BInt 0) | Some v \<Rightarrow> v)
          in if charged then expr_le other consumed limit else expr_lt other consumed limit))"

definition history_execution_allowed :: "instant \<Rightarrow> bool \<Rightarrow> plan_fields \<Rightarrow> bool" where
  "history_execution_allowed now charged p \<longleftrightarrow>
    (case p ''execution_until'' of
       None \<Rightarrow> True
     | Some (Scalar (BDate d)) \<Rightarrow> \<not> utc_of d \<le> now
     | Some _ \<Rightarrow> False) \<and>
    (case p ''execution_utc_day'' of None \<Rightarrow> True | Some v \<Rightarrow> v = Scalar (BStr (date_text now))) \<and>
    (case p ''execution_attempt_limit'' of
       None \<Rightarrow> True
     | Some limit \<Rightarrow>
         (case (limit, case p ''execution_consumed'' of None \<Rightarrow> Scalar (BInt 0) | Some v \<Rightarrow> v) of
            (Scalar (BInt l), Scalar (BInt c)) \<Rightarrow> 0 \<le> l \<and> 0 \<le> c \<and> \<not> (l < c \<or> c = l \<and> \<not> charged)
          | _ \<Rightarrow> False))"

text \<open>The four fields the rules read, their shape, and the precision of a stored date.\<close>

definition window_fields :: "string list" where
  "window_fields = [''execution_until'', ''execution_utc_day'', ''execution_attempt_limit'', ''execution_consumed'']"

definition no_lists :: "plan_fields \<Rightarrow> bool" where
  "no_lists p \<longleftrightarrow> list_all (\<lambda>k. case p k of Some (Items _) \<Rightarrow> False | _ \<Rightarrow> True) window_fields"

definition stored_dates :: "plan_fields \<Rightarrow> bool" where
  "stored_dates p \<longleftrightarrow> (case p ''execution_until'' of Some (Scalar (BDate d)) \<Rightarrow> utc_of d mod 1000 = 0 | _ \<Rightarrow> True)"

lemma bson_ms_less: "u mod 1000 = 0 \<Longrightarrow> bson_ms now < u \<longleftrightarrow> now < u"
proof
  assume u: "u mod 1000 = 0" and l: "bson_ms now < u"
  show "now < u"
  proof (rule ccontr)
    assume "\<not> now < u"
    then have "u div 1000 \<le> now div 1000" by (intro zdiv_mono1) simp_all
    moreover have "u div 1000 * 1000 = u" "now div 1000 * 1000 = bson_ms now"
      using u by (auto simp: bson_ms_def minus_mod_eq_div_mult)
    ultimately show False using l by linarith
  qed
next
  assume "now < u"
  then show "bson_ms now < u" using pos_mod_sign [of 1000 now] unfolding bson_ms_def by linarith
qed

lemma some_scalar [simp]:
  "some_value P (Some (Scalar b)) = P b" "some_value P (Some Subdocument) = False" "some_value P None = False"
  by (simp_all add: some_value_def candidates_def)

text \<open>One conjunct at a time: the deadline, the day, the limit.\<close>

lemma until_iff:
  assumes "\<not> (\<exists>bs. v = Some (Items bs))" and "\<And>d. v = Some (Scalar (BDate d)) \<Longrightarrow> utc_of d mod 1000 = 0"
  shows "(v = None \<or> some_value (after_query now) v) \<longleftrightarrow>
    (case v of None \<Rightarrow> True | Some (Scalar (BDate d)) \<Rightarrow> \<not> utc_of d \<le> now | Some _ \<Rightarrow> False)"
  using assms bson_ms_less by (auto simp: after_query_def not_le split: option.splits plan_value.splits bson.splits)

lemma day_iff:
  assumes "\<not> (\<exists>bs. v = Some (Items bs))"
  shows "(v = None \<or> some_value (\<lambda>b. b = BStr t) v) \<longleftrightarrow> (case v of None \<Rightarrow> True | Some v \<Rightarrow> v = Scalar (BStr t))"
proof (cases v)
  case (Some a)
  with assms show ?thesis by (cases a) auto
qed simp

lemma limit_iff:
  assumes "\<not> (\<exists>bs. l = Items bs)" and "\<not> (\<exists>bs. c = Some (Items bs))"
  shows "(counter_query (Some l) \<and> (c = None \<or> counter_query c) \<and>
      (let consumed = (case c of None \<Rightarrow> Scalar (BInt 0) | Some (Scalar BNull) \<Rightarrow> Scalar (BInt 0) | Some v \<Rightarrow> v)
       in if charged then expr_le other consumed l else expr_lt other consumed l)) \<longleftrightarrow>
    (case (l, case c of None \<Rightarrow> Scalar (BInt 0) | Some v \<Rightarrow> v) of
       (Scalar (BInt l), Scalar (BInt c)) \<Rightarrow> 0 \<le> l \<and> 0 \<le> c \<and> \<not> (l < c \<or> c = l \<and> \<not> charged)
     | _ \<Rightarrow> False)"
proof (cases l)
  case (Scalar b)
  show ?thesis
  proof (cases c)
    case None
    with Scalar show ?thesis
      by (cases b) (auto simp: counter_query_def int_type_def gte_zero_def expr_le_def expr_lt_def)
  next
    case (Some v)
    then show ?thesis
    proof (cases v)
      case (Scalar b')
      with Some \<open>l = Scalar b\<close> show ?thesis
        by (cases b; cases b') (auto simp: counter_query_def int_type_def gte_zero_def expr_le_def expr_lt_def)
    qed (use assms(2) Some \<open>l = Scalar b\<close> in \<open>auto simp: counter_query_def split: bson.splits\<close>)
  qed
qed (use assms(1) in \<open>auto simp: counter_query_def\<close>)


definition demo_window :: plan_fields where
  "demo_window = [''execution_until'' \<mapsto> Scalar (BDate (Naive 5000)), ''execution_attempt_limit'' \<mapsto> Scalar (BInt 3),
     ''execution_consumed'' \<mapsto> Scalar (BInt 3)]"


section \<open>Traces\<close>

definition history_sources :: "string list" where
  "history_sources = [''orders'', ''questions'', ''shipments'', ''messages'', ''claims_returns'', ''full_withdrawals'']"

definition history_request_trace :: "bson option \<Rightarrow> string \<Rightarrow> bool \<Rightarrow> (string, string option) result" where
  "history_request_trace execution_id source incremental = (case execution_id of
     None \<Rightarrow> Inr None
   | Some BNull \<Rightarrow> Inr None
   | Some (BStr e) \<Rightarrow>
       if is_hex32 e \<and> source \<in> set (butlast history_sources)
       then Inr (Some (''h1-'' @ e @ '':'' @ source @ '':'' @ (if incremental then ''maintenance'' else ''initial'')))
       else Inl ''invalid history execution trace identity or source''
   | Some _ \<Rightarrow> Inl ''invalid history execution trace identity or source'')"

text \<open>
  The gateway's side: the header is a trace when it matches the pattern (for a read of one of two
  modules with the proxy's retries off), and its parts are those between the colons.
\<close>

definition trace_parts :: "string \<Rightarrow> (string \<times> string \<times> string) option" where
  "trace_parts value = (case split_on (CHR '':'') (drop 3 value) of
     [e, s, ph] \<Rightarrow> if starts_with ''h1-'' value \<and> is_hex32 e \<and> s \<in> set (butlast history_sources) \<and>
                      ph \<in> {''initial'', ''maintenance''}
                   then Some (e, s, ph) else None
   | _ \<Rightarrow> None)"

definition history_trace :: "string \<Rightarrow> string \<Rightarrow> string option \<Rightarrow> string \<Rightarrow> (string \<times> string \<times> string) option" where
  "history_trace module_id http_method proxy_retry header =
    (if module_id \<in> {''bootstrap'', ''sheets''} \<and> http_method = ''GET'' \<and> proxy_retry = Some ''disabled''
     then trace_parts header else None)"

lemma split_on_plain: "d \<notin> set a \<Longrightarrow> split_on d a = [a]"
  by (induction a) auto

lemma split_on_append: "d \<notin> set a \<Longrightarrow> split_on d (a @ d # b) = a # split_on d b"
  by (induction a) auto

text \<open>
  The trace a module attaches to a request is the one the gateway reads: it matches the gateway's
  pattern and splits back into the plan's execution, the source and the phase.
\<close>

theorem trace_roundtrip:
  assumes "history_request_trace x source incremental = Inr (Some t)" and "module_id \<in> {''bootstrap'', ''sheets''}"
  shows "\<exists>e. x = Some (BStr e) \<and>
    history_trace module_id ''GET'' (Some ''disabled'') t = Some (e, source, if incremental then ''maintenance'' else ''initial'')"
proof -
  obtain e where e: "x = Some (BStr e)" "is_hex32 e" "source \<in> set (butlast history_sources)"
      "t = ''h1-'' @ e @ '':'' @ source @ '':'' @ (if incremental then ''maintenance'' else ''initial'')"
    using assms(1) by (auto simp: history_request_trace_def split: option.splits bson.splits if_splits)
  have "\<not> is_hex_lower (CHR '':'')" by (simp add: is_hex_lower_def is_digit_def)
  then have ne: "CHR '':'' \<notin> set e" using e(2) unfolding is_hex32_def list_all_iff by blast
  have ns: "CHR '':'' \<notin> set source" using e(3) by (auto simp: history_sources_def)
  have "drop 3 t = e @ CHR '':'' # source @ CHR '':'' # (if incremental then ''maintenance'' else ''initial'')"
    by (simp add: e(4))
  then have "split_on (CHR '':'') (drop 3 t) = [e, source, if incremental then ''maintenance'' else ''initial'']"
    by (simp only: split_on_append [OF ne] split_on_append [OF ns]) (simp add: split_on_plain)
  with e assms(2) show ?thesis by (auto simp: history_trace_def trace_parts_def starts_with_def)
qed

theorem trace_roundtrip_witness:
  "history_trace ''sheets'' ''GET'' (Some ''disabled'') (''h1-'' @ replicate 32 (CHR ''a'') @ '':orders:initial'') =
     Some (replicate 32 (CHR ''a''), ''orders'', ''initial'')"
proof -
  have "is_hex32 (replicate 32 (CHR ''a''))" by code_simp
  then have "history_request_trace (Some (BStr (replicate 32 (CHR ''a'')))) ''orders'' False =
      Inr (Some (''h1-'' @ replicate 32 (CHR ''a'') @ '':orders:initial''))"
    by (simp add: history_request_trace_def history_sources_def)
  from trace_roundtrip [OF this, of "''sheets''"] show ?thesis by simp
qed

end
