(* ===== verification/HistoryWork.thy ===== *)
theory HistoryWork
  imports WebhookClassifier EventClaims
begin

text \<open>
  The authority of a maintenance request, \<^verbatim>\<open>core/history_work_intent.py\<close>: a receipt names a stored
  notification, the claim its worker holds on it and, for a sync job, the job's attempt; it is valid
  only while all of them are live. The claims are those of \<^verbatim>\<open>EventClaimStore\<close>, the key is the one the
  gateway's classifier published the notification under.
\<close>

section \<open>Paths and notifications\<close>

definition work_consumer :: string where
  "work_consumer = ''zeler.sheets.events''"

definition history_topics :: "(string \<times> string \<times> string) list" where
  "history_topics = [
     (''orders_v2'', ''orders.updated'', ''orders''), (''orders.updated'', ''orders.updated'', ''orders''),
     (''questions'', ''questions.new'', ''questions''), (''questions.new'', ''questions.new'', ''questions''),
     (''shipments'', ''shipments.updated'', ''shipments''), (''shipments.updated'', ''shipments.updated'', ''shipments''),
     (''messages'', ''messages.new'', ''messages''), (''messages.new'', ''messages.new'', ''messages'')]"

definition work_sources :: "string list" where
  "work_sources = [''orders'', ''questions'', ''shipments'', ''messages'', ''claims_returns'']"

text \<open>The patterns of \<^verbatim>\<open>PATHS\<close>, segment by segment.\<close>

definition path_matches :: "string \<Rightarrow> string \<Rightarrow> bool" where
  "path_matches source path = (case split_on (CHR ''/'') path of
     [[], a, i] \<Rightarrow>
       all_digits i \<and> (a = ''orders'' \<and> source \<in> {''orders'', ''claims_returns''} \<or>
                       a = ''questions'' \<and> source = ''questions'' \<or> a = ''shipments'' \<and> source = ''shipments'')
   | [[], a, i, part] \<Rightarrow>
       source = ''shipments'' \<and> a = ''shipments'' \<and> all_digits i \<and> part \<in> {''costs'', ''payments''}
   | [[], a, b, c, i] \<Rightarrow>
       source = ''claims_returns'' \<and> a = ''post-purchase'' \<and> b = ''v1'' \<and> c = ''claims'' \<and> all_digits i
   | [[], a, b, i, d, j] \<Rightarrow>
       source = ''messages'' \<and> a = ''messages'' \<and> b = ''packs'' \<and> all_digits i \<and> d = ''sellers'' \<and> all_digits j \<or>
       source = ''claims_returns'' \<and> a = ''post-purchase'' \<and> b = ''v2'' \<and> i = ''claims'' \<and> all_digits d \<and> j = ''returns''
   | _ \<Rightarrow> False)"

definition normalize_history_event :: "event \<Rightarrow> (string \<times> string \<times> string) option" where
  "normalize_history_event ev =
    (let topic = (if truthy (get ev ''topic'') then get ev ''topic'' else get ev ''classification'') in
     case get ev ''resource'' of
       VStr resource \<Rightarrow>
         (let value =
            (if topic = VStr ''post_purchase''
             then let actions = event_actions ev in
                  if claim_resource resource \<noteq> None \<and> actions = VList [VStr ''claims'']
                  then Some (''claims.updated'', resource, ''claims_returns'')
                  else (case claim_actions_resource resource of
                          Some i \<Rightarrow> if actions = VList [VStr ''claims_actions'']
                                    then Some (''claims.updated'', claim_prefix @ i, ''claims_returns'') else None
                        | None \<Rightarrow> None)
             else (case topic of
                     VStr t \<Rightarrow> (case map_of history_topics t of
                        Some (event_type, source) \<Rightarrow>
                          if path_matches source resource then Some (event_type, resource, source) else None
                      | None \<Rightarrow> None)
                   | _ \<Rightarrow> None))
          in case value of
               None \<Rightarrow> None
             | Some (event_type, r, s) \<Rightarrow>
                 (let c = get ev ''classification'' in
                  if c = VNone \<or> c = topic \<or> c = VStr event_type then Some (event_type, r, s) else None))
     | _ \<Rightarrow> None)"

section \<open>Receipts\<close>

record claim_identity =
  ci_module_id :: string
  ci_consumer_id :: string
  ci_owner_token :: string
  ci_processing_key :: string

record job_identity_ref =
  ji_id :: string
  ji_attempt_token :: string
  ji_fence :: int

record work_receipt =
  wr_event_id :: string
  wr_seller :: string
  wr_event_type :: string
  wr_resource :: string
  wr_source :: string
  wr_phase :: string
  wr_path :: string
  wr_identity :: "claim_identity option"
  wr_job :: "job_identity_ref option"
  wr_credit :: int
  wr_sent :: int

record sync_job =
  sj_attempt_token :: string
  sj_fence :: int
  sj_state :: string
  sj_seller :: string
  sj_lease_until :: instant
  sj_requested_at :: instant
  sj_delta_through_at :: instant
  sj_dispatch_fence :: "int option"

record work_db =
  wk_events :: "event coll"
  wk_claims :: "claim_doc coll"
  wk_jobs :: "sync_job coll"

record work_env =
  we_text :: "pyval \<Rightarrow> string"
  we_events :: "event mongo"
  we_claims :: "claim_doc mongo"
  we_jobs :: "sync_job mongo"

text \<open>\<^verbatim>\<open>re.fullmatch("[0-9]{1,20}", s)\<close> and \<^verbatim>\<open>str(int(s)) == s\<close>.\<close>

definition canonical_seller :: "string \<Rightarrow> bool" where
  "canonical_seller s \<longleftrightarrow> all_digits s \<and> length s \<le> 20 \<and> nat_str (digits_nat s) = s"

definition receipt_shape :: "work_receipt \<Rightarrow> bool" where
  "receipt_shape r \<longleftrightarrow>
     list_all (\<lambda>s. s \<noteq> []) [wr_event_id r, wr_seller r, wr_event_type r, wr_resource r, wr_source r, wr_path r] \<and>
     canonical_seller (wr_seller r) \<and> wr_phase r = ''maintenance'' \<and> wr_source r \<in> set work_sources \<and>
     path_matches (wr_source r) (wr_path r) \<and>
     (wr_source r = ''messages'' \<longrightarrow> ends_with (''/sellers/'' @ wr_seller r) (wr_path r)) \<and>
     (case wr_identity r of None \<Rightarrow> False | Some i \<Rightarrow>
        ci_module_id i = ''sheets'' \<and> ci_consumer_id i = work_consumer \<and> is_hex32 (ci_owner_token i)) \<and>
     (case wr_job r of None \<Rightarrow> True | Some j \<Rightarrow> ji_id j \<noteq> [] \<and> is_hex32 (ji_attempt_token j) \<and> 1 \<le> ji_fence j)"

definition work_key :: "string \<Rightarrow> work_receipt \<Rightarrow> string" where
  "work_key topic r = (case wr_job r of
     Some j \<Rightarrow> ''sync-job:'' @ ji_id j @ '':'' @ wr_event_id r
   | None \<Rightarrow> topic @ '':'' @ wr_resource r @ '':'' @ wr_event_id r)"

definition event_matches :: "(pyval \<Rightarrow> string) \<Rightarrow> work_receipt \<Rightarrow> event \<Rightarrow> bool" where
  "event_matches R r ev \<longleftrightarrow> get ev ''_id'' = VStr (wr_event_id r) \<and> py_str R (get ev ''user_id'') = wr_seller r \<and>
     normalize_history_event ev = Some (wr_event_type r, wr_resource r, wr_source r)"

definition live_claim :: "string \<Rightarrow> claim_identity \<Rightarrow> instant \<Rightarrow> claim_doc \<Rightarrow> bool" where
  "live_claim key i now d \<longleftrightarrow> cd_owner_token d = ci_owner_token i \<and> cd_module_id d = ''sheets'' \<and>
     cd_consumer_id d = work_consumer \<and> cd_idempotency_key d = key \<and> now < cd_expires_at d"

definition live_job :: "work_receipt \<Rightarrow> job_identity_ref \<Rightarrow> instant \<Rightarrow> sync_job \<Rightarrow> bool" where
  "live_job r j now d \<longleftrightarrow> sj_attempt_token d = ji_attempt_token j \<and> sj_fence d = ji_fence j \<and>
     sj_state d = ''running'' \<and> sj_seller d = wr_seller r \<and> now < sj_lease_until d"

definition job_window :: "event \<Rightarrow> sync_job \<Rightarrow> bool" where
  "job_window ev d = (case get ev ''received_at'' of
     VDate t \<Rightarrow> sj_requested_at d \<le> utc_of t \<and> utc_of t \<le> sj_delta_through_at d
   | _ \<Rightarrow> False)"

definition bump_fence :: "int option \<Rightarrow> int option" where
  "bump_fence f = Some (case f of None \<Rightarrow> 1 | Some n \<Rightarrow> n + 1)"

text \<open>
  \<^verbatim>\<open>validate_history_work_receipt\<close>. Every failure is the same error; \<open>touch\<close> also writes the claim and
  the job, inside the caller's transaction (\<open>session\<close>), so that a takeover conflicts with it.
\<close>

definition read_live ::
  "work_env \<Rightarrow> work_receipt \<Rightarrow> instant \<Rightarrow> work_db \<Rightarrow> (string \<times> claim_identity) option" where
  "read_live W r now db =
    (if \<not> receipt_shape r then None
     else case (wr_identity r, find_one (we_events W) (wk_events db) (wr_event_id r) (\<lambda>_. True)) of
       (Some i, Some ev) \<Rightarrow>
         (case get ev ''topic'' of
            VStr topic \<Rightarrow>
              (let key = work_key topic r in
               if \<not> event_matches (we_text W) r ev \<or> topic = [] \<or> ci_processing_key i \<noteq> key then None
               else if find_one (we_claims W) (wk_claims db) (scoped_processed_event_id key work_consumer) (live_claim key i now) = None
               then None
               else (case wr_job r of
                       None \<Rightarrow> Some (key, i)
                     | Some j \<Rightarrow>
                         (case find_one (we_jobs W) (wk_jobs db) (ji_id j) (live_job r j now) of
                            None \<Rightarrow> None
                          | Some d \<Rightarrow> if job_window ev d then Some (key, i) else None)))
          | _ \<Rightarrow> None)
     | _ \<Rightarrow> None)"

definition touch_owners ::
  "work_env \<Rightarrow> work_receipt \<Rightarrow> string \<Rightarrow> claim_identity \<Rightarrow> instant \<Rightarrow> work_db \<Rightarrow> work_db option" where
  "touch_owners W r key i now db =
    (case find_one_and_update (we_claims W) (wk_claims db) (scoped_processed_event_id key work_consumer) (live_claim key i now)
            (\<lambda>d. d\<lparr>cd_history_dispatch_fence := bump_fence (cd_history_dispatch_fence d)\<rparr>) of
       (None, _) \<Rightarrow> None
     | (Some _, claims) \<Rightarrow>
         (case wr_job r of
            None \<Rightarrow> Some (db\<lparr>wk_claims := claims\<rparr>)
          | Some j \<Rightarrow>
              (case find_one_and_update (we_jobs W) (wk_jobs db) (ji_id j) (live_job r j now)
                      (\<lambda>d. d\<lparr>sj_dispatch_fence := bump_fence (sj_dispatch_fence d)\<rparr>) of
                 (None, _) \<Rightarrow> None
               | (Some _, jobs) \<Rightarrow> Some (db\<lparr>wk_claims := claims, wk_jobs := jobs\<rparr>))))"

definition validate_history_work_receipt ::
  "work_env \<Rightarrow> work_receipt \<Rightarrow> instant \<Rightarrow> bool \<Rightarrow> bool \<Rightarrow> work_db \<Rightarrow> work_db option" where
  "validate_history_work_receipt W r now session touch db =
    (case read_live W r now db of
       None \<Rightarrow> None
     | Some (key, i) \<Rightarrow>
         if touch \<and> \<not> session then None
         else if touch then touch_owners W r key i now db
         else Some db)"

text \<open>\<^verbatim>\<open>resolve_history_work_intent\<close> builds the receipt of a delivery and validates it.\<close>

definition resolve_history_work_intent ::
  "work_env \<Rightarrow> string \<Rightarrow> string \<Rightarrow> string \<Rightarrow> string \<Rightarrow> claim_identity option \<Rightarrow> job_identity_ref option \<Rightarrow> instant \<Rightarrow> work_db \<Rightarrow>
   work_receipt option" where
  "resolve_history_work_intent W event seller event_type res identity job now db =
    (case (identity, map_option normalize_history_event (find_one (we_events W) (wk_events db) event (\<lambda>_. True))) of
       (Some i, Some (Some (_, _, source))) \<Rightarrow>
         (let r = \<lparr>wr_event_id = event, wr_seller = seller, wr_event_type = event_type, wr_resource = res,
                   wr_source = source, wr_phase = ''maintenance'', wr_path = res, wr_identity = Some i,
                   wr_job = job, wr_credit = 1, wr_sent = 0\<rparr>
          in if validate_history_work_receipt W r now False False db = None then None else Some r)
     | _ \<Rightarrow> None)"

section \<open>Agreement with the gateway\<close>

definition published_topics :: "string list" where
  "published_topics = [''orders_v2'', ''questions'', ''shipments'', ''messages'', ''post_purchase'']"

text \<open>The acquisition and the gateway read a notification alike: same type, same resource.\<close>

lemma claim_resource_shape: "claim_resource s = Some i \<Longrightarrow> s = claim_prefix @ i"
  unfolding claim_resource_def Let_def starts_with_def by (metis append_take_drop_id option.distinct(1) option.inject)

lemma normalize_text:
  "normalize_history_event ev = Some (ty, res, src) \<Longrightarrow> \<exists>s. get ev ''resource'' = VStr s \<and> get_text R ev ''resource'' = s"
  by (auto simp: normalize_history_event_def get_def get_text_def py_str_def split: pyval.splits option.splits)

lemma normalize_claims:
  assumes n: "normalize_history_event ev = Some (ty, res, src)" and t: "get ev ''topic'' = VStr ''post_purchase''"
  shows "ty = ''claims.updated'' \<and> normalize_post_purchase_claim_event R ev = Inr res"
proof -
  obtain s where s: "get ev ''resource'' = VStr s" "get_text R ev ''resource'' = s" using normalize_text [OF n] by blast
  show ?thesis using n t s
    by (auto simp: normalize_history_event_def normalize_post_purchase_claim_event_def truthy_def Let_def
        split: if_splits option.splits)
qed

lemma topics_agree: "list_all (\<lambda>t. t \<noteq> [] \<and> (t = ''post_purchase'' \<or>
    map_option fst (map_of history_topics t) = map_of topic_routing_keys t)) published_topics"
  by code_simp

lemma normalize_plain:
  assumes n: "normalize_history_event ev = Some (ty, res, src)" and t: "get ev ''topic'' = VStr t"
    and p: "t \<in> set published_topics" "t \<noteq> ''post_purchase''"
  shows "map_of topic_routing_keys t = Some ty \<and> get_text R ev ''resource'' = res"
proof -
  obtain s where s: "get ev ''resource'' = VStr s" "get_text R ev ''resource'' = s" using normalize_text [OF n] by blast
  have h: "t \<noteq> []" "map_option fst (map_of history_topics t) = map_of topic_routing_keys t"
    using topics_agree p by (auto simp: list_all_iff)
  from h(1) h(2) [symmetric] show ?thesis using n t s p(2)
    by (auto simp: normalize_history_event_def truthy_def Let_def split: if_splits option.splits)
qed

lemma normalize_classified:
  assumes n: "normalize_history_event ev = Some (ty, res, src)" and t: "get ev ''topic'' = VStr t"
    and p: "t \<in> set published_topics" and i: "event_id R ev = Inr i"
  shows "\<exists>c. classify_webhook_event R ev = Inr c \<and> cw_event_type c = ty \<and> cw_resource c = res \<and>
    cw_idempotency_key c = t @ '':'' @ res @ '':'' @ i"
proof -
  have tt: "get_text R ev ''topic'' = t" using t by (auto simp: get_def get_text_def py_str_def split: option.splits)
  show ?thesis
  proof (cases "t = ''post_purchase''")
    case True
    with normalize_claims [OF n, of R] t tt i show ?thesis by (auto simp: classify_webhook_event_def Let_def)
  next
    case False
    with normalize_plain [OF n t p False, of R] tt i show ?thesis by (auto simp: classify_webhook_event_def Let_def)
  qed
qed

section \<open>What a valid receipt proves\<close>

locale work_store =
  fixes W :: work_env
  assumes events_ok: "mongo_collection (we_events W)"
    and claims_ok: "mongo_collection (we_claims W)"
    and jobs_ok: "mongo_collection (we_jobs W)"
begin

sublocale events: mongo_collection "we_events W" by (rule events_ok)
sublocale claims: mongo_collection "we_claims W" by (rule claims_ok)
sublocale jobs: mongo_collection "we_jobs W" by (rule jobs_ok)

lemma find_claim:
  "find_one (we_claims W) c k P = (case c k of Some d \<Rightarrow> if P d then Some d else None | None \<Rightarrow> None)"
  by (simp add: claims.find_one_law matches_def split: option.splits)

lemma find_job:
  "find_one (we_jobs W) c' k Q = (case c' k of Some d \<Rightarrow> if Q d then Some d else None | None \<Rightarrow> None)"
  by (simp add: jobs.find_one_law matches_def split: option.splits)

lemma read_live_Some:
  assumes "read_live W r now db = Some (key, i)"
  shows "\<exists>ev topic d. receipt_shape r \<and> wr_identity r = Some i \<and> wk_events db (wr_event_id r) = Some ev \<and>
    get ev ''topic'' = VStr topic \<and> topic \<noteq> [] \<and> event_matches (we_text W) r ev \<and> key = work_key topic r \<and>
    ci_processing_key i = key \<and> wk_claims db (scoped_processed_event_id key work_consumer) = Some d \<and> live_claim key i now d \<and>
    (\<forall>j. wr_job r = Some j \<longrightarrow> (\<exists>s. wk_jobs db (ji_id j) = Some s \<and> live_job r j now s \<and> job_window ev s))"
  using assms
  by (auto simp: read_live_def events.find_one_law find_claim find_job Let_def split: if_splits option.splits pyval.splits)

lemma validate_Some:
  assumes v: "validate_history_work_receipt W r now session touch db = Some db'"
  shows "\<exists>key i. read_live W r now db = Some (key, i) \<and>
    (if touch then session \<and> touch_owners W r key i now db = Some db' else db' = db)"
  using v by (auto simp: validate_history_work_receipt_def split: option.splits if_splits)

lemma touch_owners_Some:
  assumes "touch_owners W r key i now db = Some db'"
  shows "\<exists>d. wk_claims db (scoped_processed_event_id key work_consumer) = Some d \<and>
    wk_claims db' = (wk_claims db)(scoped_processed_event_id key work_consumer \<mapsto>
      d\<lparr>cd_history_dispatch_fence := bump_fence (cd_history_dispatch_fence d)\<rparr>) \<and> wk_events db' = wk_events db"
  using assms
  by (auto simp: touch_owners_def claims.find_one_and_update_law matches_def split: option.splits if_splits prod.splits)

end

definition mem_work :: work_env where
  "mem_work = \<lparr>we_text = (\<lambda>_. []), we_events = mem_mongo, we_claims = mem_mongo, we_jobs = mem_mongo\<rparr>"

interpretation mem_work: work_store mem_work
  by (intro work_store.intro) (simp_all add: mem_work_def mem.mongo_collection_axioms)


definition demo_notice :: event where
  "demo_notice = [(''_id'', VStr ''n1''), (''topic'', VStr ''orders_v2''), (''user_id'', VInt 7), (''resource'', VStr ''/orders/12'')]"

definition demo_token :: string where
  "demo_token = replicate 32 (CHR ''a'')"

definition demo_receipt :: work_receipt where
  "demo_receipt = \<lparr>wr_event_id = ''n1'', wr_seller = ''7'', wr_event_type = ''orders.updated'', wr_resource = ''/orders/12'',
     wr_source = ''orders'', wr_phase = ''maintenance'', wr_path = ''/orders/12'',
     wr_identity = Some \<lparr>ci_module_id = ''sheets'', ci_consumer_id = work_consumer, ci_owner_token = demo_token,
       ci_processing_key = ''orders_v2:/orders/12:n1''\<rparr>,
     wr_job = None, wr_credit = 1, wr_sent = 0\<rparr>"

definition demo_work :: work_db where
  "demo_work = \<lparr>wk_events = [''n1'' \<mapsto> demo_notice],
     wk_claims = [scoped_processed_event_id ''orders_v2:/orders/12:n1'' work_consumer \<mapsto>
       \<lparr>cd_idempotency_key = ''orders_v2:/orders/12:n1'', cd_module_id = ''sheets'', cd_consumer_id = work_consumer,
        cd_owner_token = demo_token, cd_claimed_at = 0, cd_expires_at = 100, cd_history_dispatch_fence = None\<rparr>],
     wk_jobs = Map.empty\<rparr>"

lemma demo_receipt_shape: "receipt_shape demo_receipt" "event_matches (\<lambda>_. []) demo_receipt demo_notice"
  "get demo_notice ''topic'' = VStr ''orders_v2''"
  by code_simp+

lemma demo_receipt_live: "validate_history_work_receipt mem_work demo_receipt 50 True True demo_work \<noteq> None"
  using demo_receipt_shape
  by (simp add: validate_history_work_receipt_def read_live_def touch_owners_def mem_work_def demo_work_def live_claim_def
      demo_receipt_def work_key_def Let_def)


end
