(* ===== verification/HistoryCredit.thy ===== *)
theory HistoryCredit
  imports HistoryPolicy HistoryWork
begin

text \<open>
  The prepaid budget of a history plan across two services: the spreadsheet module charges an attempt
  on the plan before it asks for it (\<^verbatim>\<open>PlanBudgetGateway.charge\<close> in
  \<^verbatim>\<open>modules/sheets/src/zeler_sheets/history_onboarding.py\<close>), and the gateway turns the credit into one
  permitted transport (\<^verbatim>\<open>_reserve_history_send\<close> and \<^verbatim>\<open>_reserve_pilot_get_send\<close> in
  \<^verbatim>\<open>gateway/proxy/router.py\<close>, \<^verbatim>\<open>reserve_history_work_send\<close> in \<^verbatim>\<open>core/history_work_intent.py\<close>).
\<close>

section \<open>Plans\<close>

text \<open>
  \<open>pl_fields\<close> holds the plan's fields at the top level with their types; \<open>pl_counts\<close> its nested
  counters and daily counters by path, which are integers where they exist; \<open>pl_work\<close> the receipts of
  \<^verbatim>\<open>execution_work\<close> by their nonce.
\<close>

record plan =
  pl_seller_id :: string
  pl_fields :: plan_fields
  pl_authority_kind :: "string option"
  pl_sources :: "string list"
  pl_counts :: "string list \<rightharpoonup> int"
  pl_work :: "string \<rightharpoonup> work_receipt"

datatype credit_error = HistoryPolicyWait string | HistoryPolicyRejected | PilotGetBudgetWait string
  | PlanWriteError | PlanValueError string

text \<open>\<open>cv_other\<close> is the database's comparison of the pairs of values that no guarded query reaches.\<close>

record credit_env =
  cv_plans :: "plan mongo"
  cv_work :: work_env
  cv_other :: "plan_value \<Rightarrow> plan_value \<Rightarrow> bool"

definition policy_version :: string where
  "policy_version = ''history-on-link-v1''"

definition field_eq :: "string \<Rightarrow> bson \<Rightarrow> plan \<Rightarrow> bool" where
  "field_eq k b p \<longleftrightarrow> some_value (\<lambda>x. x = b) (pl_fields p k)"

text \<open>A filter on a value that may be null: null also matches an absent field.\<close>

definition execution_filter :: "bson option \<Rightarrow> plan \<Rightarrow> bool" where
  "execution_filter x p = (case x of
     None \<Rightarrow> pl_fields p ''execution_id'' = None \<or> field_eq ''execution_id'' BNull p
   | Some b \<Rightarrow> field_eq ''execution_id'' b p \<or> b = BNull \<and> pl_fields p ''execution_id'' = None)"

definition owns_plan :: "credit_env \<Rightarrow> string \<Rightarrow> string \<Rightarrow> bson option \<Rightarrow> instant \<Rightarrow> bool \<Rightarrow> plan \<Rightarrow> bool" where
  "owns_plan E seller source x now charged p \<longleftrightarrow>
     pl_seller_id p = seller \<and> field_eq ''policy_version'' (BStr policy_version) p \<and>
     field_eq ''state'' (BStr ''active'') p \<and> field_eq ''eligible'' (BBool True) p \<and> source \<in> set (pl_sources p) \<and>
     execution_filter x p \<and> history_execution_query (cv_other E) now charged (pl_fields p)"

definition lease_holds :: "string option \<Rightarrow> instant \<Rightarrow> plan \<Rightarrow> bool" where
  "lease_holds lease now p = (case lease of
     None \<Rightarrow> True
   | Some t \<Rightarrow> t = [] \<or> field_eq ''lease_token'' (BStr t) p \<and> some_value (after_query now) (pl_fields p ''lease_until''))"

text \<open>\<^verbatim>\<open>$lt\<close> of two counters: an absent one is below every number.\<close>

definition count_lt :: "int option \<Rightarrow> int option \<Rightarrow> bool" where
  "count_lt a b = (case (a, b) of (None, Some _) \<Rightarrow> True | (Some x, Some y) \<Rightarrow> x < y | _ \<Rightarrow> False)"

definition below :: "string list \<Rightarrow> string list \<Rightarrow> plan \<Rightarrow> bool" where
  "below a b p = count_lt (pl_counts p a) (pl_counts p b)"

definition count :: "plan \<Rightarrow> string list \<Rightarrow> int" where
  "count p path = (case pl_counts p path of None \<Rightarrow> 0 | Some i \<Rightarrow> i)"

text \<open>\<^verbatim>\<open>$inc\<close> by one; on a field that is not a number the write fails.\<close>

definition bump_counts :: "string list list \<Rightarrow> plan \<Rightarrow> plan" where
  "bump_counts paths p = p\<lparr>pl_counts := (\<lambda>path. if path \<in> set paths then Some (count p path + 1) else pl_counts p path)\<rparr>"

definition inc_field :: "string \<Rightarrow> plan \<Rightarrow> plan option" where
  "inc_field k p = (case pl_fields p k of
     None \<Rightarrow> Some (p\<lparr>pl_fields := (pl_fields p)(k \<mapsto> Scalar (BInt 1))\<rparr>)
   | Some (Scalar (BInt i)) \<Rightarrow> Some (p\<lparr>pl_fields := (pl_fields p)(k \<mapsto> Scalar (BInt (i + 1)))\<rparr>)
   | _ \<Rightarrow> None)"

text \<open>One conditional update of a plan: nothing matched, an update that cannot be applied, or the updated plan.\<close>

definition update_plan ::
  "credit_env \<Rightarrow> string \<Rightarrow> (plan \<Rightarrow> bool) \<Rightarrow> (plan \<Rightarrow> plan option) \<Rightarrow> plan coll \<Rightarrow>
   (credit_error, plan option) result \<times> plan coll" where
  "update_plan E k P u c = (case find_one (cv_plans E) c k P of
     None \<Rightarrow> (Inr None, c)
   | Some p \<Rightarrow> (case u p of
       None \<Rightarrow> (Inl PlanWriteError, c)
     | Some _ \<Rightarrow> (case find_one_and_update (cv_plans E) c k P (\<lambda>p. the (u p)) of (r, c') \<Rightarrow> (Inr r, c'))))"

section \<open>Charging\<close>

definition phase_of :: "bool \<Rightarrow> string" where
  "phase_of incremental = (if incremental then ''maintenance'' else ''initial'')"

definition charged_path :: "string \<Rightarrow> string \<Rightarrow> string \<Rightarrow> string list" where
  "charged_path execution source phase = [''execution_charged'', execution, source, phase]"

definition sent_path :: "string \<Rightarrow> string \<Rightarrow> string \<Rightarrow> string list" where
  "sent_path execution source phase = [''execution_sent_by_source'', execution, source, phase]"

definition work_sent_path :: "string \<Rightarrow> string \<Rightarrow> string \<Rightarrow> string list" where
  "work_sent_path execution source phase = [''execution_work_sent_by_source'', execution, source, phase]"

definition budget_consumed :: "string \<Rightarrow> string list" where
  "budget_consumed source = [''budget'', source, ''consumed'']"

definition budget_attempts :: "string \<Rightarrow> string list" where
  "budget_attempts source = [''budget'', source, ''physical_attempts'']"

text \<open>The credit of a charge, from the snapshot's execution: one for traced requests without a work receipt.\<close>

definition credit_paths :: "bson option \<Rightarrow> string \<Rightarrow> string \<Rightarrow> bool \<Rightarrow> string list list" where
  "credit_paths x source phase traced = (case x of
     Some (BStr e) \<Rightarrow> if traced then [charged_path e source phase] else []
   | _ \<Rightarrow> [])"

definition charge_initial ::
  "credit_env \<Rightarrow> string \<Rightarrow> string \<Rightarrow> string option \<Rightarrow> bson option \<Rightarrow> bool \<Rightarrow> instant \<Rightarrow> plan coll \<Rightarrow>
   (credit_error, plan option) result \<times> plan coll" where
  "charge_initial E seller source lease x traced now c =
    update_plan E seller
      (\<lambda>p. owns_plan E seller source x now False p \<and> lease_holds lease now p \<and>
           below (budget_consumed source) (budget_attempts source) p \<and> below [''total_consumed''] [''total_budget''] p)
      (\<lambda>p. inc_field ''execution_consumed''
             (bump_counts ([budget_consumed source, [''total_consumed'']] @ credit_paths x source ''initial'' traced) p)) c"

text \<open>The daily counters: a first charge of another day than the stored one resets them.\<close>

definition daily_source :: "string \<Rightarrow> string list" where
  "daily_source source = [''incremental_source_consumed'', source]"

definition reset_daily :: "string \<Rightarrow> plan \<Rightarrow> plan" where
  "reset_daily day p = p\<lparr>pl_fields := (pl_fields p)(''incremental_day'' \<mapsto> Scalar (BStr day)),
     pl_counts := (\<lambda>path. if path = [''incremental_consumed''] \<or> path \<in> daily_source ` set history_sources then Some 0
                          else pl_counts p path)\<rparr>"

definition roll_over ::
  "credit_env \<Rightarrow> string \<Rightarrow> string \<Rightarrow> string option \<Rightarrow> bson option \<Rightarrow> string \<Rightarrow> instant \<Rightarrow> plan coll \<Rightarrow> plan coll" where
  "roll_over E seller source lease x day now c =
    snd (update_plan E seller
      (\<lambda>p. owns_plan E seller source x now False p \<and> lease_holds lease now p \<and> \<not> field_eq ''incremental_day'' (BStr day) p)
      (\<lambda>p. Some (reset_daily day p)) c)"

text \<open>The further conditions of a charge for a work receipt; \<open>work\<close> is its nonce and the receipt.\<close>

definition nat_field :: "string \<Rightarrow> plan \<Rightarrow> bool" where
  "nat_field k p = counter_query (pl_fields p k)"

definition nat_count :: "string list \<Rightarrow> plan \<Rightarrow> bool" where
  "nat_count path p = (case pl_counts p path of None \<Rightarrow> False | Some i \<Rightarrow> 0 \<le> i)"

definition work_admits :: "string \<Rightarrow> string \<Rightarrow> string \<Rightarrow> instant \<Rightarrow> plan \<Rightarrow> bool" where
  "work_admits nonce source day now p \<longleftrightarrow>
     pl_authority_kind p = Some ''account_link_policy'' \<and> some_value (after_query now) (pl_fields p ''execution_until'') \<and>
     field_eq ''execution_utc_day'' (BStr (date_text now)) p \<and> nat_field ''execution_attempt_limit'' p \<and>
     nat_field ''execution_consumed'' p \<and> field_eq ''incremental_day'' (BStr day) p \<and>
     nat_count [''incremental_consumed''] p \<and> nat_count (daily_source source) p \<and>
     nat_count [''incremental_policy'', ''max_daily_total''] p \<and> nat_count [''incremental_policy'', ''max_daily_source''] p \<and>
     pl_work p nonce = None"

definition charge_daily ::
  "credit_env \<Rightarrow> string \<Rightarrow> string \<Rightarrow> string option \<Rightarrow> bson option \<Rightarrow> bool \<Rightarrow> (string \<times> work_receipt) option \<Rightarrow>
   string \<Rightarrow> instant \<Rightarrow> plan coll \<Rightarrow> (credit_error, plan option) result \<times> plan coll" where
  "charge_daily E seller source lease x traced work day now c =
    update_plan E seller
      (\<lambda>p. owns_plan E seller source x now False p \<and> lease_holds lease now p \<and>
           (case work of None \<Rightarrow> True | Some (nonce, _) \<Rightarrow> work_admits nonce source day now p) \<and>
           field_eq ''incremental_day'' (BStr day) p \<and>
           below [''incremental_consumed''] [''incremental_policy'', ''max_daily_total''] p \<and>
           below (daily_source source) [''incremental_policy'', ''max_daily_source''] p)
      (\<lambda>p. map_option (\<lambda>p. case work of None \<Rightarrow> p | Some (nonce, r) \<Rightarrow> p\<lparr>pl_work := (pl_work p)(nonce \<mapsto> r)\<rparr>)
             (inc_field ''execution_consumed''
               (bump_counts ([[''incremental_consumed''], daily_source source] @
                 (if work = None then credit_paths x source ''maintenance'' traced else [])) p))) c"

definition charge_incremental ::
  "credit_env \<Rightarrow> string \<Rightarrow> string \<Rightarrow> string option \<Rightarrow> bson option \<Rightarrow> bool \<Rightarrow> (string \<times> work_receipt) option \<Rightarrow>
   string \<Rightarrow> instant \<Rightarrow> plan coll \<Rightarrow> (credit_error, plan option) result \<times> plan coll" where
  "charge_incremental E seller source lease x traced work day now c =
    charge_daily E seller source lease x traced work day now
      (if work = None then roll_over E seller source lease x day now c else c)"

text \<open>What a work charge first asks of the plan it has read.\<close>

definition work_policy_available :: "string \<Rightarrow> instant \<Rightarrow> plan \<Rightarrow> bool" where
  "work_policy_available source now p \<longleftrightarrow>
     (case pl_fields p ''execution_id'' of Some (Scalar (BStr e)) \<Rightarrow> is_hex32 e | _ \<Rightarrow> False) \<and>
     (case pl_fields p ''execution_until'' of Some (Scalar (BDate _)) \<Rightarrow> True | _ \<Rightarrow> False) \<and>
     pl_fields p ''execution_utc_day'' = Some (Scalar (BStr (date_text now))) \<and>
     pl_fields p ''incremental_day'' = Some (Scalar (BStr (date_text now))) \<and>
     list_all (\<lambda>k. case pl_fields p k of Some (Scalar (BInt i)) \<Rightarrow> 0 \<le> i | _ \<Rightarrow> False)
       [''execution_attempt_limit'', ''execution_consumed''] \<and>
     list_all (\<lambda>path. nat_count path p)
       [[''incremental_consumed''], daily_source source, [''incremental_policy'', ''max_daily_total''],
        [''incremental_policy'', ''max_daily_source'']] \<and>
     history_execution_allowed now False (pl_fields p)"

text \<open>
  \<^verbatim>\<open>PlanBudgetGateway.charge\<close> when nothing interleaves: \<open>live\<close> is the answer of the work intent's
  ownership check, \<open>eligible\<close> that of the account lookup. The result is the charged plan.
\<close>

definition scalar_field :: "plan \<Rightarrow> string \<Rightarrow> bson option" where
  "scalar_field p k = (case pl_fields p k of Some (Scalar b) \<Rightarrow> Some b | None \<Rightarrow> None | Some _ \<Rightarrow> Some (BOther []))"

definition charge ::
  "credit_env \<Rightarrow> string \<Rightarrow> string \<Rightarrow> string option \<Rightarrow> bool \<Rightarrow> (string \<times> work_receipt) option \<Rightarrow> bool \<Rightarrow> bool \<Rightarrow> instant \<Rightarrow>
   plan coll \<Rightarrow> (credit_error, plan) result \<times> plan coll" where
  "charge E seller source lease incremental work live eligible now c =
    (if work \<noteq> None \<and> (\<not> incremental \<or> \<not> live) then (Inl (HistoryPolicyWait ''work ownership unavailable''), c)
     else if source \<notin> set history_sources \<or> \<not> eligible then (Inl (HistoryPolicyWait ''account is not eligible for acquisition''), c)
     else (case find_one (cv_plans E) c seller (\<lambda>_. True) of
       None \<Rightarrow> (Inl (HistoryPolicyWait ''missing onboarding authority''), c)
     | Some p \<Rightarrow>
         if work \<noteq> None \<and> \<not> work_policy_available source now p
         then (Inl (HistoryPolicyWait ''work policy or counters unavailable''), c)
         else (case history_request_trace (scalar_field p ''execution_id'') source incremental of
           Inl e \<Rightarrow> (Inl (PlanValueError e), c)
         | Inr trace \<Rightarrow>
             if work \<noteq> None \<and> trace = None then (Inl (HistoryPolicyWait ''work execution unavailable''), c)
             else (case (if incremental
                         then charge_incremental E seller source lease (scalar_field p ''execution_id'') (trace \<noteq> None) work
                                (date_text now) now c
                         else charge_initial E seller source lease (scalar_field p ''execution_id'') (trace \<noteq> None) now c) of
                     (Inl e, c') \<Rightarrow> (Inl e, c')
                   | (Inr None, c') \<Rightarrow> (Inl (HistoryPolicyWait ''onboarding authority or budget exhausted''), c')
                   | (Inr (Some p'), c') \<Rightarrow> (Inr p', c')))))"

end
