(* ===== verification/HistorySend.thy ===== *)
theory HistorySend
  imports HistoryCredit
begin

text \<open>
  The gateway's side of the prepaid budget, \<^verbatim>\<open>gateway/proxy/router.py\<close> and
  \<^verbatim>\<open>reserve_history_work_send\<close> of \<^verbatim>\<open>core/history_work_intent.py\<close>: a request with a trace reserves one
  transport on the credit the module was charged, before it is sent.
\<close>

section \<open>Paths\<close>

text \<open>\<^verbatim>\<open>"/" + full_path.lstrip("/").split("?", 1)[0]\<close>\<close>

definition api_path :: "string \<Rightarrow> string" where
  "api_path s = CHR ''/'' # takeWhile (\<lambda>c. c \<noteq> CHR ''?'') (dropWhile (\<lambda>c. c = CHR ''/'') s)"

definition search_or_id :: "string \<Rightarrow> bool" where
  "search_or_id s \<longleftrightarrow> s = ''search'' \<or> all_digits s"

text \<open>The patterns of \<^verbatim>\<open>_reserve_history_send\<close>, and the shipment's orders for a request without a receipt.\<close>

definition send_pattern :: "string \<Rightarrow> string \<Rightarrow> bool" where
  "send_pattern source path = (case split_on (CHR ''/'') path of
     [[], a, i] \<Rightarrow>
       a = ''orders'' \<and> (source = ''orders'' \<and> search_or_id i \<or> source = ''claims_returns'' \<and> all_digits i) \<or>
       a = ''questions'' \<and> source = ''questions'' \<and> search_or_id i \<or>
       a = ''shipments'' \<and> source = ''shipments'' \<and> all_digits i
   | [[], a, i, part] \<Rightarrow>
       source = ''shipments'' \<and> a = ''shipments'' \<and> all_digits i \<and> part \<in> {''costs'', ''payments''}
   | [[], a, b, c, i] \<Rightarrow>
       source = ''claims_returns'' \<and> a = ''post-purchase'' \<and> b = ''v1'' \<and> c = ''claims'' \<and> search_or_id i
   | [[], a, b, i, d, j] \<Rightarrow>
       source = ''messages'' \<and> a = ''messages'' \<and> b = ''packs'' \<and> all_digits i \<and> d = ''sellers'' \<and> all_digits j \<or>
       source = ''claims_returns'' \<and> a = ''post-purchase'' \<and> b = ''v2'' \<and> i = ''claims'' \<and> all_digits d \<and> j = ''returns''
   | _ \<Rightarrow> False)"

definition shipment_orders :: "string \<Rightarrow> bool" where
  "shipment_orders path = (case split_on (CHR ''/'') path of
     [[], a, i, part] \<Rightarrow> a = ''shipments'' \<and> all_digits i \<and> part = ''orders''
   | _ \<Rightarrow> False)"

definition send_path_allowed :: "string \<Rightarrow> bool \<Rightarrow> string \<Rightarrow> bool" where
  "send_path_allowed source has_work path \<longleftrightarrow>
     send_pattern source path \<or> source = ''shipments'' \<and> \<not> has_work \<and> shipment_orders path"

section \<open>Reserving a transport\<close>

definition or_zero :: "plan_value option \<Rightarrow> plan_value" where
  "or_zero v = (case v of None \<Rightarrow> Scalar (BInt 0) | Some (Scalar BNull) \<Rightarrow> Scalar (BInt 0) | Some v \<Rightarrow> v)"

definition optional_nat_field :: "string \<Rightarrow> plan \<Rightarrow> bool" where
  "optional_nat_field k p \<longleftrightarrow> pl_fields p k = None \<or> nat_field k p"

definition optional_nat_count :: "string list \<Rightarrow> plan \<Rightarrow> bool" where
  "optional_nat_count path p \<longleftrightarrow> pl_counts p path = None \<or> nat_count path p"

definition sent_below_consumed :: "credit_env \<Rightarrow> plan \<Rightarrow> bool" where
  "sent_below_consumed E p = (case pl_fields p ''execution_consumed'' of
     None \<Rightarrow> False
   | Some v \<Rightarrow> expr_lt (cv_other E) (or_zero (pl_fields p ''execution_sent'')) v)"

text \<open>What every reservation asks of the plan: its authority, its execution and its window.\<close>

definition send_owned :: "credit_env \<Rightarrow> string \<Rightarrow> string \<Rightarrow> string \<Rightarrow> instant \<Rightarrow> plan \<Rightarrow> bool" where
  "send_owned E seller execution source now p \<longleftrightarrow>
     pl_seller_id p = seller \<and> field_eq ''policy_version'' (BStr policy_version) p \<and>
     pl_authority_kind p = Some ''account_link_policy'' \<and> field_eq ''execution_id'' (BStr execution) p \<and>
     field_eq ''state'' (BStr ''active'') p \<and> field_eq ''eligible'' (BBool True) p \<and> source \<in> set (pl_sources p) \<and>
     history_execution_query (cv_other E) now True (pl_fields p)"

definition pilot_window :: "instant \<Rightarrow> plan \<Rightarrow> bool" where
  "pilot_window now p \<longleftrightarrow> some_value (after_query now) (pl_fields p ''execution_until'') \<and>
     field_eq ''execution_utc_day'' (BStr (date_text now)) p \<and> nat_field ''execution_attempt_limit'' p"

definition reserve_prepaid ::
  "credit_env \<Rightarrow> string list option \<Rightarrow> string \<Rightarrow> string \<Rightarrow> string \<Rightarrow> string \<Rightarrow> instant \<Rightarrow> plan coll \<Rightarrow>
   (credit_error, plan option) result \<times> plan coll" where
  "reserve_prepaid E scope seller execution source phase now c =
    update_plan E seller
      (\<lambda>p. send_owned E seller execution source now p \<and> nat_field ''execution_consumed'' p \<and>
           (case pl_counts p (charged_path execution source phase) of None \<Rightarrow> False | Some i \<Rightarrow> 0 < i) \<and>
           (case scope of None \<Rightarrow> True | Some sellers \<Rightarrow> seller \<in> set sellers \<longrightarrow> pilot_window now p) \<and>
           optional_nat_field ''execution_sent'' p \<and> optional_nat_count (sent_path execution source phase) p \<and>
           sent_below_consumed E p \<and>
           count p (sent_path execution source phase) < count p (charged_path execution source phase))
      (\<lambda>p. inc_field ''execution_sent'' (bump_counts [sent_path execution source phase] p)) c"

text \<open>
  \<^verbatim>\<open>reserve_history_work_send\<close>: one transaction, so a failure leaves the plan and the owners as they were.
\<close>

definition one_work_credit :: "string \<Rightarrow> plan \<Rightarrow> bool" where
  "one_work_credit nonce p = (case pl_work p nonce of None \<Rightarrow> False | Some r \<Rightarrow> wr_credit r = 1 \<and> wr_sent r = 0)"

definition spend_work :: "string \<Rightarrow> plan \<Rightarrow> plan" where
  "spend_work nonce p = p\<lparr>pl_work := (pl_work p)(nonce := map_option (\<lambda>r. r\<lparr>wr_sent := wr_sent r + 1\<rparr>) (pl_work p nonce))\<rparr>"

definition reserve_history_work_send ::
  "credit_env \<Rightarrow> string \<Rightarrow> string \<Rightarrow> string \<Rightarrow> string \<Rightarrow> string \<Rightarrow> string \<Rightarrow> instant \<Rightarrow> plan coll \<times> work_db \<Rightarrow>
   plan option \<times> plan coll \<times> work_db" where
  "reserve_history_work_send E seller execution source phase work_id path now s = (case s of (c, db) \<Rightarrow>
    (if phase \<noteq> ''maintenance'' \<or> \<not> is_hex32 work_id then (None, c, db)
     else (case Option.bind (find_one (cv_plans E) c seller (\<lambda>_. True)) (\<lambda>p. pl_work p work_id) of
       None \<Rightarrow> (None, c, db)
     | Some r \<Rightarrow>
         if wr_source r \<noteq> source \<or> wr_phase r \<noteq> phase \<or> wr_path r \<noteq> path \<or> wr_seller r \<noteq> seller then (None, c, db)
         else (case validate_history_work_receipt (cv_work E) r now True True db of
           None \<Rightarrow> (None, c, db)
         | Some db' \<Rightarrow>
             (case update_plan E seller
                     (\<lambda>p. send_owned E seller execution source now p \<and>
                          some_value int_type (pl_fields p ''execution_consumed'') \<and>
                          some_value (\<lambda>b. case b of BInt i \<Rightarrow> 0 < i | _ \<Rightarrow> False) (pl_fields p ''execution_consumed'') \<and>
                          pilot_window now p \<and> one_work_credit work_id p \<and>
                          optional_nat_field ''execution_sent'' p \<and>
                          optional_nat_count (work_sent_path execution source phase) p \<and> sent_below_consumed E p)
                     (\<lambda>p. inc_field ''execution_sent''
                            (spend_work work_id (bump_counts [work_sent_path execution source phase] p))) c of
                (Inr (Some p), c') \<Rightarrow> (Some p, c', db')
              | (_, _) \<Rightarrow> (None, c, db))))))"

section \<open>The request\<close>

text \<open>
  The parts of a request the decisions read; \<open>hr_seller\<close> and \<open>hr_module\<close> are what authentication
  resolved. \<open>later\<close> is the clock at the check after the reservation.
\<close>

record history_request =
  hr_module :: string
  hr_seller :: string
  hr_method :: string
  hr_path :: string
  hr_trace :: string
  hr_work :: "string option"
  hr_retry :: "string option"

definition request_trace :: "history_request \<Rightarrow> (string \<times> string \<times> string) option" where
  "request_trace q = history_trace (hr_module q) (hr_method q) (hr_retry q) (hr_trace q)"

text \<open>\<open>Untracked\<close>: no trace, nothing reserved. \<open>Reserved\<close>: one transport may be made.\<close>

datatype send_outcome = Untracked | Reserved | Refused credit_error

definition reserve_history_send ::
  "credit_env \<Rightarrow> string list option \<Rightarrow> history_request \<Rightarrow> instant \<Rightarrow> instant \<Rightarrow> plan coll \<times> work_db \<Rightarrow>
   send_outcome \<times> plan coll \<times> work_db" where
  "reserve_history_send E scope q now later s = (case request_trace q of
     None \<Rightarrow> (Untracked, s)
   | Some (execution, source, phase) \<Rightarrow>
       let path = api_path (hr_path q) in
       if \<not> send_path_allowed source (hr_work q \<noteq> None) path then (Refused HistoryPolicyRejected, s)
       else (case hr_work q of
         Some work_id \<Rightarrow>
           if \<not> is_hex32 work_id \<or> hr_module q \<noteq> ''sheets'' then (Refused HistoryPolicyRejected, s)
           else (case reserve_history_work_send E (hr_seller q) execution source phase work_id path now s of
             (None, s') \<Rightarrow> (Refused HistoryPolicyRejected, s')
           | (Some p, s') \<Rightarrow>
               (if history_execution_allowed later True (pl_fields p) then Reserved else Refused HistoryPolicyRejected, s'))
       | None \<Rightarrow>
           (case reserve_prepaid E scope (hr_seller q) execution source phase now (fst s) of
             (Inl e, c) \<Rightarrow> (Refused e, c, snd s)
           | (Inr None, c) \<Rightarrow> (Refused HistoryPolicyRejected, c, snd s)
           | (Inr (Some p), c) \<Rightarrow>
               (if history_execution_allowed later True (pl_fields p) then Reserved else Refused HistoryPolicyRejected,
                c, snd s))))"

section \<open>Forwarding\<close>

text \<open>
  \<^verbatim>\<open>_forward_to_meli\<close>: the selected sellers' reads need a trace; a request that disables the proxy's
  retries reserves and sends once, every other one goes through the retry loop, which reserves each
  attempt of a selected seller by itself.
\<close>

datatype forwarding = Wait credit_error | Send_once | Send_once_charged | Send_retrying bool

definition pilot_get :: "string list option \<Rightarrow> history_request \<Rightarrow> bool" where
  "pilot_get scope q \<longleftrightarrow> hr_method q = ''GET'' \<and> hr_module q = ''sheets'' \<and>
     (case scope of None \<Rightarrow> False | Some sellers \<Rightarrow> hr_seller q \<in> set sellers)"

definition forward_to_meli :: "string list option \<Rightarrow> history_request \<Rightarrow> forwarding" where
  "forward_to_meli scope q =
    (let pilot = pilot_get scope q; trace = request_trace q in
     if pilot \<and> trace = None then Wait (PilotGetBudgetWait ''pilot_execution_unavailable'')
     else if hr_retry q = Some ''disabled'' then (if pilot \<and> trace = None then Send_once_charged else Send_once)
     else Send_retrying pilot)"

text \<open>\<^verbatim>\<open>_pilot_plan_available\<close> and \<^verbatim>\<open>_reserve_pilot_get_send\<close>, the reservation per attempt.\<close>

definition int_field :: "plan \<Rightarrow> string \<Rightarrow> int option" where
  "int_field p k = (case pl_fields p k of Some (Scalar (BInt i)) \<Rightarrow> Some i | _ \<Rightarrow> None)"

definition sent_or_zero :: "plan \<Rightarrow> int option" where
  "sent_or_zero p = (if pl_fields p ''execution_sent'' = None then Some 0 else int_field p ''execution_sent'')"

definition pilot_plan_available :: "instant \<Rightarrow> plan \<Rightarrow> bool" where
  "pilot_plan_available now p \<longleftrightarrow>
     pl_fields p ''policy_version'' = Some (Scalar (BStr policy_version)) \<and>
     pl_authority_kind p = Some ''account_link_policy'' \<and>
     pl_fields p ''state'' = Some (Scalar (BStr ''active'')) \<and> pl_fields p ''eligible'' = Some (Scalar (BBool True)) \<and>
     (case pl_fields p ''execution_id'' of Some (Scalar (BStr e)) \<Rightarrow> is_hex32 e | _ \<Rightarrow> False) \<and>
     (case pl_fields p ''execution_until'' of Some (Scalar (BDate _)) \<Rightarrow> True | _ \<Rightarrow> False) \<and>
     pl_fields p ''execution_utc_day'' = Some (Scalar (BStr (date_text now))) \<and>
     (case int_field p ''execution_attempt_limit'' of None \<Rightarrow> False | Some i \<Rightarrow> 0 \<le> i) \<and>
     (case (int_field p ''execution_consumed'', sent_or_zero p) of
        (Some consumed, Some sent) \<Rightarrow> 0 \<le> consumed \<and> 0 \<le> sent \<and> sent \<le> consumed | _ \<Rightarrow> False) \<and>
     history_execution_allowed now False
       [''execution_until'' \<mapsto> the (pl_fields p ''execution_until''),
        ''execution_utc_day'' \<mapsto> the (pl_fields p ''execution_utc_day'')]"

definition sent_up_to_consumed :: "credit_env \<Rightarrow> plan \<Rightarrow> bool" where
  "sent_up_to_consumed E p = (case pl_fields p ''execution_consumed'' of
     None \<Rightarrow> False
   | Some v \<Rightarrow> expr_le (cv_other E) (or_zero (pl_fields p ''execution_sent'')) v)"

definition reserve_pilot_get_send ::
  "credit_env \<Rightarrow> string \<Rightarrow> string option \<Rightarrow> instant \<Rightarrow> instant \<Rightarrow> plan coll \<Rightarrow> (credit_error, string) result \<times> plan coll" where
  "reserve_pilot_get_send E seller previous now later c =
    (let unavailable = Inl (PilotGetBudgetWait ''pilot_execution_unavailable'') in
     case find_one (cv_plans E) c seller (\<lambda>p. pl_seller_id p = seller) of
       None \<Rightarrow> (unavailable, c)
     | Some p \<Rightarrow>
         if \<not> pilot_plan_available now p then (unavailable, c)
         else (case (scalar_field p ''execution_id'', int_field p ''execution_consumed'', int_field p ''execution_attempt_limit'') of
           (Some (BStr execution), Some consumed, Some limit) \<Rightarrow>
             if previous \<noteq> None \<and> previous \<noteq> Some execution then (unavailable, c)
             else if limit \<le> consumed then (Inl (PilotGetBudgetWait ''pilot_budget_exhausted''), c)
             else (case update_plan E seller
                     (\<lambda>d. pl_seller_id d = seller \<and> field_eq ''policy_version'' (BStr policy_version) d \<and>
                          pl_authority_kind d = Some ''account_link_policy'' \<and> field_eq ''state'' (BStr ''active'') d \<and>
                          field_eq ''eligible'' (BBool True) d \<and> field_eq ''execution_id'' (BStr execution) d \<and>
                          list_all (\<lambda>k. case scalar_field p k of None \<Rightarrow> False | Some b \<Rightarrow> field_eq k b d)
                            [''execution_until'', ''execution_utc_day'', ''execution_attempt_limit''] \<and>
                          nat_field ''execution_consumed'' d \<and>
                          history_execution_query (cv_other E) now False (pl_fields d) \<and>
                          optional_nat_field ''execution_sent'' d \<and> sent_up_to_consumed E d)
                     (\<lambda>d. Option.bind (inc_field ''execution_consumed'' d) (inc_field ''execution_sent'')) c of
                 (Inl e, c') \<Rightarrow> (Inl e, c')
               | (Inr None, c') \<Rightarrow> (unavailable, c')
               | (Inr (Some d), c') \<Rightarrow>
                   (if history_execution_allowed later True (pl_fields d) then Inr execution else unavailable, c'))
         | _ \<Rightarrow> (unavailable, c)))"

section \<open>Selected sellers\<close>

text \<open>
  A read of a selected seller leaves the gateway only on a prepaid credit: it either waits or is
  sent once, never through the retry loop nor on the charge per attempt, and before it is sent its trace
  makes the reservation happen: the reservation grants or refuses it and never lets it pass unaccounted.
\<close>

theorem selected_reads_prepaid:
  assumes "pilot_get scope q"
  shows "forward_to_meli scope q = Wait (PilotGetBudgetWait ''pilot_execution_unavailable'') \<or>
    forward_to_meli scope q = Send_once \<and> fst (reserve_history_send E scope q now later s) \<noteq> Untracked"
proof (cases "request_trace q")
  case None
  with assms show ?thesis by (simp add: forward_to_meli_def)
next
  case (Some t)
  then have "hr_retry q = Some ''disabled''" by (auto simp: request_trace_def history_trace_def split: if_splits)
  with Some have "forward_to_meli scope q = Send_once" by (simp add: forward_to_meli_def Let_def)
  moreover have "fst (reserve_history_send E scope q now later s) \<noteq> Untracked"
    using Some by (cases t)
      (auto simp: reserve_history_send_def Let_def split: option.splits if_splits prod.splits sum.splits)
  ultimately show ?thesis by simp
qed

theorem selected_reads_prepaid_witness:
  "forward_to_meli (Some [''7'']) \<lparr>hr_module = ''sheets'', hr_seller = ''7'', hr_method = ''GET'', hr_path = ''/orders/12'',
     hr_trace = ''h1-'' @ demo_token @ '':orders:initial'', hr_work = None, hr_retry = Some ''disabled''\<rparr> = Send_once"
  (is "forward_to_meli ?scope ?q = _")
proof -
  have "pilot_get ?scope ?q" by (simp add: pilot_get_def)
  from selected_reads_prepaid [OF this] have "request_trace ?q \<noteq> None \<Longrightarrow> forward_to_meli ?scope ?q = Send_once"
    by (auto simp: forward_to_meli_def Let_def)
  moreover have "request_trace ?q \<noteq> None" by code_simp
  ultimately show ?thesis by blast
qed

end
