(* ===== verification/HistoryLedger.thy ===== *)
theory HistoryLedger
  imports HistorySend
begin

text \<open>
  The ledger of a history plan under any interleaving of the two services: charges by the module,
  reservations by the gateway, changes of the events, claims and jobs by their owners, and changes of
  the plan's policy by its operators. The permitted transports are counted beside the documents.
\<close>

section \<open>Conditional updates of a plan\<close>

locale credit_store = plans: mongo_collection "cv_plans E" for E :: credit_env
begin

lemma update_plan_cases:
  assumes "update_plan E k P u c = (r, c')"
  obtains "c' = c" "r = Inr None \<or> r = Inl PlanWriteError"
  | p p' where "c k = Some p" "P p" "u p = Some p'" "r = Inr (Some p')" "c' = c(k \<mapsto> p')"
proof (cases "c k")
  case None
  with assms that(1) show thesis by (simp add: update_plan_def plans.point_laws)
next
  case (Some p)
  show thesis
  proof (cases "P p \<and> u p \<noteq> None")
    case True
    then obtain p' where "u p = Some p'" by blast
    with assms Some True that(2) show thesis by (simp add: update_plan_def plans.point_laws)
  next
    case False
    with assms Some that(1) show thesis by (auto simp: update_plan_def plans.point_laws split: if_splits)
  qed
qed

text \<open>A charge is at most two conditional updates.\<close>

lemma charge_updates:
  assumes "charge E seller source lease incremental work live eligible now c = (r, c')"
  shows "c' = c \<or> (\<exists>x traced. c' = snd (charge_initial E seller source lease x traced now c)) \<or>
    (\<exists>x traced. c' = snd (charge_daily E seller source lease x traced work (date_text now) now c)) \<or>
    (\<exists>x traced. work = None \<and> c' = snd (charge_daily E seller source lease x traced work (date_text now) now
        (roll_over E seller source lease x (date_text now) now c)))"
  using assms
  by (auto simp: charge_def charge_incremental_def split: option.splits if_splits sum.splits prod.splits) (metis snd_conv)+

end

definition mem_credit :: credit_env where
  "mem_credit = \<lparr>cv_plans = mem_mongo, cv_work = mem_work, cv_other = (\<lambda>_ _. False)\<rparr>"

interpretation mem_credit: credit_store mem_credit
  unfolding credit_store_def mem_credit_def by (simp add: mem.mongo_collection_axioms)

section \<open>Steps\<close>

text \<open>
  \<open>lg_prepaid\<close> counts the transports permitted on a source's credit by seller, execution, source and
  phase, \<open>lg_work\<close> those of a work receipt by seller and nonce, \<open>lg_total\<close> all of a seller.
\<close>

record ledger =
  lg_plans :: "plan coll"
  lg_work_db :: work_db
  lg_prepaid :: "string \<times> string \<times> string \<times> string \<Rightarrow> nat"
  lg_work :: "string \<times> string \<Rightarrow> nat"
  lg_total :: "string \<Rightarrow> nat"

definition num_field :: "plan \<Rightarrow> string \<Rightarrow> int option" where
  "num_field p k = (case pl_fields p k of None \<Rightarrow> Some 0 | Some (Scalar (BInt i)) \<Rightarrow> Some i | _ \<Rightarrow> None)"

definition limited :: "string list \<Rightarrow> string list \<Rightarrow> plan \<Rightarrow> bool" where
  "limited a b p = (case (pl_counts p a, pl_counts p b) of
     (None, None) \<Rightarrow> True | (Some c, Some l) \<Rightarrow> c \<le> l | _ \<Rightarrow> False)"

definition within_limit :: "plan_value option \<Rightarrow> int option \<Rightarrow> bool" where
  "within_limit limit consumed = (case (limit, consumed) of
     (None, _) \<Rightarrow> True | (Some (Scalar (BInt l)), Some c) \<Rightarrow> c \<le> l | _ \<Rightarrow> False)"

definition attempts_limited :: "plan \<Rightarrow> bool" where
  "attempts_limited p = within_limit (pl_fields p ''execution_attempt_limit'') (num_field p ''execution_consumed'')"

definition budgets_hold :: "plan \<Rightarrow> bool" where
  "budgets_hold p \<longleftrightarrow> limited [''total_consumed''] [''total_budget''] p \<and>
     (\<forall>source. limited (budget_consumed source) (budget_attempts source) p)"

text \<open>A plan as admission creates it: nothing charged, nothing sent, budgets that are not negative.\<close>

definition new_plan :: "plan \<Rightarrow> bool" where
  "new_plan p \<longleftrightarrow> pl_work p = Map.empty \<and> pl_fields p ''execution_consumed'' = None \<and> pl_fields p ''execution_sent'' = None \<and>
     pl_fields p ''execution_attempt_limit'' = None \<and>
     (\<forall>e src ph. pl_counts p (charged_path e src ph) = None \<and> pl_counts p (sent_path e src ph) = None) \<and> budgets_hold p"

text \<open>
  An operator's or the worker's change: the state, the lease, the execution, its deadline, the daily
  counters and their policy may change in any way; what is charged or sent stays, and a limit of
  attempts is set no lower than the attempts made.
\<close>

definition keeps_ledger :: "plan \<Rightarrow> plan \<Rightarrow> bool" where
  "keeps_ledger p p' \<longleftrightarrow> pl_work p' = pl_work p \<and>
     pl_fields p' ''execution_consumed'' = pl_fields p ''execution_consumed'' \<and>
     pl_fields p' ''execution_sent'' = pl_fields p ''execution_sent'' \<and> attempts_limited p' \<and>
     (\<forall>path. (case path of [] \<Rightarrow> True | h # _ \<Rightarrow>
         h \<notin> {''incremental_consumed'', ''incremental_source_consumed'', ''incremental_policy''}) \<longrightarrow>
       pl_counts p' path = pl_counts p path)"

definition permit :: "history_request \<Rightarrow> ledger \<Rightarrow> ledger" where
  "permit q s = (case request_trace q of
     None \<Rightarrow> s
   | Some (e, src, ph) \<Rightarrow>
       (let s' = s\<lparr>lg_total := (lg_total s)(hr_seller q := lg_total s (hr_seller q) + 1)\<rparr> in
        case hr_work q of
          None \<Rightarrow> s'\<lparr>lg_prepaid := (lg_prepaid s)((hr_seller q, e, src, ph) := lg_prepaid s (hr_seller q, e, src, ph) + 1)\<rparr>
        | Some n \<Rightarrow> s'\<lparr>lg_work := (lg_work s)((hr_seller q, n) := lg_work s (hr_seller q, n) + 1)\<rparr>))"

inductive ledger_step :: "credit_env \<Rightarrow> string list option \<Rightarrow> ledger \<Rightarrow> ledger \<Rightarrow> bool"
  for E :: credit_env and scope :: "string list option" where
  initial: "charge_initial E seller source lease x traced now (lg_plans s) = (r, c) \<Longrightarrow>
    ledger_step E scope s (s\<lparr>lg_plans := c\<rparr>)"
| roll: "roll_over E seller source lease x day now (lg_plans s) = c \<Longrightarrow> ledger_step E scope s (s\<lparr>lg_plans := c\<rparr>)"
| daily: "charge_daily E seller source lease x traced work day now (lg_plans s) = (r, c) \<Longrightarrow>
    (\<And>n w. work = Some (n, w) \<Longrightarrow> wr_credit w = 1 \<and> wr_sent w = 0) \<Longrightarrow> ledger_step E scope s (s\<lparr>lg_plans := c\<rparr>)"
| send: "reserve_history_send E scope q now later (lg_plans s, lg_work_db s) = (out, c, db) \<Longrightarrow>
    s' = s\<lparr>lg_plans := c, lg_work_db := db\<rparr> \<Longrightarrow> ledger_step E scope s (if out = Reserved then permit q s' else s')"
| pilot: "reserve_pilot_get_send E seller previous now later (lg_plans s) = (r, c) \<Longrightarrow>
    s' = s\<lparr>lg_plans := c\<rparr> \<Longrightarrow>
    ledger_step E scope s (if isl r then s' else s'\<lparr>lg_total := (lg_total s')(seller := lg_total s' seller + 1)\<rparr>)"
| owners: "ledger_step E scope s (s\<lparr>lg_work_db := db\<rparr>)"
| administer: "lg_plans s k = Some p \<Longrightarrow> keeps_ledger p p' \<Longrightarrow>
    ledger_step E scope s (s\<lparr>lg_plans := (lg_plans s)(k \<mapsto> p')\<rparr>)"
| admit: "lg_plans s k = None \<Longrightarrow> new_plan p \<Longrightarrow> ledger_step E scope s (s\<lparr>lg_plans := (lg_plans s)(k \<mapsto> p)\<rparr>)"

definition initial_ledger :: "work_db \<Rightarrow> ledger" where
  "initial_ledger db = \<lparr>lg_plans = Map.empty, lg_work_db = db, lg_prepaid = (\<lambda>_. 0), lg_work = (\<lambda>_. 0), lg_total = (\<lambda>_. 0)\<rparr>"

inductive ledger_reachable :: "credit_env \<Rightarrow> string list option \<Rightarrow> ledger \<Rightarrow> bool"
  for E :: credit_env and scope :: "string list option" where
  start: "ledger_reachable E scope (initial_ledger db)"
| step: "ledger_reachable E scope s \<Longrightarrow> ledger_step E scope s s' \<Longrightarrow> ledger_reachable E scope s'"

section \<open>What every step keeps\<close>

text \<open>The parts of the invariant, for the plan \<open>p\<close> of the seller \<open>k\<close>.\<close>

definition credits_cover :: "ledger \<Rightarrow> string \<Rightarrow> plan \<Rightarrow> bool" where
  "credits_cover s k p \<longleftrightarrow> (\<forall>e src ph. int (lg_prepaid s (k, e, src, ph)) \<le> count p (sent_path e src ph) \<and>
     count p (sent_path e src ph) \<le> count p (charged_path e src ph))"

definition receipt_covers :: "nat \<Rightarrow> work_receipt option \<Rightarrow> bool" where
  "receipt_covers m w = (case w of None \<Rightarrow> m = 0 | Some r \<Rightarrow> int m \<le> wr_sent r \<and> wr_sent r \<le> 1)"

definition receipts_cover :: "ledger \<Rightarrow> string \<Rightarrow> plan \<Rightarrow> bool" where
  "receipts_cover s k p \<longleftrightarrow> (\<forall>n. receipt_covers (lg_work s (k, n)) (pl_work p n))"

definition totals_cover :: "ledger \<Rightarrow> string \<Rightarrow> plan \<Rightarrow> bool" where
  "totals_cover s k p \<longleftrightarrow> (\<exists>sent consumed. num_field p ''execution_sent'' = Some sent \<and>
     num_field p ''execution_consumed'' = Some consumed \<and> int (lg_total s k) \<le> sent \<and> sent \<le> consumed) \<and> attempts_limited p"

definition plan_covered :: "ledger \<Rightarrow> string \<Rightarrow> plan \<Rightarrow> bool" where
  "plan_covered s k p \<longleftrightarrow> credits_cover s k p \<and> receipts_cover s k p \<and> totals_cover s k p \<and> budgets_hold p"

definition unused :: "ledger \<Rightarrow> string \<Rightarrow> bool" where
  "unused s k \<longleftrightarrow> (\<forall>e src ph. lg_prepaid s (k, e, src, ph) = 0) \<and> (\<forall>n. lg_work s (k, n) = 0) \<and> lg_total s k = 0"

definition ledger_ok :: "ledger \<Rightarrow> bool" where
  "ledger_ok s \<longleftrightarrow> (\<forall>k. case lg_plans s k of None \<Rightarrow> unused s k | Some p \<Rightarrow> plan_covered s k p)"

lemmas path_defs = charged_path_def sent_path_def work_sent_path_def budget_consumed_def budget_attempts_def daily_source_def

text \<open>How the updates act on the parts.\<close>

lemma inc_field_SomeE:
  assumes "inc_field k p = Some p'"
  obtains i where "num_field p k = Some i" "p' = p\<lparr>pl_fields := (pl_fields p)(k \<mapsto> Scalar (BInt (i + 1)))\<rparr>"
  using assms by (auto simp: inc_field_def num_field_def split: option.splits plan_value.splits bson.splits)

lemma bump_counts_sel [simp]:
  "pl_fields (bump_counts ps p) = pl_fields p" "pl_work (bump_counts ps p) = pl_work p"
  "pl_seller_id (bump_counts ps p) = pl_seller_id p" "pl_authority_kind (bump_counts ps p) = pl_authority_kind p"
  "pl_sources (bump_counts ps p) = pl_sources p"
  "pl_counts (bump_counts ps p) = (\<lambda>path. if path \<in> set ps then Some (count p path + 1) else pl_counts p path)"
  by (simp_all add: bump_counts_def)

lemma count_bump: "count (bump_counts ps p) path = (if path \<in> set ps then count p path + 1 else count p path)"
  by (simp add: count_def)

lemma num_field_bump [simp]: "num_field (bump_counts ps p) k = num_field p k"
  by (simp add: num_field_def)

text \<open>A charge: the consumed attempts grow by one, within the limit its filter has checked.\<close>

lemma query_room:
  assumes "history_execution_query other now False (pl_fields p)" and "attempts_limited p"
    and "num_field p ''execution_consumed'' = Some c"
  shows "attempts_limited (p\<lparr>pl_fields := (pl_fields p)(''execution_consumed'' \<mapsto> Scalar (BInt (c + 1)))\<rparr>)"
  using assms
  by (auto simp: history_execution_query_def attempts_limited_def within_limit_def num_field_def expr_lt_def
      split: option.splits plan_value.splits bson.splits)

lemma attempts_limited_fields: "pl_fields p = pl_fields p' \<Longrightarrow> attempts_limited p = attempts_limited p'"
  by (simp only: attempts_limited_def num_field_def)

lemma totals_charge:
  assumes "totals_cover s k p" and "history_execution_query other now False (pl_fields p)"
    and "num_field p ''execution_consumed'' = Some c"
    and "pl_fields p' = (pl_fields p)(''execution_consumed'' \<mapsto> Scalar (BInt (c + 1)))"
  shows "totals_cover s k p'"
proof -
  have "attempts_limited (p\<lparr>pl_fields := (pl_fields p)(''execution_consumed'' \<mapsto> Scalar (BInt (c + 1)))\<rparr>)"
    using query_room assms(1-3) by (auto simp: totals_cover_def)
  then have "attempts_limited p'" using attempts_limited_fields [of p' "p\<lparr>pl_fields := (pl_fields p)(''execution_consumed'' \<mapsto> Scalar (BInt (c + 1)))\<rparr>"] assms(4) by simp
  with assms(1,3,4) show ?thesis by (auto simp: totals_cover_def num_field_def)
qed

lemma credits_charge:
  assumes "credits_cover s k p" and "\<And>e src ph. count p' (sent_path e src ph) = count p (sent_path e src ph)"
    and "\<And>e src ph. count p (charged_path e src ph) \<le> count p' (charged_path e src ph)"
  shows "credits_cover s k p'"
  using assms unfolding credits_cover_def by (metis order_trans)

lemma limited_bump:
  assumes "limited a b p" and "a \<in> set ps \<Longrightarrow> below a b p" and "b \<notin> set ps"
  shows "limited a b (bump_counts ps p)"
  using assms by (auto simp: limited_def below_def count_lt_def count_def split: option.splits)

lemma limited_fields [simp]: "limited a b (p\<lparr>pl_fields := f\<rparr>) = limited a b p" "limited a b (p\<lparr>pl_work := w\<rparr>) = limited a b p"
  by (simp_all add: limited_def)

lemma count_fields [simp]: "count (p\<lparr>pl_fields := f\<rparr>) = count p" "count (p\<lparr>pl_work := w\<rparr>) = count p"
  by (simp_all add: count_def fun_eq_iff)

lemma credit_paths_charged: "path \<in> set (credit_paths x src ph traced) \<Longrightarrow> \<exists>e. path = charged_path e src ph"
  by (auto simp: credit_paths_def split: option.splits bson.splits if_splits)

lemma initial_covered:
  assumes cov: "plan_covered s k p" and q: "history_execution_query other now False (pl_fields p)"
    and b: "below (budget_consumed src) (budget_attempts src) p" "below [''total_consumed''] [''total_budget''] p"
    and u: "inc_field ''execution_consumed''
        (bump_counts ([budget_consumed src, [''total_consumed'']] @ credit_paths x src ph traced) p) = Some p'"
  shows "plan_covered s k p'"
proof -
  let ?ps = "[budget_consumed src, [''total_consumed'']] @ credit_paths x src ph traced"
  from u obtain c where c: "num_field p ''execution_consumed'' = Some c"
    and p': "p' = (bump_counts ?ps p)\<lparr>pl_fields := (pl_fields p)(''execution_consumed'' \<mapsto> Scalar (BInt (c + 1)))\<rparr>"
    by (elim inc_field_SomeE) simp
  have "credits_cover s k p'"
    by (rule credits_charge [of s k p])
      (use cov credit_paths_charged in \<open>force simp: plan_covered_def p' count_bump path_defs\<close>)+
  moreover have "receipts_cover s k p'" using cov by (simp add: plan_covered_def receipts_cover_def p')
  moreover have "totals_cover s k p'" by (rule totals_charge [OF _ q c]) (use cov in \<open>simp_all add: plan_covered_def p'\<close>)
  moreover have "limited (budget_consumed s) (budget_attempts s) (bump_counts ?ps p)"
      "limited [''total_consumed''] [''total_budget''] (bump_counts ?ps p)" for s
    by (rule limited_bump; use cov b credit_paths_charged in \<open>fastforce simp: plan_covered_def budgets_hold_def path_defs\<close>)+
  ultimately show ?thesis by (simp add: plan_covered_def budgets_hold_def p')
qed

lemma daily_covered:
  assumes cov: "plan_covered s k p" and q: "history_execution_query other now False (pl_fields p)"
    and w: "\<And>n r. work = Some (n, r) \<Longrightarrow> pl_work p n = None \<and> wr_sent r = 0"
    and u: "map_option (\<lambda>p. case work of None \<Rightarrow> p | Some (n, r) \<Rightarrow> p\<lparr>pl_work := (pl_work p)(n \<mapsto> r)\<rparr>)
        (inc_field ''execution_consumed'' (bump_counts ([[''incremental_consumed''], daily_source src] @
           (if work = None then credit_paths x src ph traced else [])) p)) = Some p'"
  shows "plan_covered s k p'"
proof -
  let ?ps = "[[''incremental_consumed''], daily_source src] @ (if work = None then credit_paths x src ph traced else [])"
  let ?w = "case work of None \<Rightarrow> pl_work p | Some (n, r) \<Rightarrow> (pl_work p)(n \<mapsto> r)"
  from u obtain c where c: "num_field p ''execution_consumed'' = Some c"
    and p': "p' = (bump_counts ?ps p)\<lparr>pl_fields := (pl_fields p)(''execution_consumed'' \<mapsto> Scalar (BInt (c + 1))), pl_work := ?w\<rparr>"
    by (auto elim!: inc_field_SomeE split: option.splits prod.splits)
  have "credits_cover s k p'"
    by (rule credits_charge [of s k p])
      (use cov credit_paths_charged in \<open>force simp: plan_covered_def p' count_bump path_defs split: if_splits\<close>)+
  moreover have "receipts_cover s k p'"
  proof (cases work)
    case None
    with cov show ?thesis by (simp add: plan_covered_def receipts_cover_def p')
  next
    case (Some nr)
    obtain n r where nr: "work = Some (n, r)" using Some by (cases nr) simp
    have old: "receipt_covers (lg_work s (k, m)) (pl_work p m)" for m
      using cov by (simp add: plan_covered_def receipts_cover_def)
    from old [of n] w [OF nr] have "lg_work s (k, n) = 0" "wr_sent r = 0" by (simp_all add: receipt_covers_def)
    with old show ?thesis by (simp add: receipts_cover_def p' nr receipt_covers_def)
  qed
  moreover have "totals_cover s k p'" by (rule totals_charge [OF _ q c]) (use cov in \<open>simp_all add: plan_covered_def p'\<close>)
  moreover have "limited (budget_consumed s) (budget_attempts s) (bump_counts ?ps p)"
      "limited [''total_consumed''] [''total_budget''] (bump_counts ?ps p)" for s
    by (rule limited_bump; use cov credit_paths_charged in \<open>fastforce simp: plan_covered_def budgets_hold_def path_defs split: if_splits\<close>)+
  ultimately show ?thesis by (simp add: plan_covered_def budgets_hold_def p')
qed

text \<open>A reservation: the sent attempts grow by one; the transport may or may not be made.\<close>

lemma totals_send:
  assumes "totals_cover s k p" and "sent_below_consumed E p" and "num_field p ''execution_sent'' = Some i"
    and "pl_fields p' = (pl_fields p)(''execution_sent'' \<mapsto> Scalar (BInt (i + 1)))" and "lg_total s' k \<le> lg_total s k + 1"
  shows "totals_cover s' k p'"
proof -
  obtain c where c: "num_field p ''execution_consumed'' = Some c" "int (lg_total s k) \<le> i" and l: "attempts_limited p"
    using assms(1,3) by (auto simp: totals_cover_def)
  have "i < c" using assms(2,3) c(1)
    by (auto simp: sent_below_consumed_def num_field_def or_zero_def expr_lt_def
        split: option.splits plan_value.splits bson.splits)
  moreover have "num_field p' ''execution_consumed'' = Some c" "num_field p' ''execution_sent'' = Some (i + 1)"
    using c(1) assms(4) by (simp_all add: num_field_def)
  moreover have "attempts_limited p'"
    using l assms(4) by (simp add: attempts_limited_def num_field_def)
  ultimately show ?thesis using c(2) assms(5) by (auto simp: totals_cover_def)
qed

lemma prepaid_covered:
  assumes cov: "plan_covered s k p" and b: "sent_below_consumed E p" "count p (sent_path e src ph) < count p (charged_path e src ph)"
    and u: "inc_field ''execution_sent'' (bump_counts [sent_path e src ph] p) = Some p'"
    and g: "lg_work s' = lg_work s" "lg_total s' k \<le> lg_total s k + 1"
      "\<And>x. lg_prepaid s' x \<le> lg_prepaid s x + (if x = (k, e, src, ph) then 1 else 0)"
  shows "plan_covered s' k p'"
proof -
  from u obtain i where i: "num_field p ''execution_sent'' = Some i"
    and p': "p' = (bump_counts [sent_path e src ph] p)\<lparr>pl_fields := (pl_fields p)(''execution_sent'' \<mapsto> Scalar (BInt (i + 1)))\<rparr>"
    by (elim inc_field_SomeE) simp
  have "int (lg_prepaid s' (k, e', src', ph')) \<le> count p' (sent_path e' src' ph') \<and>
      count p' (sent_path e' src' ph') \<le> count p' (charged_path e' src' ph')" for e' src' ph'
  proof -
    have "int (lg_prepaid s (k, e', src', ph')) \<le> count p (sent_path e' src' ph')"
      "count p (sent_path e' src' ph') \<le> count p (charged_path e' src' ph')"
      using cov by (simp_all add: plan_covered_def credits_cover_def)
    with g(3) [of "(k, e', src', ph')"] b(2) show ?thesis by (auto simp: p' count_bump path_defs split: if_splits)
  qed
  then have "credits_cover s' k p'" by (simp add: credits_cover_def)
  moreover have "receipts_cover s' k p'" using cov by (simp add: plan_covered_def receipts_cover_def p' g(1))
  moreover have "totals_cover s' k p'" by (rule totals_send [OF _ b(1) i _ g(2)]) (use cov in \<open>simp_all add: plan_covered_def p'\<close>)
  moreover have "budgets_hold p'" using cov by (auto simp: plan_covered_def budgets_hold_def p' limited_def path_defs)
  ultimately show ?thesis by (simp add: plan_covered_def)
qed

lemma work_covered:
  assumes cov: "plan_covered s k p" and b: "sent_below_consumed E p" "one_work_credit n p"
    and u: "inc_field ''execution_sent'' (spend_work n (bump_counts [work_sent_path e src ph] p)) = Some p'"
    and g: "lg_prepaid s' = lg_prepaid s" "lg_total s' k \<le> lg_total s k + 1"
      "\<And>x. lg_work s' x \<le> lg_work s x + (if x = (k, n) then 1 else 0)"
  shows "plan_covered s' k p'"
proof -
  from b(2) obtain r where r: "pl_work p n = Some r" "wr_sent r = 0" by (auto simp: one_work_credit_def split: option.splits)
  from u obtain i where i: "num_field p ''execution_sent'' = Some i"
    and p': "p' = (bump_counts [work_sent_path e src ph] p)\<lparr>pl_fields := (pl_fields p)(''execution_sent'' \<mapsto> Scalar (BInt (i + 1))),
       pl_work := (pl_work p)(n \<mapsto> r\<lparr>wr_sent := 1\<rparr>)\<rparr>"
    using r by (elim inc_field_SomeE) (simp add: spend_work_def num_field_def)
  have "credits_cover s' k p'" using cov by (simp add: plan_covered_def credits_cover_def g(1) p' count_bump path_defs)
  moreover have "receipts_cover s' k p'"
  proof -
    have old: "receipt_covers (lg_work s (k, m)) (pl_work p m)" for m
      using cov by (simp add: plan_covered_def receipts_cover_def)
    from old [of n] r have "lg_work s (k, n) = 0" by (simp add: receipt_covers_def)
    with g(3) [of "(k, n)"] have "receipt_covers (lg_work s' (k, n)) (pl_work p' n)" by (simp add: p' receipt_covers_def)
    moreover have "receipt_covers (lg_work s' (k, m)) (pl_work p' m)" if "m \<noteq> n" for m
      using old [of m] g(3) [of "(k, m)"] that by (auto simp: p' receipt_covers_def split: option.splits)
    ultimately show ?thesis unfolding receipts_cover_def by metis
  qed
  moreover have "totals_cover s' k p'" by (rule totals_send [OF _ b(1) i _ g(2)]) (use cov in \<open>simp_all add: plan_covered_def p'\<close>)
  moreover have "budgets_hold p'" using cov by (auto simp: plan_covered_def budgets_hold_def p' limited_def path_defs)
  ultimately show ?thesis by (simp add: plan_covered_def)
qed

lemma pilot_covered:
  assumes cov: "plan_covered s k p" and q: "history_execution_query other now False (pl_fields p)"
    and u: "Option.bind (inc_field ''execution_consumed'' p) (inc_field ''execution_sent'') = Some p'"
    and g: "lg_prepaid s' = lg_prepaid s" "lg_work s' = lg_work s" "lg_total s' k \<le> lg_total s k + 1"
  shows "plan_covered s' k p'"
proof -
  from u obtain p1 where u1: "inc_field ''execution_consumed'' p = Some p1" "inc_field ''execution_sent'' p1 = Some p'"
    by (cases "inc_field ''execution_consumed'' p") auto
  obtain c where c: "num_field p ''execution_consumed'' = Some c"
    and p1: "p1 = p\<lparr>pl_fields := (pl_fields p)(''execution_consumed'' \<mapsto> Scalar (BInt (c + 1)))\<rparr>"
    using u1(1) by (elim inc_field_SomeE)
  obtain i where i: "num_field p1 ''execution_sent'' = Some i"
    and p': "p' = p1\<lparr>pl_fields := (pl_fields p1)(''execution_sent'' \<mapsto> Scalar (BInt (i + 1)))\<rparr>"
    using u1(2) by (elim inc_field_SomeE)
  have i0: "num_field p ''execution_sent'' = Some i" using i by (simp add: p1 num_field_def)
  have "attempts_limited p1" using query_room [OF q _ c] cov by (simp add: p1 plan_covered_def totals_cover_def)
  then have "attempts_limited p'" by (simp add: attempts_limited_def num_field_def p')
  then have "totals_cover s' k p'"
    using cov c i0 g(3) by (auto simp: plan_covered_def totals_cover_def num_field_def p' p1)
  moreover have "credits_cover s' k p'" "receipts_cover s' k p'" "budgets_hold p'"
    using cov by (simp_all add: plan_covered_def credits_cover_def receipts_cover_def budgets_hold_def g p' p1)
  ultimately show ?thesis by (simp add: plan_covered_def)
qed

lemma kept_covered:
  assumes cov: "plan_covered s k p" and k: "keeps_ledger p p'"
  shows "plan_covered s k p'"
proof -
  have c: "pl_counts p' (charged_path e src ph) = pl_counts p (charged_path e src ph)"
    "pl_counts p' (sent_path e src ph) = pl_counts p (sent_path e src ph)"
    "pl_counts p' (budget_consumed src) = pl_counts p (budget_consumed src)"
    "pl_counts p' (budget_attempts src) = pl_counts p (budget_attempts src)"
    "pl_counts p' [''total_consumed''] = pl_counts p [''total_consumed'']"
    "pl_counts p' [''total_budget''] = pl_counts p [''total_budget'']" for e src ph
    using k by (simp_all add: keeps_ledger_def path_defs)
  have "num_field p' ''execution_consumed'' = num_field p ''execution_consumed''"
    "num_field p' ''execution_sent'' = num_field p ''execution_sent''" "pl_work p' = pl_work p" "attempts_limited p'"
    using k by (simp_all add: keeps_ledger_def num_field_def)
  with c cov show ?thesis
    by (simp add: plan_covered_def credits_cover_def receipts_cover_def totals_cover_def budgets_hold_def limited_def count_def)
qed

lemma reset_keeps: "attempts_limited p \<Longrightarrow> keeps_ledger p (reset_daily day p)"
  by (auto simp: keeps_ledger_def reset_daily_def daily_source_def attempts_limited_def num_field_def)

lemma new_covered: "new_plan p \<Longrightarrow> unused s k \<Longrightarrow> plan_covered s k p"
  by (simp add: new_plan_def unused_def plan_covered_def credits_cover_def receipts_cover_def totals_cover_def count_def
      receipt_covers_def num_field_def attempts_limited_def within_limit_def)

section \<open>The invariant\<close>

text \<open>A step writes one plan and counts for its seller only.\<close>

definition others_kept :: "string \<Rightarrow> ledger \<Rightarrow> ledger \<Rightarrow> bool" where
  "others_kept k s s' \<longleftrightarrow> (\<forall>k'. k' \<noteq> k \<longrightarrow> lg_plans s' k' = lg_plans s k' \<and> lg_total s' k' = lg_total s k' \<and>
     (\<forall>e src ph. lg_prepaid s' (k', e, src, ph) = lg_prepaid s (k', e, src, ph)) \<and> (\<forall>n. lg_work s' (k', n) = lg_work s (k', n)))"

lemma ledger_ok_write:
  assumes "ledger_ok s" and "others_kept k s s'" and "lg_plans s' k = Some p'" and "plan_covered s' k p'"
  shows "ledger_ok s'"
  unfolding ledger_ok_def
proof
  fix j
  show "case lg_plans s' j of None \<Rightarrow> unused s' j | Some p \<Rightarrow> plan_covered s' j p"
  proof (cases "j = k")
    case False
    with assms(2) have same: "lg_plans s' j = lg_plans s j" "lg_total s' j = lg_total s j"
      "lg_prepaid s' (j, e, src, ph) = lg_prepaid s (j, e, src, ph)" "lg_work s' (j, n) = lg_work s (j, n)" for e src ph n
      by (simp_all add: others_kept_def)
    have "case lg_plans s j of None \<Rightarrow> unused s j | Some p \<Rightarrow> plan_covered s j p" using assms(1) by (simp add: ledger_ok_def)
    then show ?thesis
      by (cases "lg_plans s j")
        (simp_all add: same unused_def plan_covered_def credits_cover_def receipts_cover_def totals_cover_def)
  qed (use assms(3,4) in simp)
qed

lemma ledger_okD: "ledger_ok s \<Longrightarrow> lg_plans s k = Some p \<Longrightarrow> plan_covered s k p"
  "ledger_ok s \<Longrightarrow> lg_plans s k = None \<Longrightarrow> unused s k"
  by (auto simp: ledger_ok_def split: option.splits dest: spec [of _ k])

lemma ledger_ok_work_db: "ledger_ok (s\<lparr>lg_work_db := db\<rparr>) = ledger_ok s"
  by (simp add: ledger_ok_def unused_def plan_covered_def credits_cover_def receipts_cover_def totals_cover_def cong: option.case_cong)

lemma ledger_ok_charge:
  assumes "ledger_ok s" and "lg_plans s k = Some p" and "plan_covered s k p \<Longrightarrow> plan_covered s k p'"
  shows "ledger_ok (s\<lparr>lg_plans := (lg_plans s)(k \<mapsto> p')\<rparr>)"
proof (rule ledger_ok_write [OF assms(1), of k])
  have "plan_covered s k p'" using assms(3) ledger_okD(1) [OF assms(1,2)] .
  then show "plan_covered (s\<lparr>lg_plans := (lg_plans s)(k \<mapsto> p')\<rparr>) k p'"
    by (simp add: plan_covered_def credits_cover_def receipts_cover_def totals_cover_def)
qed (simp_all add: others_kept_def)

context credit_store
begin

lemma initial_ok:
  assumes "ledger_ok s" and "charge_initial E seller source lease x traced now (lg_plans s) = (r, c)"
  shows "ledger_ok (s\<lparr>lg_plans := c\<rparr>)"
  using assms(2) unfolding charge_initial_def
proof (cases rule: update_plan_cases)
  case (2 p p')
  have "plan_covered s seller p'" if "plan_covered s seller p"
    by (rule initial_covered [OF that]) (use 2 in \<open>auto simp: owns_plan_def\<close>)
  with ledger_ok_charge [OF assms(1) 2(1)] 2(5) show ?thesis by simp
qed (use assms(1) in simp)

lemma roll_ok:
  assumes "ledger_ok s"
  shows "ledger_ok (s\<lparr>lg_plans := roll_over E seller source lease x day now (lg_plans s)\<rparr>)"
proof -
  obtain r c where "update_plan E seller
      (\<lambda>p. owns_plan E seller source x now False p \<and> lease_holds lease now p \<and> \<not> field_eq ''incremental_day'' (BStr day) p)
      (\<lambda>p. Some (reset_daily day p)) (lg_plans s) = (r, c)" (is "?u = _") by fastforce
  moreover from this have "ledger_ok (s\<lparr>lg_plans := c\<rparr>)"
  proof (cases rule: update_plan_cases)
    case (2 p p')
    have "plan_covered s seller p'" if cov: "plan_covered s seller p"
    proof -
      have "attempts_limited p" using cov by (simp add: plan_covered_def totals_cover_def)
      from kept_covered [OF cov reset_keeps [OF this, of day]] 2(3) show ?thesis by simp
    qed
    with ledger_ok_charge [OF assms 2(1)] 2(5) show ?thesis by simp
  qed (use assms in simp)
  ultimately show ?thesis by (simp add: roll_over_def)
qed

lemma daily_ok:
  assumes "ledger_ok s" and "charge_daily E seller source lease x traced work day now (lg_plans s) = (r, c)"
    and w: "\<And>n w. work = Some (n, w) \<Longrightarrow> wr_credit w = 1 \<and> wr_sent w = 0"
  shows "ledger_ok (s\<lparr>lg_plans := c\<rparr>)"
  using assms(2) unfolding charge_daily_def
proof (cases rule: update_plan_cases)
  case (2 p p')
  have "plan_covered s seller p'" if "plan_covered s seller p"
    by (rule daily_covered [OF that _ _ 2(3)]) (use 2(2) w in \<open>auto simp: owns_plan_def work_admits_def\<close>)
  with ledger_ok_charge [OF assms(1) 2(1)] 2(5) show ?thesis by simp
qed (use assms(1) in simp)

lemma pilot_ok:
  assumes "ledger_ok s" and "reserve_pilot_get_send E seller previous now later (lg_plans s) = (r, c)"
    and "s' = s\<lparr>lg_plans := c\<rparr>"
  shows "ledger_ok (if isl r then s' else s'\<lparr>lg_total := (lg_total s')(seller := lg_total s' seller + 1)\<rparr>)"
proof -
  have "c = lg_plans s \<and> isl r \<or> (\<exists>p p'. lg_plans s seller = Some p \<and> history_execution_query (cv_other E) now False (pl_fields p) \<and>
      Option.bind (inc_field ''execution_consumed'' p) (inc_field ''execution_sent'') = Some p' \<and> c = (lg_plans s)(seller \<mapsto> p'))"
    using assms(2)
    by (auto simp: reserve_pilot_get_send_def Let_def split: option.splits bson.splits if_splits prod.splits sum.splits
        elim!: update_plan_cases)
  then show ?thesis
  proof (elim disjE exE conjE)
    fix p p'
    assume p: "lg_plans s seller = Some p" "history_execution_query (cv_other E) now False (pl_fields p)"
      "Option.bind (inc_field ''execution_consumed'' p) (inc_field ''execution_sent'') = Some p'" "c = (lg_plans s)(seller \<mapsto> p')"
    have "plan_covered (if isl r then s' else s'\<lparr>lg_total := (lg_total s')(seller := lg_total s' seller + 1)\<rparr>) seller p'"
      by (rule pilot_covered [OF ledger_okD(1) [OF assms(1) p(1)] p(2,3)]) (simp_all add: assms(3))
    with p(4) show ?thesis
      by (intro ledger_ok_write [OF assms(1), of seller _ p']) (simp_all add: others_kept_def assms(3))
  qed (use assms(1,3) in simp)
qed

text \<open>A reservation by trace: refused without a change, or one of the two guarded updates.\<close>

lemma reserve_work_unfold:
  assumes "reserve_history_work_send E seller e src ph n path now (c, db) = (Some p', c', db')"
  obtains P where "update_plan E seller P
      (\<lambda>p. inc_field ''execution_sent'' (spend_work n (bump_counts [work_sent_path e src ph] p))) c = (Inr (Some p'), c')"
    and "\<And>p. P p \<Longrightarrow> sent_below_consumed E p \<and> one_work_credit n p"
  using assms
  by (auto simp: reserve_history_work_send_def split: option.splits if_splits prod.splits sum.splits)

lemma reserve_work_refused:
  "reserve_history_work_send E seller e src ph n path now (c, db) = (None, c', db') \<Longrightarrow> c' = c"
  by (auto simp: reserve_history_work_send_def split: option.splits if_splits prod.splits sum.splits)

lemma reserve_work_cases:
  assumes "reserve_history_work_send E seller e src ph n path now (c, db) = (r, c', db')"
  obtains "c' = c" "r = None"
  | p p' where "c seller = Some p" "sent_below_consumed E p" "one_work_credit n p"
      "inc_field ''execution_sent'' (spend_work n (bump_counts [work_sent_path e src ph] p)) = Some p'"
      "c' = c(seller \<mapsto> p')" "r = Some p'"
proof (cases r)
  case None
  with reserve_work_refused assms that(1) show thesis by blast
next
  case (Some p')
  obtain P where u: "update_plan E seller P
      (\<lambda>p. inc_field ''execution_sent'' (spend_work n (bump_counts [work_sent_path e src ph] p))) c = (Inr (Some p'), c')"
    and P: "\<And>p. P p \<Longrightarrow> sent_below_consumed E p \<and> one_work_credit n p"
    using reserve_work_unfold assms Some by blast
  from u show thesis
  proof (cases rule: update_plan_cases)
    case (2 p p1)
    with P that(2) Some show thesis by simp
  qed simp
qed

lemma send_ok:
  assumes ok: "ledger_ok s" and r: "reserve_history_send E scope q now later (lg_plans s, lg_work_db s) = (out, c, db)"
    and s': "s' = s\<lparr>lg_plans := c, lg_work_db := db\<rparr>"
  shows "ledger_ok (if out = Reserved then permit q s' else s')" (is "ledger_ok ?t")
proof (cases "request_trace q")
  case None
  with r have "?t = s" by (auto simp: reserve_history_send_def s')
  then show ?thesis using ok by simp
next
  case (Some t)
  obtain e src ph where t: "request_trace q = Some (e, src, ph)" using Some by (cases t) simp
  have keep: "ledger_ok ?t" if "c = lg_plans s" "out \<noteq> Reserved"
    using that ok ledger_ok_work_db [of db s] by (simp add: s' cong: if_cong)
  have wrote: "ledger_ok ?t" if "c = (lg_plans s)(hr_seller q \<mapsto> p')" "plan_covered ?t (hr_seller q) p'" for p'
    by (rule ledger_ok_write [OF ok _ _ that(2)])
      (use that(1) in \<open>auto simp: others_kept_def s' permit_def t Let_def split: option.splits\<close>)
  show ?thesis
  proof (cases "hr_work q")
    case None
    note w = this
    show ?thesis
    proof (cases "send_path_allowed src False (api_path (hr_path q))")
      case True
      obtain o1 c1 where u: "reserve_prepaid E scope (hr_seller q) e src ph now (lg_plans s) = (o1, c1)" by fastforce
      from u [unfolded reserve_prepaid_def] show ?thesis
      proof (cases rule: update_plan_cases)
        case 1
        with r t w True u have "c = lg_plans s \<and> out \<noteq> Reserved"
          by (auto simp: reserve_history_send_def Let_def split: sum.splits option.splits)
        with keep show ?thesis by blast
      next
        case (2 p p')
        with r t w True u have "c = (lg_plans s)(hr_seller q \<mapsto> p')" by (auto simp: reserve_history_send_def Let_def)
        moreover have "plan_covered ?t (hr_seller q) p'"
          by (rule prepaid_covered [OF ledger_okD(1) [OF ok 2(1)] _ _ 2(3)]) (use 2(2) in \<open>auto simp: s' permit_def t w Let_def\<close>)
        ultimately show ?thesis by (rule wrote)
      qed
    next
      case False
      with r t w have "c = lg_plans s \<and> out \<noteq> Reserved" by (auto simp: reserve_history_send_def Let_def)
      with keep show ?thesis by blast
    qed
  next
    case (Some n)
    note w = this
    show ?thesis
    proof (cases "send_path_allowed src True (api_path (hr_path q)) \<and> is_hex32 n \<and> hr_module q = ''sheets''")
      case True
      obtain o1 c1 db1 where u: "reserve_history_work_send E (hr_seller q) e src ph n (api_path (hr_path q)) now
          (lg_plans s, lg_work_db s) = (o1, c1, db1)" by (metis prod_cases3)
      from u show ?thesis
      proof (cases rule: reserve_work_cases)
        case 1
        with r t w True u have "c = lg_plans s \<and> out \<noteq> Reserved" by (auto simp: reserve_history_send_def Let_def)
        with keep show ?thesis by blast
      next
        case (2 p p')
        with r t w True u have "c = (lg_plans s)(hr_seller q \<mapsto> p')" by (auto simp: reserve_history_send_def Let_def)
        moreover have "plan_covered ?t (hr_seller q) p'"
          by (rule work_covered [OF ledger_okD(1) [OF ok 2(1)] 2(2-4)]) (auto simp: s' permit_def t w Let_def)
        ultimately show ?thesis by (rule wrote)
      qed
    next
      case False
      with r t w have "c = lg_plans s \<and> out \<noteq> Reserved" by (auto simp: reserve_history_send_def Let_def split: if_splits)
      with keep show ?thesis by blast
    qed
  qed
qed

lemma ledger_step_ok:
  assumes "ledger_step E scope s s'" and "ledger_ok s"
  shows "ledger_ok s'"
  using assms
proof (cases rule: ledger_step.cases)
  case (administer k p p')
  then show ?thesis using ledger_ok_charge [OF assms(2), of k p p'] kept_covered by blast
next
  case (admit k p)
  have "plan_covered s k p" using new_covered [OF admit(3)] ledger_okD(2) [OF assms(2) admit(2)] .
  then show ?thesis unfolding admit(1)
    by (intro ledger_ok_write [OF assms(2), of k _ p])
      (simp_all add: others_kept_def plan_covered_def credits_cover_def receipts_cover_def totals_cover_def)
next
  case (initial seller source lease x traced now r c)
  with initial_ok [OF assms(2)] show ?thesis by blast
next
  case (roll seller source lease x day now c)
  with roll_ok [OF assms(2)] show ?thesis by blast
next
  case (daily seller source lease x traced work day now r c)
  show ?thesis unfolding daily(1) by (rule daily_ok [OF assms(2) daily(2)]) (rule daily(3))
next
  case (send q now later out c db s1)
  show ?thesis unfolding send(1) by (rule send_ok [OF assms(2) send(2,3)])
next
  case (pilot seller previous now later r c s1)
  show ?thesis unfolding pilot(1) by (rule pilot_ok [OF assms(2) pilot(2,3)])
qed (use ledger_ok_work_db assms(2) in simp)

lemma ledger_reachable_ok: "ledger_reachable E scope s \<Longrightarrow> ledger_ok s"
proof (induction rule: ledger_reachable.induct)
  case (start db)
  show ?case by (simp add: ledger_ok_def initial_ledger_def unused_def)
qed (rule ledger_step_ok)

end

text \<open>
  C26. No transport without its credit: in every state that the two services can reach together, on any
  clocks and in any order, with the owners' documents and the plan's policy changing in between, the
  transports a source was permitted never exceed the attempts charged for it; a work receipt has paid at
  most one; all transports of a seller together never exceed the attempts charged to the plan, nor those
  its limit when it has one; and no initial budget is overdrawn.
\<close>

theorem prepaid_sends_covered:
  assumes "credit_store E" and "ledger_reachable E scope s" and "lg_plans s k = Some p"
  shows "int (lg_prepaid s (k, e, src, ph)) \<le> count p (charged_path e src ph) \<and> lg_work s (k, n) \<le> 1 \<and>
    (\<exists>consumed. num_field p ''execution_consumed'' = Some consumed \<and> int (lg_total s k) \<le> consumed \<and>
       within_limit (pl_fields p ''execution_attempt_limit'') (Some consumed)) \<and>
    limited (budget_consumed src) (budget_attempts src) p \<and> limited [''total_consumed''] [''total_budget''] p"
proof -
  have c: "plan_covered s k p" using ledger_okD(1) [OF credit_store.ledger_reachable_ok [OF assms(1,2)] assms(3)] .
  then have "int (lg_prepaid s (k, e, src, ph)) \<le> count p (sent_path e src ph)"
    "count p (sent_path e src ph) \<le> count p (charged_path e src ph)" "receipt_covers (lg_work s (k, n)) (pl_work p n)"
    by (simp_all add: plan_covered_def credits_cover_def receipts_cover_def)
  moreover from this(3) have "lg_work s (k, n) \<le> 1" by (auto simp: receipt_covers_def split: option.splits)
  ultimately show ?thesis using c
    by (auto simp: plan_covered_def totals_cover_def attempts_limited_def budgets_hold_def)
qed

text \<open>A plan that admits two reads of orders, charged once and sent once.\<close>

definition demo_plan :: plan where
  "demo_plan = \<lparr>pl_seller_id = ''7'',
     pl_fields = [''policy_version'' \<mapsto> Scalar (BStr policy_version), ''state'' \<mapsto> Scalar (BStr ''active''),
       ''eligible'' \<mapsto> Scalar (BBool True), ''execution_id'' \<mapsto> Scalar (BStr demo_token)],
     pl_authority_kind = Some ''account_link_policy'', pl_sources = [''orders''],
     pl_counts = (\<lambda>path. if path \<in> {[''total_consumed''], budget_consumed ''orders''} then Some 0
        else if path \<in> {[''total_budget''], budget_attempts ''orders''} then Some 2 else None),
     pl_work = Map.empty\<rparr>"

definition charged_plan :: plan where
  "charged_plan = (bump_counts ([budget_consumed ''orders'', [''total_consumed'']] @ [charged_path demo_token ''orders'' ''initial'']) demo_plan)
     \<lparr>pl_fields := (pl_fields demo_plan)(''execution_consumed'' \<mapsto> Scalar (BInt 1))\<rparr>"

definition demo_read :: history_request where
  "demo_read = \<lparr>hr_module = ''sheets'', hr_seller = ''7'', hr_method = ''GET'', hr_path = ''/orders/12'',
     hr_trace = ''h1-'' @ demo_token @ '':orders:initial'', hr_work = None, hr_retry = Some ''disabled''\<rparr>"

lemma demo_new_plan: "new_plan demo_plan"
  by (simp add: new_plan_def demo_plan_def budgets_hold_def limited_def path_defs)

lemma demo_charge:
  "charge_initial mem_credit ''7'' ''orders'' None (Some (BStr demo_token)) True 0 [''7'' \<mapsto> demo_plan] =
     (Inr (Some charged_plan), [''7'' \<mapsto> charged_plan])"
proof -
  have "owns_plan mem_credit ''7'' ''orders'' (Some (BStr demo_token)) 0 False demo_plan" "lease_holds None 0 demo_plan"
    "below (budget_consumed ''orders'') (budget_attempts ''orders'') demo_plan" "below [''total_consumed''] [''total_budget''] demo_plan"
    by (simp_all add: owns_plan_def field_eq_def execution_filter_def history_execution_query_def demo_plan_def lease_holds_def
        below_def count_lt_def path_defs)
  moreover have "inc_field ''execution_consumed'' (bump_counts ([budget_consumed ''orders'', [''total_consumed'']] @
      credit_paths (Some (BStr demo_token)) ''orders'' ''initial'' True) demo_plan) = Some charged_plan"
    by (simp add: inc_field_def charged_plan_def credit_paths_def) (simp add: demo_plan_def)
  ultimately show ?thesis by (simp add: charge_initial_def update_plan_def mem_credit_def)
qed

lemma demo_trace: "request_trace demo_read = Some (demo_token, ''orders'', ''initial'')"
  by code_simp

lemma demo_send:
  obtains p where "reserve_history_send mem_credit None demo_read 0 0 ([''7'' \<mapsto> charged_plan], db) = (Reserved, [''7'' \<mapsto> p], db)"
proof -
  have path: "send_path_allowed ''orders'' False (api_path (hr_path demo_read))" by code_simp
  have sel: "hr_seller demo_read = ''7''" "hr_work demo_read = None" by (simp_all add: demo_read_def)
  have "send_owned mem_credit ''7'' demo_token ''orders'' 0 charged_plan"
    by (simp add: send_owned_def field_eq_def history_execution_query_def charged_plan_def demo_plan_def)
  moreover have "nat_field ''execution_consumed'' charged_plan" "optional_nat_field ''execution_sent'' charged_plan"
    by (simp_all add: nat_field_def optional_nat_field_def counter_query_def int_type_def gte_zero_def charged_plan_def demo_plan_def)
  moreover have "pl_counts charged_plan (charged_path demo_token ''orders'' ''initial'') = Some 1"
    "pl_counts charged_plan (sent_path demo_token ''orders'' ''initial'') = None"
    by (simp_all add: charged_plan_def demo_plan_def count_def path_defs)
  moreover from this have "count charged_plan (sent_path demo_token ''orders'' ''initial'') <
      count charged_plan (charged_path demo_token ''orders'' ''initial'')"
    "optional_nat_count (sent_path demo_token ''orders'' ''initial'') charged_plan"
    by (simp_all add: count_def optional_nat_count_def)
  moreover have "sent_below_consumed mem_credit charged_plan"
    by (simp add: sent_below_consumed_def or_zero_def expr_lt_def charged_plan_def demo_plan_def)
  moreover obtain p where p: "inc_field ''execution_sent'' (bump_counts [sent_path demo_token ''orders'' ''initial''] charged_plan) = Some p"
      "history_execution_allowed 0 True (pl_fields p)"
    by (simp add: inc_field_def charged_plan_def demo_plan_def history_execution_allowed_def)
  ultimately have "reserve_prepaid mem_credit None ''7'' demo_token ''orders'' ''initial'' 0 [''7'' \<mapsto> charged_plan] =
      (Inr (Some p), [''7'' \<mapsto> p])"
    by (simp add: reserve_prepaid_def update_plan_def mem_credit_def)
  with that p(2) demo_trace path sel show thesis by (simp add: reserve_history_send_def Let_def)
qed

theorem prepaid_sends_covered_witness:
  "\<exists>s p. ledger_reachable mem_credit None s \<and> lg_plans s ''7'' = Some p \<and>
     lg_prepaid s (''7'', demo_token, ''orders'', ''initial'') = 1 \<and>
     1 \<le> count p (charged_path demo_token ''orders'' ''initial'')"
proof -
  let ?db = "\<lparr>wk_events = Map.empty, wk_claims = Map.empty, wk_jobs = Map.empty\<rparr>"
  let ?a = "(initial_ledger ?db)\<lparr>lg_plans := [''7'' \<mapsto> demo_plan]\<rparr>"
  let ?b = "?a\<lparr>lg_plans := [''7'' \<mapsto> charged_plan]\<rparr>"
  have "ledger_reachable mem_credit None ?a"
    using ledger_reachable.step [OF ledger_reachable.start [of _ _ ?db] ledger_step.admit [of "initial_ledger ?db" "''7''", OF _ demo_new_plan]]
    by (simp add: initial_ledger_def)
  from ledger_reachable.step [OF this ledger_step.initial [of mem_credit "''7''" "''orders''" None "Some (BStr demo_token)" True 0]]
  have b: "ledger_reachable mem_credit None ?b" using demo_charge by simp
  obtain p where p: "reserve_history_send mem_credit None demo_read 0 0 (lg_plans ?b, lg_work_db ?b) = (Reserved, [''7'' \<mapsto> p], ?db)"
    by (rule demo_send [of ?db]) (simp add: initial_ledger_def)
  let ?c = "permit demo_read (?b\<lparr>lg_plans := [''7'' \<mapsto> p], lg_work_db := ?db\<rparr>)"
  have c: "ledger_reachable mem_credit None ?c"
    using ledger_reachable.step [OF b ledger_step.send [OF p refl]] by simp
  have l: "lg_plans ?c ''7'' = Some p" "lg_prepaid ?c (''7'', demo_token, ''orders'', ''initial'') = 1"
    using demo_trace by (simp_all add: permit_def Let_def initial_ledger_def demo_read_def)
  from prepaid_sends_covered [OF mem_credit.credit_store_axioms c l(1), of demo_token "''orders''" "''initial''"] l(2)
  have "1 \<le> count p (charged_path demo_token ''orders'' ''initial'')" by simp
  with c l show ?thesis by blast
qed

section \<open>The daily counters\<close>

lemma owns_reset [simp]: "owns_plan E seller source x now charged (reset_daily day p) = owns_plan E seller source x now charged p"
proof -
  have f: "pl_fields (reset_daily day p) k = pl_fields p k" if "k \<noteq> ''incremental_day''" for k
    using that by (simp add: reset_daily_def)
  have "execution_filter x (reset_daily day p) = execution_filter x p"
    by (cases x) (simp_all add: execution_filter_def field_eq_def f)
  moreover have "history_execution_query (cv_other E) now charged (pl_fields (reset_daily day p)) =
      history_execution_query (cv_other E) now charged (pl_fields p)"
    by (simp add: history_execution_query_def f cong: option.case_cong)
  moreover have "pl_seller_id (reset_daily day p) = pl_seller_id p" "pl_sources (reset_daily day p) = pl_sources p"
    by (simp_all add: reset_daily_def)
  ultimately show ?thesis by (simp add: owns_plan_def field_eq_def f)
qed

lemma reset_daily_sel:
  "pl_fields (reset_daily day p) ''incremental_day'' = Some (Scalar (BStr day))"
  "pl_counts (reset_daily day p) [''incremental_consumed''] = Some 0"
  "source \<in> set history_sources \<Longrightarrow> pl_counts (reset_daily day p) (daily_source source) = Some 0"
  by (simp_all add: reset_daily_def)

context credit_store
begin

lemma roll_over_resets:
  assumes "c seller = Some p" and "owns_plan E seller source x now False p"
    and "pl_fields p ''incremental_day'' = Some (Scalar (BStr d))" and "d \<noteq> day"
  shows "roll_over E seller source None x day now c = c(seller \<mapsto> reset_daily day p)"
  using assms by (simp add: roll_over_def update_plan_def plans.point_laws lease_holds_def field_eq_def)

end

text \<open>
  C27. The daily budget can be reset by a worker of the day before: its clock read before midnight, its
  update after another worker's, it finds the stored day different from its own and resets the new day's
  counters; the next charge of the new day finds the old day and resets them again. Whatever had been
  consumed, the whole daily budget of the new day is available once more.
\<close>

theorem stale_day_resets_daily_budget:
  assumes "credit_store E" and "c seller = Some p" and "source \<in> set history_sources"
    and "owns_plan E seller source x earlier False p" and "owns_plan E seller source x later False p"
    and "pl_fields p ''incremental_day'' = Some (Scalar (BStr (date_text later)))" and "date_text earlier \<noteq> date_text later"
  shows "\<exists>p'. roll_over E seller source None x (date_text later) later
       (roll_over E seller source None x (date_text earlier) earlier c) seller = Some p' \<and>
     pl_fields p' ''incremental_day'' = Some (Scalar (BStr (date_text later))) \<and>
     pl_counts p' [''incremental_consumed''] = Some 0 \<and> pl_counts p' (daily_source source) = Some 0"
proof -
  let ?p = "reset_daily (date_text earlier) p"
  have one: "roll_over E seller source None x (date_text earlier) earlier c = c(seller \<mapsto> ?p)"
    by (rule credit_store.roll_over_resets [OF assms(1)]) (use assms(2,4,6) assms(7) [symmetric] in simp_all)
  have "roll_over E seller source None x (date_text later) later (c(seller \<mapsto> ?p)) =
      c(seller \<mapsto> ?p, seller \<mapsto> reset_daily (date_text later) ?p)"
    by (rule credit_store.roll_over_resets [OF assms(1)]) (use assms(5,7) in \<open>simp_all add: reset_daily_sel\<close>)
  with one assms(3) show ?thesis by (simp add: reset_daily_sel)
qed

definition spent_day :: plan where
  "spent_day = demo_plan\<lparr>pl_fields := (pl_fields demo_plan)(''incremental_day'' \<mapsto> Scalar (BStr ''1970-01-02'')),
     pl_counts := (pl_counts demo_plan)([''incremental_consumed''] \<mapsto> 100, [''incremental_policy'', ''max_daily_total''] \<mapsto> 100)\<rparr>"

theorem stale_day_resets_daily_budget_witness:
  "\<not> below [''incremental_consumed''] [''incremental_policy'', ''max_daily_total''] spent_day \<and>
   (\<exists>p'. roll_over mem_credit ''7'' ''orders'' None (Some (BStr demo_token)) (date_text day_us) day_us
       (roll_over mem_credit ''7'' ''orders'' None (Some (BStr demo_token)) (date_text 0) 0 [''7'' \<mapsto> spent_day]) ''7'' = Some p' \<and>
     pl_counts p' [''incremental_consumed''] = Some 0)"
proof -
  have d: "date_text 0 = ''1970-01-01''" "date_text day_us = ''1970-01-02''" by code_simp+
  have o: "owns_plan mem_credit ''7'' ''orders'' (Some (BStr demo_token)) now False spent_day" for now
    by (simp add: owns_plan_def field_eq_def execution_filter_def history_execution_query_def spent_day_def demo_plan_def)
  have "''orders'' \<in> set history_sources" by (simp add: history_sources_def)
  moreover have "pl_fields spent_day ''incremental_day'' = Some (Scalar (BStr (date_text day_us)))"
    by (simp add: spent_day_def d)
  moreover have "date_text 0 \<noteq> date_text day_us" by (simp add: d)
  ultimately have "\<exists>p'. roll_over mem_credit ''7'' ''orders'' None (Some (BStr demo_token)) (date_text day_us) day_us
       (roll_over mem_credit ''7'' ''orders'' None (Some (BStr demo_token)) (date_text 0) 0 [''7'' \<mapsto> spent_day]) ''7'' = Some p' \<and>
     pl_counts p' [''incremental_consumed''] = Some 0"
    using stale_day_resets_daily_budget [OF mem_credit.credit_store_axioms, of "[''7'' \<mapsto> spent_day]" "''7''" spent_day
        "''orders''" "Some (BStr demo_token)" 0 day_us] o [of 0] o [of day_us] by fastforce
  moreover have "\<not> below [''incremental_consumed''] [''incremental_policy'', ''max_daily_total''] spent_day"
    by (simp add: below_def count_lt_def spent_day_def)
  ultimately show ?thesis by blast
qed

end
