(* ===== verification/TokenVault.thy ===== *)
theory TokenVault
  imports PyStrings
begin

text \<open>
  The envelope encryption of the marketplace's tokens, \<^verbatim>\<open>gateway/tokens/encryption.py\<close>: a data key per
  account, kept in a process-wide cache that forgets, wrapped by the key service and used with AES-GCM
  under the account's identifier. The key service, the cipher and the system's randomness are arguments.
\<close>

section \<open>Operations\<close>

text \<open>
  A token as it is stored; byte strings and the text they encode are both character lists.
  \<open>vt_wrap\<close> and \<open>vt_unwrap\<close> are the key service's \<^verbatim>\<open>encrypt\<close> (with the name it answers, if any) and
  \<^verbatim>\<open>decrypt\<close>, which may raise; \<open>vt_seal\<close> and \<open>vt_open\<close> are AES-GCM with key, nonce, text and associated
  data; \<open>vt_random\<close> gives the n-th draw of \<^verbatim>\<open>os.urandom\<close>.
\<close>

record sealed =
  st_ciphertext :: string
  st_nonce :: string
  st_dek_wrapped :: string
  st_key_version :: string

record vault =
  vt_key_name :: string
  vt_wrap :: "string \<Rightarrow> string \<times> string option"
  vt_unwrap :: "string \<Rightarrow> string option"
  vt_seal :: "string \<Rightarrow> string \<Rightarrow> string \<Rightarrow> string \<Rightarrow> string"
  vt_open :: "string \<Rightarrow> string \<Rightarrow> string \<Rightarrow> string \<Rightarrow> string option"
  vt_random :: "nat \<Rightarrow> string"

type_synonym dek_cache = "string \<rightharpoonup> string \<times> string"

record vault_state =
  vs_cache :: dek_cache
  vs_draws :: nat

datatype vault_error = KmsError | InvalidTag

definition cache_key :: "string \<Rightarrow> string" where
  "cache_key account = ''meli-token-dek:'' @ account"

definition draw :: "vault \<Rightarrow> vault_state \<Rightarrow> string \<times> vault_state" where
  "draw V s = (vt_random V (vs_draws s), s\<lparr>vs_draws := vs_draws s + 1\<rparr>)"

definition get_or_create_dek :: "vault \<Rightarrow> string \<Rightarrow> vault_state \<Rightarrow> (string \<times> string \<times> string) \<times> vault_state" where
  "get_or_create_dek V account s = (case vs_cache s (cache_key account) of
     Some (dek, wrapped) \<Rightarrow> ((dek, wrapped, vt_key_name V), s)
   | None \<Rightarrow>
       (case draw V s of (dek, s1) \<Rightarrow>
        (case vt_wrap V dek of (wrapped, name) \<Rightarrow>
          ((dek, wrapped, case name of None \<Rightarrow> vt_key_name V | Some n \<Rightarrow> n),
           s1\<lparr>vs_cache := (vs_cache s1)(cache_key account \<mapsto> (dek, wrapped))\<rparr>))))"

definition encrypt_token :: "vault \<Rightarrow> string \<Rightarrow> string \<Rightarrow> vault_state \<Rightarrow> sealed \<times> vault_state" where
  "encrypt_token V plaintext account s =
    (case get_or_create_dek V account s of ((dek, wrapped, version), s1) \<Rightarrow>
     (case draw V s1 of (nonce, s2) \<Rightarrow>
       (\<lparr>st_ciphertext = vt_seal V dek nonce plaintext account, st_nonce = nonce, st_dek_wrapped = wrapped,
         st_key_version = version\<rparr>, s2)))"

definition decrypt_token :: "vault \<Rightarrow> sealed \<Rightarrow> string \<Rightarrow> vault_state \<Rightarrow> (vault_error, string) result \<times> vault_state" where
  "decrypt_token V t account s =
    (let cached = (case vs_cache s (cache_key account) of
           Some (dek, wrapped) \<Rightarrow> if wrapped = st_dek_wrapped t then Some dek else None | None \<Rightarrow> None);
         found = (case cached of
           Some dek \<Rightarrow> Some (dek, s)
         | None \<Rightarrow> map_option (\<lambda>dek. (dek, s\<lparr>vs_cache := (vs_cache s)(cache_key account \<mapsto> (dek, st_dek_wrapped t))\<rparr>))
                     (vt_unwrap V (st_dek_wrapped t)))
     in case found of
          None \<Rightarrow> (Inl KmsError, s)
        | Some (dek, s1) \<Rightarrow>
            (case vt_open V dek (st_nonce t) (st_ciphertext t) account of
               None \<Rightarrow> (Inl InvalidTag, s1)
             | Some plaintext \<Rightarrow> (Inr plaintext, s1)))"

section \<open>Round trip\<close>

text \<open>The invariant of a cache: what it remembers is what the key service would answer.\<close>

definition cache_ok :: "vault \<Rightarrow> vault_state \<Rightarrow> bool" where
  "cache_ok V s \<longleftrightarrow> (\<forall>a dek w. vs_cache s a = Some (dek, w) \<longrightarrow> vt_unwrap V w = Some dek)"

text \<open>
  What the code relies on: the key service unwraps what it wrapped, as long as it answers, and the cipher
  opens what it sealed under the same key, nonce and associated data.
\<close>

locale token_vault =
  fixes V :: vault
  assumes unwrap_wrap: "vt_unwrap V (fst (vt_wrap V dek)) = Some dek"
    and open_seal: "vt_open V dek nonce (vt_seal V dek nonce text account) account = Some text"
begin

lemma cache_ok_empty: "cache_ok V \<lparr>vs_cache = Map.empty, vs_draws = n\<rparr>"
  by (simp add: cache_ok_def)

lemma cache_ok_forget: "cache_ok V s \<Longrightarrow> cache_ok V (s\<lparr>vs_cache := vs_cache s |` A\<rparr>)"
  by (auto simp: cache_ok_def restrict_map_def split: if_splits)

lemma get_or_create_dek_ok:
  assumes "cache_ok V s" and "get_or_create_dek V account s = ((dek, w, v), s')"
  shows "cache_ok V s' \<and> vt_unwrap V w = Some dek"
proof (cases "vs_cache s (cache_key account)")
  case None
  obtain w' n where w: "vt_wrap V (vt_random V (vs_draws s)) = (w', n)" by fastforce
  with unwrap_wrap [of "vt_random V (vs_draws s)"] have "vt_unwrap V w' = Some (vt_random V (vs_draws s))" by simp
  with assms None w show ?thesis by (auto simp: get_or_create_dek_def draw_def cache_ok_def split: if_splits)
next
  case (Some dw)
  with assms show ?thesis by (cases dw) (auto simp: get_or_create_dek_def cache_ok_def)
qed

lemma encrypt_token_ok:
  assumes "cache_ok V s" and "encrypt_token V text account s = (t, s')"
  shows "cache_ok V s'" and "\<exists>dek. vt_unwrap V (st_dek_wrapped t) = Some dek \<and>
    vt_open V dek (st_nonce t) (st_ciphertext t) account = Some text"
proof -
  obtain dek w v s1 where g: "get_or_create_dek V account s = ((dek, w, v), s1)" by (metis prod_cases3 surj_pair)
  with assms(2) get_or_create_dek_ok [OF assms(1) g] open_seal show "cache_ok V s'"
    and "\<exists>dek. vt_unwrap V (st_dek_wrapped t) = Some dek \<and> vt_open V dek (st_nonce t) (st_ciphertext t) account = Some text"
    by (auto simp: encrypt_token_def draw_def cache_ok_def)
qed

lemma decrypt_token_ok:
  assumes "cache_ok V s" and "vt_unwrap V (st_dek_wrapped t) = Some dek"
    and "vt_open V dek (st_nonce t) (st_ciphertext t) account = Some text"
  shows "fst (decrypt_token V t account s) = Inr text" and "cache_ok V (snd (decrypt_token V t account s))"
proof -
  consider (hit) "vs_cache s (cache_key account) = Some (dek, st_dek_wrapped t)"
    | (miss) "\<And>d. vs_cache s (cache_key account) \<noteq> Some (d, st_dek_wrapped t)"
    using assms(1,2) unfolding cache_ok_def by (metis option.inject)
  then have "fst (decrypt_token V t account s) = Inr text \<and> cache_ok V (snd (decrypt_token V t account s))"
  proof cases
    case hit
    with assms show ?thesis by (simp add: decrypt_token_def)
  next
    case miss
    then have "(case vs_cache s (cache_key account) of
           Some (d, wrapped) \<Rightarrow> if wrapped = st_dek_wrapped t then Some d else None | None \<Rightarrow> None) = None"
      by (auto split: option.splits)
    with assms show ?thesis by (simp add: decrypt_token_def cache_ok_def)
  qed
  then show "fst (decrypt_token V t account s) = Inr text" and "cache_ok V (snd (decrypt_token V t account s))" by simp_all
qed

end

text \<open>
  A token survives storage: whatever data key the process had or drew when it sealed the token, and
  whatever any process has in its cache when it reads it (another process, a cache that has forgotten or
  holds another key of the account), reading returns the token, and the caches stay consistent.
\<close>

theorem token_roundtrip:
  assumes "token_vault V" and "cache_ok V s" and "encrypt_token V text account s = (t, s')" and "cache_ok V r"
  shows "fst (decrypt_token V t account r) = Inr text \<and> cache_ok V s' \<and> cache_ok V (snd (decrypt_token V t account r))"
proof -
  obtain dek where "vt_unwrap V (st_dek_wrapped t) = Some dek" "vt_open V dek (st_nonce t) (st_ciphertext t) account = Some text"
    using token_vault.encrypt_token_ok(2) [OF assms(1-3)] by blast
  with token_vault.decrypt_token_ok [OF assms(1,4)] token_vault.encrypt_token_ok(1) [OF assms(1-3)] show ?thesis by simp
qed

text \<open>A vault whose cipher prefixes the key and whose service reverses it.\<close>

definition demo_vault :: vault where
  "demo_vault = \<lparr>vt_key_name = ''k'', vt_wrap = (\<lambda>dek. (rev dek, None)), vt_unwrap = (\<lambda>w. Some (rev w)),
     vt_seal = (\<lambda>dek nonce text account. dek @ text),
     vt_open = (\<lambda>dek nonce c account. if starts_with dek c then Some (drop (length dek) c) else None), vt_random = nat_str\<rparr>"

interpretation demo_vault: token_vault demo_vault
  by unfold_locales (simp_all add: demo_vault_def)

theorem token_roundtrip_witness:
  "fst (decrypt_token demo_vault (fst (encrypt_token demo_vault ''secret'' ''7'' \<lparr>vs_cache = Map.empty, vs_draws = 4\<rparr>)) ''7''
     \<lparr>vs_cache = [cache_key ''7'' \<mapsto> (''x'', ''x'')], vs_draws = 0\<rparr>) = Inr ''secret''"
proof -
  have "cache_ok demo_vault \<lparr>vs_cache = Map.empty, vs_draws = 4\<rparr>"
    "cache_ok demo_vault \<lparr>vs_cache = [cache_key ''7'' \<mapsto> (''x'', ''x'')], vs_draws = 0\<rparr>"
    by (simp_all add: cache_ok_def demo_vault_def)
  from token_roundtrip [OF demo_vault.token_vault_axioms this(1) prod.collapse [symmetric] this(2)] show ?thesis by blast
qed

end
