(* ===== verification/TokenRefresh.thy ===== *)
theory TokenRefresh
  imports TokenVault WebhookClassifier HistoryPolicy MongoCollection
begin

text \<open>
  The refresh of the marketplace's tokens, \<^verbatim>\<open>gateway/tokens/refresh_worker.py\<close>: a pass locks the accounts
  whose access token is about to expire, presents each refresh token to the marketplace and stores the
  new pair or the failure. The marketplace, the vault's primitives and the collection are arguments; the
  passes of several gateway processes interleave at the calls.
\<close>

section \<open>Accounts\<close>

record meli_account =
  ma_seller :: int
  ma_platform_user :: string
  ma_status :: string
  ma_last_error :: "string option"
  ma_expires_at :: instant
  ma_lock :: "instant option"
  ma_access :: "sealed option"
  ma_refresh :: "sealed option"
  ma_refreshed_at :: "instant option"
  ma_updated_at :: instant

text \<open>
  The marketplace's answer: a failure of the transport, another failure of the client, or a response with
  its status, its JSON value (unless it does not parse, with the error's text).
\<close>

datatype token_reply = Transport_error string | Client_error string | Reply int "string + pyval"

record 'p refresh_env =
  re_accounts :: "meli_account mongo"
  re_vault :: vault
  re_post :: "'p \<Rightarrow> string \<Rightarrow> token_reply \<times> 'p"
  re_emit :: "'p \<Rightarrow> int \<Rightarrow> string \<Rightarrow> instant \<Rightarrow> bool \<times> 'p"

definition retryable_status :: "int \<Rightarrow> bool" where
  "retryable_status s \<longleftrightarrow> s = 429 \<or> 500 \<le> s \<and> s < 600"

definition status_message :: "int \<Rightarrow> string" where
  "status_message s = ''Meli refresh failed with status '' @ int_str s"

definition legacy_transient :: "string option \<Rightarrow> bool" where
  "legacy_transient e = (case e of None \<Rightarrow> False | Some m \<Rightarrow> list_ex (\<lambda>s. m = status_message s) (429 # [500..599]))"

definition refresh_window :: duration where
  "refresh_window = 15 * 60 * 1000000"

definition lock_time :: duration where
  "lock_time = 120 * 1000000"

text \<open>The driver keeps milliseconds of the instants it stores and compares.\<close>

definition refreshable :: "instant \<Rightarrow> meli_account \<Rightarrow> bool" where
  "refreshable now d \<longleftrightarrow>
     (ma_status d = ''active'' \<or> ma_status d = ''refresh_pending'' \<or> ma_status d = ''error'' \<and> legacy_transient (ma_last_error d)) \<and>
     ma_expires_at d < bson_ms (now + refresh_window)"

definition lock_free :: "instant \<Rightarrow> meli_account \<Rightarrow> bool" where
  "lock_free now d = (case ma_lock d of None \<Rightarrow> True | Some t \<Rightarrow> t < bson_ms now)"

text \<open>\<open>now\<close> is read once, at the start of the pass, also for the deadline of the locks.\<close>

definition lock_account :: "'p refresh_env \<Rightarrow> instant \<Rightarrow> string \<Rightarrow> meli_account coll \<Rightarrow> meli_account option \<times> meli_account coll" where
  "lock_account E now k c = find_one_and_update (re_accounts E) c k (\<lambda>d. refreshable now d \<and> lock_free now d)
     (\<lambda>d. d\<lparr>ma_lock := Some (bson_ms (now + lock_time)), ma_status := ''refresh_pending''\<rparr>)"

section \<open>The call\<close>

text \<open>\<open>Uncaught\<close>: an exception that the pass does not handle, which ends it.\<close>

datatype call_result = Tokens pyval | InvalidGrant | Failure bool string | Uncaught

definition safe_json :: "string + pyval \<Rightarrow> event" where
  "safe_json v = (case v of Inr (VObj kvs) \<Rightarrow> kvs | _ \<Rightarrow> [])"

definition interpret_reply :: "token_reply \<Rightarrow> call_result" where
  "interpret_reply r = (case r of
     Transport_error m \<Rightarrow> Failure True m
   | Client_error m \<Rightarrow> Failure False m
   | Reply s v \<Rightarrow>
       if 400 \<le> s
       then (if s < 500 \<and> get (safe_json v) ''error'' = VStr ''invalid_grant'' then InvalidGrant
             else Failure (retryable_status s) (status_message s))
       else (case v of Inl m \<Rightarrow> Failure False m | Inr t \<Rightarrow> Tokens t))"

definition missing_ciphertext :: string where
  "missing_ciphertext = CHR 0x27 # ''refresh_token_ciphertext'' @ [CHR 0x27]"

definition call_meli_refresh :: "'p refresh_env \<Rightarrow> meli_account \<Rightarrow> 'p \<times> vault_state \<Rightarrow> call_result \<times> 'p \<times> vault_state" where
  "call_meli_refresh E d w = (case w of (p, v) \<Rightarrow>
    (case ma_refresh d of
       None \<Rightarrow> (Failure False missing_ciphertext, p, v)
     | Some t \<Rightarrow>
         (case decrypt_token (re_vault E) t (int_str (ma_seller d)) v of
            (Inl KmsError, v1) \<Rightarrow> (Uncaught, p, v1)
          | (Inl InvalidTag, v1) \<Rightarrow> (Failure False [], p, v1)
          | (Inr token, v1) \<Rightarrow> (case re_post E p token of (r, p1) \<Rightarrow> (interpret_reply r, p1, v1)))))"

section \<open>The outcome\<close>

datatype tally = Succeeded | Failed | Revoked

definition set_account :: "'p refresh_env \<Rightarrow> string \<Rightarrow> (meli_account \<Rightarrow> meli_account) \<Rightarrow> meli_account coll \<Rightarrow> meli_account coll" where
  "set_account E k u c = snd (find_one_and_update (re_accounts E) c k (\<lambda>_. True) u)"

definition revoke_fields :: "instant \<Rightarrow> meli_account \<Rightarrow> meli_account" where
  "revoke_fields now d = d\<lparr>ma_status := ''revoked'', ma_lock := None, ma_updated_at := now\<rparr>"

definition failure_fields :: "instant \<Rightarrow> bool \<Rightarrow> string \<Rightarrow> meli_account \<Rightarrow> meli_account" where
  "failure_fields now retryable m d = d\<lparr>ma_status := if retryable then ''refresh_pending'' else ''error'',
     ma_last_error := Some (take 500 m), ma_lock := None, ma_updated_at := now\<rparr>"

definition token_fields :: "instant \<Rightarrow> sealed \<Rightarrow> sealed \<Rightarrow> int \<Rightarrow> meli_account \<Rightarrow> meli_account" where
  "token_fields now access refresh expires_in d = d\<lparr>ma_access := Some access,
     ma_refresh := Some (refresh\<lparr>st_key_version := st_key_version access\<rparr>), ma_expires_at := bson_ms (now + expires_in * 1000000),
     ma_status := ''active'', ma_lock := None, ma_refreshed_at := Some now, ma_updated_at := now\<rparr>"

text \<open>\<^verbatim>\<open>int(v)\<close> of a decoded value; a number with a fraction is not among the modelled values.\<close>

definition py_int_value :: "pyval \<Rightarrow> int option" where
  "py_int_value v = (case v of VInt i \<Rightarrow> Some i | VBool b \<Rightarrow> Some (if b then 1 else 0) | VStr s \<Rightarrow> py_int_text s | _ \<Rightarrow> None)"

text \<open>The fields of a success are read and sealed one after the other; a missing one escapes.\<close>

definition seal_tokens :: "'p refresh_env \<Rightarrow> string \<Rightarrow> pyval \<Rightarrow> vault_state \<Rightarrow> (sealed \<times> sealed \<times> int) option \<times> vault_state" where
  "seal_tokens E account t v = (case t of
     VObj kvs \<Rightarrow>
       (case get kvs ''access_token'' of
          VStr access \<Rightarrow>
            (case encrypt_token (re_vault E) access account v of (a, v1) \<Rightarrow>
              (case get kvs ''refresh_token'' of
                 VStr refresh \<Rightarrow>
                   (case encrypt_token (re_vault E) refresh account v1 of (r, v2) \<Rightarrow>
                     (map_option (\<lambda>s. (a, r, s)) (py_int_value (get kvs ''expires_in'')), v2))
               | _ \<Rightarrow> (None, v1)))
        | _ \<Rightarrow> (None, v))
   | _ \<Rightarrow> (None, v))"

text \<open>\<open>None\<close>: an exception escapes. The accounts are written by their identifier alone.\<close>

definition write_outcome ::
  "'p refresh_env \<Rightarrow> instant \<Rightarrow> string \<Rightarrow> meli_account \<Rightarrow> call_result \<Rightarrow> meli_account coll \<times> 'p \<times> vault_state \<Rightarrow>
   tally option \<times> meli_account coll \<times> 'p \<times> vault_state" where
  "write_outcome E now k d r s = (case s of (c, p, v) \<Rightarrow>
    (case r of
       Uncaught \<Rightarrow> (None, c, p, v)
     | InvalidGrant \<Rightarrow>
         (case re_emit E p (ma_seller d) (ma_platform_user d) now of (ok, p1) \<Rightarrow>
           (if ok then Some Revoked else None, set_account E k (revoke_fields now) c, p1, v))
     | Failure retryable m \<Rightarrow> (Some Failed, set_account E k (failure_fields now retryable m) c, p, v)
     | Tokens t \<Rightarrow>
         (case seal_tokens E (int_str (ma_seller d)) t v of
            (None, v1) \<Rightarrow> (None, c, p, v1)
          | (Some (a, f, secs), v1) \<Rightarrow> (Some Succeeded, set_account E k (token_fields now a f secs) c, p, v1))))"

section \<open>The pass\<close>

record refresh_stats =
  rs_attempted :: nat
  rs_succeeded :: nat
  rs_failed :: nat
  rs_revoked :: nat
  rs_skipped :: nat

definition no_stats :: refresh_stats where
  "no_stats = \<lparr>rs_attempted = 0, rs_succeeded = 0, rs_failed = 0, rs_revoked = 0, rs_skipped = 0\<rparr>"

definition with_tally :: "tally \<Rightarrow> refresh_stats \<Rightarrow> refresh_stats" where
  "with_tally t s = (case t of
     Succeeded \<Rightarrow> s\<lparr>rs_attempted := rs_attempted s + 1, rs_succeeded := rs_succeeded s + 1\<rparr>
   | Failed \<Rightarrow> s\<lparr>rs_attempted := rs_attempted s + 1, rs_failed := rs_failed s + 1\<rparr>
   | Revoked \<Rightarrow> s\<lparr>rs_attempted := rs_attempted s + 1, rs_revoked := rs_revoked s + 1\<rparr>)"

text \<open>\<open>ks\<close> are the candidates the cursor yields; each is locked under the whole query again.\<close>

fun refresh_once ::
  "'p refresh_env \<Rightarrow> instant \<Rightarrow> string list \<Rightarrow> refresh_stats \<Rightarrow> meli_account coll \<times> 'p \<times> vault_state \<Rightarrow>
   refresh_stats option \<times> meli_account coll \<times> 'p \<times> vault_state" where
  "refresh_once E now [] st s = (Some st, s)"
| "refresh_once E now (k # ks) st (c, p, v) =
    (case lock_account E now k c of
       (None, c1) \<Rightarrow> refresh_once E now ks (st\<lparr>rs_skipped := rs_skipped st + 1\<rparr>) (c1, p, v)
     | (Some d, c1) \<Rightarrow>
         (case call_meli_refresh E d (p, v) of (r, p1, v1) \<Rightarrow>
           (case write_outcome E now k d r (c1, p1, v1) of
              (None, s) \<Rightarrow> (None, s)
            | (Some t, s) \<Rightarrow> refresh_once E now ks (with_tally t st) s)))"

section \<open>What a pass does\<close>

definition settled_status :: "string list" where
  "settled_status = [''active'', ''refresh_pending'', ''error'', ''revoked'']"

definition tallied :: "refresh_stats \<Rightarrow> bool" where
  "tallied st \<longleftrightarrow> rs_attempted st = rs_succeeded st + rs_failed st + rs_revoked st"

text \<open>The accounts a pass settles, and that it changes no other.\<close>

definition settles :: "instant \<Rightarrow> string list \<Rightarrow> meli_account coll \<Rightarrow> meli_account coll \<Rightarrow> bool" where
  "settles now ks c c' \<longleftrightarrow> (\<forall>k. if k \<in> set ks \<and> (\<exists>d. c k = Some d \<and> refreshable now d \<and> lock_free now d)
     then \<exists>d'. c' k = Some d' \<and> ma_lock d' = None \<and> ma_status d' \<in> set settled_status else c' k = c k)"

locale refresh_store = accounts: mongo_collection "re_accounts E" for E :: "'p refresh_env"
begin

lemma set_account_eq: "set_account E k u c = (case c k of None \<Rightarrow> c | Some d \<Rightarrow> c(k \<mapsto> u d))"
  by (simp add: set_account_def accounts.point_laws matches_def split: option.splits)

lemma lock_account_None:
  "lock_account E now k c = (None, c1) \<Longrightarrow> c1 = c \<and> \<not> (\<exists>d. c k = Some d \<and> refreshable now d \<and> lock_free now d)"
  by (auto simp: lock_account_def accounts.point_laws matches_def split: option.splits if_splits)

lemma lock_account_free:
  assumes "c k = Some d" and "refreshable now d" and "lock_free now d"
  shows "lock_account E now k c = (Some (d\<lparr>ma_lock := Some (bson_ms (now + lock_time)), ma_status := ''refresh_pending''\<rparr>),
    c(k \<mapsto> d\<lparr>ma_lock := Some (bson_ms (now + lock_time)), ma_status := ''refresh_pending''\<rparr>))"
  using assms by (simp add: lock_account_def accounts.point_laws)

lemma lock_account_Some:
  assumes "lock_account E now k c = (Some d', c1)"
  obtains d where "c k = Some d" "refreshable now d" "lock_free now d" "c1 = c(k \<mapsto> d')"
    "d' = d\<lparr>ma_lock := Some (bson_ms (now + lock_time)), ma_status := ''refresh_pending''\<rparr>"
proof (cases "c k")
  case None
  with assms show thesis by (simp add: lock_account_def accounts.point_laws)
next
  case (Some d)
  show thesis
  proof (cases "refreshable now d \<and> lock_free now d")
    case True
    then have c: "refreshable now d" "lock_free now d" by simp_all
    have e: "d' = d\<lparr>ma_lock := Some (bson_ms (now + lock_time)), ma_status := ''refresh_pending''\<rparr> \<and> c1 = c(k \<mapsto> d')"
      using assms unfolding lock_account_free [where c = c and k = k, OF Some c] by blast
    show thesis by (rule that [where d = d]) (use Some c e in blast)+
  next
    case False
    with assms Some show thesis by (auto simp: lock_account_def accounts.point_laws)
  qed
qed

text \<open>An outcome writes the locked account only, unlocks it and leaves a settled status.\<close>

lemma write_outcome_Some:
  assumes "write_outcome E now k d r (c, p, v) = (Some t, c', p', v')" and k: "c k = Some d0"
  shows "\<exists>d1. c' = c(k \<mapsto> d1) \<and> ma_lock d1 = None \<and> ma_status d1 \<in> set settled_status"
proof -
  have w: "\<exists>d1. set_account E k u c = c(k \<mapsto> d1) \<and> ma_lock d1 = None \<and> ma_status d1 \<in> set settled_status"
    if "ma_lock (u d0) = None" "ma_status (u d0) \<in> set settled_status" for u
    using k that by (auto simp: set_account_eq)
  show ?thesis
  proof (cases r)
    case (Tokens t0)
    obtain o1 v1 where "seal_tokens E (int_str (ma_seller d)) t0 v = (o1, v1)" by fastforce
    with assms Tokens obtain a f n where "c' = set_account E k (token_fields now a f n) c"
      by (cases o1) (auto simp: write_outcome_def)
    with w [of "token_fields now a f n"] show ?thesis by (simp add: token_fields_def settled_status_def)
  next
    case InvalidGrant
    with assms have "c' = set_account E k (revoke_fields now) c"
      by (cases "re_emit E p (ma_seller d) (ma_platform_user d) now") (simp add: write_outcome_def)
    with w [of "revoke_fields now"] show ?thesis by (simp add: revoke_fields_def settled_status_def)
  next
    case (Failure retryable m)
    with assms have "c' = set_account E k (failure_fields now retryable m) c" by (simp add: write_outcome_def)
    with w [of "failure_fields now retryable m"] show ?thesis by (simp add: failure_fields_def settled_status_def)
  qed (use assms in \<open>simp add: write_outcome_def\<close>)
qed

lemma refresh_once_frame:
  assumes "refresh_once E now ks st (c, p, v) = (Some st', c', p', v')" and "k \<notin> set ks"
  shows "c' k = c k"
  using assms
proof (induction ks arbitrary: st c p v)
  case (Cons j ks)
  obtain l c1 where l: "lock_account E now j c = (l, c1)" by fastforce
  show ?case
  proof (cases l)
    case None
    with Cons l lock_account_None [of now j c c1] show ?thesis by simp
  next
    case (Some d)
    obtain r p1 v1 where r: "call_meli_refresh E d (p, v) = (r, p1, v1)" by (metis prod_cases3)
    obtain t c2 p2 v2 where w: "write_outcome E now j d r (c1, p1, v1) = (t, c2, p2, v2)" by (metis prod_cases4)
    with Cons.prems(1) l Some r obtain t' where t: "t = Some t'" by (cases t) auto
    have c1: "c1 = c(j \<mapsto> d)" using l Some by (auto elim: lock_account_Some)
    with w t obtain d1 where "c2 = c1(j \<mapsto> d1)" using write_outcome_Some [of now j d r c1 p1 v1 t'] by auto
    moreover have "c' k = c2 k" using Cons.IH [of "with_tally t' st" c2 p2 v2] Cons.prems l Some r w t by simp
    ultimately show ?thesis using c1 Cons.prems(2) by simp
  qed
qed simp

lemma refresh_once_settles:
  assumes "refresh_once E now ks st (c, p, v) = (Some st', c', p', v')" and "distinct ks" and "tallied st"
  shows "tallied st' \<and> rs_attempted st' + rs_skipped st' = rs_attempted st + rs_skipped st + length ks \<and> settles now ks c c'"
  using assms
proof (induction ks arbitrary: st c p v)
  case Nil
  then show ?case by (simp add: settles_def)
next
  case (Cons j ks)
  obtain l c1 where l: "lock_account E now j c = (l, c1)" by fastforce
  show ?case
  proof (cases l)
    case None
    have n: "c1 = c" "\<not> (\<exists>d. c j = Some d \<and> refreshable now d \<and> lock_free now d)"
      using lock_account_None [of now j c c1] l None by auto
    let ?st = "st\<lparr>rs_skipped := rs_skipped st + 1\<rparr>"
    have "refresh_once E now ks ?st (c, p, v) = (Some st', c', p', v')" using Cons.prems(1) l None n(1) by simp
    moreover have "tallied ?st" using Cons.prems(3) by (simp add: tallied_def)
    ultimately have ih: "tallied st' \<and> rs_attempted st' + rs_skipped st' = rs_attempted ?st + rs_skipped ?st + length ks \<and>
        settles now ks c c'" using Cons.IH [of ?st c p v] Cons.prems(2) by simp
    with n(2) Cons.prems(2) show ?thesis by (auto simp: settles_def)
  next
    case (Some d)
    obtain r p1 v1 where r: "call_meli_refresh E d (p, v) = (r, p1, v1)" by (metis prod_cases3)
    obtain t c2 p2 v2 where w: "write_outcome E now j d r (c1, p1, v1) = (t, c2, p2, v2)" by (metis prod_cases4)
    with Cons.prems(1) l Some r obtain t' where t: "t = Some t'" by (cases t) auto
    have lk: "lock_account E now j c = (Some d, c1)" using l Some by simp
    from lock_account_Some [OF lk] have c1: "c1 = c(j \<mapsto> d)" and ok: "\<exists>d. c j = Some d \<and> refreshable now d \<and> lock_free now d"
      by blast+
    obtain d1 where d1: "c2 = c1(j \<mapsto> d1)" "ma_lock d1 = None" "ma_status d1 \<in> set settled_status"
      using write_outcome_Some [where c = c1 and k = j and now = now and d = d and r = r and d0 = d] w t c1
      by (metis fun_upd_same)
    have "tallied (with_tally t' st)" "rs_attempted (with_tally t' st) + rs_skipped (with_tally t' st) = rs_attempted st + rs_skipped st + 1"
      using Cons.prems(3) by (cases t'; simp add: tallied_def with_tally_def)+
    with Cons.IH [of "with_tally t' st" c2 p2 v2] Cons.prems l Some r w t
    have ih: "tallied st'" "rs_attempted st' + rs_skipped st' = rs_attempted st + rs_skipped st + 1 + length ks" "settles now ks c2 c'"
      by auto
    have "settles now (j # ks) c c'"
      unfolding settles_def
    proof
      fix k
      have "if k \<in> set ks \<and> (\<exists>d. c2 k = Some d \<and> refreshable now d \<and> lock_free now d)
         then \<exists>d'. c' k = Some d' \<and> ma_lock d' = None \<and> ma_status d' \<in> set settled_status else c' k = c2 k"
        using ih(3) by (simp add: settles_def)
      then show "if k \<in> set (j # ks) \<and> (\<exists>d. c k = Some d \<and> refreshable now d \<and> lock_free now d)
         then \<exists>d'. c' k = Some d' \<and> ma_lock d' = None \<and> ma_status d' \<in> set settled_status else c' k = c k"
        using d1 c1 ok Cons.prems(2) by (cases "k = j") (auto split: if_splits)
    qed
    with ih(1,2) show ?thesis by simp
  qed
qed

text \<open>While a lock holds, no other pass takes the account.\<close>

lemma lock_excludes:
  assumes "c k = Some d" and "ma_lock d = Some t" and "bson_ms now \<le> t"
  shows "lock_account E now k c = (None, c)"
  using assms by (simp add: lock_account_def accounts.point_laws lock_free_def)

end

text \<open>
  C29. A pass that ends settles exactly the accounts it should: every candidate that is due and whose lock
  is free ends unlocked with a settled status, no other account changes, every attempt is counted once as
  a success, a failure or a revocation, and attempts and skips together are the candidates.
\<close>

theorem refresh_pass_settles:
  assumes "refresh_store E" and "distinct ks" and "refresh_once E now ks no_stats (c, p, v) = (Some st, c', p', v')"
  shows "settles now ks c c' \<and> rs_attempted st = rs_succeeded st + rs_failed st + rs_revoked st \<and>
    rs_attempted st + rs_skipped st = length ks"
proof -
  have "tallied no_stats" by (simp add: tallied_def no_stats_def)
  from refresh_store.refresh_once_settles [OF assms(1,3,2) this] show ?thesis by (simp add: tallied_def no_stats_def)
qed

section \<open>A marketplace that always renews\<close>

definition demo_pair :: event where
  "demo_pair = [(''access_token'', VStr ''a2''), (''refresh_token'', VStr ''r2''), (''expires_in'', VInt 21600)]"

definition demo_refresh :: "string list refresh_env" where
  "demo_refresh = \<lparr>re_accounts = mem_mongo, re_vault = demo_vault,
     re_post = (\<lambda>p token. (Reply 200 (Inr (VObj demo_pair)), token # p)), re_emit = (\<lambda>p _ _ _. (True, p))\<rparr>"

interpretation demo_refresh: refresh_store demo_refresh
  unfolding refresh_store_def by (simp add: demo_refresh_def mem.mongo_collection_axioms)

definition demo_vault_state :: vault_state where
  "demo_vault_state = \<lparr>vs_cache = Map.empty, vs_draws = 0\<rparr>"

definition demo_account :: meli_account where
  "demo_account = \<lparr>ma_seller = 7, ma_platform_user = ''u'', ma_status = ''active'', ma_last_error = None, ma_expires_at = 0,
     ma_lock = None, ma_access = None, ma_refresh = Some (fst (encrypt_token demo_vault ''r1'' ''7'' demo_vault_state)),
     ma_refreshed_at = None, ma_updated_at = 0\<rparr>"

lemma demo_due: "refreshable 0 demo_account" "lock_free 0 demo_account" "refreshable 200000000 demo_account"
  by (simp_all add: refreshable_def lock_free_def demo_account_def bson_ms_def refresh_window_def)

lemma demo_cache: "cache_ok demo_vault demo_vault_state"
  by (simp add: cache_ok_def demo_vault_state_def)

lemma demo_seals: "\<exists>a f v. seal_tokens demo_refresh account (VObj demo_pair) w = (Some (a, f, 21600), v)"
  by (simp add: seal_tokens_def demo_pair_def get_def py_int_value_def split: prod.splits)

lemma demo_writes:
  "\<exists>c' p' v'. write_outcome demo_refresh now k d (Tokens (VObj demo_pair)) (c, p, v) = (Some Succeeded, c', p', v')"
  using demo_seals [of "int_str (ma_seller d)" v] by (auto simp: write_outcome_def)

lemma demo_calls: "\<exists>v1. call_meli_refresh demo_refresh (demo_account\<lparr>ma_lock := l, ma_status := st\<rparr>) (p, demo_vault_state) =
    (Tokens (VObj demo_pair), ''r1'' # p, v1)"
proof -
  have "int_str 7 = ''7''" by code_simp
  moreover have "fst (decrypt_token demo_vault (fst (encrypt_token demo_vault ''r1'' ''7'' demo_vault_state)) ''7'' demo_vault_state) = Inr ''r1''"
    using token_vault.encrypt_token_ok(2) [OF demo_vault.token_vault_axioms demo_cache prod.collapse [symmetric]]
      token_vault.decrypt_token_ok(1) [OF demo_vault.token_vault_axioms demo_cache] by metis
  ultimately show ?thesis
    by (cases "decrypt_token demo_vault (fst (encrypt_token demo_vault ''r1'' ''7'' demo_vault_state)) ''7'' demo_vault_state")
      (simp add: call_meli_refresh_def demo_refresh_def demo_account_def interpret_reply_def)
qed

lemma demo_pass: "\<exists>st c' p' v'. refresh_once demo_refresh 0 [''a''] no_stats ([''a'' \<mapsto> demo_account], [], demo_vault_state) = (Some st, c', p', v')"
proof -
  let ?d = "demo_account\<lparr>ma_lock := Some (bson_ms (0 + lock_time)), ma_status := ''refresh_pending''\<rparr>"
  have l: "lock_account demo_refresh 0 ''a'' [''a'' \<mapsto> demo_account] = (Some ?d, [''a'' \<mapsto> demo_account, ''a'' \<mapsto> ?d])"
    by (rule demo_refresh.lock_account_free) (simp_all add: demo_due)
  obtain v1 where c: "call_meli_refresh demo_refresh ?d ([], demo_vault_state) = (Tokens (VObj demo_pair), [''r1''], v1)"
    using demo_calls by blast
  obtain c' p' v' where "write_outcome demo_refresh 0 ''a'' ?d (Tokens (VObj demo_pair)) ([''a'' \<mapsto> demo_account, ''a'' \<mapsto> ?d], [''r1''], v1) =
      (Some Succeeded, c', p', v')" using demo_writes by blast
  with l c show ?thesis by simp
qed

theorem refresh_pass_settles_witness:
  "\<exists>st c' p' v'. refresh_once demo_refresh 0 [''a''] no_stats ([''a'' \<mapsto> demo_account], [], demo_vault_state) = (Some st, c', p', v') \<and>
     rs_attempted st + rs_skipped st = 1"
proof -
  obtain st c' p' v' where r: "refresh_once demo_refresh 0 [''a''] no_stats ([''a'' \<mapsto> demo_account], [], demo_vault_state) = (Some st, c', p', v')"
    using demo_pass by blast
  from refresh_pass_settles [OF demo_refresh.refresh_store_axioms _ r] r show ?thesis by auto
qed

section \<open>Tokens between passes\<close>

lemma decrypt_any_version: "decrypt_token V (t\<lparr>st_key_version := n\<rparr>) account v = decrypt_token V t account v"
proof -
  have "st_dek_wrapped (t\<lparr>st_key_version := n\<rparr>) = st_dek_wrapped t" "st_nonce (t\<lparr>st_key_version := n\<rparr>) = st_nonce t"
    "st_ciphertext (t\<lparr>st_key_version := n\<rparr>) = st_ciphertext t" by simp_all
  then show ?thesis unfolding decrypt_token_def by (simp only:)
qed

lemma seal_tokens_refresh:
  assumes "token_vault (re_vault E)" and "cache_ok (re_vault E) v" and "get kvs ''refresh_token'' = VStr token"
    and "seal_tokens E account (VObj kvs) v = (Some (a, f, secs), v')" and "cache_ok (re_vault E) w"
  shows "fst (decrypt_token (re_vault E) f account w) = Inr token"
proof -
  obtain access where acc: "get kvs ''access_token'' = VStr access"
    using assms(4) by (auto simp: seal_tokens_def split: pyval.splits)
  obtain a1 v1 where a1: "encrypt_token (re_vault E) access account v = (a1, v1)" by fastforce
  obtain f1 v2 where f1: "encrypt_token (re_vault E) token account v1 = (f1, v2)" by fastforce
  have "f = f1" using assms(4) acc a1 f1 assms(3) by (auto simp: seal_tokens_def)
  moreover have "cache_ok (re_vault E) v1" using token_vault.encrypt_token_ok(1) [OF assms(1,2) a1] .
  ultimately show ?thesis
    using token_vault.encrypt_token_ok(2) [OF assms(1) _ f1] token_vault.decrypt_token_ok(1) [OF assms(1,5)] by blast
qed

text \<open>
  C30. The chain of refresh tokens does not break: after a pass has stored the marketplace's answer, the
  next call for that account, by any process with any cache, presents exactly the refresh token that the
  answer carried.
\<close>

theorem next_refresh_presents_latest:
  assumes "refresh_store E" and "token_vault (re_vault E)" and "cache_ok (re_vault E) v"
    and "write_outcome E now k d (Tokens (VObj kvs)) (c, p, v) = (Some Succeeded, c', p', v')" and "c k = Some d0"
    and "get kvs ''refresh_token'' = VStr token"
    and "ma_refresh d2 = Option.bind (c' k) ma_refresh" and "ma_seller d2 = ma_seller d" and "cache_ok (re_vault E) w"
  shows "fst (call_meli_refresh E d2 (q, w)) = interpret_reply (fst (re_post E q token))"
proof -
  obtain a f secs where s: "seal_tokens E (int_str (ma_seller d)) (VObj kvs) v = (Some (a, f, secs), v')"
      "c' = set_account E k (token_fields now a f secs) c"
    using assms(4) by (auto simp: write_outcome_def split: prod.splits option.splits)
  have "ma_refresh d2 = Some (f\<lparr>st_key_version := st_key_version a\<rparr>)"
    using assms(5,7) s(2) by (simp add: refresh_store.set_account_eq [OF assms(1)] token_fields_def)
  moreover obtain w1 where "decrypt_token (re_vault E) f (int_str (ma_seller d2)) w = (Inr token, w1)"
    using seal_tokens_refresh [OF assms(2,3,6) s(1) assms(9)] assms(8) by (metis prod.collapse)
  ultimately show ?thesis
    by (cases "re_post E q token") (simp add: call_meli_refresh_def decrypt_any_version)
qed

theorem next_refresh_presents_latest_witness:
  "\<exists>c' p' v' d2. write_outcome demo_refresh 0 ''a'' demo_account (Tokens (VObj demo_pair))
       ([''a'' \<mapsto> demo_account], [], demo_vault_state) = (Some Succeeded, c', p', v') \<and> ma_refresh d2 = Option.bind (c' ''a'') ma_refresh \<and>
     fst (call_meli_refresh demo_refresh d2 ([], demo_vault_state)) = interpret_reply (fst (re_post demo_refresh [] ''r2''))"
proof -
  obtain c' p' v' where w: "write_outcome demo_refresh 0 ''a'' demo_account (Tokens (VObj demo_pair))
      ([''a'' \<mapsto> demo_account], [], demo_vault_state) = (Some Succeeded, c', p', v')" using demo_writes by blast
  let ?d2 = "demo_account\<lparr>ma_refresh := Option.bind (c' ''a'') ma_refresh\<rparr>"
  have v: "re_vault demo_refresh = demo_vault" by (simp add: demo_refresh_def)
  have "get demo_pair ''refresh_token'' = VStr ''r2''" by (simp add: demo_pair_def get_def)
  from next_refresh_presents_latest [OF demo_refresh.refresh_store_axioms _ _ w _ this, of demo_account ?d2 demo_vault_state "[]"]
  have "fst (call_meli_refresh demo_refresh ?d2 ([], demo_vault_state)) = interpret_reply (fst (re_post demo_refresh [] ''r2''))"
    by (simp add: v demo_vault.token_vault_axioms demo_cache)
  with w show ?thesis by (intro exI [of _ c'] exI [of _ p'] exI [of _ v'] exI [of _ ?d2]) simp
qed

text \<open>
  C31. Two passes can present the same refresh token: the deadline of every lock of a pass is two minutes
  after the pass began, however late the account is reached, so a second pass that begins later takes an
  account the first is still refreshing. It presents the same token; when the marketplace refuses it as
  used, the second pass revokes the account, although the pair the first one has stored is valid.
\<close>

theorem late_lock_lets_second_pass_revoke:
  assumes "refresh_store E" and "c k = Some d" and "refreshable now1 d" and "lock_free now1 d"
    and "refreshable now2 d" and "bson_ms (now1 + lock_time) < bson_ms now2"
  shows "\<exists>d1 c1 d2 c2. lock_account E now1 k c = (Some d1, c1) \<and> lock_account E now2 k c1 = (Some d2, c2) \<and>
    ma_refresh d2 = ma_refresh d1 \<and>
    (\<forall>t p v c3 p3 v3 q w. write_outcome E now1 k d1 (Tokens t) (c2, p, v) = (Some Succeeded, c3, p3, v3) \<longrightarrow>
      (\<exists>stored revoked. c3 k = Some stored \<and> ma_status stored = ''active'' \<and>
         fst (snd (write_outcome E now2 k d2 InvalidGrant (c3, q, w))) k = Some revoked \<and>
         ma_status revoked = ''revoked'' \<and> ma_refresh revoked = ma_refresh stored))"
proof -
  let ?d1 = "d\<lparr>ma_lock := Some (bson_ms (now1 + lock_time)), ma_status := ''refresh_pending''\<rparr>"
  let ?d2 = "d\<lparr>ma_lock := Some (bson_ms (now2 + lock_time)), ma_status := ''refresh_pending''\<rparr>"
  have one: "lock_account E now1 k c = (Some ?d1, c(k \<mapsto> ?d1))"
    by (rule refresh_store.lock_account_free [OF assms(1)]) (use assms(2-4) in simp_all)
  have two: "lock_account E now2 k (c(k \<mapsto> ?d1)) = (Some ?d2, c(k \<mapsto> ?d1, k \<mapsto> ?d2))"
    using refresh_store.lock_account_free [OF assms(1), where c = "c(k \<mapsto> ?d1)" and k = k and d = ?d1 and now = now2] assms(5,6)
    by (simp add: refreshable_def lock_free_def)
  have "\<exists>stored revoked. c3 k = Some stored \<and> ma_status stored = ''active'' \<and>
         fst (snd (write_outcome E now2 k ?d2 InvalidGrant (c3, q, w))) k = Some revoked \<and>
         ma_status revoked = ''revoked'' \<and> ma_refresh revoked = ma_refresh stored"
    if "write_outcome E now1 k ?d1 (Tokens t) (c(k \<mapsto> ?d1, k \<mapsto> ?d2), p, v) = (Some Succeeded, c3, p3, v3)" for t p v c3 p3 v3 q w
  proof -
    from that obtain a f n where "c3 = set_account E k (token_fields now1 a f n) (c(k \<mapsto> ?d1, k \<mapsto> ?d2))"
      by (auto simp: write_outcome_def split: prod.splits option.splits)
    then have "c3 k = Some (token_fields now1 a f n ?d2)" by (simp add: refresh_store.set_account_eq [OF assms(1)])
    moreover from this have "fst (snd (write_outcome E now2 k ?d2 InvalidGrant (c3, q, w))) k =
        Some (revoke_fields now2 (token_fields now1 a f n ?d2))"
      by (simp add: write_outcome_def refresh_store.set_account_eq [OF assms(1)] split: prod.splits)
    ultimately show ?thesis by (simp add: token_fields_def revoke_fields_def)
  qed
  with one two show ?thesis by (intro exI conjI) (assumption | simp)+
qed

theorem late_lock_lets_second_pass_revoke_witness:
  "\<exists>d1 c1 d2 c2. lock_account demo_refresh 0 ''a'' [''a'' \<mapsto> demo_account] = (Some d1, c1) \<and>
     lock_account demo_refresh 200000000 ''a'' c1 = (Some d2, c2) \<and> ma_refresh d2 = ma_refresh d1"
proof -
  have "bson_ms (0 + lock_time) < bson_ms 200000000" by (simp add: bson_ms_def lock_time_def)
  from late_lock_lets_second_pass_revoke [OF demo_refresh.refresh_store_axioms _ demo_due this, of "[''a'' \<mapsto> demo_account]" "''a''"]
  show ?thesis by auto
qed

end
