(* ===== verification/SyncJobs.thy ===== *)
theory SyncJobs
  imports HistoryCredit MongoQueries "HOL-Library.Product_Lexorder"
begin

text \<open>
  The manual synchronisation of a spreadsheet, \<^verbatim>\<open>sheets/sync_jobs_processor.py\<close> and the job's creation in
  \<^verbatim>\<open>sheets/api.py\<close>: a job replays the notifications received between its request and its start, under a
  lease with a fence, and is never retried once its effects may have happened.
\<close>

section \<open>Jobs\<close>

record sheet_job =
  jb_seller :: string
  jb_spreadsheet :: string
  jb_state :: string
  jb_created_at :: instant
  jb_requested_at :: instant
  jb_available_at :: "instant option"
  jb_attempts :: int
  jb_token :: "string option"
  jb_fence :: int
  jb_lease_until :: "instant option"
  jb_append_started :: "instant option"
  jb_started_at :: "instant option"
  jb_delta_through :: "instant option"
  jb_completed_at :: "instant option"
  jb_error_code :: "string option"
  jb_error_message :: "string option"
  jb_cursor :: "(pyval \<times> string) option"
  jb_unsupported :: "nat option"
  jb_updated_at :: instant

text \<open>
  \<open>se_admits\<close> is the server's answer of the unique index on seller and spreadsheet of the active jobs
  (\<^verbatim>\<open>infra/mongo/indexes/sheets_sync_jobs.json\<close>) for a document under an identifier.
\<close>

record sync_env =
  se_jobs :: "sheet_job mongo_q"
  se_admits :: "sheet_job coll \<Rightarrow> string \<Rightarrow> sheet_job \<Rightarrow> bool"
  se_plans :: "plan mongo"
  se_text :: "pyval \<Rightarrow> string"
  se_cutoff :: instant
  se_lease :: duration
  se_backoff :: duration
  se_retention :: duration

definition active_job :: "sheet_job \<Rightarrow> bool" where
  "active_job d \<longleftrightarrow> jb_state d = ''pending'' \<or> jb_state d = ''running''"

section \<open>Creation\<close>

definition new_job :: "string \<Rightarrow> string \<Rightarrow> instant \<Rightarrow> sheet_job" where
  "new_job seller sheet now = \<lparr>jb_seller = seller, jb_spreadsheet = sheet, jb_state = ''pending'', jb_created_at = now,
     jb_requested_at = now, jb_available_at = None, jb_attempts = 0, jb_token = None, jb_fence = 0, jb_lease_until = None,
     jb_append_started = None, jb_started_at = None, jb_delta_through = None, jb_completed_at = None, jb_error_code = None,
     jb_error_message = None, jb_cursor = None, jb_unsupported = None, jb_updated_at = now\<rparr>"

definition sync_job_id :: "string \<Rightarrow> instant \<Rightarrow> string" where
  "sync_job_id seller now = ''sheets-sync-'' @ seller @ ''-'' @ int_str (now div 1000000)"

text \<open>The first active job among the (unordered) first twenty of the seller.\<close>

definition listed_active :: "sync_env \<Rightarrow> string \<Rightarrow> sheet_job coll \<Rightarrow> (string \<times> sheet_job) option" where
  "listed_active E seller c = find (\<lambda>(k, d). active_job d) (mq_find (se_jobs E) c (\<lambda>d. jb_seller d = seller) 20)"

datatype creation = Existing string sheet_job | Created string sheet_job | Unavailable

definition create_sync_job :: "sync_env \<Rightarrow> string \<Rightarrow> string \<Rightarrow> instant \<Rightarrow> sheet_job coll \<Rightarrow> creation \<times> sheet_job coll" where
  "create_sync_job E seller sheet now c = (case listed_active E seller c of
     Some (k, d) \<Rightarrow> (Existing k d, c)
   | None \<Rightarrow>
       (let k = sync_job_id seller now; d = new_job seller sheet now in
        case (if se_admits E c k d then insert_one (mq_base (se_jobs E)) c k d else Inl DuplicateKeyError) of
          Inr c' \<Rightarrow> (Created k d, c')
        | Inl _ \<Rightarrow> (case listed_active E seller c of Some (k', d') \<Rightarrow> (Existing k' d', c) | None \<Rightarrow> (Unavailable, c))))"

section \<open>Claims\<close>

definition available :: "instant \<Rightarrow> sheet_job \<Rightarrow> bool" where
  "available now d = (case jb_available_at d of None \<Rightarrow> True | Some t \<Rightarrow> t \<le> now)"

definition lease_over :: "instant \<Rightarrow> sheet_job \<Rightarrow> bool" where
  "lease_over now d = (case jb_lease_until d of None \<Rightarrow> False | Some t \<Rightarrow> t \<le> now)"

definition claimable :: "sync_env \<Rightarrow> instant \<Rightarrow> sheet_job \<Rightarrow> bool" where
  "claimable E now d \<longleftrightarrow> se_cutoff E \<le> jb_created_at d \<and>
     (jb_state d = ''pending'' \<and> available now d \<or>
      jb_state d = ''running'' \<and> lease_over now d \<and> jb_append_started d = None)"

text \<open>The order of the claim; an absent date sorts first.\<close>

definition claim_order :: "sheet_job \<Rightarrow> int list" where
  "claim_order d = jb_created_at d # (case jb_available_at d of None \<Rightarrow> [0, 0] | Some t \<Rightarrow> [1, t])"

definition claim_job_fields :: "sync_env \<Rightarrow> string \<Rightarrow> instant \<Rightarrow> sheet_job \<Rightarrow> sheet_job" where
  "claim_job_fields E token now d = d\<lparr>jb_state := ''running'', jb_token := Some token, jb_lease_until := Some (now + se_lease E),
     jb_started_at := Some now, jb_delta_through := Some now, jb_updated_at := now, jb_attempts := jb_attempts d + 1,
     jb_fence := jb_fence d + 1\<rparr>"

definition claim_next :: "sync_env \<Rightarrow> string \<Rightarrow> instant \<Rightarrow> sheet_job coll \<Rightarrow> (string \<times> sheet_job) option \<times> sheet_job coll" where
  "claim_next E token now c = (case mq_first (se_jobs E) c (claimable E now) claim_order of
     None \<Rightarrow> (None, c)
   | Some k \<Rightarrow>
       (case find_one (mq_base (se_jobs E)) c k (\<lambda>_. True) of
          None \<Rightarrow> (None, c)
        | Some candidate \<Rightarrow>
            (let fence = (\<lambda>d. jb_state d = jb_state candidate \<and> claimable E now d) in
             if find_one (mq_base (se_jobs E)) c k fence \<noteq> None \<and> \<not> se_admits E c k (claim_job_fields E token now candidate)
             then (None, snd (find_one_and_update (mq_base (se_jobs E)) c k (\<lambda>d. jb_state d = ''pending'')
                     (\<lambda>d. d\<lparr>jb_available_at := Some (now + se_backoff E), jb_updated_at := now\<rparr>)))
             else (case find_one_and_update (mq_base (se_jobs E)) c k fence (claim_job_fields E token now) of
                     (r, c') \<Rightarrow> (map_option (\<lambda>d. (k, d)) r, c')))))"

definition uncertain :: "instant \<Rightarrow> sheet_job \<Rightarrow> bool" where
  "uncertain now d \<longleftrightarrow> jb_state d = ''running'' \<and> lease_over now d \<and> jb_append_started d \<noteq> None"

definition recover_uncertain_appends :: "sync_env \<Rightarrow> instant \<Rightarrow> sheet_job coll \<Rightarrow> sheet_job coll" where
  "recover_uncertain_appends E now c = update_many (mq_base (se_jobs E)) c (uncertain now)
     (\<lambda>d. d\<lparr>jb_state := ''failed'', jb_completed_at := Some now, jb_lease_until := None,
            jb_error_code := Some ''append_outcome_unknown'',
            jb_error_message := Some ''Append outcome is unknown; automatic retry is disabled'', jb_updated_at := now\<rparr>)"

section \<open>Writes of an attempt\<close>

text \<open>An attempt: the job, its token and its fence as the claim returned them.\<close>

record attempt =
  at_job :: string
  at_token :: "string option"
  at_fence :: int

definition holds :: "attempt \<Rightarrow> sheet_job \<Rightarrow> bool" where
  "holds a d \<longleftrightarrow> jb_state d = ''running'' \<and> jb_token d = at_token a \<and> jb_fence d = at_fence a"

datatype sync_error = PolicyWait | RateLimited int "string option" "string + pyval" duration | OtherError string

definition write_job ::
  "sync_env \<Rightarrow> attempt \<Rightarrow> instant \<Rightarrow> (sheet_job \<Rightarrow> sheet_job) \<Rightarrow> sheet_job coll \<Rightarrow> (sync_error, unit) result \<times> sheet_job coll" where
  "write_job E a now u c =
    (case find_one_and_update (mq_base (se_jobs E)) c (at_job a) (holds a) (\<lambda>d. (u d)\<lparr>jb_updated_at := now\<rparr>) of
       (None, c') \<Rightarrow> (Inl (OtherError ''RuntimeError''), c')
     | (Some _, c') \<Rightarrow> (Inr (), c'))"

definition finish_job :: "bool \<Rightarrow> string option \<Rightarrow> string option \<Rightarrow> instant \<Rightarrow> sheet_job \<Rightarrow> sheet_job" where
  "finish_job succeeded code error_type now d = d\<lparr>jb_state := if succeeded then ''succeeded'' else ''failed'',
     jb_completed_at := Some now, jb_lease_until := None, jb_error_code := code,
     jb_error_message := (case error_type of
        Some t \<Rightarrow> Some (t @ '': sync job processing failed'')
      | None \<Rightarrow> if code = None then None else Some ''Requested delta is outside retention'')\<rparr>"

definition park_job :: "instant \<Rightarrow> string \<Rightarrow> string \<Rightarrow> sheet_job \<Rightarrow> sheet_job" where
  "park_job available_at code message d = d\<lparr>jb_state := ''pending'', jb_available_at := Some available_at, jb_lease_until := None,
     jb_append_started := None, jb_completed_at := None, jb_error_code := Some code, jb_error_message := Some message\<rparr>"

definition pilot_wait_code :: "int \<Rightarrow> string option \<Rightarrow> string + pyval \<Rightarrow> string option" where
  "pilot_wait_code status header body =
    (if status \<noteq> 429 \<or> header \<noteq> Some ''wait'' then None
     else (case body of
       Inr (VObj kvs) \<Rightarrow>
         (case get kvs ''error'' of
            VStr code \<Rightarrow> if code \<in> {''pilot_execution_unavailable'', ''pilot_budget_exhausted''} then Some code else None
          | _ \<Rightarrow> None)
     | _ \<Rightarrow> None))"

section \<open>The replay\<close>

text \<open>
  \<open>delta_events\<close> is the sorted query of the stored notifications; identifiers are strings. \<open>ev_at\<close> is
  the order of their dates.
\<close>

definition ev_at :: "event \<Rightarrow> instant" where
  "ev_at ev = (case get ev ''received_at'' of VDate t \<Rightarrow> utc_of t | _ \<Rightarrow> 0)"

definition ev_id :: "(pyval \<Rightarrow> string) \<Rightarrow> event \<Rightarrow> string" where
  "ev_id R ev = py_str R (get ev ''_id'')"

definition seller_values :: "string \<Rightarrow> pyval list" where
  "seller_values seller = VStr seller # (if all_digits seller then [VInt (int (digits_nat seller))] else [])"

definition in_delta :: "string \<Rightarrow> instant \<Rightarrow> instant \<Rightarrow> event \<Rightarrow> bool" where
  "in_delta seller since till ev \<longleftrightarrow> get ev ''user_id'' \<in> set (seller_values seller) \<and>
     (case get ev ''received_at'' of VDate t \<Rightarrow> since \<le> utc_of t \<and> utc_of t \<le> till | _ \<Rightarrow> False)"

definition delta_events :: "(pyval \<Rightarrow> string) \<Rightarrow> string \<Rightarrow> instant \<Rightarrow> instant \<Rightarrow> event list \<Rightarrow> event list" where
  "delta_events R seller since till evs = sort_key (\<lambda>ev. (ev_at ev, ev_id R ev)) (filter (in_delta seller since till) evs)"

definition supported :: "(pyval \<Rightarrow> string) \<Rightarrow> event \<Rightarrow> bool" where
  "supported R ev =
    (let v = (if truthy (get ev ''classification'') then get ev ''classification''
              else if truthy (get ev ''topic'') then get ev ''topic'' else VStr [])
     in hd (split_on (CHR ''.'') (py_str R v)) \<in> {''items'', ''orders'', ''shipments'', ''questions''})"

record sheets_event =
  sv_event_id :: string
  sv_event_type :: string
  sv_seller :: int
  sv_resource :: string
  sv_key :: string

definition replay_key :: "string \<Rightarrow> string \<Rightarrow> string" where
  "replay_key job event = ''sync-job:'' @ job @ '':'' @ event"

text \<open>
  The notification handed to the handler: with a pilot's plan as the work intent reads it, otherwise with
  its own classification. A missing topic or resource, or a seller that is no number, raises.
\<close>

definition replay_event :: "(pyval \<Rightarrow> string) \<Rightarrow> bool \<Rightarrow> string \<Rightarrow> string \<Rightarrow> event \<Rightarrow> (sync_error, sheets_event) result" where
  "replay_event R pilot job seller ev =
    (case (if pilot then (case normalize_history_event ev of None \<Rightarrow> Inl PolicyWait | Some (ty, res, _) \<Rightarrow> Inr (ty, res))
           else if truthy (get ev ''classification'') then Inr (py_str R (get ev ''classification''), py_str R (get ev ''resource''))
           else (case map_of ev ''topic'' of None \<Rightarrow> Inl (OtherError ''KeyError'')
                 | Some t \<Rightarrow> Inr (py_str R t, py_str R (get ev ''resource'')))) of
       Inl e \<Rightarrow> Inl e
     | Inr (ty, res) \<Rightarrow>
         (case py_int_text seller of
            None \<Rightarrow> Inl (OtherError ''ValueError'')
          | Some n \<Rightarrow>
              if \<not> pilot \<and> map_of ev ''resource'' = None then Inl (OtherError ''KeyError'')
              else Inr \<lparr>sv_event_id = ev_id R ev, sv_event_type = ty, sv_seller = n, sv_resource = res,
                        sv_key = replay_key job (ev_id R ev)\<rparr>))"

text \<open>The handler sees and may change everything, the jobs included; so do other workers while it runs.\<close>

type_synonym 'h event_handler = "sheets_event \<Rightarrow> attempt option \<Rightarrow> sheet_job coll \<times> 'h \<Rightarrow>
  (sync_error, unit) result \<times> sheet_job coll \<times> 'h"

fun replay ::
  "sync_env \<Rightarrow> 'h event_handler \<Rightarrow> bool \<Rightarrow> attempt \<Rightarrow> string \<Rightarrow> instant \<Rightarrow> event list \<Rightarrow> sheet_job coll \<times> 'h \<Rightarrow>
   (sync_error, unit) result \<times> sheet_job coll \<times> 'h" where
  "replay E H pilot a seller now [] s = (Inr (), s)"
| "replay E H pilot a seller now (ev # evs) s =
    (case replay_event (se_text E) pilot (at_job a) seller ev of
       Inl e \<Rightarrow> (Inl e, s)
     | Inr sv \<Rightarrow>
         (case H sv (if pilot then Some a else None) s of
            (Inl e, s1) \<Rightarrow> (Inl e, s1)
          | (Inr _, c1, h1) \<Rightarrow>
              (case write_job E a now (\<lambda>d. d\<lparr>jb_cursor := Some (get ev ''received_at'', ev_id (se_text E) ev)\<rparr>) c1 of
                 (Inl e, c2) \<Rightarrow> (Inl e, c2, h1)
               | (Inr _, c2) \<Rightarrow> replay E H pilot a seller now evs (c2, h1))))"

definition is_pilot :: "sync_env \<Rightarrow> string \<Rightarrow> plan coll \<Rightarrow> bool" where
  "is_pilot E seller plans = (case find_one (se_plans E) plans seller (\<lambda>_. True) of
     None \<Rightarrow> False | Some p \<Rightarrow> pl_fields p ''execution_id'' \<noteq> None)"

definition process_delta ::
  "sync_env \<Rightarrow> 'h event_handler \<Rightarrow> plan coll \<Rightarrow> event list \<Rightarrow> attempt \<Rightarrow> sheet_job \<Rightarrow> instant \<Rightarrow> sheet_job coll \<times> 'h \<Rightarrow>
   (sync_error, unit) result \<times> sheet_job coll \<times> 'h" where
  "process_delta E H plans evs a d now s = (case s of (c, h) \<Rightarrow>
    (let seller = jb_seller d; pilot = is_pilot E seller plans;
         found = delta_events (se_text E) seller (jb_requested_at d) (case jb_delta_through d of None \<Rightarrow> 0 | Some t \<Rightarrow> t) evs;
         taken = (if pilot then found else filter (supported (se_text E)) found)
     in case (if taken = [] then (Inr (), c) else write_job E a now (\<lambda>d. d\<lparr>jb_append_started := Some now\<rparr>) c) of
          (Inl e, c1) \<Rightarrow> (Inl e, c1, h)
        | (Inr _, c1) \<Rightarrow>
            (case replay E H pilot a seller now taken (c1, h) of
               (Inl e, s2) \<Rightarrow> (Inl e, s2)
             | (Inr _, c2, h2) \<Rightarrow>
                 (case write_job E a now (\<lambda>d. d\<lparr>jb_unsupported := Some (length found - length taken)\<rparr>) c2 of
                    (r, c3) \<Rightarrow> (r, c3, h2)))))"

text \<open>The end of an attempt, as the except clauses choose it; \<open>Inl\<close> is what escapes \<^verbatim>\<open>process_once\<close>.\<close>

definition conclude ::
  "sync_env \<Rightarrow> attempt \<Rightarrow> instant \<Rightarrow> (sync_error, unit) result \<Rightarrow> sheet_job coll \<Rightarrow> (sync_error, string) result \<times> sheet_job coll" where
  "conclude E a now r c =
    (let wrote = (\<lambda>answer u. case write_job E a now u c of (Inl e, c') \<Rightarrow> (Inl e, c') | (Inr _, c') \<Rightarrow> (Inr answer, c')) in
     case r of
       Inr _ \<Rightarrow> wrote ''succeeded'' (finish_job True None None now)
     | Inl PolicyWait \<Rightarrow>
         wrote ''pending'' (park_job (now + se_backoff E) ''pilot_execution_unavailable''
           ''Durable work authority wait; acquisition will resume'')
     | Inl (RateLimited status header body retry_after) \<Rightarrow>
         (case pilot_wait_code status header body of
            None \<Rightarrow> wrote ''failed'' (finish_job False (Some ''sync_job_processing_failed'') (Some ''GatewayRateLimitError'') now)
          | Some code \<Rightarrow> wrote ''pending'' (park_job (now + retry_after) code ''Gateway pilot budget wait; acquisition will resume''))
     | Inl (OtherError t) \<Rightarrow> wrote ''failed'' (finish_job False (Some ''sync_job_processing_failed'') (Some t) now))"

definition process_once ::
  "sync_env \<Rightarrow> 'h event_handler \<Rightarrow> plan coll \<Rightarrow> event list \<Rightarrow> string \<Rightarrow> instant \<Rightarrow> sheet_job coll \<times> 'h \<Rightarrow>
   (sync_error, string) result \<times> sheet_job coll \<times> 'h" where
  "process_once E H plans evs token now s = (case s of (c, h) \<Rightarrow>
    (case claim_next E token now (recover_uncertain_appends E now c) of
       (None, c1) \<Rightarrow> (Inr ''idle'', c1, h)
     | (Some (k, d), c1) \<Rightarrow>
         (let a = \<lparr>at_job = k, at_token = jb_token d, at_fence = jb_fence d\<rparr> in
          if jb_requested_at d < now - se_retention E
          then (case write_job E a now (finish_job False (Some ''delta_unavailable'') None now) c1 of
                  (Inl e, c2) \<Rightarrow> (Inl e, c2, h) | (Inr _, c2) \<Rightarrow> (Inr ''failed'', c2, h))
          else (case process_delta E H plans evs a d now (c1, h) of
                  (r, c2, h2) \<Rightarrow> (case conclude E a now r c2 of (answer, c3) \<Rightarrow> (answer, c3, h2))))))"

section \<open>What is replayed\<close>

text \<open>A handler that also notes what it was given.\<close>

definition logged :: "'h event_handler \<Rightarrow> ('h \<times> sheets_event list) event_handler" where
  "logged H sv a s = (case s of (c, h, log) \<Rightarrow> (case H sv a (c, h) of (r, c', h') \<Rightarrow> (r, c', h', log @ [sv])))"

lemma logged_eq: "logged H sv a (c, h, log) = (case H sv a (c, h) of (r, c', h') \<Rightarrow> (r, c', h', log @ [sv]))"
  by (simp add: logged_def)

lemma replay_event_Inr:
  "replay_event R pilot job seller ev = Inr sv \<Longrightarrow> sv_event_id sv = ev_id R ev \<and> sv_key sv = replay_key job (ev_id R ev)"
  by (auto simp: replay_event_def split: sum.splits option.splits if_splits)

lemma replay_logged:
  "replay E (logged H) pilot a seller now evs (c, h, log) = (Inr (), c', h', log') \<Longrightarrow>
    \<exists>svs. log' = log @ svs \<and> map Inr svs = map (replay_event (se_text E) pilot (at_job a) seller) evs"
proof (induction evs arbitrary: c h log)
  case (Cons ev evs)
  obtain sv where sv: "replay_event (se_text E) pilot (at_job a) seller ev = Inr sv"
    using Cons.prems by (auto split: sum.splits)
  obtain r c1 h1 where h: "H sv (if pilot then Some a else None) (c, h) = (r, c1, h1)" by (metis prod_cases3)
  with Cons.prems sv obtain u where r: "r = Inr u" by (cases r) (auto simp: logged_eq)
  let ?u = "\<lambda>d. d\<lparr>jb_cursor := Some (get ev ''received_at'', ev_id (se_text E) ev)\<rparr>"
  obtain w c2 where w: "write_job E a now ?u c1 = (w, c2)" by fastforce
  with Cons.prems sv h r have "replay E (logged H) pilot a seller now evs (c2, h1, log @ [sv]) = (Inr (), c', h', log')"
    by (cases w) (auto simp: logged_eq)
  from Cons.IH [OF this] sv show ?case by auto
qed simp

text \<open>
  A replay that succeeds has handed over exactly what it should: the seller's stored notifications
  received from the job's request to its start, those of a supported kind unless the seller is under a
  pilot, in the order they were received, each once and under a key of its own that names the job.
\<close>

theorem replay_hands_over_delta:
  assumes "process_delta E (logged H) plans evs a d now (c, h, []) = (Inr (), c', h', log)"
    and "taken = delta_events (se_text E) (jb_seller d) (jb_requested_at d) (case jb_delta_through d of None \<Rightarrow> 0 | Some t \<Rightarrow> t) evs"
    and "distinct (map (ev_id (se_text E)) evs)"
  shows "map sv_event_id log = map (ev_id (se_text E))
      (if is_pilot E (jb_seller d) plans then taken else filter (supported (se_text E)) taken) \<and>
    (\<forall>sv \<in> set log. sv_key sv = replay_key (at_job a) (sv_event_id sv)) \<and> distinct (map sv_key log) \<and>
    sorted (map (\<lambda>ev. (ev_at ev, ev_id (se_text E) ev)) taken)"
proof -
  let ?pilot = "is_pilot E (jb_seller d) plans"
  let ?taken = "if ?pilot then taken else filter (supported (se_text E)) taken"
  obtain w c1 where w: "(if ?taken = [] then (Inr (), c) else write_job E a now (\<lambda>d. d\<lparr>jb_append_started := Some now\<rparr>) c) = (w, c1)"
    by fastforce
  obtain r c2 h2 log2 where r: "replay E (logged H) ?pilot a (jb_seller d) now ?taken (c1, h, []) = (r, c2, h2, log2)"
    by (metis prod_cases4)
  have "w = Inr () \<and> r = Inr () \<and> log2 = log"
    using assms(1) w r unfolding process_delta_def assms(2) [symmetric] Let_def
    by (auto split: sum.splits prod.splits if_splits)
  with replay_logged r have m: "map Inr log = map (replay_event (se_text E) ?pilot (at_job a) (jb_seller d)) ?taken"
    by fastforce
  have len: "length log = length ?taken" using m by (metis length_map)
  have each: "sv_event_id (log ! i) = ev_id (se_text E) (?taken ! i) \<and> sv_key (log ! i) = replay_key (at_job a) (ev_id (se_text E) (?taken ! i))"
    if "i < length log" for i
  proof -
    have "Inr (log ! i) = replay_event (se_text E) ?pilot (at_job a) (jb_seller d) (?taken ! i)"
      using m that len by (metis nth_map)
    from replay_event_Inr [OF this [symmetric]] show ?thesis .
  qed
  have ids: "map sv_event_id log = map (ev_id (se_text E)) ?taken" using each len by (intro nth_equalityI) auto
  have keys: "\<forall>sv \<in> set log. sv_key sv = replay_key (at_job a) (sv_event_id sv)"
    using each by (auto simp: in_set_conv_nth)
  have "distinct (map (ev_id (se_text E)) taken)" using assms(3) unfolding assms(2) delta_events_def
    by (simp add: distinct_map inj_on_def)
  then have "distinct (map (ev_id (se_text E)) ?taken)" by (simp add: distinct_map inj_on_def)
  then have "distinct (map sv_event_id log)" by (simp only: ids)
  then have "distinct (map sv_key log)" using keys by (auto simp: distinct_map inj_on_def replay_key_def)
  with ids keys show ?thesis unfolding assms(2) delta_events_def by simp
qed

definition demo_replay :: sync_env where
  "demo_replay = \<lparr>se_jobs = mem_queries, se_admits = (\<lambda>_ _ _. True), se_plans = mem_mongo, se_text = (\<lambda>_. []), se_cutoff = 0,
     se_lease = 300000000, se_backoff = 5000000, se_retention = 3888000000000\<rparr>"

definition demo_attempt :: attempt where
  "demo_attempt = \<lparr>at_job = ''j'', at_token = Some ''t'', at_fence = 1\<rparr>"

definition demo_running :: sheet_job where
  "demo_running = claim_job_fields demo_replay ''t'' 9 (new_job ''7'' ''sheet'' 0)"

definition demo_stored :: event where
  "demo_stored = [(''_id'', VStr ''n1''), (''topic'', VStr ''orders_v2''), (''classification'', VStr ''orders.updated''),
     (''user_id'', VInt 7), (''resource'', VStr ''/orders/12''), (''received_at'', VDate (Aware 5))]"

lemma demo_write:
  assumes "jb_state d = ''running''" and "jb_token d = Some ''t''" and "jb_fence d = 1"
  shows "write_job demo_replay demo_attempt now u [''j'' \<mapsto> d] = (Inr (), [''j'' \<mapsto> (u d)\<lparr>jb_updated_at := now\<rparr>])"
  using assms by (simp add: write_job_def demo_replay_def demo_attempt_def holds_def)

lemma demo_delta: "delta_events (se_text demo_replay) ''7'' 0 9 [demo_stored] = [demo_stored]" "supported (se_text demo_replay) demo_stored"
proof -
  have "in_delta ''7'' 0 9 demo_stored" by code_simp
  then show "delta_events (se_text demo_replay) ''7'' 0 9 [demo_stored] = [demo_stored]" by (simp add: delta_events_def)
  show "supported (se_text demo_replay) demo_stored"
    by (simp add: supported_def demo_stored_def get_def truthy_def py_str_def)
qed

lemma demo_event_built: "\<exists>sv. replay_event (se_text demo_replay) False ''j'' ''7'' demo_stored = Inr sv"
proof -
  have "py_int_text ''7'' = Some 7" by code_simp
  then show ?thesis by (simp add: replay_event_def demo_stored_def get_def truthy_def)
qed

theorem replay_hands_over_delta_witness:
  "\<exists>c' log. process_delta demo_replay (logged (\<lambda>_ _ s. (Inr (), s))) Map.empty [demo_stored] demo_attempt demo_running 9
      ([''j'' \<mapsto> demo_running], (), []) = (Inr (), c', (), log) \<and> map sv_event_id log = [''n1'']"
proof -
  let ?H = "logged (\<lambda>_ _ s. (Inr (), s))"
  have f: "jb_state demo_running = ''running''" "jb_token demo_running = Some ''t''" "jb_fence demo_running = 1"
    "jb_seller demo_running = ''7''" "jb_requested_at demo_running = 0" "jb_delta_through demo_running = Some 9"
    by (simp_all add: demo_running_def claim_job_fields_def new_job_def)
  obtain sv where sv: "replay_event (se_text demo_replay) False ''j'' ''7'' demo_stored = Inr sv" using demo_event_built by blast
  have np: "is_pilot demo_replay ''7'' Map.empty = False" by (simp add: is_pilot_def demo_replay_def)
  have a: "at_job demo_attempt = ''j''" by (simp add: demo_attempt_def)
  have e: "\<exists>c' log. process_delta demo_replay ?H Map.empty [demo_stored] demo_attempt demo_running 9
      ([''j'' \<mapsto> demo_running], (), []) = (Inr (), c', (), log)"
    using f sv demo_delta by (simp add: process_delta_def Let_def np demo_write logged_eq a)
  then obtain c' log where r: "process_delta demo_replay ?H Map.empty [demo_stored] demo_attempt demo_running 9
      ([''j'' \<mapsto> demo_running], (), []) = (Inr (), c', (), log)" by blast
  have "ev_id (se_text demo_replay) demo_stored = ''n1''" by (simp add: ev_id_def demo_stored_def get_def py_str_def)
  with replay_hands_over_delta [OF r refl] have "map sv_event_id log = [''n1'']"
    using f demo_delta np by simp
  with r show ?thesis by (intro exI [of _ c'] exI [of _ log] conjI)
qed

end
