(* ===== verification/SyncRuns.thy ===== *)
theory SyncRuns
  imports SyncJobs
begin

text \<open>
  The jobs of \<open>SyncJobs\<close> under any interleaving of the request handler and several workers: an attempt whose
  effects may have happened is never followed by another one, and no spreadsheet has two active jobs.
\<close>

section \<open>Steps\<close>

text \<open>
  \<open>sr_claimed\<close>, \<open>sr_started\<close>, \<open>sr_released\<close>: the attempts (job and fence) that were claimed, that wrote
  \<^verbatim>\<open>append_started_at\<close>, and that put their own job back.
\<close>

record sync_run =
  sr_jobs :: "sheet_job coll"
  sr_claimed :: "(string \<times> int) set"
  sr_started :: "(string \<times> int) set"
  sr_released :: "(string \<times> int) set"

definition at_id :: "attempt \<Rightarrow> string \<times> int" where
  "at_id a = (at_job a, at_fence a)"

definition note_if :: "bool \<Rightarrow> 'a \<Rightarrow> 'a set \<Rightarrow> 'a set" where
  "note_if b x A = (if b then insert x A else A)"

inductive sync_step :: "sync_env \<Rightarrow> sync_run \<Rightarrow> sync_run \<Rightarrow> bool" for E :: sync_env where
  create: "create_sync_job E seller sheet now (sr_jobs s) = (r, c) \<Longrightarrow> sync_step E s (s\<lparr>sr_jobs := c\<rparr>)"
| claim: "claim_next E token now (sr_jobs s) = (Some (k, d), c) \<Longrightarrow>
    sync_step E s (s\<lparr>sr_jobs := c, sr_claimed := insert (k, jb_fence d) (sr_claimed s)\<rparr>)"
| idle: "claim_next E token now (sr_jobs s) = (None, c) \<Longrightarrow> sync_step E s (s\<lparr>sr_jobs := c\<rparr>)"
| recover: "sync_step E s (s\<lparr>sr_jobs := recover_uncertain_appends E now (sr_jobs s)\<rparr>)"
| begin_append: "write_job E a now (\<lambda>d. d\<lparr>jb_append_started := Some t\<rparr>) (sr_jobs s) = (r, c) \<Longrightarrow>
    sync_step E s (s\<lparr>sr_jobs := c, sr_started := note_if (\<not> isl r) (at_id a) (sr_started s)\<rparr>)"
| advance: "write_job E a now (\<lambda>d. d\<lparr>jb_cursor := x\<rparr>) (sr_jobs s) = (r, c) \<Longrightarrow> sync_step E s (s\<lparr>sr_jobs := c\<rparr>)"
| count: "write_job E a now (\<lambda>d. d\<lparr>jb_unsupported := n\<rparr>) (sr_jobs s) = (r, c) \<Longrightarrow> sync_step E s (s\<lparr>sr_jobs := c\<rparr>)"
| park: "write_job E a now (park_job t code message) (sr_jobs s) = (r, c) \<Longrightarrow>
    sync_step E s (s\<lparr>sr_jobs := c, sr_released := note_if (\<not> isl r) (at_id a) (sr_released s)\<rparr>)"
| finish: "write_job E a now (finish_job ok err ty t) (sr_jobs s) = (r, c) \<Longrightarrow> sync_step E s (s\<lparr>sr_jobs := c\<rparr>)"

inductive sync_reachable :: "sync_env \<Rightarrow> sync_run \<Rightarrow> bool" for E :: sync_env where
  start: "sync_reachable E \<lparr>sr_jobs = Map.empty, sr_claimed = {}, sr_started = {}, sr_released = {}\<rparr>"
| step: "sync_reachable E s \<Longrightarrow> sync_step E s s' \<Longrightarrow> sync_reachable E s'"

section \<open>The invariant\<close>

text \<open>Of one job \<open>d\<close> under \<open>k\<close>: its fence bounds the claims, and an attempt that began its effects and did
  not release the job is the last one and will not be followed.\<close>

definition ended_or_appending :: "sheet_job \<Rightarrow> bool" where
  "ended_or_appending d \<longleftrightarrow> jb_state d = ''running'' \<and> jb_append_started d \<noteq> None \<or>
     jb_state d = ''succeeded'' \<or> jb_state d = ''failed''"

definition fenced :: "sync_run \<Rightarrow> string \<Rightarrow> sheet_job \<Rightarrow> bool" where
  "fenced s k d \<longleftrightarrow> (\<forall>f. (k, f) \<in> sr_claimed s \<longrightarrow> f \<le> jb_fence d) \<and>
     (\<forall>f. (k, f) \<in> sr_started s \<longrightarrow> f \<le> jb_fence d \<and> ((k, f) \<in> sr_released s \<or> f = jb_fence d \<and> ended_or_appending d))"

definition unknown :: "sync_run \<Rightarrow> string \<Rightarrow> bool" where
  "unknown s k \<longleftrightarrow> (\<forall>f. (k, f) \<notin> sr_claimed s \<and> (k, f) \<notin> sr_started s)"

definition rivals :: "sheet_job \<Rightarrow> sheet_job \<Rightarrow> bool" where
  "rivals d d' \<longleftrightarrow> active_job d \<and> active_job d' \<and> jb_seller d = jb_seller d' \<and> jb_spreadsheet d = jb_spreadsheet d'"

definition unique_active :: "sheet_job coll \<Rightarrow> bool" where
  "unique_active c \<longleftrightarrow> (\<forall>k k' d d'. c k = Some d \<and> c k' = Some d' \<and> rivals d d' \<longrightarrow> k = k')"

definition sync_ok :: "sync_run \<Rightarrow> bool" where
  "sync_ok s \<longleftrightarrow> (\<forall>k. case sr_jobs s k of None \<Rightarrow> unknown s k | Some d \<Rightarrow> fenced s k d) \<and> unique_active (sr_jobs s)"

text \<open>A change of one active job that keeps its seller and spreadsheet, or ends it, makes no rivals.\<close>

definition same_target :: "sheet_job \<Rightarrow> sheet_job \<Rightarrow> bool" where
  "same_target d d' \<longleftrightarrow> jb_seller d' = jb_seller d \<and> jb_spreadsheet d' = jb_spreadsheet d \<and> (active_job d' \<longrightarrow> active_job d)"

lemma unique_active_upd:
  assumes "unique_active c" and "c k = Some d" and "same_target d d'"
  shows "unique_active (c(k \<mapsto> d'))"
proof -
  have r: "rivals d' e \<Longrightarrow> rivals d e" "rivals e d' \<Longrightarrow> rivals e d" for e
    using assms(3) by (auto simp: rivals_def same_target_def)
  show ?thesis
    unfolding unique_active_def
  proof (intro allI impI)
    fix i j x y
    assume h: "(c(k \<mapsto> d')) i = Some x \<and> (c(k \<mapsto> d')) j = Some y \<and> rivals x y"
    show "i = j"
    proof (rule ccontr)
      assume n: "i \<noteq> j"
      have u: "c a = Some b \<Longrightarrow> c a' = Some b' \<Longrightarrow> rivals b b' \<Longrightarrow> a = a'" for a b a' b'
        using assms(1) unfolding unique_active_def by blast
      show False
      proof (cases "i = k")
        case True
        with h n have "c j = Some y" "rivals d y" using r(1) by auto
        with u [of k d j y] assms(2) True n show False by blast
      next
        case False
        with h n have i: "c i = Some x" by auto
        show False
        proof (cases "j = k")
          case True
          with h have "rivals x d" using r(2) by auto
          with u [of i x k d] i assms(2) True n show False by blast
        next
          case False
          with h i u [of i x j y] n show False by auto
        qed
      qed
    qed
  qed
qed

lemma unique_active_map:
  assumes "unique_active c" and "\<And>d. same_target d (u d)"
  shows "unique_active (\<lambda>k. map_option u (c k))"
  unfolding unique_active_def
proof (intro allI impI)
  fix k k' x y
  assume "map_option u (c k) = Some x \<and> map_option u (c k') = Some y \<and> rivals x y"
  then obtain d d' where d: "c k = Some d" "c k' = Some d'" "x = u d" "y = u d'" "rivals x y" by auto
  have "rivals d d'" using d(3-5) assms(2) [of d] assms(2) [of d'] by (simp add: rivals_def same_target_def)
  with assms(1) d(1,2) show "k = k'" unfolding unique_active_def by blast
qed

lemma sync_ok_write:
  assumes "sync_ok s" and "sr_jobs s k = Some d" and "sr_jobs s' = (sr_jobs s)(k \<mapsto> d')" and "same_target d d'" and "fenced s' k d'"
    and "\<And>j f. j \<noteq> k \<Longrightarrow> ((j, f) \<in> sr_claimed s' \<longleftrightarrow> (j, f) \<in> sr_claimed s) \<and> ((j, f) \<in> sr_started s' \<longleftrightarrow> (j, f) \<in> sr_started s) \<and>
      ((j, f) \<in> sr_released s \<longrightarrow> (j, f) \<in> sr_released s')"
  shows "sync_ok s'"
proof -
  have "case sr_jobs s' j of None \<Rightarrow> unknown s' j | Some d \<Rightarrow> fenced s' j d" for j
  proof (cases "j = k")
    case True
    with assms(3,5) show ?thesis by simp
  next
    case False
    have "case sr_jobs s j of None \<Rightarrow> unknown s j | Some d \<Rightarrow> fenced s j d" using assms(1) by (simp add: sync_ok_def)
    with False assms(6) [OF False] assms(3) show ?thesis by (cases "sr_jobs s j") (auto simp: unknown_def fenced_def)
  qed
  moreover have "unique_active (sr_jobs s')"
    using unique_active_upd [where c = "sr_jobs s" and k = k and d = d and d' = d'] assms(1-4) by (simp add: sync_ok_def)
  ultimately show ?thesis by (simp add: sync_ok_def)
qed

lemma fenced_jobs [simp]: "fenced (s\<lparr>sr_jobs := c\<rparr>) k d = fenced s k d" "unknown (s\<lparr>sr_jobs := c\<rparr>) k = unknown s k"
  by (simp_all add: fenced_def unknown_def)

lemma sync_ok_jobs: "sync_ok (s\<lparr>sr_jobs := c\<rparr>) \<longleftrightarrow>
    (\<forall>k. case c k of None \<Rightarrow> unknown s k | Some d \<Rightarrow> fenced s k d) \<and> unique_active c"
  by (simp add: sync_ok_def cong: option.case_cong)

lemma sync_okD: "sync_ok s \<Longrightarrow> sr_jobs s k = Some d \<Longrightarrow> fenced s k d"
  by (auto simp: sync_ok_def split: option.splits dest: spec [of _ k])

section \<open>Every step keeps it\<close>

locale sync_store = jobs: mongo_collection "mq_base (se_jobs E)" for E :: sync_env +
  assumes admits_law: "se_admits E c k d \<longleftrightarrow> (\<forall>k' d'. k' \<noteq> k \<longrightarrow> c k' = Some d' \<longrightarrow> \<not> rivals d d')"
begin

lemma write_job_cases:
  assumes "write_job E a now u c = (r, c')"
  obtains "isl r" "c' = c" | d where "r = Inr ()" "c (at_job a) = Some d" "holds a d" "c' = c(at_job a \<mapsto> (u d)\<lparr>jb_updated_at := now\<rparr>)"
proof (cases "c (at_job a)")
  case None
  with assms that(1) show thesis by (auto simp: write_job_def jobs.point_laws)
next
  case (Some d)
  show thesis
  proof (cases "holds a d")
    case True
    with assms Some that(2) show thesis by (simp add: write_job_def jobs.point_laws)
  next
    case False
    with assms Some that(1) show thesis by (auto simp: write_job_def jobs.point_laws)
  qed
qed

text \<open>A write of the holder that leaves the fence alone.\<close>

lemma write_ok:
  assumes "sync_ok s" and "write_job E a now u (sr_jobs s) = (r, c)"
    and t: "\<And>d. jb_state d = ''running'' \<Longrightarrow> same_target d (u d)" and f: "\<And>d. jb_fence (u d) = jb_fence d"
    and "sr_jobs s' = c" and "sr_claimed s' = sr_claimed s" and "sr_released s \<subseteq> sr_released s'"
    and "isl r \<Longrightarrow> sr_started s' = sr_started s" and "sr_started s' \<subseteq> insert (at_id a) (sr_started s)"
    and e: "\<And>d. \<not> isl r \<Longrightarrow> holds a d \<Longrightarrow> sr_jobs s (at_job a) = Some d \<Longrightarrow> at_id a \<in> sr_started s' \<Longrightarrow>
      at_id a \<in> sr_released s' \<or> ended_or_appending (u d)"
    and x: "sr_started s \<subseteq> sr_started s'"
  shows "sync_ok s'"
  using assms(2)
proof (cases rule: write_job_cases)
  case 1
  have "case sr_jobs s' j of None \<Rightarrow> unknown s' j | Some d \<Rightarrow> fenced s' j d" for j
  proof -
    have "case sr_jobs s j of None \<Rightarrow> unknown s j | Some d \<Rightarrow> fenced s j d" using assms(1) by (simp add: sync_ok_def)
    with 1 assms(5-8) show ?thesis by (auto simp: unknown_def fenced_def split: option.splits)
  qed
  with 1 assms(1,5) show ?thesis by (simp add: sync_ok_def)
next
  case (2 d)
  have h: "jb_state d = ''running''" "jb_fence d = at_fence a" using 2(3) by (simp_all add: holds_def)
  have old: "fenced s (at_job a) d" using sync_okD [OF assms(1) 2(2)] .
  let ?d = "(u d)\<lparr>jb_updated_at := now\<rparr>"
  have ea: "ended_or_appending ?d = ended_or_appending (u d)" by (simp add: ended_or_appending_def)
  have "fenced s' (at_job a) ?d"
    unfolding fenced_def
  proof (intro conjI allI impI)
    fix g
    assume "(at_job a, g) \<in> sr_claimed s'"
    with old assms(6) f show "g \<le> jb_fence ?d" by (simp add: fenced_def)
  next
    fix g
    assume g: "(at_job a, g) \<in> sr_started s'"
    then have "(at_job a, g) = at_id a \<or> (at_job a, g) \<in> sr_started s" using assms(9) by auto
    with old h(2) f show "g \<le> jb_fence ?d" by (auto simp: fenced_def at_id_def)
    show "(at_job a, g) \<in> sr_released s' \<or> g = jb_fence ?d \<and> ended_or_appending ?d"
    proof (cases "(at_job a, g) \<in> sr_released s'")
      case False
      have "g = at_fence a"
      proof (cases "(at_job a, g) = at_id a")
        case False
        with \<open>(at_job a, g) = at_id a \<or> (at_job a, g) \<in> sr_started s\<close> have "(at_job a, g) \<in> sr_started s" by blast
        with old \<open>(at_job a, g) \<notin> sr_released s'\<close> assms(7) h(2) show ?thesis by (auto simp: fenced_def)
      qed (simp add: at_id_def)
      with g False e [OF _ 2(3,2)] 2(1) h(2) f ea show ?thesis by (simp add: at_id_def)
    qed simp
  qed
  moreover have "same_target d ?d" using t [OF h(1)] by (simp add: same_target_def active_job_def)
  moreover have "((j, g) \<in> sr_claimed s' \<longleftrightarrow> (j, g) \<in> sr_claimed s) \<and> ((j, g) \<in> sr_started s' \<longleftrightarrow> (j, g) \<in> sr_started s) \<and>
      ((j, g) \<in> sr_released s \<longrightarrow> (j, g) \<in> sr_released s')" if "j \<noteq> at_job a" for j g
  proof -
    have "(j, g) \<noteq> at_id a" using that by (simp add: at_id_def)
    with assms(6,7,9) x show ?thesis by auto
  qed
  moreover have "sr_jobs s' = (sr_jobs s)(at_job a \<mapsto> ?d)" using assms(5) 2(4) by simp
  ultimately show ?thesis using sync_ok_write [where k = "at_job a" and d = d and d' = ?d and s = s and s' = s'] assms(1) 2(2) by blast
qed

lemma claim_next_Some:
  assumes "claim_next E token now c = (Some (k, d'), c')"
  shows "\<exists>d. c k = Some d \<and> claimable E now d \<and> d' = claim_job_fields E token now d \<and> c' = c(k \<mapsto> d')"
proof -
  obtain j where j: "mq_first (se_jobs E) c (claimable E now) claim_order = Some j"
    using assms by (auto simp: claim_next_def split: option.splits)
  obtain d where d: "c j = Some d" using assms j by (cases "c j") (auto simp: claim_next_def jobs.point_laws)
  then show ?thesis using assms j
    by (auto simp: claim_next_def jobs.point_laws Let_def split: if_splits)
qed

lemma claim_next_None:
  assumes "claim_next E token now c = (None, c')"
  shows "c' = c \<or> (\<exists>k d. c k = Some d \<and> jb_state d = ''pending'' \<and>
    c' = c(k \<mapsto> d\<lparr>jb_available_at := Some (now + se_backoff E), jb_updated_at := now\<rparr>))"
proof (cases "mq_first (se_jobs E) c (claimable E now) claim_order")
  case (Some j)
  show ?thesis
  proof (cases "c j")
    case None
    with assms Some show ?thesis by (simp add: claim_next_def jobs.point_laws)
  next
    case (Some d)
    with assms \<open>mq_first _ _ _ _ = Some j\<close> show ?thesis
      by (auto simp: claim_next_def jobs.point_laws Let_def split: if_splits)
  qed
qed (use assms in \<open>simp add: claim_next_def\<close>)

lemma claim_ok:
  assumes ok: "sync_ok s" and "claim_next E token now (sr_jobs s) = (Some (k, d'), c)"
  shows "sync_ok (s\<lparr>sr_jobs := c, sr_claimed := insert (k, jb_fence d') (sr_claimed s)\<rparr>)" (is "sync_ok ?s")
proof -
  from claim_next_Some [OF assms(2)] obtain d where d: "sr_jobs s k = Some d" "claimable E now d"
    "d' = claim_job_fields E token now d" "c = (sr_jobs s)(k \<mapsto> d')" by blast
  have old: "fenced s k d" using sync_okD [OF ok d(1)] .
  have n: "\<not> ended_or_appending d" using d(2) by (auto simp: claimable_def ended_or_appending_def)
  have "fenced ?s k d'" using old n by (force simp: fenced_def d(3) claim_job_fields_def)
  moreover have "same_target d d'" using d(2) by (auto simp: d(3) claim_job_fields_def same_target_def active_job_def claimable_def)
  moreover have "sr_jobs ?s = (sr_jobs s)(k \<mapsto> d')" using d(4) by simp
  ultimately show ?thesis
    using sync_ok_write [where k = k and d = d and d' = d' and s = s and s' = ?s] ok d(1) by simp
qed

lemma idle_ok:
  assumes ok: "sync_ok s" and "claim_next E token now (sr_jobs s) = (None, c)"
  shows "sync_ok (s\<lparr>sr_jobs := c\<rparr>)" (is "sync_ok ?s")
  using claim_next_None [OF assms(2)]
proof (elim disjE exE conjE)
  fix k and d :: sheet_job
  let ?d = "d\<lparr>jb_available_at := Some (now + se_backoff E), jb_updated_at := now\<rparr>"
  assume d: "sr_jobs s k = Some d" "jb_state d = ''pending''" "c = (sr_jobs s)(k \<mapsto> ?d)"
  have "fenced ?s k ?d" using sync_okD [OF ok d(1)] by (simp add: fenced_def ended_or_appending_def)
  moreover have "same_target d ?d" by (simp add: same_target_def active_job_def)
  moreover have "sr_jobs ?s = (sr_jobs s)(k \<mapsto> ?d)" using d(3) by simp
  ultimately show ?thesis
    using sync_ok_write [where k = k and d = d and d' = ?d and s = s and s' = ?s] ok d(1) by simp
qed (use ok in simp)

lemma create_ok:
  assumes ok: "sync_ok s" and "create_sync_job E seller sheet now (sr_jobs s) = (r, c)"
  shows "sync_ok (s\<lparr>sr_jobs := c\<rparr>)"
proof -
  let ?k = "sync_job_id seller now" and ?d = "new_job seller sheet now"
  have "c = sr_jobs s \<or> sr_jobs s ?k = None \<and> se_admits E (sr_jobs s) ?k ?d \<and> c = (sr_jobs s)(?k \<mapsto> ?d)"
    using assms(2) by (auto simp: create_sync_job_def Let_def jobs.point_laws split: option.splits if_splits prod.splits)
  then show ?thesis
  proof (elim disjE conjE)
    assume n: "sr_jobs s ?k = None" "se_admits E (sr_jobs s) ?k ?d" and c: "c = (sr_jobs s)(?k \<mapsto> ?d)"
    have "unknown s ?k" using ok n(1) by (auto simp: sync_ok_def split: option.splits dest: spec [of _ ?k])
    then have "fenced s ?k ?d" by (simp add: fenced_def unknown_def)
    moreover have "case sr_jobs s j of None \<Rightarrow> unknown s j | Some d \<Rightarrow> fenced s j d" for j using ok by (simp add: sync_ok_def)
    ultimately have "case c j of None \<Rightarrow> unknown s j | Some d \<Rightarrow> fenced s j d" for j by (simp add: c)
    moreover have "unique_active c"
      unfolding unique_active_def c
    proof (intro allI impI)
      fix i j x y
      assume h: "((sr_jobs s)(?k \<mapsto> ?d)) i = Some x \<and> ((sr_jobs s)(?k \<mapsto> ?d)) j = Some y \<and> rivals x y"
      have r: "j' \<noteq> ?k \<Longrightarrow> sr_jobs s j' = Some e \<Longrightarrow> \<not> rivals ?d e \<and> \<not> rivals e ?d" for j' e
        using n(2) unfolding admits_law by (auto simp: rivals_def)
      have "unique_active (sr_jobs s)" using ok by (simp add: sync_ok_def)
      with h r [of i x] r [of j y] show "i = j" by (auto simp: unique_active_def split: if_splits)
    qed
    ultimately show ?thesis by (simp add: sync_ok_jobs)
  qed (use ok in simp)
qed

lemma recover_ok:
  assumes "sync_ok s"
  shows "sync_ok (s\<lparr>sr_jobs := recover_uncertain_appends E now (sr_jobs s)\<rparr>)"
proof -
  let ?u = "\<lambda>d. if uncertain now d then d\<lparr>jb_state := ''failed'', jb_completed_at := Some now, jb_lease_until := None,
      jb_error_code := Some ''append_outcome_unknown'',
      jb_error_message := Some ''Append outcome is unknown; automatic retry is disabled'', jb_updated_at := now\<rparr> else d"
  have m: "recover_uncertain_appends E now (sr_jobs s) = (\<lambda>k. map_option ?u (sr_jobs s k))"
    by (simp add: recover_uncertain_appends_def jobs.update_many_law)
  have "unique_active (\<lambda>k. map_option ?u (sr_jobs s k))"
    by (rule unique_active_map) (use assms in \<open>auto simp: sync_ok_def same_target_def active_job_def\<close>)
  moreover have "case map_option ?u (sr_jobs s j) of None \<Rightarrow> unknown s j | Some d \<Rightarrow> fenced s j d" for j
  proof (cases "sr_jobs s j")
    case None
    then show ?thesis using assms by (auto simp: sync_ok_def dest: spec [of _ j])
  next
    case (Some d)
    with sync_okD [OF assms Some] show ?thesis by (auto simp: fenced_def ended_or_appending_def)
  qed
  ultimately show ?thesis unfolding m sync_ok_jobs by blast
qed

lemma sync_step_ok:
  assumes "sync_step E s s'" and ok: "sync_ok s"
  shows "sync_ok s'"
  using assms(1)
proof (cases rule: sync_step.cases)
  case (begin_append a now t r c)
  show ?thesis unfolding begin_append(1)
    by (rule write_ok [OF ok begin_append(2)]) (auto simp: same_target_def active_job_def note_if_def ended_or_appending_def holds_def)
next
  case (advance a now x r c)
  show ?thesis unfolding advance(1)
    by (rule write_ok [OF ok advance(2)])
      (auto simp: same_target_def active_job_def ended_or_appending_def holds_def at_id_def dest: sync_okD [OF ok] simp: fenced_def)
next
  case (count a now n r c)
  show ?thesis unfolding count(1)
    by (rule write_ok [OF ok count(2)])
      (auto simp: same_target_def active_job_def ended_or_appending_def holds_def at_id_def dest: sync_okD [OF ok] simp: fenced_def)
next
  case (park a now t code message r c)
  show ?thesis unfolding park(1)
    by (rule write_ok [OF ok park(2)]) (auto simp: same_target_def active_job_def note_if_def park_job_def)
next
  case (finish a now okay err ty t r c)
  show ?thesis unfolding finish(1)
    by (rule write_ok [OF ok finish(2)]) (auto simp: same_target_def active_job_def finish_job_def ended_or_appending_def)
qed (use create_ok claim_ok idle_ok recover_ok ok in \<open>simp_all\<close>)

lemma sync_reachable_ok: "sync_reachable E s \<Longrightarrow> sync_ok s"
proof (induction rule: sync_reachable.induct)
  case start
  show ?case by (simp add: sync_ok_def unknown_def unique_active_def)
qed (rule sync_step_ok)

end

text \<open>
  C32. What may have been appended is not appended again, and no spreadsheet is synchronised twice at a
  time: in every state that request handlers and workers reach in any order and on any clocks, an attempt
  that began its effects is followed by a later attempt on the job only if it had put the job back itself
  (the wait for a budget), and two active jobs of one seller and spreadsheet are one job.
\<close>

theorem append_never_repeated:
  assumes "sync_store E" and "sync_reachable E s"
  shows "((k, f) \<in> sr_started s \<and> (k, g) \<in> sr_claimed s \<and> f < g \<longrightarrow> (k, f) \<in> sr_released s) \<and> unique_active (sr_jobs s)"
proof -
  have ok: "sync_ok s" using sync_store.sync_reachable_ok [OF assms] .
  have "(k, f) \<in> sr_released s" if h: "(k, f) \<in> sr_started s" "(k, g) \<in> sr_claimed s" "f < g"
  proof (cases "sr_jobs s k")
    case None
    with ok have "unknown s k" by (auto simp: sync_ok_def dest: spec [of _ k])
    with h show ?thesis by (simp add: unknown_def)
  next
    case (Some d)
    from sync_okD [OF ok Some] h have "g \<le> jb_fence d" "(k, f) \<in> sr_released s \<or> f = jb_fence d" by (auto simp: fenced_def)
    with h(3) show ?thesis by auto
  qed
  with ok show ?thesis by (simp add: sync_ok_def)
qed

definition demo_sync :: sync_env where
  "demo_sync = \<lparr>se_jobs = mem_queries, se_admits = (\<lambda>c k d. \<forall>k' d'. k' \<noteq> k \<longrightarrow> c k' = Some d' \<longrightarrow> \<not> rivals d d'),
     se_plans = mem_mongo, se_text = (\<lambda>_. []), se_cutoff = 0, se_lease = 300000000, se_backoff = 5000000, se_retention = 3888000000000\<rparr>"

interpretation demo_sync: sync_store demo_sync
  by (intro sync_store.intro sync_store_axioms.intro) (simp_all add: demo_sync_def mem.mongo_collection_axioms)

lemma demo_claim_single:
  assumes "claimable demo_sync now d"
  shows "claim_next demo_sync token now [k \<mapsto> d] =
    (Some (k, claim_job_fields demo_sync token now d), [k \<mapsto> claim_job_fields demo_sync token now d])"
proof -
  have a: "se_admits demo_sync [k \<mapsto> d] k x" for x by (simp add: demo_sync_def)
  have q: "se_jobs demo_sync = mem_queries" by (simp add: demo_sync_def)
  show ?thesis using assms a by (simp add: claim_next_def q Let_def)
qed

lemma demo_write_single: "holds a d \<Longrightarrow> write_job demo_sync a now u [at_job a \<mapsto> d] = (Inr (), [at_job a \<mapsto> (u d)\<lparr>jb_updated_at := now\<rparr>])"
  by (simp add: write_job_def demo_sync_def)

theorem append_never_repeated_witness:
  "\<exists>s k. sync_reachable demo_sync s \<and> (k, 1) \<in> sr_started s \<and> (k, 2) \<in> sr_claimed s \<and> (k, 1) \<in> sr_released s"
proof -
  let ?k = "sync_job_id ''7'' 0" and ?d0 = "new_job ''7'' ''sheet'' 0"
  let ?r = "\<lambda>c x y z. \<lparr>sr_jobs = c, sr_claimed = x, sr_started = y, sr_released = z\<rparr>"
  let ?d1 = "claim_job_fields demo_sync ''t1'' 1 ?d0"
  let ?a = "\<lparr>at_job = ?k, at_token = Some ''t1'', at_fence = 1\<rparr>"
  let ?d2 = "?d1\<lparr>jb_append_started := Some 1, jb_updated_at := 1\<rparr>"
  let ?d3 = "(park_job 10 ''c'' ''m'' ?d2)\<lparr>jb_updated_at := 2\<rparr>"
  have "mq_find mem_queries (Map.empty :: sheet_job coll) P 20 = []" for P
    using mem_q.find_law [of "Map.empty :: sheet_job coll" P 20] by simp
  then have "create_sync_job demo_sync ''7'' ''sheet'' 0 Map.empty = (Created ?k ?d0, [?k \<mapsto> ?d0])"
    by (simp add: create_sync_job_def listed_active_def demo_sync_def Let_def)
  from sync_reachable.step [OF sync_reachable.start sync_step.create [where s = "?r Map.empty {} {} {}", simplified, OF this]]
  have r1: "sync_reachable demo_sync (?r [?k \<mapsto> ?d0] {} {} {})" by simp
  have "claimable demo_sync 1 ?d0" by (simp add: claimable_def new_job_def available_def demo_sync_def)
  from sync_reachable.step [OF r1 sync_step.claim [where s = "?r [?k \<mapsto> ?d0] {} {} {}", simplified, OF demo_claim_single [OF this, of "''t1''"]]]
  have r2: "sync_reachable demo_sync (?r [?k \<mapsto> ?d1] {(?k, 1)} {} {})"
    by (simp add: claim_job_fields_def new_job_def)
  have "holds ?a ?d1" by (simp add: holds_def claim_job_fields_def new_job_def)
  from demo_write_single [OF this, of 1 "\<lambda>d. d\<lparr>jb_append_started := Some 1\<rparr>"]
  have w: "write_job demo_sync ?a 1 (\<lambda>d. d\<lparr>jb_append_started := Some 1\<rparr>) [?k \<mapsto> ?d1] = (Inr (), [?k \<mapsto> ?d2])" by simp
  from sync_reachable.step [OF r2 sync_step.begin_append [where s = "?r [?k \<mapsto> ?d1] {(?k, 1)} {} {}", simplified, OF w]]
  have r3: "sync_reachable demo_sync (?r [?k \<mapsto> ?d2] {(?k, 1)} {(?k, 1)} {})"
    by (simp add: note_if_def at_id_def)
  have "holds ?a ?d2" by (simp add: holds_def claim_job_fields_def new_job_def)
  from demo_write_single [OF this, of 2 "park_job 10 ''c'' ''m''"]
  have w2: "write_job demo_sync ?a 2 (park_job 10 ''c'' ''m'') [?k \<mapsto> ?d2] = (Inr (), [?k \<mapsto> ?d3])" by simp
  from sync_reachable.step [OF r3 sync_step.park [where s = "?r [?k \<mapsto> ?d2] {(?k, 1)} {(?k, 1)} {}", simplified, OF w2]]
  have r4: "sync_reachable demo_sync (?r [?k \<mapsto> ?d3] {(?k, 1)} {(?k, 1)} {(?k, 1)})"
    by (simp add: note_if_def at_id_def)
  have "claimable demo_sync 20 ?d3" by (simp add: claimable_def claim_job_fields_def park_job_def new_job_def available_def demo_sync_def)
  from sync_reachable.step [OF r4 sync_step.claim [where s = "?r [?k \<mapsto> ?d3] {(?k, 1)} {(?k, 1)} {(?k, 1)}", simplified,
      OF demo_claim_single [OF this, of "''t2''"]]]
  obtain s where s: "sync_reachable demo_sync s" "(?k, 1) \<in> sr_started s" "(?k, 2) \<in> sr_claimed s"
    by (rule that) (simp_all add: claim_job_fields_def park_job_def new_job_def)
  with append_never_repeated [OF demo_sync.sync_store_axioms s(1), of ?k 1 2] show ?thesis by auto
qed

section \<open>An active job out of sight\<close>

text \<open>
  A request can fail although the job it asks for is there: the active job is looked for among twenty
  of the seller's jobs in no particular order. When the twenty are finished ones, the insertion meets the
  unique index, the second look sees the same twenty, and the request ends in an error instead of the
  active job.
\<close>

theorem active_job_out_of_sight:
  assumes "list_all (\<lambda>(k, d). \<not> active_job d) (mq_find (se_jobs E) c (\<lambda>d. jb_seller d = seller) 20)"
    and "\<not> se_admits E c (sync_job_id seller now) (new_job seller sheet now)"
  shows "create_sync_job E seller sheet now c = (Unavailable, c)"
proof -
  have "listed_active E seller c = None"
    using assms(1) by (auto simp: listed_active_def find_None_iff list_all_iff)
  with assms(2) show ?thesis by (simp add: create_sync_job_def Let_def)
qed

theorem active_job_out_of_sight_witness:
  "\<exists>E c k d. sync_store E \<and> c k = Some d \<and> active_job d \<and> jb_seller d = ''7'' \<and> create_sync_job E ''7'' ''sheet'' 60 c = (Unavailable, c)"
proof -
  let ?done = "\<lambda>n. (new_job ''7'' ''sheet'' 0)\<lparr>jb_state := ''succeeded''\<rparr>"
  let ?rows = "map (\<lambda>n. (nat_str n, ?done n)) [0..<20]"
  let ?c = "(map_of ?rows)(''a'' := Some (new_job ''7'' ''sheet'' 0))"
  let ?E = "demo_sync\<lparr>se_jobs := mem_queries\<lparr>mq_find := (\<lambda>c P n. if c = ?c then take n ?rows else mq_find mem_queries c P n)\<rparr>\<rparr>"
  have "sync_store ?E" by (intro sync_store.intro sync_store_axioms.intro)
    (simp_all add: demo_sync_def mem.mongo_collection_axioms)
  moreover have "create_sync_job ?E ''7'' ''sheet'' 60 ?c = (Unavailable, ?c)"
  proof (rule active_job_out_of_sight)
    show "list_all (\<lambda>(k, d). \<not> active_job d) (mq_find (se_jobs ?E) ?c (\<lambda>d. jb_seller d = ''7'') 20)"
      by (simp add: list_all_iff active_job_def)
    have "sync_job_id ''7'' 60 \<noteq> ''a''" by (simp add: sync_job_id_def)
    then show "\<not> se_admits ?E ?c (sync_job_id ''7'' 60) (new_job ''7'' ''sheet'' 60)"
      by (auto simp: demo_sync_def rivals_def active_job_def new_job_def intro!: exI [of _ "''a''"])
  qed
  moreover have "?c ''a'' = Some (new_job ''7'' ''sheet'' 0)" "active_job (new_job ''7'' ''sheet'' 0)"
    "jb_seller (new_job ''7'' ''sheet'' 0) = ''7''" by (simp_all add: active_job_def new_job_def)
  ultimately show ?thesis by blast
qed

end
