(* ===== verification/Glob.thy ===== *)
theory Glob
  imports PyStrings
begin

text \<open>
  Python's \<^verbatim>\<open>fnmatchcase\<close>: a pattern of literal characters, \<^verbatim>\<open>*\<close>, \<^verbatim>\<open>?\<close> and bracketed classes. The gateway
  matches a module's request against its allowed scopes with it.
\<close>

datatype glob = Lit char | Any_char | Star | Class bool string

text \<open>The class after an opening bracket: up to the first closing bracket that is not its first member.\<close>

definition class_end :: "string \<Rightarrow> nat option" where
  "class_end p =
    (let a = (if p \<noteq> [] \<and> hd p = CHR ''!'' then 1 else 0);
         b = (if a < length p \<and> p ! a = CHR '']'' then a + 1 else a);
         n = length (takeWhile (\<lambda>c. c \<noteq> CHR '']'') (drop b p))
     in if b + n < length p then Some (b + n) else None)"

lemma class_end_less: "class_end p = Some j \<Longrightarrow> j < length p"
  by (auto simp: class_end_def Let_def split: if_splits)

definition make_class :: "string \<Rightarrow> glob" where
  "make_class s = (if s \<noteq> [] \<and> hd s = CHR ''!'' then Class True (tl s) else Class False s)"

function parse_glob :: "string \<Rightarrow> glob list" where
  "parse_glob [] = []"
| "parse_glob (c # p) =
    (if c = CHR ''*'' then Star # parse_glob p
     else if c = CHR ''?'' then Any_char # parse_glob p
     else if c = CHR ''['' then
       (case class_end p of
          None \<Rightarrow> Lit c # parse_glob p
        | Some j \<Rightarrow> make_class (take j p) # parse_glob (drop (j + 1) p))
     else Lit c # parse_glob p)"
  by pat_completeness auto
termination by (relation "measure length") (auto dest: class_end_less)

fun in_class :: "string \<Rightarrow> char \<Rightarrow> bool" where
  "in_class (x # m # y # s) c =
    (if m = CHR ''-'' then ((of_char x :: nat) \<le> of_char c \<and> (of_char c :: nat) \<le> of_char y) \<or> in_class s c
     else c = x \<or> in_class (m # y # s) c)"
| "in_class [x, y] c \<longleftrightarrow> c = x \<or> c = y"
| "in_class [x] c \<longleftrightarrow> c = x"
| "in_class [] c \<longleftrightarrow> False"

fun match_glob :: "glob list \<Rightarrow> string \<Rightarrow> bool" where
  "match_glob [] s \<longleftrightarrow> s = []"
| "match_glob (Star # g) [] \<longleftrightarrow> match_glob g []"
| "match_glob (Star # g) (c # s) \<longleftrightarrow> match_glob g (c # s) \<or> match_glob (Star # g) s"
| "match_glob (Any_char # g) [] \<longleftrightarrow> False"
| "match_glob (Any_char # g) (c # s) \<longleftrightarrow> match_glob g s"
| "match_glob (Lit x # g) [] \<longleftrightarrow> False"
| "match_glob (Lit x # g) (c # s) \<longleftrightarrow> c = x \<and> match_glob g s"
| "match_glob (Class b m # g) [] \<longleftrightarrow> False"
| "match_glob (Class b m # g) (c # s) \<longleftrightarrow> in_class m c \<noteq> b \<and> match_glob g s"

definition fnmatchcase :: "string \<Rightarrow> string \<Rightarrow> bool" where
  "fnmatchcase name pattern = match_glob (parse_glob pattern) name"

text \<open>A pattern without special characters matches itself only; a final star matches every continuation.\<close>

definition plain_pattern :: "string \<Rightarrow> bool" where
  "plain_pattern p \<longleftrightarrow> list_all (\<lambda>c. c \<noteq> CHR ''*'' \<and> c \<noteq> CHR ''?'' \<and> c \<noteq> CHR ''['') p"

lemma parse_plain: "plain_pattern p \<Longrightarrow> parse_glob (p @ q) = map Lit p @ parse_glob q"
  by (induction p) (auto simp: plain_pattern_def)

lemma match_literal: "match_glob (map Lit p @ g) s \<longleftrightarrow> (\<exists>t. s = p @ t \<and> match_glob g t)"
  by (induction p arbitrary: s) (auto, case_tac s, auto)

lemma match_star: "match_glob [Star] s"
  by (induction s) auto

lemma fnmatch_plain: "plain_pattern p \<Longrightarrow> fnmatchcase s p \<longleftrightarrow> s = p"
  using parse_plain [of p "[]"] match_literal [of p "[]" s] by (simp add: fnmatchcase_def)

lemma fnmatch_prefix: "plain_pattern p \<Longrightarrow> fnmatchcase s (p @ ''*'') \<longleftrightarrow> (\<exists>t. s = p @ t)"
  using parse_plain [of p "''*''"] match_literal [of p "[Star]" s] match_star by (simp add: fnmatchcase_def)

end
