(* ===== verification/ProxyRoute.thy ===== *)
theory ProxyRoute
  imports Glob HistorySend TokenRefresh RateLimit Retry
begin

text \<open>
  The gateway's proxy route, \<^verbatim>\<open>gateway/proxy/router.py\<close>: what a module's call passes before it reaches the
  marketplace, and what is written about it. The limiter, the retry loop, the token vault, the history
  reservations and the refresh locks are those of the theories imported here.
\<close>

section \<open>The call\<close>

record proxy_call =
  pc_authorization :: "string option"
  pc_request :: history_request

record module_doc =
  md_status :: string
  md_scopes :: "string list"

record claims =
  cl_module :: string
  cl_seller :: int

text \<open>
  \<open>px_verify\<close> is the verification of a module's token, with the error's text; \<open>px_audit_up\<close> whether the
  audit log takes the insert.
\<close>

record proxy_env =
  px_verify :: "string \<Rightarrow> (string, claims) result"
  px_modules :: "module_doc mongo"
  px_accounts :: "meli_account mongo"
  px_limiter :: limiter
  px_vault :: vault
  px_credit :: credit_env
  px_scope :: "string list option"
  px_retry :: retry_config
  px_audit_up :: bool

record audit_entry =
  ae_module :: string
  ae_seller :: int
  ae_method :: string
  ae_path :: string
  ae_status :: int
  ae_upstream_status :: int
  ae_trace :: "(string \<times> string \<times> string) option"

record proxy_db =
  pd_modules :: "module_doc coll"
  pd_accounts :: "meli_account coll"
  pd_counters :: "rate_counter coll"
  pd_plans :: "plan coll"
  pd_work :: work_db
  pd_audit :: "audit_entry list"
  pd_vault :: vault_state

section \<open>Scopes\<close>

text \<open>The router accepts upper-case methods only, on which the code's \<^verbatim>\<open>upper()\<close> is the identity.\<close>

definition scope_matches :: "string \<Rightarrow> string \<Rightarrow> string list \<Rightarrow> bool" where
  "scope_matches http_method path scopes =
    (let normalized = takeWhile (\<lambda>c. c \<noteq> CHR ''?'') path in
     if starts_with ''/post-purchase/v1/claims/'' normalized \<and> ends_with ''/detail'' normalized then False
     else list_ex (fnmatchcase (http_method @ '' '' @ path)) scopes)"

section \<open>Waiting for a refresh\<close>

definition lock_is_held :: "instant \<Rightarrow> meli_account \<Rightarrow> bool" where
  "lock_is_held now d = (case ma_lock d of None \<Rightarrow> False | Some t \<Rightarrow> now < t)"

definition wait_timeout :: duration where
  "wait_timeout = 5000000"

definition wait_poll :: duration where
  "wait_poll = 200000"

text \<open>
  \<open>reads n\<close> is the account as the n-th poll finds it. \<open>late n\<close> is what the n-th round takes beyond the
  sleep: up to its look at the lock, and from there to the next test of the deadline.
\<close>

type_synonym polls = "nat \<Rightarrow> meli_account option"
type_synonym delays = "nat \<Rightarrow> nat \<times> nat"

function wait_from :: "polls \<Rightarrow> delays \<Rightarrow> instant \<Rightarrow> instant \<Rightarrow> nat \<Rightarrow> meli_account option \<times> nat" where
  "wait_from reads late deadline now n =
    (if now < deadline
     then (let looked = now + wait_poll + int (fst (late n)) in
       case reads n of
         None \<Rightarrow> (None, n + 1)
       | Some d \<Rightarrow> if ma_status d = ''active'' \<and> \<not> lock_is_held looked d then (Some d, n + 1)
                   else wait_from reads late deadline (looked + int (snd (late n))) (n + 1))
     else (None, n))"
  by pat_completeness auto
termination
  by (relation "measure (\<lambda>(reads, late, deadline, now, n). nat (deadline - now))") (auto simp: wait_poll_def)

declare wait_from.simps [simp del]

definition wait_for_active_account :: "polls \<Rightarrow> delays \<Rightarrow> instant \<Rightarrow> meli_account option \<times> nat" where
  "wait_for_active_account reads late now = wait_from reads late (now + wait_timeout) now 0"

section \<open>The route\<close>

text \<open>
  An answer of the gateway's own, the marketplace's response handed through, or an exception, which the
  framework answers with a server error. Beside it goes what the route sent, in order.
\<close>

datatype proxy_answer = Own int string | Upstream http_response | Server_error

type_synonym routed = "proxy_answer \<times> retry_step list \<times> proxy_db"

text \<open>\<^verbatim>\<open>_write_audit_log\<close>: a failing insert is logged and swallowed.\<close>

definition audit_entry_of :: "claims \<Rightarrow> history_request \<Rightarrow> int \<Rightarrow> int option \<Rightarrow> audit_entry" where
  "audit_entry_of cl q upstream status =
    \<lparr>ae_module = cl_module cl, ae_seller = cl_seller cl, ae_method = hr_method q, ae_path = CHR ''/'' # hr_path q,
     ae_status = (case status of None \<Rightarrow> upstream | Some s \<Rightarrow> s), ae_upstream_status = upstream,
     ae_trace = request_trace q\<rparr>"

definition write_audit ::
  "proxy_env \<Rightarrow> claims \<Rightarrow> history_request \<Rightarrow> int \<Rightarrow> int option \<Rightarrow> proxy_db \<Rightarrow> proxy_db" where
  "write_audit E cl q upstream status db =
    (if px_audit_up E then db\<lparr>pd_audit := pd_audit db @ [audit_entry_of cl q upstream status]\<rparr> else db)"

text \<open>The call as authenticated: module and seller come from the token.\<close>

definition authenticated :: "claims \<Rightarrow> history_request \<Rightarrow> history_request" where
  "authenticated cl q = q\<lparr>hr_module := cl_module cl, hr_seller := int_str (cl_seller cl)\<rparr>"

text \<open>
  After the transport: a response is audited and handed through; a failed transport is audited only
  when a reservation was spent on it.
\<close>

definition deliver ::
  "proxy_env \<Rightarrow> claims \<Rightarrow> history_request \<Rightarrow> bool \<Rightarrow> (retry_failure, http_response) result \<times> retry_step list \<Rightarrow>
   proxy_db \<Rightarrow> routed" where
  "deliver E cl q reserved outcome db = (case outcome of
     (Inr r, steps) \<Rightarrow> (Upstream r, steps, write_audit E cl q (http_response.hr_status r) None db)
   | (Inl _, steps) \<Rightarrow> (Server_error, steps, if reserved then write_audit E cl q 0 (Some 500) db else db))"

text \<open>
  \<^verbatim>\<open>_forward_to_meli\<close> and the handlers around it; \<open>T\<close> is the client's transport, whose hook before each
  attempt is that of a selected seller's read.
\<close>

definition forward_call ::
  "proxy_env \<Rightarrow> claims \<Rightarrow> history_request \<Rightarrow> transport \<Rightarrow> instant \<Rightarrow> instant \<Rightarrow> proxy_db \<Rightarrow> routed" where
  "forward_call E cl q T now later db = (case forward_to_meli (px_scope E) q of
     Wait (PilotGetBudgetWait code) \<Rightarrow> (Own 429 code, [], write_audit E cl q (-1) (Some 429) db)
   | Wait _ \<Rightarrow> (Server_error, [], db)
   | Send_once \<Rightarrow>
       (case reserve_history_send (px_credit E) (px_scope E) q now later (pd_plans db, pd_work db) of
          (granted, plans, work) \<Rightarrow>
            let db' = db\<lparr>pd_plans := plans, pd_work := work\<rparr> in
            (case granted of
               send_outcome.Refused HistoryPolicyRejected \<Rightarrow>
                 (Own 412 ''history_policy_wait'', [], write_audit E cl q (-1) (Some 412) db')
             | send_outcome.Refused _ \<Rightarrow> (Server_error, [], db')
             | Untracked \<Rightarrow> deliver E cl q False (send_single_attempt T) db'
             | Reserved \<Rightarrow> deliver E cl q True (send_single_attempt T) db'))
   | Send_once_charged \<Rightarrow>
       (case reserve_pilot_get_send (px_credit E) (hr_seller q) None now later (pd_plans db) of
          (Inl (PilotGetBudgetWait code), plans) \<Rightarrow>
            (Own 429 code, [], write_audit E cl q (-1) (Some 429) (db\<lparr>pd_plans := plans\<rparr>))
        | (Inl _, plans) \<Rightarrow> (Server_error, [], db\<lparr>pd_plans := plans\<rparr>)
        | (Inr _, plans) \<Rightarrow> deliver E cl q False (send_single_attempt T) (db\<lparr>pd_plans := plans\<rparr>))
   | Send_retrying pilot \<Rightarrow>
       deliver E cl q False (send_with_retry (px_retry E) (if pilot then T else T\<lparr>tp_before := \<lambda>_. None\<rparr>)) db)"

text \<open>
  The account after the possible wait: an answer of the gateway's own, or the account to use. The poll
  reads are \<open>reads\<close>.
\<close>

definition usable_account ::
  "proxy_env \<Rightarrow> int \<Rightarrow> instant \<Rightarrow> polls \<Rightarrow> delays \<Rightarrow> proxy_db \<Rightarrow> (proxy_answer, meli_account) result" where
  "usable_account E seller now reads late db =
    (case find_where (px_accounts E) (pd_accounts db) (\<lambda>d. ma_seller d = seller) of
       None \<Rightarrow> Inl (Own 412 ''account_not_active'')
     | Some d \<Rightarrow>
         if ma_status d = ''paused'' then Inl (Own 423 ''seller_paused'')
         else if ma_status d = ''refresh_pending'' \<and> lock_is_held now d
         then (case fst (wait_for_active_account reads late now) of
                 None \<Rightarrow> Inl (Own 503 ''token_refresh_timeout'')
               | Some d' \<Rightarrow> if ma_status d' = ''active'' then Inr d' else Inl (Own 412 ''account_not_active''))
         else if ma_status d = ''active'' then Inr d
         else Inl (Own 412 ''account_not_active''))"

definition bearer_token :: "string option \<Rightarrow> string option" where
  "bearer_token h = (case h of
     Some v \<Rightarrow> if starts_with ''Bearer '' v then Some (strip (drop 7 v)) else None | None \<Rightarrow> None)"

definition access_token :: "proxy_env \<Rightarrow> meli_account \<Rightarrow> int \<Rightarrow> vault_state \<Rightarrow> (proxy_answer, string) result \<times> vault_state" where
  "access_token E d seller v = (case ma_access d of
     None \<Rightarrow> (Inl Server_error, v)
   | Some t \<Rightarrow> (case decrypt_token (px_vault E) t (int_str seller) v of
                  (Inl _, v') \<Rightarrow> (Inl Server_error, v') | (Inr token, v') \<Rightarrow> (Inr token, v')))"

text \<open>\<open>T\<close> gives the transport for an access token, \<open>clock\<close> the instants of the successive readings.\<close>

definition proxy_meli ::
  "proxy_env \<Rightarrow> proxy_call \<Rightarrow> (string \<Rightarrow> transport) \<Rightarrow> (nat \<Rightarrow> instant) \<Rightarrow> polls \<Rightarrow> delays \<Rightarrow>
   proxy_db \<Rightarrow> routed" where
  "proxy_meli E call T clock reads late db = (case bearer_token (pc_authorization call) of
     None \<Rightarrow> (Own 401 ''invalid_token'', [], db)
   | Some token \<Rightarrow> (case px_verify E token of
       Inl _ \<Rightarrow> (Own 401 ''invalid_token'', [], db)
     | Inr cl \<Rightarrow> (case find_one (px_modules E) (pd_modules db) (cl_module cl) (\<lambda>_. True) of
         None \<Rightarrow> (Own 401 ''unknown_module'', [], db)
       | Some m \<Rightarrow>
           let q = authenticated cl (pc_request call) in
           if md_status m \<noteq> ''enabled'' then (Own 412 ''module_disabled'', [], db)
           else if \<not> scope_matches (hr_method q) (CHR ''/'' # hr_path q) (md_scopes m) then (Own 403 ''out_of_scope'', [], db)
           else (case usable_account E (cl_seller cl) (clock 0) reads late db of
             Inl answer \<Rightarrow> (answer, [], db)
           | Inr d \<Rightarrow>
               (case check_and_increment (px_limiter E) \<lparr>lr_module_id = cl_module cl, lr_seller_id = cl_seller cl, lr_now = clock 1\<rparr>
                       (pd_counters db) of
                  (Inl (RateLimitExceeded wait), counters) \<Rightarrow> (Own 429 ''rate_limit_exceeded'', [], db\<lparr>pd_counters := counters\<rparr>)
                | (Inl LimiterStoreError, counters) \<Rightarrow> (Server_error, [], db\<lparr>pd_counters := counters\<rparr>)
                | (Inr _, counters) \<Rightarrow>
                    (case access_token E d (cl_seller cl) (pd_vault db) of
                       (Inl answer, v) \<Rightarrow> (answer, [], db\<lparr>pd_counters := counters, pd_vault := v\<rparr>)
                     | (Inr access, v) \<Rightarrow>
                         forward_call E cl q (T access) (clock 2) (clock 3)
                           (db\<lparr>pd_counters := counters, pd_vault := v\<rparr>)))))))"

section \<open>The wait ends\<close>

lemma wait_from_bound:
  "int (snd (wait_from reads late deadline now n)) \<le> int n + max 0 ((deadline - now + wait_poll - 1) div wait_poll)"
proof (induction reads late deadline now n rule: wait_from.induct)
  case (1 reads late deadline now n)
  show ?case
  proof (cases "now < deadline")
    case False
    then show ?thesis by (simp add: wait_from.simps [of _ _ deadline now])
  next
    case True
    define looked where "looked = now + wait_poll + int (fst (late n))"
    have one: "1 \<le> (deadline - now + wait_poll - 1) div wait_poll"
      using True by (simp add: wait_poll_def)
    let ?next = "looked + int (snd (late n))"
    have next_round: "max 0 ((deadline - ?next + wait_poll - 1) div wait_poll) + 1 \<le> (deadline - now + wait_poll - 1) div wait_poll"
      using True by (simp add: looked_def wait_poll_def)
    show ?thesis
    proof (cases "reads n")
      case None
      with True one show ?thesis by (simp add: wait_from.simps [of _ _ deadline now])
    next
      case (Some d)
      show ?thesis
      proof (cases "ma_status d = ''active'' \<and> \<not> lock_is_held looked d")
        case True
        with Some \<open>now < deadline\<close> one show ?thesis
          by (simp add: wait_from.simps [of _ _ deadline now] looked_def Let_def)
      next
        case False
        from "1.IH" [OF True looked_def Some] False
        have "int (snd (wait_from reads late deadline ?next (n + 1)))
          \<le> int (n + 1) + max 0 ((deadline - ?next + wait_poll - 1) div wait_poll)" by simp
        moreover from True Some False
        have "wait_from reads late deadline now n = wait_from reads late deadline ?next (n + 1)"
          by (subst wait_from.simps) (auto simp: looked_def Let_def)
        ultimately show ?thesis using next_round one by simp
      qed
    qed
  qed
qed

lemma wait_from_result:
  assumes "wait_from reads late deadline now n = (Some d, m)"
  shows "n < m \<and> reads (m - 1) = Some d \<and> ma_status d = ''active'' \<and>
    (\<exists>looked. now < looked \<and> \<not> lock_is_held looked d)"
  using assms
proof (induction reads late deadline now n rule: wait_from.induct)
  case (1 reads late deadline now n)
  from "1.prems" have lt: "now < deadline"
    by (subst (asm) wait_from.simps) (auto split: if_splits)
  define looked where "looked = now + wait_poll + int (fst (late n))"
  have later: "now < looked" by (simp add: looked_def wait_poll_def)
  from "1.prems" lt obtain d' where d': "reads n = Some d'"
    by (subst (asm) wait_from.simps) (auto simp: Let_def split: option.splits)
  show ?case
  proof (cases "ma_status d' = ''active'' \<and> \<not> lock_is_held looked d'")
    case True
    with "1.prems" lt d' have "d' = d" "m = n + 1"
      by (subst (asm) wait_from.simps, simp add: looked_def Let_def)+
    with True d' later show ?thesis by auto
  next
    case False
    with "1.prems" lt d'
    have "wait_from reads late deadline (looked + int (snd (late n))) (n + 1) = (Some d, m)"
      by (subst (asm) wait_from.simps) (auto simp: looked_def Let_def)
    from "1.IH" [OF lt looked_def d' False this] obtain at_look where found:
      "n + 1 < m" "reads (m - 1) = Some d" "ma_status d = ''active''" "looked + int (snd (late n)) < at_look"
      "\<not> lock_is_held at_look d" by blast
    from later found(4) have "now < at_look" by simp
    with found show ?thesis by auto
  qed
qed

text \<open>
  The wait for a running refresh ends, however slow the polls are: after at most twenty-five of them
  it gives up or has found the account, and the account it hands over is one read as active whose lock was
  over when it was looked at.
\<close>

theorem wait_ends:
  "snd (wait_for_active_account reads late now) \<le> 25 \<and>
   (case fst (wait_for_active_account reads late now) of
      None \<Rightarrow> True
    | Some d \<Rightarrow> reads (snd (wait_for_active_account reads late now) - 1) = Some d \<and> ma_status d = ''active'' \<and>
        (\<exists>looked. now < looked \<and> \<not> lock_is_held looked d))"
proof -
  have "int (snd (wait_for_active_account reads late now)) \<le> 25"
    using wait_from_bound [of reads late "now + wait_timeout" now 0]
    by (simp add: wait_for_active_account_def wait_timeout_def wait_poll_def)
  then show ?thesis
    using wait_from_result [of reads late "now + wait_timeout" now 0]
    by (cases "wait_for_active_account reads late now") (auto simp: wait_for_active_account_def split: option.split)
qed

section \<open>What reaches the marketplace\<close>

lemma traced_send_once: "request_trace q \<noteq> None \<Longrightarrow> forward_to_meli scope q = Send_once"
  by (auto simp: request_trace_def history_trace_def forward_to_meli_def Let_def split: if_splits)

lemma untraced_sends:
  "request_trace q = None \<Longrightarrow> forward_to_meli scope q = Wait e \<Longrightarrow> pilot_get scope q"
  "request_trace q = None \<Longrightarrow> pilot_get scope q \<Longrightarrow> \<exists>e. forward_to_meli scope q = Wait e"
  by (auto simp: forward_to_meli_def Let_def split: if_splits)

lemma traced_not_untracked:
  "request_trace q \<noteq> None \<Longrightarrow> fst (reserve_history_send E scope q now later s) \<noteq> Untracked"
  by (cases "request_trace q")
    (auto simp: reserve_history_send_def Let_def split: option.splits if_splits prod.splits sum.splits)

lemma single_attempt_sends: "sends (snd (send_single_attempt T)) = [1]"
  by (simp add: send_single_attempt_def split: sum.split)

lemma forward_traced:
  assumes "forward_call E cl q T now later db = (answer, steps, db')" and "steps \<noteq> []" and "request_trace q \<noteq> None"
  shows "sends steps = [1] \<and>
    fst (reserve_history_send (px_credit E) (px_scope E) q now later (pd_plans db, pd_work db)) = Reserved"
proof -
  obtain granted plans work where r:
    "reserve_history_send (px_credit E) (px_scope E) q now later (pd_plans db, pd_work db) = (granted, plans, work)"
    by (cases "reserve_history_send (px_credit E) (px_scope E) q now later (pd_plans db, pd_work db)")
  from traced_not_untracked [OF assms(3), of "px_credit E" "px_scope E" now later "(pd_plans db, pd_work db)"] r
  have tracked: "granted \<noteq> Untracked" by simp
  note shape = assms(1) [unfolded forward_call_def traced_send_once [OF assms(3)] r, simplified]
  show ?thesis
  proof (cases granted)
    case Reserved
    with shape single_attempt_sends [of T] r show ?thesis
      by (auto simp: deliver_def Let_def split: prod.splits sum.splits)
  next
    case (Refused e)
    with shape assms(2) show ?thesis by (cases e) (auto simp: Let_def)
  qed (use tracked in simp)
qed

text \<open>
  What the audit log gains from a request that went out: one entry for a response, with its status; for a
  failed transport one entry when a reservation was spent on it, and none otherwise.
\<close>

definition audited ::
  "proxy_env \<Rightarrow> claims \<Rightarrow> history_request \<Rightarrow> bool \<Rightarrow> proxy_answer \<Rightarrow> proxy_db \<Rightarrow> proxy_db \<Rightarrow> bool" where
  "audited E cl q reserved answer db db' =
    (case (if px_audit_up E then answer else Own 0 []) of
       Upstream r \<Rightarrow> pd_audit db' = pd_audit db @ [audit_entry_of cl q (http_response.hr_status r) None]
     | Server_error \<Rightarrow> pd_audit db' = pd_audit db @ (if reserved then [audit_entry_of cl q 0 (Some 500)] else [])
     | Own _ _ \<Rightarrow> pd_audit db' = pd_audit db \<and> \<not> px_audit_up E)"

lemma audited_same_log: "audited E cl q b answer db1 db' \<Longrightarrow> pd_audit db1 = pd_audit db \<Longrightarrow> audited E cl q b answer db db'"
  unfolding audited_def by (simp only:)

lemma deliver_audit: "deliver E cl q reserved outcome db = (answer, steps, db') \<Longrightarrow> audited E cl q reserved answer db db'"
  by (auto simp: deliver_def write_audit_def audited_def split: prod.splits sum.splits if_splits)

lemma forward_delivers:
  assumes "forward_call E cl q T now later db = (answer, steps, db')" and "steps \<noteq> []"
  shows "\<exists>outcome db1. pd_audit db1 = pd_audit db \<and> deliver E cl q (request_trace q \<noteq> None) outcome db1 = (answer, steps, db')"
proof (cases "request_trace q = None")
  case False
  obtain plans work where r:
    "reserve_history_send (px_credit E) (px_scope E) q now later (pd_plans db, pd_work db) = (Reserved, plans, work)"
    using forward_traced [OF assms False]
    by (cases "reserve_history_send (px_credit E) (px_scope E) q now later (pd_plans db, pd_work db)") simp
  from assms(1) traced_send_once [OF False] r
  have "deliver E cl q True (send_single_attempt T) (db\<lparr>pd_plans := plans, pd_work := work\<rparr>) = (answer, steps, db')"
    by (simp add: forward_call_def Let_def)
  with False show ?thesis
    by (intro exI [of _ "send_single_attempt T"] exI [of _ "db\<lparr>pd_plans := plans, pd_work := work\<rparr>"]) simp
next
  case True
  with assms have "\<not> pilot_get (px_scope E) q" by (auto simp: forward_call_def forward_to_meli_def Let_def)
  with assms(1) True obtain outcome db1 where
    "deliver E cl q False outcome db1 = (answer, steps, db')" "pd_audit db1 = pd_audit db"
    by (cases "hr_retry q = Some ''disabled''")
      (auto simp: forward_call_def forward_to_meli_def reserve_history_send_def Let_def)
  with True show ?thesis by (intro exI [of _ outcome] exI [of _ db1]) simp
qed

lemma forward_audit:
  assumes "forward_call E cl q T now later db = (answer, steps, db')" and "steps \<noteq> []"
  shows "audited E cl q (request_trace q \<noteq> None) answer db db'"
proof -
  from forward_delivers [OF assms] obtain outcome db1 where same: "pd_audit db1 = pd_audit db"
    and out: "deliver E cl q (request_trace q \<noteq> None) outcome db1 = (answer, steps, db')" by blast
  from deliver_audit [OF out] same show ?thesis by (rule audited_same_log)
qed

lemma usable_account_active: "usable_account E seller now reads late db = Inr d \<Longrightarrow> ma_status d = ''active''"
  by (auto simp: usable_account_def split: option.splits if_splits)

text \<open>What lets a call past the checks that precede the limiter, for the claims of its token.\<close>

definition admitted :: "proxy_env \<Rightarrow> proxy_call \<Rightarrow> instant \<Rightarrow> polls \<Rightarrow> delays \<Rightarrow> proxy_db \<Rightarrow> claims \<Rightarrow> bool" where
  "admitted E call now reads late db cl \<longleftrightarrow>
    (\<exists>token m d. bearer_token (pc_authorization call) = Some token \<and> px_verify E token = Inr cl \<and>
       find_one (px_modules E) (pd_modules db) (cl_module cl) (\<lambda>_. True) = Some m \<and> md_status m = ''enabled'' \<and>
       scope_matches (hr_method (pc_request call)) (CHR ''/'' # hr_path (pc_request call)) (md_scopes m) \<and>
       usable_account E (cl_seller cl) now reads late db = Inr d \<and> ma_status d = ''active'')"

lemma proxy_sent:
  assumes "proxy_meli E call T clock reads late db = (answer, steps, db')" and "steps \<noteq> []"
  shows "\<exists>cl access counters v. admitted E call (clock 0) reads late db cl \<and>
    check_and_increment (px_limiter E) \<lparr>lr_module_id = cl_module cl, lr_seller_id = cl_seller cl, lr_now = clock 1\<rparr>
      (pd_counters db) = (Inr (), counters) \<and>
    forward_call E cl (authenticated cl (pc_request call)) (T access) (clock 2) (clock 3)
      (db\<lparr>pd_counters := counters, pd_vault := v\<rparr>) = (answer, steps, db')"
proof -
  from assms obtain token where token: "bearer_token (pc_authorization call) = Some token"
    by (auto simp: proxy_meli_def split: option.splits)
  with assms obtain cl where cl: "px_verify E token = Inr cl"
    by (auto simp: proxy_meli_def split: sum.splits)
  with assms token obtain m where m: "find_one (px_modules E) (pd_modules db) (cl_module cl) (\<lambda>_. True) = Some m"
    by (auto simp: proxy_meli_def split: option.splits)
  let ?q = "authenticated cl (pc_request call)"
  have same: "hr_method ?q = hr_method (pc_request call)" "hr_path ?q = hr_path (pc_request call)"
    by (simp_all add: authenticated_def)
  note step1 = assms(1) [unfolded proxy_meli_def token option.case cl sum.case m Let_def]
  with assms(2) have ok: "md_status m = ''enabled''" "scope_matches (hr_method ?q) (CHR ''/'' # hr_path ?q) (md_scopes m)"
    by (auto split: if_splits)
  with step1 assms(2) obtain d where d: "usable_account E (cl_seller cl) (clock 0) reads late db = Inr d"
    by (auto split: sum.splits)
  obtain out counters where lim: "check_and_increment (px_limiter E)
      \<lparr>lr_module_id = cl_module cl, lr_seller_id = cl_seller cl, lr_now = clock 1\<rparr> (pd_counters db) = (out, counters)"
    by fastforce
  obtain res v where vault: "access_token E d (cl_seller cl) (pd_vault db) = (res, v)" by fastforce
  note step2 = step1 [simplified ok d lim vault sum.case prod.case if_True not_True_eq_False if_False]
  from step2 ok assms(2) have out: "out = Inr ()"
    by (auto split: sum.splits limit_error.splits)
  from step2 ok assms(2) out obtain access where
    "forward_call E cl ?q (T access) (clock 2) (clock 3) (db\<lparr>pd_counters := counters, pd_vault := v\<rparr>) = (answer, steps, db')"
    by (auto split: sum.splits)
  moreover have "admitted E call (clock 0) reads late db cl"
    using token cl m ok d usable_account_active [OF d] same by (auto simp: admitted_def)
  ultimately show ?thesis using lim out by blast
qed


lemma mem_find_where_single: "P d \<Longrightarrow> find_where mem_mongo [k \<mapsto> d] P = Some d"
proof -
  assume P: "P d"
  then have "find_where mem_mongo [k \<mapsto> d] P \<noteq> None" using mem.find_where_None [of "[k \<mapsto> d]" P d] by auto
  then show ?thesis using mem.find_where_Some [of "[k \<mapsto> d]" P] by fastforce
qed

definition demo_proxy :: "credit_env \<Rightarrow> proxy_env" where
  "demo_proxy credit = \<lparr>px_verify = (\<lambda>_. Inr \<lparr>cl_module = ''sheets'', cl_seller = 7\<rparr>), px_modules = mem_mongo,
     px_accounts = mem_mongo, px_limiter = mem_limiter, px_vault = demo_vault, px_credit = credit, px_scope = None,
     px_retry = default_retry, px_audit_up = True\<rparr>"

definition demo_proxied :: proxy_call where
  "demo_proxied = \<lparr>pc_authorization = Some ''Bearer t'', pc_request = \<lparr>hr_module = [], hr_seller = [], hr_method = ''GET'',
     hr_path = ''orders/9'', hr_trace = [], hr_work = None, hr_retry = None\<rparr>\<rparr>"

definition demo_linked :: meli_account where
  "demo_linked = demo_account\<lparr>ma_access := Some \<lparr>st_ciphertext = ''kA'', st_nonce = [], st_dek_wrapped = ''k'', st_key_version = []\<rparr>\<rparr>"

definition demo_proxy_db :: "plan coll \<Rightarrow> work_db \<Rightarrow> proxy_db" where
  "demo_proxy_db plans work = \<lparr>pd_modules = [''sheets'' \<mapsto> \<lparr>md_status = ''enabled'', md_scopes = [''GET /orders/*'']\<rparr>],
     pd_accounts = [''a'' \<mapsto> demo_linked], pd_counters = Map.empty, pd_plans = plans, pd_work = work, pd_audit = [],
     pd_vault = demo_vault_state\<rparr>"

definition demo_wire :: "string \<Rightarrow> transport" where
  "demo_wire access = \<lparr>tp_before = (\<lambda>_. None), tp_send = (\<lambda>_. Inr \<lparr>hr_status = 200, hr_retry_after = None\<rparr>),
     tp_uniform = (\<lambda>_ a _. a), tp_now = (\<lambda>_. 0), tp_parse_date = (\<lambda>_. None)\<rparr>"

lemma demo_scope: "scope_matches ''GET'' ''/orders/9'' [''GET /orders/*'']"
  using fnmatch_prefix [of "''GET /orders/''" "''GET /orders/9''"]
  by (simp add: scope_matches_def plain_pattern_def starts_with_def)

lemma demo_proxy_runs:
  "\<exists>db'. proxy_meli (demo_proxy credit) demo_proxied demo_wire (\<lambda>n. int n) (\<lambda>_. None) (\<lambda>_. (0, 0)) (demo_proxy_db plans work) =
    (Upstream \<lparr>hr_status = 200, hr_retry_after = None\<rparr>, [Sent 1], db')"
proof -
  let ?db = "demo_proxy_db plans work" and ?E = "demo_proxy credit"
  have bearer: "bearer_token (pc_authorization demo_proxied) = Some ''t''" by code_simp
  have module: "find_one (px_modules ?E) (pd_modules ?db) ''sheets'' (\<lambda>_. True) =
    Some \<lparr>md_status = ''enabled'', md_scopes = [''GET /orders/*'']\<rparr>" by (simp add: demo_proxy_def demo_proxy_db_def)
  have usable: "usable_account ?E 7 0 (\<lambda>_. None) (\<lambda>_. (0, 0)) ?db = Inr demo_linked"
    by (simp add: usable_account_def demo_proxy_def demo_proxy_db_def mem_find_where_single demo_linked_def demo_account_def)
  have token: "fst (access_token ?E demo_linked 7 demo_vault_state) = Inr ''A''"
    by (simp add: access_token_def demo_linked_def demo_proxy_def decrypt_token_def demo_vault_def demo_vault_state_def
        starts_with_def)
  then obtain v where vault: "access_token ?E demo_linked 7 (pd_vault ?db) = (Inr ''A'', v)"
    by (cases "access_token ?E demo_linked 7 demo_vault_state") (simp add: demo_proxy_db_def)
  obtain counters where limit: "check_and_increment (px_limiter ?E) \<lparr>lr_module_id = ''sheets'', lr_seller_id = 7, lr_now = 1\<rparr>
      (pd_counters ?db) = (Inr (), counters)"
    by (simp add: check_and_increment_def demo_proxy_def demo_proxy_db_def first_counter_def Let_def)
  let ?q = "authenticated \<lparr>cl_module = ''sheets'', cl_seller = 7\<rparr> (pc_request demo_proxied)"
  have q: "request_trace ?q = None" "hr_retry ?q = None" "hr_method ?q = ''GET''" "hr_path ?q = ''orders/9''"
    by (simp_all add: request_trace_def history_trace_def authenticated_def demo_proxied_def)
  have "send_with_retry default_retry (demo_wire a\<lparr>tp_before := \<lambda>_. None\<rparr>) = (Inr \<lparr>hr_status = 200, hr_retry_after = None\<rparr>, [Sent 1])" for a
    by (simp add: send_with_retry_def default_retry_def demo_wire_def send_from.simps [of _ _ _ "Suc 0"] should_retry_response_def)
  then have fwd: "\<exists>db'. forward_call ?E \<lparr>cl_module = ''sheets'', cl_seller = 7\<rparr> ?q (demo_wire ''A'') 2 3 db =
    (Upstream \<lparr>hr_status = 200, hr_retry_after = None\<rparr>, [Sent 1], db')" for db
    using q by (simp add: forward_call_def forward_to_meli_def pilot_get_def demo_proxy_def deliver_def)
  show ?thesis
    using bearer module usable vault limit fwd q demo_scope
    by (simp add: proxy_meli_def demo_proxy_def Let_def)
qed


section \<open>Dot segments\<close>

text \<open>
  The scope check reads the path as it was spelled: a module that may read orders passes it with
  \<^verbatim>\<open>/orders/../\<close> followed by any path whatever, which the URL the gateway builds and its client normalises
  turns into that path, so neither the module's scopes nor the ban on claim details confines it.
\<close>

theorem dot_segments_pass_scope:
  assumes "''GET /orders/*'' \<in> set scopes"
  shows "scope_matches ''GET'' (''/orders/../'' @ rest) scopes"
proof -
  have "fnmatchcase (''GET /orders/../'' @ rest) ''GET /orders/*''"
    using fnmatch_prefix [of "''GET /orders/''" "''GET /orders/../'' @ rest"] by (simp add: plain_pattern_def)
  with assms have "list_ex (fnmatchcase (''GET /orders/../'' @ rest)) scopes" by (auto simp: list_ex_iff)
  then show ?thesis by (simp add: scope_matches_def starts_with_def)
qed

definition bootstrap_scopes :: "string list" where
  "bootstrap_scopes = [''GET /users/*'', ''GET /users/*/items/search'', ''GET /items'', ''GET /orders/search'', ''GET /orders/*'',
     ''GET /questions/search'', ''GET /messages/packs/*'', ''GET /shipments/*'', ''GET /post-purchase/v1/claims/search'',
     ''GET /post-purchase/v1/claims/*'', ''GET /post-purchase/v2/claims/*/returns'']"

theorem dot_segments_pass_scope_witness:
  "\<not> scope_matches ''GET'' ''/post-purchase/v1/claims/9/detail'' bootstrap_scopes \<and>
   \<not> scope_matches ''GET'' ''/answers'' bootstrap_scopes \<and>
   scope_matches ''GET'' ''/orders/../post-purchase/v1/claims/9/detail'' bootstrap_scopes \<and>
   scope_matches ''GET'' ''/orders/../answers'' bootstrap_scopes"
proof -
  have "''GET /orders/*'' \<in> set bootstrap_scopes" by (simp add: bootstrap_scopes_def)
  from dot_segments_pass_scope [OF this, of "''post-purchase/v1/claims/9/detail''"]
    dot_segments_pass_scope [OF this, of "''answers''"]
  have "scope_matches ''GET'' ''/orders/../post-purchase/v1/claims/9/detail'' bootstrap_scopes"
    "scope_matches ''GET'' ''/orders/../answers'' bootstrap_scopes" by simp_all
  moreover have "\<not> scope_matches ''GET'' ''/post-purchase/v1/claims/9/detail'' bootstrap_scopes" by code_simp
  moreover have "\<not> scope_matches ''GET'' ''/answers'' bootstrap_scopes" by code_simp
  ultimately show ?thesis by blast
qed

end
