(* ===== verification/StepTimes.thy ===== *)
theory StepTimes
  imports Prelude
begin

text \<open>
  States that hold until the next row: what the rows of a series say at an instant, and how long a state
  held in an interval. The spreadsheet's histories of availability and of catalog competition are stated
  against it.
\<close>

section \<open>Definitions\<close>

text \<open>The state after rows in order of time, \<open>s\<close> before the first of them.\<close>

fun hold :: "'a option \<Rightarrow> (instant \<times> 'a) list \<Rightarrow> instant \<Rightarrow> 'a option" where
  "hold s [] t = s"
| "hold s ((u, a) # rows) t = (if t < u then s else hold (Some a) rows t)"

definition state_at :: "(instant \<times> 'a) list \<Rightarrow> instant \<Rightarrow> 'a option" where
  "state_at rows t = hold None (sort_key fst rows) t"

definition holds_in :: "('a \<Rightarrow> bool) \<Rightarrow> 'a option \<Rightarrow> bool" where
  "holds_in P s = (case s of None \<Rightarrow> False | Some a \<Rightarrow> P a)"

text \<open>The microseconds of \<open>[a, b)\<close> in which the state satisfies \<open>P\<close>.\<close>

definition time_in :: "('a \<Rightarrow> bool) \<Rightarrow> (instant \<times> 'a) list \<Rightarrow> instant \<Rightarrow> instant \<Rightarrow> duration" where
  "time_in P rows a b = int (length (filter (\<lambda>t. holds_in P (state_at rows t)) [a..b - 1]))"

definition held :: "('a \<Rightarrow> bool) \<Rightarrow> 'a option \<Rightarrow> (instant \<times> 'a) list \<Rightarrow> instant \<Rightarrow> instant \<Rightarrow> duration" where
  "held P s rows a b = int (card {t. a \<le> t \<and> t < b \<and> holds_in P (hold s rows t)})"

text \<open>The database keeps milliseconds.\<close>

definition utc_ms :: "instant \<Rightarrow> instant" where
  "utc_ms t = t div 1000 * 1000"

lemma utc_ms_idem [simp]: "utc_ms (utc_ms t) = utc_ms t"
  by (simp add: utc_ms_def)

lemma utc_ms_compare:
  assumes "utc_ms u = u"
  shows "utc_ms t < u \<longleftrightarrow> t < u" and "u \<le> utc_ms t \<longleftrightarrow> u \<le> t"
proof -
  have u: "u = u div 1000 * 1000" using assms by (simp add: utc_ms_def)
  have "u \<le> utc_ms t \<longleftrightarrow> u div 1000 \<le> t div 1000" unfolding utc_ms_def by (subst u) simp
  also have "\<dots> \<longleftrightarrow> u \<le> t"
  proof
    assume "u div 1000 \<le> t div 1000"
    then have "u div 1000 * 1000 \<le> t div 1000 * 1000" by simp
    also have "\<dots> \<le> t" by simp
    finally show "u \<le> t" using u by simp
  qed (rule zdiv_mono1, simp_all)
  finally show 1: "u \<le> utc_ms t \<longleftrightarrow> u \<le> t" .
  then show "utc_ms t < u \<longleftrightarrow> t < u" by linarith
qed

lemma holds_in_simps [simp]: "holds_in P None = False" "holds_in P (Some a) = P a"
  by (simp_all add: holds_in_def)

section \<open>The newest row\<close>

definition newest :: "(instant \<times> 'a) set \<Rightarrow> instant \<Rightarrow> 'a \<Rightarrow> bool" where
  "newest S t a \<longleftrightarrow> (\<exists>u. (u, a) \<in> S \<and> u \<le> t \<and> (\<forall>v \<in> fst ` S. v \<le> t \<longrightarrow> v \<le> u))"

lemma option_eqI: "(\<And>a. x = Some a \<longleftrightarrow> y = Some a) \<Longrightarrow> x = y"
  by (cases x; cases y) auto

lemma hold_append: "hold s (xs @ ys) t = (if \<exists>y \<in> fst ` set xs. t < y then hold s xs t else hold (hold s xs t) ys t)"
proof (induction xs arbitrary: s)
  case (Cons x xs)
  obtain u a where x: "x = (u, a)" by fastforce
  show ?case using Cons.IH [of "Some a"] by (auto simp: x)
qed simp

lemma hold_early: "\<forall>u \<in> fst ` set rows. t < u \<Longrightarrow> hold s rows t = s"
  by (cases rows) auto

lemma hold_None: "sorted (map fst rows) \<Longrightarrow> hold None rows t = None \<longleftrightarrow> (\<forall>u \<in> fst ` set rows. t < u)"
proof (cases rows)
  case (Cons x xs)
  assume s: "sorted (map fst rows)"
  have some: "hold (Some a) ys t \<noteq> None" for a ys
    by (induction ys arbitrary: a) auto
  from s Cons some show ?thesis by (cases x) auto
qed simp

lemma hold_newest:
  assumes "sorted_wrt (<) (map fst rows)"
  shows "hold None rows t = Some a \<longleftrightarrow> newest (set rows) t a"
  using assms
proof (induction rows rule: rev_induct)
  case (snoc x rows)
  obtain u b where x: "x = (u, b)" by fastforce
  from snoc.prems have s: "sorted_wrt (<) (map fst rows)" and below: "\<forall>v \<in> fst ` set rows. v < u"
    by (auto simp: sorted_wrt_append x)
  show ?case
  proof (cases "t < u")
    case True
    then have "hold None (rows @ [x]) t = hold None rows t" by (simp add: hold_append x)
    with True show ?thesis by (auto simp: snoc.IH [OF s] x newest_def)
  next
    case False
    with below have "hold None (rows @ [x]) t = Some b" by (force simp: hold_append x)
    with False below show ?thesis by (force simp: x newest_def)
  qed
qed (simp add: newest_def)

lemma sorted_strict:
  assumes "distinct (map fst rows)"
  shows "sorted_wrt (<) (map fst (sort_key fst rows))"
proof -
  have "distinct (map fst (sort_key fst rows))" using assms by (simp add: distinct_map)
  then show ?thesis by (simp add: strict_sorted_iff)
qed

lemma state_at_newest:
  assumes "distinct (map fst rows)"
  shows "state_at rows t = Some a \<longleftrightarrow> newest (set rows) t a"
  unfolding state_at_def using hold_newest [OF sorted_strict [OF assms]] by simp

lemma state_at_None: "state_at rows t = None \<longleftrightarrow> (\<forall>u \<in> fst ` set rows. t < u)"
  unfolding state_at_def by (simp add: hold_None)

lemma state_at_set:
  assumes "distinct (map fst rows)" and "distinct (map fst rows')" and "set rows = set rows'"
  shows "state_at rows t = state_at rows' t"
  by (rule option_eqI) (simp only: state_at_newest [OF assms(1)] state_at_newest [OF assms(2)] assms(3))

lemma state_at_sorted: "sorted_wrt (<) (map fst rows) \<Longrightarrow> state_at rows t = hold None rows t"
  by (simp add: state_at_def sorted_sort_id strict_sorted_iff sort_key_id_if_sorted)

text \<open>Dropping rows that a newer one supersedes keeps the newest.\<close>

lemma newest_covered:
  assumes "L \<subseteq> S" and "inj_on fst S" and "\<And>p. p \<in> S \<Longrightarrow> fst p \<le> t \<Longrightarrow> \<exists>q \<in> L. fst p \<le> fst q \<and> fst q \<le> t"
  shows "newest L t a \<longleftrightarrow> newest S t a"
proof
  assume "newest L t a"
  then obtain u where u: "(u, a) \<in> L" "u \<le> t" "\<And>q. q \<in> L \<Longrightarrow> fst q \<le> t \<Longrightarrow> fst q \<le> u"
    by (auto simp: newest_def)
  have "fst p \<le> u" if "p \<in> S" "fst p \<le> t" for p
  proof -
    from assms(3) [OF that] obtain q where "q \<in> L" "fst p \<le> fst q" "fst q \<le> t" by blast
    with u(3) [of q] show ?thesis by linarith
  qed
  with u(1,2) assms(1) show "newest S t a" by (auto simp: newest_def)
next
  assume "newest S t a"
  then obtain u where u: "(u, a) \<in> S" "u \<le> t" "\<And>q. q \<in> S \<Longrightarrow> fst q \<le> t \<Longrightarrow> fst q \<le> u"
    by (auto simp: newest_def)
  from assms(3) [OF u(1)] u(2) obtain q where q: "q \<in> L" "u \<le> fst q" "fst q \<le> t" by auto
  with assms(1) have "q \<in> S" by blast
  with u(3) q have "fst q = u" by (simp add: order_antisym)
  with inj_onD [OF assms(2), of q "(u, a)"] \<open>q \<in> S\<close> u(1) have "q = (u, a)" by simp
  with q(1) have "(u, a) \<in> L" by simp
  moreover have "v \<le> u" if "v \<in> fst ` L" "v \<le> t" for v using that u(3) assms(1) by blast
  ultimately show "newest L t a" using u(2) by (auto simp: newest_def)
qed

text \<open>An opening row and the rows inside a window say what all rows say, inside the window.\<close>

lemma hold_window:
  assumes dist: "distinct (map fst ps)"
    and op: "case opening of
      None \<Rightarrow> \<forall>p \<in> set ps. ws < fst p
    | Some p \<Rightarrow> p \<in> set ps \<and> fst p \<le> ws \<and> (\<forall>q \<in> set ps. fst q \<le> ws \<longrightarrow> fst q \<le> fst p)"
    and strict: "sorted_wrt (<) (map fst cs)" and cs: "set cs = {p \<in> set ps. ws < fst p \<and> fst p < we}"
    and "ws \<le> t" and "t < we"
  shows "hold (map_option snd opening) cs t = state_at ps t"
proof -
  let ?L = "(case opening of None \<Rightarrow> [] | Some p \<Rightarrow> [p]) @ cs"
  have L: "sorted_wrt (<) (map fst ?L)"
    using strict op cs by (auto simp: sorted_wrt_append split: option.split)
  have sub: "set ?L \<subseteq> set ps" using op cs by (auto split: option.splits)
  have cover: "\<exists>q \<in> set ?L. fst p \<le> fst q \<and> fst q \<le> t" if "p \<in> set ps" "fst p \<le> t" for p
  proof (cases "ws < fst p")
    case True
    with that assms(6) cs have "p \<in> set ?L" by auto
    with that show ?thesis by auto
  next
    case False
    with op that obtain q where "opening = Some q" "fst p \<le> fst q" "fst q \<le> ws"
      by (auto split: option.splits)
    with assms(5) show ?thesis by auto
  qed
  have same: "newest (set ?L) t a \<longleftrightarrow> newest (set ps) t a" for a
  proof (rule newest_covered [OF sub])
    show "inj_on fst (set ps)" using dist by (simp add: distinct_map)
    show "\<exists>q \<in> set ?L. fst p \<le> fst q \<and> fst q \<le> t" if "p \<in> set ps" "fst p \<le> t" for p
      using cover [OF that] .
  qed
  have "hold None ?L t = state_at ps t"
    by (rule option_eqI) (simp only: hold_newest [OF L] state_at_newest [OF dist] same)
  moreover have "hold None ?L t = hold (map_option snd opening) cs t"
    using op assms(5) by (auto split: option.split)
  ultimately show ?thesis by simp
qed

section \<open>The time held\<close>

lemma time_in_card: "time_in P rows a b = int (card {t. a \<le> t \<and> t < b \<and> holds_in P (state_at rows t)})"
proof -
  have "length (filter (\<lambda>t. holds_in P (state_at rows t)) [a..b - 1])
      = card (set (filter (\<lambda>t. holds_in P (state_at rows t)) [a..b - 1]))"
    by (rule distinct_card [symmetric]) simp
  also have "set (filter (\<lambda>t. holds_in P (state_at rows t)) [a..b - 1]) = {t. a \<le> t \<and> t < b \<and> holds_in P (state_at rows t)}"
    by auto
  finally show ?thesis by (simp add: time_in_def)
qed

lemma time_in_cong: "(\<And>t. state_at rows t = state_at rows' t) \<Longrightarrow> time_in P rows a b = time_in P rows' a b"
  by (simp add: time_in_def)

lemma held_cong: "(\<And>t. a \<le> t \<Longrightarrow> t < b \<Longrightarrow> holds_in P (hold s rows t) = holds_in P (hold s' rows' t)) \<Longrightarrow> held P s rows a b = held P s' rows' a b"
  unfolding held_def by (intro arg_cong [where f = int] arg_cong [where f = card]) auto

lemma held_Nil: "held P s [] a b = (if holds_in P s then max 0 (b - a) else 0)"
proof -
  have "{t. a \<le> t \<and> t < b} = {a..<b}" by auto
  then show ?thesis by (simp add: held_def)
qed

lemma held_split:
  assumes "a \<le> u" and "u \<le> b"
  shows "held P s rows a b = held P s rows a u + held P s rows u b"
proof -
  let ?S = "\<lambda>a b. {t. a \<le> t \<and> t < b \<and> holds_in P (hold s rows t)}"
  have fin: "finite (?S x y)" for x y by (rule finite_subset [of _ "{x..<y}"]) auto
  have "?S a b = ?S a u \<union> ?S u b" using assms by auto
  moreover have "?S a u \<inter> ?S u b = {}" by auto
  ultimately show ?thesis using card_Un_disjoint [OF fin fin, of a u u b] by (simp add: held_def)
qed

lemma held_Cons:
  assumes "a \<le> u" and "u \<le> b"
  shows "held P s ((u, x) # rows) a b = (if holds_in P s then u - a else 0) + held P (Some x) rows u b"
proof -
  have "held P s ((u, x) # rows) a u = held P s [] a u" by (rule held_cong) simp
  moreover have "held P s ((u, x) # rows) u b = held P (Some x) rows u b" by (rule held_cong) simp
  ultimately show ?thesis using held_split [OF assms, of P s "(u, x) # rows"] assms by (simp add: held_Nil)
qed

lemma held_skip: "u \<le> a \<Longrightarrow> held P s ((u, x) # rows) a b = held P (Some x) rows a b"
  by (rule held_cong) simp

lemma held_late: "b \<le> u \<Longrightarrow> held P s ((u, x) # rows) a b = held P s [] a b"
  by (rule held_cong) simp

lemma held_state_at: "sorted_wrt (<) (map fst rows) \<Longrightarrow> held P None rows a b = time_in P rows a b"
  by (simp add: held_def time_in_card state_at_sorted)

lemma time_in_bounds: "a \<le> b \<Longrightarrow> 0 \<le> time_in P rows a b \<and> time_in P rows a b \<le> b - a"
  using length_filter_le [of "\<lambda>t. holds_in P (state_at rows t)" "[a..b - 1]"] by (simp add: time_in_def)

lemma time_in_mono: "(\<And>s. P s \<Longrightarrow> Q s) \<Longrightarrow> time_in P rows a b \<le> time_in Q rows a b"
proof -
  assume imp: "\<And>s. P s \<Longrightarrow> Q s"
  have "{t. a \<le> t \<and> t < b \<and> holds_in P (state_at rows t)} \<subseteq> {t. a \<le> t \<and> t < b \<and> holds_in Q (state_at rows t)}"
    using imp by (auto simp: holds_in_def split: option.splits)
  moreover have "finite {t. a \<le> t \<and> t < b \<and> holds_in Q (state_at rows t)}" by (rule finite_subset [of _ "{a..<b}"]) auto
  ultimately show ?thesis by (simp add: time_in_card card_mono)
qed

section \<open>Shares\<close>

text \<open>A cell of the spreadsheet: a text, a number in hundredths or no value.\<close>

datatype cell = Shown string | Hundredths int | Not_available

text \<open>A quotient in hundredths, rounded half up; the operands are never negative.\<close>

definition hundredths :: "int \<Rightarrow> int \<Rightarrow> int" where
  "hundredths a b = (200 * a + b) div (2 * b)"

definition percent :: "duration \<Rightarrow> duration \<Rightarrow> int option" where
  "percent part whole = (if whole \<le> 0 then None else Some (hundredths (100 * part) whole))"

lemma hundredths_bound: "0 \<le> a \<Longrightarrow> a \<le> b \<Longrightarrow> 0 < b \<Longrightarrow> 0 \<le> hundredths (100 * a) b \<and> hundredths (100 * a) b \<le> 10000"
proof -
  assume a: "0 \<le> a" "a \<le> b" "0 < b"
  have "(20000 * a + b) div (2 * b) \<le> (20000 * b + b) div (2 * b)" using a by (intro zdiv_mono1) simp_all
  also have "\<dots> = 10000" using a(3) by (intro int_div_pos_eq [of _ _ _ b]) simp_all
  finally show ?thesis using a by (simp add: hundredths_def pos_imp_zdiv_nonneg_iff)
qed

section \<open>Rows of changes only\<close>

text \<open>The rows that differ from the one before.\<close>

fun changes_only :: "'a option \<Rightarrow> (instant \<times> 'a) list \<Rightarrow> (instant \<times> 'a) list" where
  "changes_only s [] = []"
| "changes_only s ((u, a) # rows) = (if s = Some a then changes_only s rows else (u, a) # changes_only (Some a) rows)"

lemma changes_only_sub: "set (changes_only s rows) \<subseteq> set rows"
  by (induction s rows rule: changes_only.induct) auto

lemma hold_changes_only: "sorted_wrt (<) (map fst rows) \<Longrightarrow> hold s (changes_only s rows) t = hold s rows t"
proof (induction s rows rule: changes_only.induct)
  case (2 s u a rows)
  show ?case
  proof (cases "t < u")
    case True
    with "2.prems" have all: "\<forall>v \<in> fst ` set rows. t < v" by auto
    moreover have "\<forall>v \<in> fst ` set (changes_only s rows). t < v" using all changes_only_sub [of s rows] by auto
    ultimately show ?thesis using True by (simp add: hold_early)
  next
    case False
    with 2 show ?thesis by auto
  qed
qed simp

lemma changes_only_sorted: "sorted_wrt (<) (map fst rows) \<Longrightarrow> sorted_wrt (<) (map fst (changes_only s rows))"
proof (induction s rows rule: changes_only.induct)
  case (2 s u a rows)
  then show ?case using changes_only_sub [of "Some a" rows] by (auto simp: sorted_wrt_map)
qed simp

lemma changes_only_snoc: "changes_only s (rows @ [(u, a)]) =
    changes_only s rows @ (if (if rows = [] then s else Some (snd (last rows))) = Some a then [] else [(u, a)])"
  by (induction s rows rule: changes_only.induct) auto

lemma changes_only_last: "rows \<noteq> [] \<Longrightarrow>
    (if changes_only s rows = [] then s else Some (snd (last (changes_only s rows)))) = Some (snd (last rows))"
proof (induction s rows rule: changes_only.induct)
  case (2 s u a rows)
  show ?case
  proof (cases "rows = []")
    case False
    with 2 have "(if changes_only (Some a) rows = [] then Some a else Some (snd (last (changes_only (Some a) rows)))) =
      Some (snd (last rows))" by (cases "s = Some a") (auto split: if_splits)
    with False show ?thesis by (auto split: if_splits)
  qed simp
qed simp

lemma newest_is_last:
  fixes rows :: "(instant \<times> 'a) list"
  assumes "sorted_wrt (<) (map fst rows)" and "p \<in> set rows" and "\<And>q. q \<in> set rows \<Longrightarrow> fst q \<le> fst p"
  shows "p = last rows"
  using assms
proof (induction rows rule: rev_induct)
  case (snoc x rows)
  show ?case
  proof (cases "p = x")
    case False
    with snoc.prems have "p \<in> set rows" by simp
    with snoc.prems(1) have "fst p < fst x" by (auto simp: sorted_wrt_append)
    with snoc.prems(3) [of x] have False by simp
    then show ?thesis ..
  qed simp
qed simp

end
