(* ===== verification/Availability.thy ===== *)
theory Availability
  imports StepTimes MongoQueries Calendar
begin

text \<open>
  The log of when publications start and stop being available, \<^verbatim>\<open>sheets/availability_history.py\<close>, and the
  metrics that are read from it, \<^verbatim>\<open>sheets/formulas/availability_metrics.py\<close>. Against both stands the state
  that the observations themselves give at every instant.
\<close>

section \<open>The log\<close>

text \<open>
  A series of an observed publication: one of its variations, or the publication itself. The stored rows
  are the changes of its availability.
\<close>

record series_seen =
  ss_variation :: "string option"
  ss_sku :: "string option"
  ss_quantity :: int

record item_seen =
  is_seller :: string
  is_item :: string
  is_status :: string
  is_series :: "series_seen list"
  is_at :: instant

record availability_row =
  tr_seller :: string
  tr_item :: string
  tr_variation :: "string option"
  tr_sku :: "string option"
  tr_available :: bool
  tr_status :: string
  tr_quantity :: int
  tr_at :: instant

type_synonym series_id = "string \<times> string \<times> string option"

definition series_key :: "availability_row \<Rightarrow> series_id" where
  "series_key d = (tr_seller d, tr_item d, tr_variation d)"

definition row_id :: "availability_row \<Rightarrow> string" where
  "row_id d = tr_seller d @ '':'' @ tr_item d @ '':'' @ or_str (tr_variation d) ''-'' @ '':'' @ isoformat (tr_at d)"

definition new_row :: "item_seen \<Rightarrow> series_seen \<Rightarrow> availability_row" where
  "new_row v s = \<lparr>tr_seller = is_seller v, tr_item = is_item v, tr_variation = ss_variation s, tr_sku = ss_sku s,
     tr_available = (is_status v = ''active'' \<and> 0 < ss_quantity s), tr_status = is_status v, tr_quantity = ss_quantity s,
     tr_at = utc_ms (is_at v)\<rparr>"

text \<open>One series: the latest row decides whether the new one says anything new.\<close>

definition latest_row :: "availability_row mongo_q \<Rightarrow> series_id \<Rightarrow> availability_row coll \<Rightarrow> availability_row option" where
  "latest_row Q k c = Option.bind (mq_first Q c (\<lambda>d. series_key d = k) (\<lambda>d. [- tr_at d])) c"

definition record_series :: "availability_row mongo_q \<Rightarrow> item_seen \<Rightarrow> series_seen \<Rightarrow> nat \<times> availability_row coll \<Rightarrow> nat \<times> availability_row coll" where
  "record_series Q v s nc = (case nc of (n, c) \<Rightarrow>
    (let row = new_row v s in
     if (case latest_row Q (series_key row) c of
           None \<Rightarrow> False
         | Some d \<Rightarrow> tr_at row \<le> utc_ms (tr_at d) \<or> tr_available d = tr_available row)
     then (n, c)
     else (case insert_one (mq_base Q) c (row_id row) row of
             Inl _ \<Rightarrow> (n, c) | Inr c' \<Rightarrow> (n + 1, c'))))"

definition record_availability_observation :: "availability_row mongo_q \<Rightarrow> item_seen \<Rightarrow> availability_row coll \<Rightarrow> nat \<times> availability_row coll" where
  "record_availability_observation Q v c =
    (if is_item v = [] \<or> is_status v = [] then (0, c) else fold (record_series Q v) (is_series v) (0, c))"

definition record_all :: "availability_row mongo_q \<Rightarrow> item_seen list \<Rightarrow> availability_row coll \<Rightarrow> availability_row coll" where
  "record_all Q vs c = fold (\<lambda>v c. snd (record_availability_observation Q v c)) vs c"

section \<open>What the rows say\<close>

text \<open>
  A series as its rows are streamed: the first observation, the newest SKU, the state at the window's
  start and the rows inside the window.
\<close>

record series_history =
  sh_first :: "instant option"
  sh_opening :: "(instant \<times> bool) option"
  sh_changes :: "(instant \<times> bool) list"
  sh_sku :: "string option"
  sh_sku_at :: "instant option"

definition no_history :: series_history where
  "no_history = \<lparr>sh_first = None, sh_opening = None, sh_changes = [], sh_sku = None, sh_sku_at = None\<rparr>"

definition see_first :: "instant \<Rightarrow> series_history \<Rightarrow> series_history" where
  "see_first t h = (if (case sh_first h of None \<Rightarrow> True | Some u \<Rightarrow> t < u) then h\<lparr>sh_first := Some t\<rparr> else h)"

definition see_sku :: "instant \<Rightarrow> string option \<Rightarrow> series_history \<Rightarrow> series_history" where
  "see_sku t sku h = (if (case sh_sku_at h of None \<Rightarrow> True | Some u \<Rightarrow> u \<le> t) then h\<lparr>sh_sku := sku, sh_sku_at := Some t\<rparr> else h)"

definition see_state :: "instant \<Rightarrow> instant \<Rightarrow> instant \<Rightarrow> bool \<Rightarrow> series_history \<Rightarrow> series_history" where
  "see_state window_start window_end t available h =
    (if t \<le> window_start
     then (if (case sh_opening h of None \<Rightarrow> True | Some (u, _) \<Rightarrow> u < t) then h\<lparr>sh_opening := Some (t, available)\<rparr> else h)
     else if t < window_end then h\<lparr>sh_changes := sh_changes h @ [(t, available)]\<rparr>
     else h)"

definition observe :: "instant \<Rightarrow> instant \<Rightarrow> availability_row \<Rightarrow> series_history \<Rightarrow> series_history" where
  "observe window_start window_end d h =
    see_state window_start window_end (tr_at d) (tr_available d) (see_sku (tr_at d) (tr_sku d) (see_first (tr_at d) h))"

fun available_loop :: "instant \<Rightarrow> instant \<Rightarrow> (instant \<times> bool) list \<Rightarrow> bool \<Rightarrow> instant \<Rightarrow> duration \<Rightarrow> duration" where
  "available_loop start end [] state cursor so_far = so_far + (if state \<and> cursor < end then end - cursor else 0)"
| "available_loop start end ((t, available) # rows) state cursor so_far =
    (if end \<le> t then so_far + (if state \<and> cursor < end then end - cursor else 0)
     else if start < t then available_loop start end rows available t (if state then so_far + (t - cursor) else so_far)
     else available_loop start end rows available cursor so_far)"

text \<open>Python's \<^verbatim>\<open>sorted\<close> of pairs compares the instants first, then the states.\<close>

definition available_time :: "series_history \<Rightarrow> instant \<Rightarrow> instant \<Rightarrow> duration option" where
  "available_time h start end =
    (if (case sh_first h of None \<Rightarrow> True | Some t \<Rightarrow> start < t) then None
     else Some (available_loop start end (sort (sh_changes h)) (case sh_opening h of Some (_, a) \<Rightarrow> a | None \<Rightarrow> False) start 0))"

fun state_loop :: "instant \<Rightarrow> (instant \<times> bool) list \<Rightarrow> bool option \<Rightarrow> bool option" where
  "state_loop instant [] state = state"
| "state_loop instant ((t, available) # rows) state =
    (if instant \<le> t then state else state_loop instant rows (Some available))"

definition state_before :: "series_history \<Rightarrow> instant \<Rightarrow> bool option" where
  "state_before h instant = state_loop instant (sort (sh_changes h))
     (case sh_opening h of Some (t, a) \<Rightarrow> if t < instant then Some a else None | None \<Rightarrow> None)"

text \<open>The histories of a stream of rows by series.\<close>

definition load_histories ::
  "instant \<Rightarrow> instant \<Rightarrow> availability_row list \<Rightarrow> (string \<times> string option \<rightharpoonup> series_history)" where
  "load_histories window_start window_end rows = fold (\<lambda>d hs.
     hs((tr_item d, tr_variation d) \<mapsto> observe window_start window_end d
       (case hs (tr_item d, tr_variation d) of None \<Rightarrow> no_history | Some h \<Rightarrow> h))) rows Map.empty"

section \<open>The cells\<close>

text \<open>
  A range of local days as instants. Numbers are shown in hundredths, rounded half up (the operands are
  never negative). The time zone is an argument: \<open>shown\<close> is the local text of an instant, \<open>midnight\<close> the
  instant at which a day begins.
\<close>

record availability_window =
  aw_start :: instant
  aw_range_end :: instant
  aw_now :: instant

definition window_end :: "availability_window \<Rightarrow> instant" where
  "window_end w = max (aw_start w) (min (aw_range_end w) (aw_now w))"

definition hours_shown :: "duration \<Rightarrow> int" where
  "hours_shown us = hundredths us 3600000000"

definition no_history_text :: string where
  "no_history_text = ''Sin hist'' @ CHR 0xF3 # ''rico''"

definition coverage_message :: "(instant \<Rightarrow> string) \<Rightarrow> series_history option \<Rightarrow> string" where
  "coverage_message shown h = (case Option.bind h sh_first of
     None \<Rightarrow> no_history_text | Some t \<Rightarrow> no_history_text @ '' antes de '' @ shown t)"

definition active_time_cells :: "(instant \<Rightarrow> string) \<Rightarrow> series_history option \<Rightarrow> availability_window \<Rightarrow> cell list" where
  "active_time_cells shown h w = (case Option.bind h (\<lambda>h. available_time h (aw_start w) (window_end w)) of
     None \<Rightarrow> [Shown (coverage_message shown h), Not_available, Not_available]
   | Some us \<Rightarrow> (let whole = window_end w - aw_start w in
       [Hundredths (hours_shown us), Hundredths (hours_shown whole),
        case percent us whole of None \<Rightarrow> Not_available | Some p \<Rightarrow> Hundredths p]))"

text \<open>Days are counted from the epoch, which began on a Thursday; weeks begin on Monday.\<close>

definition isoweekday :: "int \<Rightarrow> int" where
  "isoweekday day = (day + 3) mod 7 + 1"

definition iso_weeks :: "int \<Rightarrow> int \<Rightarrow> int list" where
  "iso_weeks first_day last_day = (let monday = first_day - (isoweekday first_day - 1) in
     map (\<lambda>n. monday + 7 * int n) [0..<nat ((last_day - monday) div 7 + 1)])"

definition week_window_start :: "(int \<Rightarrow> instant) \<Rightarrow> availability_window \<Rightarrow> int list \<Rightarrow> instant" where
  "week_window_start midnight w weeks = (case weeks of [] \<Rightarrow> aw_start w | d # _ \<Rightarrow> min (aw_start w) (midnight d))"

definition week_cell ::
  "(instant \<Rightarrow> string) \<Rightarrow> (int \<Rightarrow> instant) \<Rightarrow> series_history option \<Rightarrow> int \<Rightarrow> availability_window \<Rightarrow> cell" where
  "week_cell shown midnight h week w =
    (if aw_now w \<le> midnight week then Not_available
     else (case Option.bind h (\<lambda>h. state_before h (min (midnight (week + 7)) (min (aw_range_end w) (aw_now w)))) of
             None \<Rightarrow> Shown (coverage_message shown h)
           | Some a \<Rightarrow> Shown (if a then ''Con stock'' else ''Sin stock'')))"

section \<open>Reading is exact\<close>

definition points :: "availability_row list \<Rightarrow> (instant \<times> bool) list" where
  "points rows = map (\<lambda>d. (tr_at d, tr_available d)) rows"

lemma points_simps [simp]:
  "points [] = []" "points (d # rows) = (tr_at d, tr_available d) # points rows" "points (xs @ ys) = points xs @ points ys"
  by (simp_all add: points_def)

lemma see_sel [simp]:
  "sh_changes (see_first t h) = sh_changes h" "sh_opening (see_first t h) = sh_opening h"
  "sh_changes (see_sku t k h) = sh_changes h" "sh_opening (see_sku t k h) = sh_opening h" "sh_first (see_sku t k h) = sh_first h"
  "sh_first (see_state ws we t a h) = sh_first h"
  by (auto simp: see_first_def see_sku_def see_state_def split: option.split)

lemma observe_sel:
  "sh_changes (observe ws we d h) = sh_changes h @ (if ws < tr_at d \<and> tr_at d < we then [(tr_at d, tr_available d)] else [])"
  "sh_opening (observe ws we d h) =
    (if tr_at d \<le> ws \<and> (case sh_opening h of None \<Rightarrow> True | Some (u, _) \<Rightarrow> u < tr_at d)
     then Some (tr_at d, tr_available d) else sh_opening h)"
  "sh_first (observe ws we d h) =
    (case sh_first h of None \<Rightarrow> Some (tr_at d) | Some u \<Rightarrow> Some (min u (tr_at d)))"
  by (auto simp: observe_def see_state_def see_first_def min_def split: option.splits)

lemma observed_changes:
  "sh_changes (fold (observe ws we) rows h) = sh_changes h @ filter (\<lambda>p. ws < fst p \<and> fst p < we) (points rows)"
  by (induction rows arbitrary: h) (auto simp: observe_sel)

lemma observed_first:
  "sh_first (fold (observe ws we) (rows @ [d]) no_history) =
    Some (case sh_first (fold (observe ws we) rows no_history) of None \<Rightarrow> tr_at d | Some u \<Rightarrow> min u (tr_at d))"
  by (simp add: observe_sel split: option.split)

lemma observed_first_None:
  "(case sh_first (fold (observe ws we) rows no_history) of None \<Rightarrow> True | Some u \<Rightarrow> t < u) \<longleftrightarrow>
    (\<forall>u \<in> fst ` set (points rows). t < u)"
proof (induction rows rule: rev_induct)
  case (snoc d rows)
  then show ?case by (auto simp del: fold_append simp: observed_first split: option.splits)
qed (simp add: no_history_def)

text \<open>The opening is the newest row at or before the window's start.\<close>

lemma observed_opening:
  assumes "distinct (map fst (points rows))"
  shows "case sh_opening (fold (observe ws we) rows no_history) of
      None \<Rightarrow> \<forall>p \<in> set (points rows). ws < fst p
    | Some p \<Rightarrow> p \<in> set (points rows) \<and> fst p \<le> ws \<and> (\<forall>q \<in> set (points rows). fst q \<le> ws \<longrightarrow> fst q \<le> fst p)"
  using assms
proof (induction rows rule: rev_induct)
  case (snoc d rows)
  then have "distinct (map fst (points rows))" by simp
  from snoc.IH [OF this] show ?case
    by (force simp: observe_sel split: option.splits prod.splits if_splits)
qed (simp add: no_history_def)

lemma sort_pairs_fst: "sorted (map fst (sort (ps :: (instant \<times> bool) list)))"
proof -
  have "sorted_wrt (\<lambda>p q. fst p \<le> fst q) (sort ps)"
    using sorted_sort [of ps] by (rule sorted_wrt_mono_rel [rotated]) (auto simp: less_eq_prod_def)
  then show ?thesis by (simp add: sorted_wrt_map)
qed

lemma sort_pairs_strict: "distinct (map fst ps) \<Longrightarrow> sorted_wrt (<) (map fst (sort (ps :: (instant \<times> bool) list)))"
proof -
  assume d: "distinct (map fst ps)"
  have "distinct (sort ps)" "inj_on fst (set (sort ps))" using d by (simp_all add: distinct_map)
  then have "distinct (map fst (sort ps))" by (simp only: distinct_map simp_thms)
  with sort_pairs_fst [of ps] show ?thesis by (simp add: strict_sorted_iff)
qed

lemma available_loop_held:
  assumes "sorted (map fst rows)" and "start \<le> cursor" and "cursor \<le> end"
    and "cursor = start \<or> (\<forall>u \<in> fst ` set rows. cursor \<le> u)"
  shows "available_loop start end rows state cursor so_far = so_far + held id (Some state) rows cursor end"
  using assms
proof (induction start "end" rows state cursor so_far rule: available_loop.induct)
  case (1 start "end" state cursor so_far)
  then show ?case by (simp add: held_Nil)
next
  case (2 start "end" t a rows state cursor so_far)
  consider (late) "end \<le> t" | (inside) "t < end" "start < t" | (early) "t < end" "t \<le> start" by linarith
  then show ?case
  proof cases
    case late
    with 2 show ?thesis by (simp add: held_late held_Nil)
  next
    case inside
    with "2.prems" have "cursor \<le> t" "\<forall>u \<in> fst ` set rows. t \<le> u" by auto
    with inside 2 show ?thesis by (simp add: held_Cons)
  next
    case early
    with "2.prems" have "cursor = start" by auto
    with early 2 show ?thesis by (simp add: held_skip)
  qed
qed

lemma state_loop_hold: "state_loop i rows s = hold s rows (i - 1)"
  by (induction i rows s rule: state_loop.induct) auto

text \<open>The opening and the changes say what all rows say, inside the window.\<close>

definition opening_state :: "series_history \<Rightarrow> bool option" where
  "opening_state h = map_option snd (sh_opening h)"

lemma history_hold:
  assumes dist: "distinct (map fst (points rows))" and h: "h = fold (observe ws we) rows no_history"
    and "ws \<le> t" and "t < we"
  shows "hold (opening_state h) (sort (sh_changes h)) t = state_at (points rows) t"
proof -
  have "distinct (map fst (sh_changes h))"
    using dist by (simp add: h observed_changes no_history_def distinct_map_filter)
  moreover have "set (sort (sh_changes h)) = {p \<in> set (points rows). ws < fst p \<and> fst p < we}"
    by (auto simp: h observed_changes no_history_def)
  ultimately show ?thesis
    using hold_window [OF dist, of ws "sh_opening h" "sort (sh_changes h)" we t] observed_opening [OF dist, of ws we]
      sort_pairs_strict [of "sh_changes h"] assms by (simp add: opening_state_def)
qed

lemma holds_in_opening: "holds_in id (hold (Some (case s of Some a \<Rightarrow> a | None \<Rightarrow> False)) rows t) = holds_in id (hold s rows t)"
  by (cases rows) (auto split: option.split)

lemma available_time_exact:
  assumes dist: "distinct (map fst (points rows))" and "ws \<le> start" and "start \<le> end" and "end \<le> we"
  shows "available_time (fold (observe ws we) rows no_history) start end =
    (if state_at (points rows) start = None then None else Some (time_in id (points rows) start end))"
proof -
  let ?h = "fold (observe ws we) rows no_history" and ?ps = "points rows"
  have "available_loop start end (sort (sh_changes ?h)) (case sh_opening ?h of Some (_, a) \<Rightarrow> a | None \<Rightarrow> False) start 0
      = held id (Some (case opening_state ?h of Some a \<Rightarrow> a | None \<Rightarrow> False)) (sort (sh_changes ?h)) start end"
    using available_loop_held [OF sort_pairs_fst order_refl assms(3) disjI1 [OF refl]]
    by (simp add: opening_state_def split: option.split)
  also have "\<dots> = held id (opening_state ?h) (sort (sh_changes ?h)) start end"
    by (rule held_cong) (rule holds_in_opening)
  also have "\<dots> = time_in id ?ps start end"
    unfolding held_def time_in_card using history_hold [OF dist refl, of ws _ we] assms(2,4)
    by (intro arg_cong [where f = int] arg_cong [where f = card] Collect_cong) auto
  finally have loop: "available_loop start end (sort (sh_changes ?h)) (case sh_opening ?h of Some (_, a) \<Rightarrow> a | None \<Rightarrow> False) start 0
      = time_in id ?ps start end" .
  have none: "(case sh_first ?h of None \<Rightarrow> True | Some u \<Rightarrow> start < u) \<longleftrightarrow> state_at ?ps start = None"
    unfolding observed_first_None state_at_None ..
  show ?thesis unfolding available_time_def none loop ..
qed

lemma state_before_exact:
  assumes dist: "distinct (map fst (points rows))" and "ws < i" and "i \<le> we"
  shows "state_before (fold (observe ws we) rows no_history) i = state_at (points rows) (i - 1)"
proof -
  let ?h = "fold (observe ws we) rows no_history"
  have "(case sh_opening ?h of Some (t, a) \<Rightarrow> if t < i then Some a else None | None \<Rightarrow> None) = opening_state ?h"
    using observed_opening [OF dist, of ws we] assms(2) by (auto simp: opening_state_def split: option.splits)
  then show ?thesis
    using history_hold [OF dist refl, of ws "i - 1" we] assms(2,3) by (simp add: state_before_def state_loop_hold)
qed

lemma load_histories_eq:
  "load_histories ws we rows k = (let own = filter (\<lambda>d. (tr_item d, tr_variation d) = k) rows in
     if own = [] then None else Some (fold (observe ws we) own no_history))"
proof (induction rows rule: rev_induct)
  case (snoc d rows)
  have "load_histories ws we (rows @ [d]) = (load_histories ws we rows)((tr_item d, tr_variation d) \<mapsto> observe ws we d
      (case load_histories ws we rows (tr_item d, tr_variation d) of None \<Rightarrow> no_history | Some h \<Rightarrow> h))"
    by (simp add: load_histories_def)
  with snoc.IH show ?case by (cases "(tr_item d, tr_variation d) = k") (auto simp: Let_def)
qed (simp add: load_histories_def)

section \<open>Writing loses nothing\<close>

text \<open>A key whose rows have identifiers of their own.\<close>

definition plain_key :: "series_id \<Rightarrow> bool" where
  "plain_key k = (case k of (seller, item, variation) \<Rightarrow>
     list_all (\<lambda>c. c \<noteq> CHR '':'') seller \<and> list_all (\<lambda>c. c \<noteq> CHR '':'') item \<and>
     (case variation of None \<Rightarrow> True | Some v \<Rightarrow> list_all (\<lambda>c. c \<noteq> CHR '':'') v \<and> v \<noteq> [] \<and> v \<noteq> ''-''))"

lemma row_id_inject:
  assumes "plain_key (series_key d)" and "plain_key (series_key e)" and "row_id d = row_id e"
    and "in_date_range (tr_at d)" and "in_date_range (tr_at e)"
  shows "series_key d = series_key e \<and> tr_at d = tr_at e"
proof -
  let ?v = "\<lambda>d. or_str (tr_variation d) ''-''"
  have plain: "CHR '':'' \<notin> set (tr_seller x)" "CHR '':'' \<notin> set (tr_item x)" "CHR '':'' \<notin> set (?v x)"
    if "plain_key (series_key x)" for x
    using that by (auto simp: plain_key_def series_key_def or_str_def list_all_iff split: option.splits if_splits)
  note d = plain [OF assms(1)] and e = plain [OF assms(2)]
  from assms(3) have eq: "tr_seller d @ CHR '':'' # tr_item d @ CHR '':'' # ?v d @ CHR '':'' # isoformat (tr_at d) =
    tr_seller e @ CHR '':'' # tr_item e @ CHR '':'' # ?v e @ CHR '':'' # isoformat (tr_at e)" by (simp add: row_id_def)
  note 1 = sep_split_first [OF eq d(1) e(1)]
  note 2 = sep_split_first [OF conjunct2 [OF 1] d(2) e(2)]
  note 3 = sep_split_first [OF conjunct2 [OF 2] d(3) e(3)]
  have "tr_variation d = tr_variation e"
    using conjunct1 [OF 3] assms(1,2) by (auto simp: plain_key_def series_key_def or_str_def split: option.splits if_splits)
  with 1 2 isoformat_inject [OF conjunct2 [OF 3] assms(4,5)] show ?thesis by (simp add: series_key_def)
qed

text \<open>What the observations say of a series.\<close>

definition seen_of :: "series_id \<Rightarrow> item_seen \<Rightarrow> series_seen list \<Rightarrow> (instant \<times> bool) list" where
  "seen_of k v ss = map (\<lambda>s. (utc_ms (is_at v), is_status v = ''active'' \<and> 0 < ss_quantity s))
     (filter (\<lambda>s. (is_seller v, is_item v, ss_variation s) = k) ss)"

definition seen :: "series_id \<Rightarrow> item_seen list \<Rightarrow> (instant \<times> bool) list" where
  "seen k vs = concat (map (\<lambda>v. if is_item v = [] \<or> is_status v = [] then [] else seen_of k v (is_series v)) vs)"

text \<open>The rows of a series in the collection, and the invariant that they are the changes of what was seen.\<close>

definition rows_of :: "series_id \<Rightarrow> availability_row coll \<Rightarrow> availability_row set" where
  "rows_of k c = {d \<in> ran c. series_key d = k}"

definition log_ok :: "availability_row coll \<Rightarrow> bool" where
  "log_ok c \<longleftrightarrow> finite (dom c) \<and>
     (\<forall>i d. c i = Some d \<longrightarrow> i = row_id d \<and> plain_key (series_key d) \<and> in_date_range (tr_at d) \<and> utc_ms (tr_at d) = tr_at d)"

definition log_of :: "series_id \<Rightarrow> (instant \<times> bool) list \<Rightarrow> availability_row coll \<Rightarrow> bool" where
  "log_of k xs c \<longleftrightarrow> (\<lambda>d. (tr_at d, tr_available d)) ` rows_of k c = set (changes_only None xs)"

locale availability_log = mongo_queries Q for Q :: "availability_row mongo_q"
begin

lemma latest_row_None: "log_ok c \<Longrightarrow> latest_row Q k c = None \<Longrightarrow> rows_of k c = {}"
proof -
  assume ok: "log_ok c" and none: "latest_row Q k c = None"
  then have fin: "finite (dom c)" by (simp add: log_ok_def)
  show "rows_of k c = {}"
  proof (cases "mq_first Q c (\<lambda>d. series_key d = k) (\<lambda>d. [- tr_at d])")
    case None
    have "d \<notin> rows_of k c" for d
    proof
      assume "d \<in> rows_of k c"
      then obtain i where "c i = Some d" "series_key d = k" by (auto simp: rows_of_def ran_def)
      then have "i \<in> matching c (\<lambda>d. series_key d = k)" by simp
      with first_None [OF fin None] show False by simp
    qed
    then show ?thesis by blast
  next
    case (Some i)
    from first_Some [OF fin Some] none Some show ?thesis by (auto simp: latest_row_def matches_def)
  qed
qed

lemma latest_row_Some:
  assumes "log_ok c" and "latest_row Q k c = Some d"
  shows "d \<in> rows_of k c \<and> (\<forall>e \<in> rows_of k c. tr_at e \<le> tr_at d)"
proof -
  from assms have fin: "finite (dom c)" by (simp add: log_ok_def)
  from assms(2) obtain i where i: "mq_first Q c (\<lambda>d. series_key d = k) (\<lambda>d. [- tr_at d]) = Some i" "c i = Some d"
    by (auto simp: latest_row_def bind_eq_Some_conv)
  note f = first_Some [OF fin i(1)]
  have "tr_at e \<le> tr_at d" if "e \<in> rows_of k c" for e
  proof -
    from that obtain j where j: "c j = Some e" "series_key e = k" by (auto simp: rows_of_def ran_def)
    then have "j \<in> matching c (\<lambda>d. series_key d = k)" by simp
    with f have "([- tr_at (the (c i))], i) \<le> ([- tr_at (the (c j))], j)" by blast
    with i(2) j(1) show ?thesis by (auto simp: less_eq_prod_def)
  qed
  moreover from f i(2) have "d \<in> rows_of k c" by (auto simp: rows_of_def ran_def matches_def)
  ultimately show ?thesis by blast
qed

lemma record_series_eq:
  "record_series Q v s (n, c) =
    (if (case latest_row Q (series_key (new_row v s)) c of None \<Rightarrow> False
         | Some d \<Rightarrow> tr_at (new_row v s) \<le> utc_ms (tr_at d) \<or> tr_available d = tr_available (new_row v s)) \<or>
        c (row_id (new_row v s)) \<noteq> None
     then (n, c) else (n + 1, c(row_id (new_row v s) \<mapsto> new_row v s)))"
  by (simp add: record_series_def Let_def base.insert_one_law)

lemma rows_of_insert:
  "c i = None \<Longrightarrow> rows_of k (c(i \<mapsto> d)) = (if series_key d = k then insert d (rows_of k c) else rows_of k c)"
  by (auto simp: rows_of_def)

lemma record_series_ok:
  assumes "log_ok c" and "plain_key (series_key (new_row v s))" and "in_date_range (utc_ms (is_at v))"
  shows "log_ok (snd (record_series Q v s (n, c)))"
  using assms by (auto simp: record_series_eq log_ok_def new_row_def)

lemma record_series_logged:
  assumes ok: "log_ok c" and plain: "plain_key (series_key (new_row v s))" and range: "in_date_range (utc_ms (is_at v))"
    and log: "log_of k xs c" and strict: "sorted_wrt (<) (map fst xs)"
    and newer: "series_key (new_row v s) = k \<Longrightarrow> \<forall>u \<in> fst ` set xs. u < utc_ms (is_at v)"
  shows "log_of k (xs @ (if series_key (new_row v s) = k then [(tr_at (new_row v s), tr_available (new_row v s))] else []))
    (snd (record_series Q v s (n, c)))"
proof (cases "series_key (new_row v s) = k")
  case False
  with log show ?thesis by (auto simp: record_series_eq log_of_def rows_of_insert)
next
  case True
  let ?r = "new_row v s" and ?L = "changes_only None xs"
  have at: "tr_at ?r = utc_ms (is_at v)" by (simp add: new_row_def)
  note rows = log [unfolded log_of_def]
  have older: "tr_at d < tr_at ?r" if "d \<in> rows_of k c" for d
  proof -
    from that rows have "(tr_at d, tr_available d) \<in> set xs" using changes_only_sub [of None xs] by blast
    with newer [OF True] at show ?thesis by force
  qed
  have fresh: "c (row_id ?r) = None"
  proof (rule ccontr)
    assume "c (row_id ?r) \<noteq> None"
    then obtain d where d: "c (row_id ?r) = Some d" by blast
    with ok have "row_id d = row_id ?r" "plain_key (series_key d)" "in_date_range (tr_at d)" by (auto simp: log_ok_def)
    with row_id_inject [of d ?r] plain range at have "series_key d = k" "tr_at d = tr_at ?r" by (simp_all add: True)
    with d have "d \<in> rows_of k c" by (auto simp: rows_of_def ran_def)
    with older \<open>tr_at d = tr_at ?r\<close> show False by fastforce
  qed
  show ?thesis
  proof (cases "latest_row Q k c")
    case None
    from latest_row_None [OF ok None] rows have "?L = []" by simp
    then have "xs = []" by (cases xs) auto
    with None fresh True latest_row_None [OF ok None] show ?thesis
      by (simp add: record_series_eq log_of_def rows_of_insert)
  next
    case (Some d)
    from latest_row_Some [OF ok Some] have d: "d \<in> rows_of k c" "\<And>e. e \<in> rows_of k c \<Longrightarrow> tr_at e \<le> tr_at d" by blast+
    from ok d(1) have ms: "utc_ms (tr_at d) = tr_at d" by (auto simp: rows_of_def ran_def log_ok_def)
    have "(tr_at d, tr_available d) \<in> set ?L" using d(1) rows by blast
    moreover have "fst q \<le> tr_at d" if "q \<in> set ?L" for q using that d(2) unfolding rows [symmetric] by auto
    ultimately have last: "(tr_at d, tr_available d) = last ?L" "?L \<noteq> []"
      using newest_is_last [OF changes_only_sorted [OF strict], of "(tr_at d, tr_available d)" None] by auto
    then have ne: "xs \<noteq> []" by auto
    from changes_only_last [OF ne, of None] last have "snd (last xs) = tr_available d" by (metis option.inject snd_conv)
    then have snoc: "changes_only None (xs @ [(tr_at ?r, tr_available ?r)]) =
      ?L @ (if tr_available d = tr_available ?r then [] else [(tr_at ?r, tr_available ?r)])"
      using ne by (simp add: changes_only_snoc)
    show ?thesis
      using True Some fresh older [OF d(1)] ms rows unfolding log_of_def
      by (auto simp: record_series_eq rows_of_insert snoc)
  qed
qed

lemma fold_series_logged:
  assumes "log_ok c" and "list_all (\<lambda>s. plain_key (series_key (new_row v s))) ss" and "in_date_range (utc_ms (is_at v))"
    and "log_of k xs c" and "sorted_wrt (<) (map fst (xs @ seen_of k v ss))"
  shows "log_ok (snd (fold (record_series Q v) ss (n, c))) \<and>
    log_of k (xs @ seen_of k v ss) (snd (fold (record_series Q v) ss (n, c)))"
  using assms
proof (induction ss arbitrary: n c xs)
  case (Cons s ss)
  let ?own = "if series_key (new_row v s) = k then [(tr_at (new_row v s), tr_available (new_row v s))] else []"
  obtain n' c' where step: "record_series Q v s (n, c) = (n', c')" by fastforce
  have split: "seen_of k v (s # ss) = ?own @ seen_of k v ss" by (simp add: seen_of_def series_key_def new_row_def)
  from Cons.prems(2) have plain: "plain_key (series_key (new_row v s))" by simp
  from Cons.prems(5) have sorted: "sorted_wrt (<) (map fst xs)"
    and newer: "series_key (new_row v s) = k \<Longrightarrow> \<forall>u \<in> fst ` set xs. u < utc_ms (is_at v)"
    by (auto simp: split sorted_wrt_append new_row_def)
  from record_series_ok [OF Cons.prems(1) plain Cons.prems(3), of n] step have ok: "log_ok c'" by simp
  from record_series_logged [OF Cons.prems(1) plain Cons.prems(3,4) sorted newer, of n] step
  have log: "log_of k (xs @ ?own) c'" by simp
  from Cons.IH [OF ok _ Cons.prems(3) log, of n'] Cons.prems(2,5) show ?case by (simp add: split step)
qed (simp add: seen_of_def)

lemma record_all_logged:
  assumes "log_ok c" and "log_of k xs c" and "sorted_wrt (<) (map fst (xs @ seen k vs))"
    and "list_all (\<lambda>v. in_date_range (utc_ms (is_at v)) \<and> list_all (\<lambda>s. plain_key (series_key (new_row v s))) (is_series v)) vs"
  shows "log_ok (record_all Q vs c) \<and> log_of k (xs @ seen k vs) (record_all Q vs c)"
  using assms
proof (induction vs arbitrary: c xs)
  case (Cons v vs)
  let ?own = "if is_item v = [] \<or> is_status v = [] then [] else seen_of k v (is_series v)"
  let ?c = "snd (record_availability_observation Q v c)"
  have split: "seen k (v # vs) = ?own @ seen k vs" by (simp add: seen_def)
  from Cons.prems(3) have "sorted_wrt (<) (map fst (xs @ ?own))" by (auto simp: split sorted_wrt_append)
  with Cons.prems fold_series_logged [OF Cons.prems(1) _ _ Cons.prems(2), of v "is_series v" 0]
  have "log_ok ?c \<and> log_of k (xs @ ?own) ?c" by (auto simp: record_availability_observation_def)
  with Cons.IH [of ?c "xs @ ?own"] Cons.prems(3,4) show ?case by (simp add: record_all_def split)
qed (simp add: record_all_def seen_def)

lemma record_all_finite: "finite (dom c) \<Longrightarrow> finite (dom (record_all Q vs c))"
proof (induction vs arbitrary: c)
  case (Cons v vs)
  have "finite (dom (snd (fold (record_series Q v) ss (n, c))))" if "finite (dom c)" for ss n c
    using that
  proof (induction ss arbitrary: n c)
    case (Cons s ss)
    obtain n' c' where step: "record_series Q v s (n, c) = (n', c')" by fastforce
    with Cons.prems have "finite (dom c')" by (auto simp: record_series_eq split: if_splits)
    with Cons.IH step show ?case by simp
  qed simp
  with Cons.prems have "finite (dom (snd (record_availability_observation Q v c)))"
    by (simp add: record_availability_observation_def)
  with Cons.IH show ?case by (simp add: record_all_def)
qed (simp add: record_all_def)

end

interpretation mem_log: availability_log mem_queries
  by (simp add: availability_log_def mem_q.mongo_queries_axioms)

lemma log_ok_empty: "log_ok Map.empty" and log_of_empty: "log_of k [] Map.empty"
  by (simp_all add: log_ok_def log_of_def rows_of_def)

lemma same_row:
  assumes "log_ok c" and "d \<in> rows_of k c" and "e \<in> rows_of k c" and "tr_at d = tr_at e"
  shows "d = e"
proof -
  from assms obtain i j where i: "c i = Some d" and j: "c j = Some e" and k: "series_key d = series_key e"
    by (auto simp: rows_of_def ran_def)
  from k assms(4) have "row_id d = row_id e" by (simp add: row_id_def series_key_def)
  with assms(1) i j show ?thesis by (metis log_ok_def option.inject)
qed

text \<open>The rows of a seller as a cursor lists them, each once.\<close>

definition cursor_rows :: "string \<Rightarrow> availability_row coll \<Rightarrow> availability_row list \<Rightarrow> bool" where
  "cursor_rows seller c rows \<longleftrightarrow> distinct rows \<and> set rows = {d \<in> ran c. tr_seller d = seller}"

lemma own_points:
  assumes "log_ok c" and "log_of (seller, item, variation) xs c" and "cursor_rows seller c rows"
  defines "own \<equiv> filter (\<lambda>d. (tr_item d, tr_variation d) = (item, variation)) rows"
  shows "distinct (map fst (points own)) \<and> set (points own) = set (changes_only None xs)"
proof -
  have own: "set own = rows_of (seller, item, variation) c" "distinct own"
    using assms(3) by (auto simp: own_def cursor_rows_def rows_of_def series_key_def)
  have "inj_on tr_at (set own)" using same_row [OF assms(1)] own(1) by (auto intro: inj_onI)
  with own(2) have "distinct (map fst (points own))" by (simp add: points_def distinct_map comp_def)
  moreover have "set (points own) = set (changes_only None xs)"
    using assms(2) own(1) by (simp add: points_def log_of_def)
  ultimately show ?thesis ..
qed

definition plain_seen :: "item_seen \<Rightarrow> bool" where
  "plain_seen v \<longleftrightarrow> in_date_range (utc_ms (is_at v)) \<and>
     list_all (\<lambda>s. plain_key (is_seller v, is_item v, ss_variation s)) (is_series v)"


lemma cursor_exists: "finite (dom c) \<Longrightarrow> \<exists>rows. cursor_rows seller c rows"
  using finite_distinct_list [of "{d \<in> ran c. tr_seller d = seller}"] finite_ran [of c] by (auto simp: cursor_rows_def)

definition demo_seen :: "instant \<Rightarrow> int \<Rightarrow> item_seen" where
  "demo_seen t n = \<lparr>is_seller = ''7'', is_item = ''MLA1'', is_status = ''active'',
     is_series = [\<lparr>ss_variation = None, ss_sku = None, ss_quantity = n\<rparr>], is_at = t\<rparr>"

abbreviation demo_series :: series_id where
  "demo_series \<equiv> (''7'', ''MLA1'', None)"

lemma demo_plain: "list_all plain_seen [demo_seen 1000 4, demo_seen 2000 3, demo_seen 3000 0, demo_seen 5000 2]"
  by code_simp

lemma demo_seen_points:
  "seen demo_series [demo_seen 1000 4, demo_seen 2000 3, demo_seen 3000 0] = [(1000, True), (2000, True), (3000, False)]"
  by code_simp


text \<open>
  C36. The log forgets when it was last confirmed: an observation that repeats the state writes nothing, so an
  older one that arrives after it is still newer than the last row and is written, and from then on the
  metrics report its state although a newer observation said otherwise.
\<close>

theorem late_observation_misreports:
  assumes "mongo_queries Q" and "list_all plain_seen [v0, v2, v1]"
    and "seen (seller, item, variation) [v0] = [(t0, True)]" and "seen (seller, item, variation) [v2] = [(t2, True)]"
    and "seen (seller, item, variation) [v1] = [(t1, False)]" and "t0 < t1" and "t1 < t2"
    and "cursor_rows seller (record_all Q [v0, v2, v1] Map.empty) rows" and "ws < i" and "i \<le> we" and "t2 < i"
  shows "Option.bind (load_histories ws we rows (item, variation)) (\<lambda>h. state_before h i) = Some False \<and>
    state_at (seen (seller, item, variation) [v0, v2, v1]) (i - 1) = Some True"
proof -
  let ?k = "(seller, item, variation)" and ?c = "record_all Q [v0, v2] Map.empty" and ?d = "record_all Q [v0, v2, v1] Map.empty"
  let ?own = "filter (\<lambda>d. (tr_item d, tr_variation d) = (item, variation)) rows"
  have Q: "availability_log Q" using assms(1) by (simp add: availability_log_def)
  have app: "seen k (v # vs) = seen k [v] @ seen k vs" for k v vs by (simp add: seen_def)
  have two: "seen ?k [v0, v2] = [(t0, True), (t2, True)]" using app [of ?k v0 "[v2]"] assms(3,4) by simp
  have "log_ok ?c \<and> log_of ?k [(t0, True), (t2, True)] ?c"
    using availability_log.record_all_logged [OF Q log_ok_empty log_of_empty, of ?k "[v0, v2]"] assms(2,6,7)
    by (simp add: two plain_seen_def series_key_def new_row_def list_all_iff)
  then have "log_ok ?c" "log_of ?k [(t0, True)] ?c" by (simp_all add: log_of_def)
  from availability_log.record_all_logged [OF Q this, of "[v1]"] assms(2,5,6)
  have "log_ok (record_all Q [v1] ?c)" "log_of ?k [(t0, True), (t1, False)] (record_all Q [v1] ?c)"
    by (simp_all add: plain_seen_def series_key_def new_row_def list_all_iff)
  then have log: "log_ok ?d" "log_of ?k [(t0, True), (t1, False)] ?d" by (simp_all add: record_all_def)
  have own: "distinct (map fst (points ?own))" "set (points ?own) = set [(t0, True), (t1, False)]"
    using own_points [OF log assms(8)] by auto
  from own(2) have "?own \<noteq> []" by auto
  then have load: "load_histories ws we rows (item, variation) = Some (fold (observe ws we) ?own no_history)"
    by (simp add: load_histories_eq Let_def)
  have d: "distinct (map fst [(t0, True), (t1, False)])" and sorted: "sorted_wrt (<) (map fst [(t0, True), (t1, False)])"
    using assms(6) by auto
  have "state_before (fold (observe ws we) ?own no_history) i = Some False"
    unfolding state_before_exact [OF own(1) assms(9,10)] state_at_set [OF own(1) d own(2)] state_at_sorted [OF sorted]
    using assms(6,7,11) by simp
  moreover have "state_at (seen ?k [v0, v2, v1]) (i - 1) = Some True"
    using app [of ?k v0 "[v2, v1]"] app [of ?k v2 "[v1]"] assms(3-7,11) by (simp add: state_at_def)
  ultimately show ?thesis by (simp add: load)
qed

theorem late_observation_misreports_witness:
  "\<exists>rows. cursor_rows ''7'' (record_all mem_queries [demo_seen 1000 4, demo_seen 5000 2, demo_seen 3000 0] Map.empty) rows \<and>
    Option.bind (load_histories 1500 9000 rows (''MLA1'', None)) (\<lambda>h. state_before h 6000) = Some False"
proof -
  let ?vs = "[demo_seen 1000 4, demo_seen 5000 2, demo_seen 3000 0]"
  have plain: "list_all plain_seen ?vs" using demo_plain by simp
  have "finite (dom (record_all mem_queries ?vs Map.empty))" by (rule mem_log.record_all_finite) simp
  from cursor_exists [OF this] obtain rows where c: "cursor_rows ''7'' (record_all mem_queries ?vs Map.empty) rows" by blast
  have s: "seen demo_series [demo_seen 1000 4] = [(1000, True)]" "seen demo_series [demo_seen 5000 2] = [(5000, True)]"
    "seen demo_series [demo_seen 3000 0] = [(3000, False)]" by code_simp+
  from late_observation_misreports [OF mem_q.mongo_queries_axioms plain s _ _ c, of 1500 6000 9000] c show ?thesis by auto
qed

end
