(* ===== verification/WinningTime.thy ===== *)
theory WinningTime
  imports StepTimes MongoCollection PyValues
begin

text \<open>
  The observations of a publication's competition in the catalog, \<^verbatim>\<open>sheets/catalog_observations.py\<close>, and the
  winning time the spreadsheet computes from them, \<^verbatim>\<open>sheets/formulas/catalog_winning_time.py\<close>: two
  aggregations by the database, whose stages are the functions below, and the sum of what they return.
\<close>

section \<open>Observations\<close>

record competition =
  co_seller :: string
  co_item :: string
  co_product :: string
  co_at :: instant
  co_status :: string
  co_quantity :: int

text \<open>A snapshot as it arrives: any field may be missing or of another type.\<close>

record snapshot =
  sn_seller :: bson
  sn_item :: bson
  sn_product :: bson
  sn_at :: bson
  sn_status :: bson
  sn_quantity :: bson

definition publication_id :: "bson \<Rightarrow> bool" where
  "publication_id v = (case v of
     BStr s \<Rightarrow> (case s of a # b # c # rest \<Rightarrow> a = CHR ''M'' \<and> b = CHR ''L'' \<and> 65 \<le> (of_char c :: nat) \<and> (of_char c :: nat) \<le> 90 \<and>
                    rest \<noteq> [] \<and> list_all is_digit rest | _ \<Rightarrow> False)
   | _ \<Rightarrow> False)"

definition numeric_seller :: "bson \<Rightarrow> bool" where
  "numeric_seller v = (case v of BStr s \<Rightarrow> all_digits s | _ \<Rightarrow> False)"

text \<open>\<open>None\<close> is the \<^verbatim>\<open>ValueError\<close>.\<close>

definition read_snapshot :: "snapshot \<Rightarrow> competition option" where
  "read_snapshot n = (case (sn_seller n, sn_item n, sn_product n, sn_at n, sn_status n, sn_quantity n) of
     (BStr seller, BStr item, BStr product, BDate (Aware at), BStr status, BInt quantity) \<Rightarrow>
       if all_digits seller \<and> publication_id (BStr item) \<and> publication_id (BStr product) \<and> strip status \<noteq> [] \<and> 0 \<le> quantity
       then Some \<lparr>co_seller = seller, co_item = item, co_product = product, co_at = utc_ms at, co_status = strip status,
         co_quantity = quantity\<rparr>
       else None
   | _ \<Rightarrow> None)"

text \<open>
  \<open>sha\<close> is the hexadecimal digest. A notification's observation is found by its key alone, a
  snapshot's by its whole content: with the key of other content the upsert fails.
\<close>

definition event_key_of :: "(string \<Rightarrow> string) \<Rightarrow> string \<Rightarrow> string \<Rightarrow> string \<Rightarrow> string" where
  "event_key_of sha seller item event = sha (''event:'' @ seller @ '':'' @ item @ '':'' @ event)"

definition snapshot_key_of :: "(string \<Rightarrow> string) \<Rightarrow> competition \<Rightarrow> string" where
  "snapshot_key_of sha d = sha (co_seller d @ '':'' @ co_item d @ '':'' @ isoformat (co_at d))"

datatype observation_error = InvalidObservation | Conflict

definition record_catalog_observation ::
  "(string \<Rightarrow> string) \<Rightarrow> competition mongo \<Rightarrow> snapshot \<Rightarrow> string option \<Rightarrow> competition coll \<Rightarrow>
   (observation_error, competition coll) result" where
  "record_catalog_observation sha M n event c = (case read_snapshot n of
     None \<Rightarrow> Inl InvalidObservation
   | Some d \<Rightarrow>
       (case upsert_one M c
           (case event of None \<Rightarrow> snapshot_key_of sha d | Some e \<Rightarrow> event_key_of sha (co_seller d) (co_item d) e)
           (\<lambda>e. event \<noteq> None \<or> e = d) (\<lambda>e. e) d of
          Inl _ \<Rightarrow> Inl Conflict | Inr (_, c') \<Rightarrow> Inr c'))"

section \<open>The two reads\<close>

datatype competition_kind = Winning | Losing | No_stock | Not_competing

definition winning_statuses :: "string list" where
  "winning_statuses = [''winning'', ''sharing_first_place'']"

definition losing_statuses :: "string list" where
  "losing_statuses = [''competing'']"

definition competition_state :: "competition \<Rightarrow> competition_kind" where
  "competition_state d =
    (if co_quantity d \<le> 0 then No_stock
     else if co_status d \<in> set winning_statuses then Winning
     else if co_status d \<in> set losing_statuses then Losing
     else Not_competing)"

definition in_scope :: "string \<Rightarrow> string list option \<Rightarrow> competition \<Rightarrow> bool" where
  "in_scope seller items d \<longleftrightarrow> co_seller d = seller \<and> (case items of None \<Rightarrow> True | Some is \<Rightarrow> co_item d \<in> set is)"

text \<open>The newest row of a publication at or before the start.\<close>

definition starting_state :: "competition list \<Rightarrow> string \<Rightarrow> instant \<Rightarrow> competition option" where
  "starting_state rows item from =
    (case sort_key (\<lambda>d. - co_at d) (filter (\<lambda>d. co_item d = item \<and> co_at d \<le> utc_ms from) rows) of
       [] \<Rightarrow> None | d # _ \<Rightarrow> Some d)"

text \<open>The rows inside the range, each with the time it was held: until the next one, the last until the end.\<close>

definition ranged_rows :: "competition list \<Rightarrow> string \<Rightarrow> instant \<Rightarrow> instant \<Rightarrow> competition list" where
  "ranged_rows rows item from to =
    sort_key co_at (filter (\<lambda>d. co_item d = item \<and> utc_ms from < co_at d \<and> co_at d < utc_ms to) rows)"

fun with_held :: "competition list \<Rightarrow> instant \<Rightarrow> (competition \<times> duration) list" where
  "with_held [] to = []"
| "with_held [d] to = [(d, to - co_at d)]"
| "with_held (d # e # rows) to = (d, co_at e - co_at d) # with_held (e # rows) to"

definition held_sum :: "(competition \<Rightarrow> bool) \<Rightarrow> (competition \<times> duration) list \<Rightarrow> duration" where
  "held_sum P rows = sum_list (map (\<lambda>(d, h). if P d then h else 0) rows)"

definition in_stock :: "competition \<Rightarrow> bool" where
  "in_stock d \<longleftrightarrow> 0 < co_quantity d"

text \<open>\<open>(first_observed_at, winning_ms, with_stock_ms)\<close>; durations stay in microseconds, whole milliseconds here.\<close>

definition range_row :: "competition list \<Rightarrow> string \<Rightarrow> instant \<Rightarrow> instant \<Rightarrow> (instant \<times> duration \<times> duration) option" where
  "range_row rows item from to = (case ranged_rows rows item from to of
     [] \<Rightarrow> None
   | d # rest \<Rightarrow> (let hs = with_held (d # rest) (utc_ms to) in
       Some (co_at d, held_sum (\<lambda>d. in_stock d \<and> co_status d \<in> set winning_statuses) hs,
         held_sum (\<lambda>d. in_stock d \<and> co_status d \<in> set (winning_statuses @ losing_statuses)) hs)))"

section \<open>Winning time\<close>

record winning_time =
  wt_winning :: duration
  wt_with_stock :: duration
  wt_covered :: bool
  wt_history_from :: instant

definition winning_time_of :: "competition list \<Rightarrow> string \<Rightarrow> instant \<Rightarrow> instant \<Rightarrow> winning_time option" where
  "winning_time_of rows item from to =
    (let start = starting_state rows item from; range = range_row rows item from to;
         (winning, with_stock) = (case range of None \<Rightarrow> (0, 0) | Some (_, w, s) \<Rightarrow> (w, s))
     in case start of
          None \<Rightarrow> map_option (\<lambda>(first, _). \<lparr>wt_winning = winning, wt_with_stock = with_stock, wt_covered = False,
                     wt_history_from = first\<rparr>) range
        | Some d \<Rightarrow>
            (let prefix = (case range of None \<Rightarrow> to | Some (first, _) \<Rightarrow> first);
                 held = prefix - from; st = competition_state d
             in Some \<lparr>wt_winning = (if st = Winning then winning + held else winning),
                      wt_with_stock = (if st = Winning \<or> st = Losing then with_stock + held else with_stock),
                      wt_covered = True, wt_history_from = co_at d\<rparr>))"

definition find_catalog_winning_times ::
  "competition list \<Rightarrow> string \<Rightarrow> string list option \<Rightarrow> instant \<Rightarrow> instant \<Rightarrow> (string \<times> winning_time) list" where
  "find_catalog_winning_times docs seller items from to =
    (let to' = (if to < from then from else to); rows = filter (in_scope seller items) docs in
     concat (map (\<lambda>item. case winning_time_of rows item from to' of None \<Rightarrow> [] | Some w \<Rightarrow> [(item, w)])
       (remdups (sort (map co_item rows)))))"

text \<open>The percent of whole milliseconds; \<open>Inl\<close> is the division by zero of less than one.\<close>

definition winning_percent :: "winning_time \<Rightarrow> (unit, int option) result" where
  "winning_percent w =
    (if wt_with_stock w \<le> 0 then Inr None
     else if wt_with_stock w div 1000 = 0 then Inl ()
     else Inr (Some (hundredths (100 * (wt_winning w div 1000)) (wt_with_stock w div 1000))))"

definition gap_message :: "(instant \<Rightarrow> string) \<Rightarrow> winning_time option \<Rightarrow> string option" where
  "gap_message shown w = (case w of
     None \<Rightarrow> Some (''Sin hist'' @ CHR 0xF3 # ''rico de cat'' @ CHR 0xE1 # ''logo'')
   | Some w \<Rightarrow> if wt_covered w then None
               else Some (''Sin hist'' @ CHR 0xF3 # ''rico antes de '' @ shown (wt_history_from w)))"

definition percent_cell :: "(instant \<Rightarrow> string) \<Rightarrow> winning_time option \<Rightarrow> (unit, cell) result" where
  "percent_cell shown w = (case gap_message shown w of
     Some m \<Rightarrow> Inr (Shown m)
   | None \<Rightarrow> rbind (winning_percent (the w)) (\<lambda>p. Inr (case p of None \<Rightarrow> Not_available | Some h \<Rightarrow> Hundredths h)))"

definition catalog_winning_time_cells :: "(instant \<Rightarrow> string) \<Rightarrow> winning_time option \<Rightarrow> (unit, cell list) result" where
  "catalog_winning_time_cells shown w = (case gap_message shown w of
     Some m \<Rightarrow> Inr (replicate 3 (Shown m))
   | None \<Rightarrow> rbind (percent_cell shown w) (\<lambda>p. Inr
       [Hundredths (hundredths (wt_winning (the w) div 1000) 3600000),
        Hundredths (hundredths (wt_with_stock (the w) div 1000) 3600000), p]))"

section \<open>The aggregations compute the time held\<close>

lemma sort_key_hd: "sort_key f xs = d # rest \<Longrightarrow> d \<in> set xs \<and> (\<forall>e \<in> set xs. f d \<le> f e)"
proof -
  assume s: "sort_key f xs = d # rest"
  have "sorted (map f (d # rest))" using sorted_sort_key [of f xs] by (simp only: s)
  moreover have "set xs = set (d # rest)" using set_sort [of f xs] by (simp only: s)
  ultimately show ?thesis by auto
qed

definition standing :: "competition list \<Rightarrow> (instant \<times> competition_kind) list" where
  "standing rows = map (\<lambda>d. (co_at d, competition_state d)) rows"

lemma with_held_sum:
  assumes "sorted_wrt (<) (map co_at (d # rows))" and "\<forall>e \<in> set (d # rows). co_at e < to"
  shows "held_sum (\<lambda>d. P (competition_state d)) (with_held (d # rows) to) =
    held P (Some (competition_state d)) (standing rows) (co_at d) to"
  using assms
proof (induction rows arbitrary: d)
  case Nil
  then show ?case by (simp add: held_sum_def standing_def held_Nil)
next
  case (Cons e rows)
  then have "held_sum (\<lambda>d. P (competition_state d)) (with_held (e # rows) to) =
      held P (Some (competition_state e)) (standing rows) (co_at e) to" by simp
  with Cons.prems show ?case by (auto simp: held_sum_def standing_def held_Cons)
qed

lemma starting_state_spec:
  assumes "list_all (\<lambda>d. utc_ms (co_at d) = co_at d) rows"
  shows "case starting_state rows item from of
      None \<Rightarrow> \<forall>d \<in> set rows. co_item d = item \<longrightarrow> from < co_at d
    | Some d \<Rightarrow> d \<in> set rows \<and> co_item d = item \<and> co_at d \<le> from \<and>
        (\<forall>e \<in> set rows. co_item e = item \<longrightarrow> co_at e \<le> from \<longrightarrow> co_at e \<le> co_at d)"
proof -
  let ?own = "filter (\<lambda>d. co_item d = item \<and> co_at d \<le> utc_ms from) rows"
  have own: "e \<in> set ?own \<longleftrightarrow> e \<in> set rows \<and> co_item e = item \<and> co_at e \<le> from" for e
    using assms utc_ms_compare(2) [of "co_at e" "from"] by (auto simp: list_all_iff)
  show ?thesis
  proof (cases "sort_key (\<lambda>d. - co_at d) ?own")
    case Nil
    then have "?own = []" by (metis set_sort set_empty)
    with own Nil show ?thesis by (fastforce simp: starting_state_def)
  next
    case (Cons d rest)
    with sort_key_hd [OF Cons] own show ?thesis by (auto simp: starting_state_def)
  qed
qed

lemma ranged_rows_spec:
  assumes "list_all (\<lambda>d. utc_ms (co_at d) = co_at d) rows" and "utc_ms to = to"
    and "distinct (map co_at (filter (\<lambda>d. co_item d = item) rows))"
  shows "sorted_wrt (<) (map co_at (ranged_rows rows item from to)) \<and>
    set (ranged_rows rows item from to) = {d \<in> set rows. co_item d = item \<and> from < co_at d \<and> co_at d < to}"
proof
  let ?f = "\<lambda>d. utc_ms from < co_at d \<and> co_at d < to"
  have eq: "ranged_rows rows item from to = sort_key co_at (filter ?f (filter (\<lambda>d. co_item d = item) rows))"
    using assms(2) by (simp add: ranged_rows_def conj_commute)
  have "distinct (map co_at (filter ?f (filter (\<lambda>d. co_item d = item) rows)))"
    using assms(3) by (rule distinct_map_filter)
  then have "distinct (map co_at (ranged_rows rows item from to))" unfolding eq by (simp add: distinct_map)
  moreover have "sorted (map co_at (ranged_rows rows item from to))" unfolding eq by simp
  ultimately show "sorted_wrt (<) (map co_at (ranged_rows rows item from to))" by (simp add: strict_sorted_iff)
  show "set (ranged_rows rows item from to) = {d \<in> set rows. co_item d = item \<and> from < co_at d \<and> co_at d < to}"
    using assms(1) utc_ms_compare(1) unfolding eq by (auto simp: list_all_iff)
qed

lemma in_stock_state:
  "(in_stock d \<and> co_status d \<in> set winning_statuses) = (competition_state d = Winning)"
  "(in_stock d \<and> co_status d \<in> set (winning_statuses @ losing_statuses)) = (competition_state d = Winning \<or> competition_state d = Losing)"
  by (auto simp: in_stock_def competition_state_def)

lemma range_row_eq: "utc_ms to = to \<Longrightarrow> range_row rows item from to = (case ranged_rows rows item from to of
     [] \<Rightarrow> None
   | d # rest \<Rightarrow> Some (co_at d, held_sum (\<lambda>d. competition_state d = Winning) (with_held (d # rest) to),
       held_sum (\<lambda>d. competition_state d = Winning \<or> competition_state d = Losing) (with_held (d # rest) to)))"
  unfolding range_row_def in_stock_state Let_def by (simp only:)

text \<open>What a publication's start and range rows add up to, for any set of states.\<close>

lemma range_time:
  assumes ms: "list_all (\<lambda>d. utc_ms (co_at d) = co_at d) rows" and "utc_ms to = to" and "from \<le> to"
    and dist: "distinct (map co_at (filter (\<lambda>d. co_item d = item) rows))"
  defines "pts \<equiv> standing (filter (\<lambda>d. co_item d = item) rows)"
    and "L \<equiv> ranged_rows rows item from to" and "opening \<equiv> map_option competition_state (starting_state rows item from)"
  shows "time_in P pts from to =
    (case L of [] \<Rightarrow> (if holds_in P opening then to - from else 0)
     | d # rest \<Rightarrow> (if holds_in P opening then co_at d - from else 0) + held_sum (\<lambda>d. P (competition_state d)) (with_held L to))"
proof -
  note L = ranged_rows_spec [OF ms assms(2) dist, of "from", folded L_def]
  have pts: "distinct (map fst pts)" using dist by (simp add: pts_def standing_def comp_def)
  have strict: "sorted_wrt (<) (map fst (standing L))" using L by (simp add: standing_def comp_def)
  have set: "set (standing L) = {p \<in> set pts. from < fst p \<and> fst p < to}"
    using L by (auto simp: standing_def pts_def)
  let ?op = "map_option (\<lambda>d. (co_at d, competition_state d)) (starting_state rows item from)"
  have "case ?op of None \<Rightarrow> \<forall>p \<in> set pts. from < fst p
      | Some p \<Rightarrow> p \<in> set pts \<and> fst p \<le> from \<and> (\<forall>q \<in> set pts. fst q \<le> from \<longrightarrow> fst q \<le> fst p)"
    using starting_state_spec [OF ms, of item "from"] by (auto simp: pts_def standing_def split: option.splits)
  from hold_window [OF pts this strict set]
  have "hold opening (standing L) t = state_at pts t" if "from \<le> t" "t < to" for t
    using that by (simp add: opening_def option.map_comp comp_def)
  then have "time_in P pts from to = held P opening (standing L) from to"
    unfolding held_def time_in_card by (intro arg_cong [where f = int] arg_cong [where f = card] Collect_cong) auto
  also have "\<dots> = (case L of [] \<Rightarrow> (if holds_in P opening then to - from else 0)
     | d # rest \<Rightarrow> (if holds_in P opening then co_at d - from else 0) + held_sum (\<lambda>d. P (competition_state d)) (with_held L to))"
  proof (cases L)
    case Nil
    with assms(3) show ?thesis by (simp add: standing_def held_Nil)
  next
    case (Cons d rest)
    with L have d: "from < co_at d" "co_at d < to" and below: "\<forall>e \<in> set (d # rest). co_at e < to"
      and sorted: "sorted_wrt (<) (map co_at (d # rest))" by auto
    from with_held_sum [OF sorted below, of P] d Cons show ?thesis by (simp add: standing_def held_Cons)
  qed
  finally show ?thesis .
qed

lemma winning_time_of_exact:
  assumes ms: "list_all (\<lambda>d. utc_ms (co_at d) = co_at d) rows" and "utc_ms to = to" and "from \<le> to"
    and dist: "distinct (map co_at (filter (\<lambda>d. co_item d = item) rows))"
    and w: "winning_time_of rows item from to = Some w"
  defines "pts \<equiv> standing (filter (\<lambda>d. co_item d = item) rows)"
  shows "wt_winning w = time_in (\<lambda>s. s = Winning) pts from to \<and>
    wt_with_stock w = time_in (\<lambda>s. s = Winning \<or> s = Losing) pts from to \<and>
    (wt_covered w \<longleftrightarrow> state_at pts from \<noteq> None) \<and> state_at pts (wt_history_from w) \<noteq> None"
proof -
  let ?L = "ranged_rows rows item from to" and ?start = "starting_state rows item from"
  note time = range_time [OF ms assms(2,3) dist, folded pts_def]
  note L = ranged_rows_spec [OF ms assms(2) dist, of "from"]
  have cov: "state_at pts t = None \<longleftrightarrow> (\<forall>d \<in> set rows. co_item d = item \<longrightarrow> t < co_at d)" for t
    by (auto simp: state_at_None pts_def standing_def)
  have covered: "(?start = None) = (state_at pts from = None)"
    using starting_state_spec [OF ms, of item "from"] unfolding cov by (auto split: option.splits)
  show ?thesis
  proof (cases ?start)
    case None
    with w L obtain d rest where d: "?L = d # rest" "d \<in> set rows" "co_item d = item"
      by (cases ?L) (auto simp: winning_time_of_def range_row_eq [OF assms(2)] Let_def)
    from w None d(1) have "w = \<lparr>wt_winning = held_sum (\<lambda>d. competition_state d = Winning) (with_held ?L to),
        wt_with_stock = held_sum (\<lambda>d. competition_state d = Winning \<or> competition_state d = Losing) (with_held ?L to),
        wt_covered = False, wt_history_from = co_at d\<rparr>"
      by (simp add: winning_time_of_def range_row_eq [OF assms(2)] Let_def del: with_held.simps)
    moreover have "state_at pts (co_at d) \<noteq> None" using d unfolding cov by auto
    ultimately show ?thesis using covered None d(1) time by (simp del: with_held.simps)
  next
    case (Some d)
    with starting_state_spec [OF ms, of item "from"] have "state_at pts (co_at d) \<noteq> None" unfolding cov by auto
    with w Some covered time show ?thesis
      by (cases ?L) (auto simp: winning_time_of_def range_row_eq [OF assms(2)] Let_def simp del: with_held.simps)
  qed
qed

lemma winning_percent_bound:
  assumes "0 \<le> wt_winning w" and "wt_winning w \<le> wt_with_stock w" and "winning_percent w = Inr (Some p)"
  shows "0 \<le> p \<and> p \<le> 10000"
proof -
  have "wt_winning w div 1000 \<le> wt_with_stock w div 1000" using assms(2) by (rule zdiv_mono1) simp
  moreover have "0 \<le> wt_winning w div 1000" using assms(1) by simp
  moreover have "0 < wt_with_stock w div 1000" using calculation assms(3) by (auto simp: winning_percent_def split: if_splits)
  ultimately show ?thesis using assms(3) hundredths_bound [of "wt_winning w div 1000" "wt_with_stock w div 1000"]
    by (auto simp: winning_percent_def split: if_splits)
qed

text \<open>
  C37. The two aggregations and their sum compute what the observations say: for every publication listed, the
  winning time and the time with stock of a range that ends at a whole millisecond are the microseconds of
  the range at which its newest observation was a winning one, or a winning or losing one; the range is
  covered exactly when an observation precedes it, the history begins at an observation, and the percent
  lies between nothing and a hundred.
\<close>

theorem winning_time_exact:
  assumes "list_all (\<lambda>d. utc_ms (co_at d) = co_at d) docs" and "distinct (map (\<lambda>d. (co_seller d, co_item d, co_at d)) docs)"
    and "utc_ms to = to" and "from \<le> to" and "(item, w) \<in> set (find_catalog_winning_times docs seller items from to)"
  shows "wt_winning w = time_in (\<lambda>s. s = Winning) (standing (filter (\<lambda>d. co_seller d = seller \<and> co_item d = item) docs)) from to \<and>
    wt_with_stock w =
      time_in (\<lambda>s. s = Winning \<or> s = Losing) (standing (filter (\<lambda>d. co_seller d = seller \<and> co_item d = item) docs)) from to \<and>
    (wt_covered w \<longleftrightarrow> state_at (standing (filter (\<lambda>d. co_seller d = seller \<and> co_item d = item) docs)) from \<noteq> None) \<and>
    state_at (standing (filter (\<lambda>d. co_seller d = seller \<and> co_item d = item) docs)) (wt_history_from w) \<noteq> None \<and>
    (case winning_percent w of Inr (Some p) \<Rightarrow> 0 \<le> p \<and> p \<le> 10000 | _ \<Rightarrow> True)"
proof -
  let ?rows = "filter (in_scope seller items) docs"
  from assms(4,5) have w: "winning_time_of ?rows item from to = Some w" and item: "item \<in> set (map co_item ?rows)"
    by (auto simp: find_catalog_winning_times_def Let_def split: option.splits)
  then have own: "filter (\<lambda>d. co_item d = item) ?rows = filter (\<lambda>d. co_seller d = seller \<and> co_item d = item) docs"
    by (cases items) (auto simp: in_scope_def intro!: filter_cong)
  have ms: "list_all (\<lambda>d. utc_ms (co_at d) = co_at d) ?rows" using assms(1) by (auto simp: list_all_iff)
  have "inj_on co_at (set (filter (\<lambda>d. co_seller d = seller \<and> co_item d = item) docs))"
    using assms(2) by (auto simp: distinct_map intro!: inj_onI dest: inj_onD)
  moreover have "distinct docs" using assms(2) by (simp add: distinct_map)
  ultimately have dist: "distinct (map co_at (filter (\<lambda>d. co_item d = item) ?rows))"
    unfolding own by (simp add: distinct_map)
  note exact = winning_time_of_exact [OF ms assms(3,4) dist w, unfolded own]
  have "0 \<le> wt_winning w" "wt_winning w \<le> wt_with_stock w"
    using exact time_in_bounds [OF assms(4), of "\<lambda>s. s = Winning"]
      time_in_mono [of "\<lambda>s. s = Winning" "\<lambda>s. s = Winning \<or> s = Losing"] by simp_all
  from winning_percent_bound [OF this]
  have "case winning_percent w of Inr (Some p) \<Rightarrow> 0 \<le> p \<and> p \<le> 10000 | _ \<Rightarrow> True" by (auto split: sum.split option.split)
  with exact show ?thesis by blast
qed

definition demo_competition :: "instant \<Rightarrow> string \<Rightarrow> competition" where
  "demo_competition t st = \<lparr>co_seller = ''7'', co_item = ''MLA1'', co_product = ''MLA9'', co_at = t, co_status = st, co_quantity = 3\<rparr>"

theorem winning_time_exact_witness:
  "\<exists>w. find_catalog_winning_times [demo_competition 1000 ''winning'', demo_competition 7000 ''competing''] ''7'' None 6990 9000 = [(''MLA1'', w)] \<and>
    wt_winning w = 10 \<and> wt_with_stock w = 2010 \<and> wt_winning w =
      time_in (\<lambda>s. s = Winning) [(1000, Winning), (7000, Losing)] 6990 9000"
proof -
  let ?docs = "[demo_competition 1000 ''winning'', demo_competition 7000 ''competing'']"
  have run: "find_catalog_winning_times ?docs ''7'' None 6990 9000 =
    [(''MLA1'', \<lparr>wt_winning = 10, wt_with_stock = 2010, wt_covered = True, wt_history_from = 1000\<rparr>)]" by code_simp
  have ok: "list_all (\<lambda>d. utc_ms (co_at d) = co_at d) ?docs" "distinct (map (\<lambda>d. (co_seller d, co_item d, co_at d)) ?docs)"
    "utc_ms 9000 = 9000" by code_simp+
  have pts: "standing (filter (\<lambda>d. co_seller d = ''7'' \<and> co_item d = ''MLA1'') ?docs) = [(1000, Winning), (7000, Losing)]"
    by code_simp
  from winning_time_exact [OF ok, of 6990 "''MLA1''" "\<lparr>wt_winning = 10, wt_with_stock = 2010, wt_covered = True, wt_history_from = 1000\<rparr>" "''7''" None]
  show ?thesis unfolding run pts by simp
qed

section \<open>Observations are never rewritten\<close>

text \<open>
  Whatever is recorded, what the collection holds_in stays as it is; a snapshot's retry with other content
  under the same key is refused, a notification's repetition is not.
\<close>

lemma observations_never_rewritten:
  assumes "mongo_collection M" and "record_catalog_observation sha M n event c = Inr c'"
  shows "c \<subseteq>\<^sub>m c' \<and> (\<exists>d. read_snapshot n = Some d \<and>
    (case event of
       None \<Rightarrow> c' (snapshot_key_of sha d) = Some d
     | Some e \<Rightarrow> c' (event_key_of sha (co_seller d) (co_item d) e) \<noteq> None))"
proof -
  note upsert = mongo_collection.upsert_one_law [OF assms(1)]
  from assms(2) obtain d where d: "read_snapshot n = Some d" by (auto simp: record_catalog_observation_def split: option.splits)
  with assms(2) show ?thesis
    by (cases event) (auto simp: record_catalog_observation_def upsert matches_def map_le_def split: if_splits option.splits)
qed

end
