(* ===== verification/Pacer.thy ===== *)
theory Pacer
  imports PyStrings
begin

text \<open>
  The pacing of the background acquisition, \<^verbatim>\<open>sheets/formulas/pacing.py\<close>: callers of three lanes wait in queues,
  one driver task grants slots under a budget per minute and in a rotation of the lanes. The calls of the
  event loop are the steps of a relation: callers arrive and give up at any time, the driver computes its
  wait, sleeps and grants. A sleep ends no earlier than asked, on the clock the pacer reads.
\<close>

section \<open>Budget\<close>

definition gateway_requests_per_minute :: int where
  "gateway_requests_per_minute = 600"

definition default_recovery_requests_per_minute :: int where
  "default_recovery_requests_per_minute = 180"

definition pacing_window :: duration where
  "pacing_window = 60000000"

definition valid_budget :: "int \<Rightarrow> bool" where
  "valid_budget b \<longleftrightarrow> 1 \<le> b \<and> b \<le> gateway_requests_per_minute"

text \<open>The configured budget: \<open>None\<close> is the \<^verbatim>\<open>ValueError\<close>.\<close>

definition recovery_requests_per_minute :: "string option \<Rightarrow> int option" where
  "recovery_requests_per_minute value = (case value of
     None \<Rightarrow> Some default_recovery_requests_per_minute
   | Some v \<Rightarrow> if strip v = [] then Some default_recovery_requests_per_minute
              else (case py_int_text (strip v) of None \<Rightarrow> None | Some b \<Rightarrow> if valid_budget b then Some b else None))"

text \<open>The spacing of grants, rounded up to microseconds.\<close>

definition grant_interval :: "int \<Rightarrow> duration" where
  "grant_interval b = ceil_div pacing_window b"

section \<open>The pacer\<close>

datatype lane = Inventory | Ids | Ranges

definition lane_rotation :: "lane list" where
  "lane_rotation = [Inventory, Ids, Ids, Ranges]"

text \<open>
  \<open>Asleep until exhausted\<close> is the driver between the two halves of \<^verbatim>\<open>_wait_for_slot\<close>. Waiters are numbered
  in the order in which they arrive; \<open>pr_granted\<close> are the grants so far, the newest first, with their instants.
\<close>

datatype driver = Awake | Asleep instant bool bool

record pacer =
  pr_budget :: int
  pr_window_start :: "instant option"
  pr_used :: int
  pr_spread :: bool
  pr_next_grant :: "instant option"
  pr_pending :: "lane \<Rightarrow> nat list"
  pr_cursor :: nat
  pr_driver :: driver
  pr_arrivals :: nat
  pr_granted :: "(instant \<times> nat) list"

definition new_pacer :: "int \<Rightarrow> pacer" where
  "new_pacer budget = \<lparr>pr_budget = budget, pr_window_start = None, pr_used = 0, pr_spread = False, pr_next_grant = None,
     pr_pending = (\<lambda>_. []), pr_cursor = 0, pr_driver = Awake, pr_arrivals = 0, pr_granted = []\<rparr>"

definition anyone_waits :: "pacer \<Rightarrow> bool" where
  "anyone_waits p \<longleftrightarrow> list_ex (\<lambda>l. pr_pending p l \<noteq> []) lane_rotation"

text \<open>A caller without a lane counts as one of the identifiers'.\<close>

definition arrive :: "lane option \<Rightarrow> pacer \<Rightarrow> pacer" where
  "arrive lane p = (let l = (case lane of None \<Rightarrow> Ids | Some l \<Rightarrow> l) in
     p\<lparr>pr_spread := pr_spread p \<or> lane \<noteq> None, pr_pending := (pr_pending p)(l := pr_pending p l @ [pr_arrivals p]),
       pr_arrivals := pr_arrivals p + 1\<rparr>)"

text \<open>A caller whose time is over leaves its queue; with nobody waiting the driver is cancelled.\<close>

definition give_up :: "lane \<Rightarrow> nat \<Rightarrow> pacer \<Rightarrow> pacer" where
  "give_up l i p = (let p' = p\<lparr>pr_pending := (pr_pending p)(l := remove1 i (pr_pending p l))\<rparr> in
     if anyone_waits p' then p' else p'\<lparr>pr_driver := Awake\<rparr>)"

definition reset_window :: "bool \<Rightarrow> instant \<Rightarrow> pacer \<Rightarrow> pacer" where
  "reset_window exhausted now p =
    (if exhausted \<or> (case pr_window_start p of None \<Rightarrow> True | Some w \<Rightarrow> pacing_window \<le> now - w)
     then p\<lparr>pr_window_start := Some now, pr_used := 0\<rparr> else p)"

text \<open>The first half of \<^verbatim>\<open>_wait_for_slot\<close>: how long to sleep.\<close>

definition slot_wait :: "instant \<Rightarrow> pacer \<Rightarrow> duration" where
  "slot_wait now p =
    (let window_wait = (case pr_window_start p of
           Some w \<Rightarrow> if pr_budget p \<le> pr_used p then max 0 (w + pacing_window - now) else 0 | None \<Rightarrow> 0)
     in case pr_next_grant p of
          Some g \<Rightarrow> if pr_spread p then max window_wait (g - now) else window_wait
        | None \<Rightarrow> window_wait)"

definition begin_wait :: "instant \<Rightarrow> pacer \<Rightarrow> pacer" where
  "begin_wait now p = (let p' = reset_window False now p; remaining = slot_wait now p' in
     p'\<lparr>pr_driver := Asleep (now + max 0 remaining) (pr_budget p' \<le> pr_used p') (0 < remaining)\<rparr>)"

text \<open>The rotation from the cursor on, for at most \<open>n\<close> of its places.\<close>

fun next_lane :: "nat \<Rightarrow> nat \<Rightarrow> (lane \<Rightarrow> nat list) \<Rightarrow> lane option \<times> nat" where
  "next_lane 0 c q = (None, c)"
| "next_lane (Suc n) c q =
    (let l = lane_rotation ! c; c' = (c + 1) mod length lane_rotation in
     if q l \<noteq> [] then (Some l, c') else next_lane n c' q)"

text \<open>\<open>granted_at\<close> is the reading of the clock for the next grant.\<close>

definition grant :: "instant \<Rightarrow> pacer \<Rightarrow> pacer" where
  "grant granted_at p = (case next_lane (length lane_rotation) (pr_cursor p) (pr_pending p) of
     (None, c) \<Rightarrow> p\<lparr>pr_cursor := c, pr_driver := Awake\<rparr>
   | (Some l, c) \<Rightarrow>
       p\<lparr>pr_cursor := c, pr_driver := Awake, pr_pending := (pr_pending p)(l := tl (pr_pending p l)), pr_used := pr_used p + 1,
         pr_next_grant := Some (granted_at + grant_interval (pr_budget p)),
         pr_granted := (granted_at, hd (pr_pending p l)) # pr_granted p\<rparr>)"

definition end_wait :: "instant \<Rightarrow> instant \<Rightarrow> bool \<Rightarrow> pacer \<Rightarrow> pacer" where
  "end_wait woke granted_at exhausted p = grant granted_at (reset_window exhausted woke p)"

text \<open>The clock does not go back: \<open>t\<close> is the latest reading.\<close>

inductive pacer_step :: "pacer \<times> instant \<Rightarrow> pacer \<times> instant \<Rightarrow> bool" where
  arrives: "t \<le> t' \<Longrightarrow> pacer_step (p, t) (arrive lane p, t')"
| gives_up: "t \<le> t' \<Longrightarrow> i \<in> set (pr_pending p l) \<Longrightarrow> pacer_step (p, t) (give_up l i p, t')"
| begins: "t \<le> now \<Longrightarrow> pr_driver p = Awake \<Longrightarrow> anyone_waits p \<Longrightarrow> pacer_step (p, t) (begin_wait now p, now)"
| grants: "pr_driver p = Asleep until exhausted waited \<Longrightarrow> t \<le> woke \<Longrightarrow> until \<le> woke \<Longrightarrow> woke \<le> granted_at \<Longrightarrow>
    pacer_step (p, t) (end_wait woke granted_at exhausted p, granted_at)"

section \<open>Spacing\<close>

lemma interval_covers: "valid_budget b \<Longrightarrow> 0 < grant_interval b \<and> pacing_window \<le> grant_interval b * b"
proof -
  assume b: "valid_budget b"
  then have "pacing_window \<le> grant_interval b * b"
    unfolding grant_interval_def by (intro ceil_div_ge) (simp add: valid_budget_def)
  moreover have "0 < grant_interval b"
    using b calculation zero_less_mult_iff [of "grant_interval b" b] by (auto simp: pacing_window_def valid_budget_def)
  ultimately show ?thesis by simp
qed

lemma spaced_span:
  fixes gs :: "int list"
  assumes "sorted_wrt (\<lambda>g h. h + d \<le> g) (g # gs)"
  shows "last (g # gs) + int (length gs) * d \<le> g"
  using assms
proof (induction gs arbitrary: g)
  case (Cons h gs)
  then have "last (h # gs) + int (length gs) * d \<le> h" "h + d \<le> g" by auto
  then show ?case by (simp add: algebra_simps)
qed simp

lemma spaced_count:
  fixes gs :: "int list"
  assumes "sorted_wrt (\<lambda>g h. h + d \<le> g) gs" and "\<And>g. g \<in> set gs \<Longrightarrow> x \<le> g \<and> g < x + w" and "0 < d" and "w \<le> d * b" and "0 \<le> b"
  shows "int (length gs) \<le> b"
proof (cases gs)
  case (Cons g rest)
  have "last (g # rest) \<in> set gs" by (simp add: Cons)
  with assms(2) [of g] assms(2) [of "last (g # rest)"] spaced_span [of d g rest] assms(1) Cons
  have "int (length rest) * d < d * b" using assms(4) by simp
  then have "int (length rest) < b" using assms(3) by (simp add: mult.commute)
  with Cons show ?thesis by simp
qed (use assms(5) in simp)

definition paced :: "int \<Rightarrow> pacer \<Rightarrow> bool" where
  "paced b p \<longleftrightarrow> pr_budget p = b \<and> pr_spread p \<and>
     sorted_wrt (\<lambda>g h. h + grant_interval b \<le> g) (map fst (pr_granted p)) \<and>
     (\<forall>g i rest. pr_granted p = (g, i) # rest \<longrightarrow> pr_next_grant p = Some (g + grant_interval b)) \<and>
     (\<forall>until exhausted waited g. pr_driver p = Asleep until exhausted waited \<longrightarrow> pr_next_grant p = Some g \<longrightarrow> g \<le> until)"

lemma reset_window_sel [simp]:
  "pr_budget (reset_window e n p) = pr_budget p" "pr_spread (reset_window e n p) = pr_spread p"
  "pr_next_grant (reset_window e n p) = pr_next_grant p" "pr_pending (reset_window e n p) = pr_pending p"
  "pr_cursor (reset_window e n p) = pr_cursor p" "pr_driver (reset_window e n p) = pr_driver p"
  "pr_arrivals (reset_window e n p) = pr_arrivals p" "pr_granted (reset_window e n p) = pr_granted p"
  by (simp_all add: reset_window_def)

lemma slot_wait_spaced: "pr_spread p \<Longrightarrow> pr_next_grant p = Some g \<Longrightarrow> g - now \<le> slot_wait now p"
  by (simp add: slot_wait_def Let_def)

lemma paced_step:
  assumes "pacer_step (p, t) (p', t')" and "paced b p" and "valid_budget b"
  shows "paced b p'"
  using assms(1)
proof (cases rule: pacer_step.cases)
  case (arrives lane)
  with assms(2) show ?thesis by (simp add: paced_def arrive_def Let_def)
next
  case (gives_up i l)
  with assms(2) show ?thesis by (auto simp: paced_def give_up_def Let_def)
next
  case begins
  with assms(2) show ?thesis
    using slot_wait_spaced [of "reset_window False t' p" _ t']
    by (fastforce simp: paced_def begin_wait_def Let_def)
next
  case (grants until exhausted waited woke)
  let ?r = "reset_window exhausted woke p"
  have next_free: "g \<le> t'" if "pr_next_grant p = Some g" for g
    using assms(2) grants that by (auto simp: paced_def)
  have older: "h + grant_interval b \<le> t'" if h: "h \<in> fst ` set (pr_granted p)" for h
  proof (cases "pr_granted p")
    case (Cons x rest)
    obtain g j where x: "x = (g, j)" by fastforce
    with Cons assms(2) have "pr_next_grant p = Some (g + grant_interval b)" by (simp add: paced_def)
    from next_free [OF this] have "g + grant_interval b \<le> t'" .
    moreover have "h \<le> g"
      using h Cons x assms(2) interval_covers [OF assms(3)] by (force simp: paced_def)
    ultimately show ?thesis by simp
  qed (use h in simp)
  show ?thesis
  proof (cases "next_lane (length lane_rotation) (pr_cursor p) (pr_pending p)")
    case (Pair m c)
    show ?thesis
    proof (cases m)
      case None
      with Pair grants assms(2) show ?thesis by (simp add: paced_def end_wait_def grant_def)
    next
      case (Some l)
      with Pair grants assms(2) older show ?thesis by (auto simp: paced_def end_wait_def grant_def)
    qed
  qed
qed

text \<open>
  C38. Once its callers name their lanes, the pacer never grants more requests than its budget within any
  minute, wherever the minute begins, however the callers come and go and however late the driver wakes.
\<close>

theorem pacer_within_budget:
  assumes "valid_budget b" and "pacer_step\<^sup>*\<^sup>* (arrive (Some l) (new_pacer b), t0) (p, t)"
  shows "int (length (filter (\<lambda>(g, _). x \<le> g \<and> g < x + pacing_window) (pr_granted p))) \<le> b"
proof -
  have "paced b (fst s)" if "pacer_step\<^sup>*\<^sup>* (arrive (Some l) (new_pacer b), t0) s" for s
    using that
  proof (induction rule: rtranclp_induct)
    case base
    show ?case by (simp add: paced_def arrive_def new_pacer_def Let_def)
  next
    case (step s s')
    with paced_step [OF _ _ assms(1), of "fst s" "snd s" "fst s'" "snd s'"] show ?case by simp
  qed
  from this [OF assms(2)] have p: "paced b p" by simp
  let ?f = "filter (\<lambda>(g, _). x \<le> g \<and> g < x + pacing_window) (pr_granted p)"
  have "sorted_wrt (\<lambda>g h. fst h + grant_interval b \<le> fst g) ?f"
    using p by (intro sorted_wrt_filter) (simp add: paced_def sorted_wrt_map)
  then have "sorted_wrt (\<lambda>g h. h + grant_interval b \<le> g) (map fst ?f)" by (simp add: sorted_wrt_map)
  moreover have "x \<le> g \<and> g < x + pacing_window" if "g \<in> set (map fst ?f)" for g using that by fastforce
  moreover have "0 < grant_interval b" "pacing_window \<le> grant_interval b * b" "0 \<le> b"
    using interval_covers [OF assms(1)] assms(1) by (simp_all add: valid_budget_def)
  ultimately have "int (length (map fst ?f)) \<le> b" by (rule spaced_count)
  then show ?thesis by simp
qed

lemma configured_budget_valid: "recovery_requests_per_minute v = Some b \<Longrightarrow> valid_budget b"
  by (auto simp: recovery_requests_per_minute_def valid_budget_def default_recovery_requests_per_minute_def
      gateway_requests_per_minute_def split: option.splits if_splits)

section \<open>Fairness\<close>

text \<open>How many places of the rotation come before the next one of a lane.\<close>

fun first_place :: "lane \<Rightarrow> lane list \<Rightarrow> nat" where
  "first_place l [] = 0"
| "first_place l (k # ks) = (if k = l then 0 else Suc (first_place l ks))"

definition lane_distance :: "nat \<Rightarrow> lane \<Rightarrow> nat" where
  "lane_distance c l = first_place l (drop c lane_rotation @ take c lane_rotation)"

lemma lane_distances [simp]:
  "lane_distance 0 l = (case l of Inventory \<Rightarrow> 0 | Ids \<Rightarrow> 1 | Ranges \<Rightarrow> 3)"
  "lane_distance (Suc 0) l = (case l of Inventory \<Rightarrow> 3 | Ids \<Rightarrow> 0 | Ranges \<Rightarrow> 2)"
  "lane_distance 2 l = (case l of Inventory \<Rightarrow> 2 | Ids \<Rightarrow> 0 | Ranges \<Rightarrow> 1)"
  "lane_distance 3 l = (case l of Inventory \<Rightarrow> 1 | Ids \<Rightarrow> 2 | Ranges \<Rightarrow> 0)"
  by (cases l; simp add: lane_distance_def lane_rotation_def numeral_eq_Suc)+

declare next_lane.simps [simp del]

lemma places:
  "lane_rotation ! 0 = Inventory" "lane_rotation ! Suc 0 = Ids" "lane_rotation ! 2 = Ids" "lane_rotation ! 3 = Ranges"
  "(0 + 1) mod length lane_rotation = Suc 0" "(Suc 0 + 1) mod length lane_rotation = 2"
  "(2 + 1) mod length lane_rotation = 3" "(3 + 1) mod length lane_rotation = 0"
  by (simp_all add: lane_rotation_def)

lemma next_place:
  "next_lane (Suc n) 0 q = (if q Inventory \<noteq> [] then (Some Inventory, Suc 0) else next_lane n (Suc 0) q)"
  "next_lane (Suc n) (Suc 0) q = (if q Ids \<noteq> [] then (Some Ids, 2) else next_lane n 2 q)"
  "next_lane (Suc n) 2 q = (if q Ids \<noteq> [] then (Some Ids, 3) else next_lane n 3 q)"
  "next_lane (Suc n) 3 q = (if q Ranges \<noteq> [] then (Some Ranges, 0) else next_lane n 0 q)"
  by (simp_all only: next_lane.simps(2) Let_def places)

lemma four_places: "length lane_rotation = Suc (Suc (Suc (Suc 0)))"
  by (simp add: lane_rotation_def)

lemma next_lanes:
  "next_lane (Suc (Suc (Suc (Suc 0)))) 0 q = (if q Inventory \<noteq> [] then (Some Inventory, Suc 0) else if q Ids \<noteq> [] then (Some Ids, 2)
     else if q Ranges \<noteq> [] then (Some Ranges, 0) else (None, 0))"
  "next_lane (Suc (Suc (Suc (Suc 0)))) (Suc 0) q = (if q Ids \<noteq> [] then (Some Ids, 2) else if q Ranges \<noteq> [] then (Some Ranges, 0)
     else if q Inventory \<noteq> [] then (Some Inventory, Suc 0) else (None, Suc 0))"
  "next_lane (Suc (Suc (Suc (Suc 0)))) 2 q = (if q Ids \<noteq> [] then (Some Ids, 3) else if q Ranges \<noteq> [] then (Some Ranges, 0)
     else if q Inventory \<noteq> [] then (Some Inventory, Suc 0) else (None, 2))"
  "next_lane (Suc (Suc (Suc (Suc 0)))) 3 q = (if q Ranges \<noteq> [] then (Some Ranges, 0) else if q Inventory \<noteq> [] then (Some Inventory, Suc 0)
     else if q Ids \<noteq> [] then (Some Ids, 2) else (None, 3))"
  by (simp_all only: next_place next_lane.simps(1)) auto

lemma next_lane_closer:
  assumes "c < 4" and "q l \<noteq> []" and "next_lane (length lane_rotation) c q = (m, c')"
  shows "c' < 4 \<and> (\<exists>k. m = Some k \<and> q k \<noteq> [] \<and> (k \<noteq> l \<longrightarrow> lane_distance c' l < lane_distance c l))"
proof -
  from assms(1) consider "c = 0" | "c = Suc 0" | "c = 2" | "c = 3" by linarith
  then show ?thesis using assms(2) assms(3) [unfolded four_places]
    by cases (cases l; auto simp: next_lanes split: if_splits)+
qed

lemma lane_distance_bound: "c < 4 \<Longrightarrow> lane_distance c l \<le> 3"
proof -
  assume "c < 4"
  then consider "c = 0" | "c = Suc 0" | "c = 2" | "c = 3" by linarith
  then show ?thesis by cases (cases l; simp)+
qed

definition demo_waiting :: pacer where
  "demo_waiting = arrive (Some Ids) (new_pacer 180)"

definition demo_served :: "pacer \<Rightarrow> pacer" where
  "demo_served p = end_wait 5 5 False (begin_wait 5 p)"

lemma demo_serve:
  assumes "pr_driver p = Awake" and "pr_next_grant p = None" and "pr_window_start p = None" and "0 < pr_budget p" and "pr_used p = 0"
    and "anyone_waits p" and "t \<le> 5"
  shows "pacer_step\<^sup>*\<^sup>* (p, t) (demo_served p, 5)"
proof -
  have "pacer_step (p, t) (begin_wait 5 p, 5)" using assms by (intro pacer_step.begins) simp_all
  moreover have "pacer_step (begin_wait 5 p, 5) (demo_served p, 5)" unfolding demo_served_def
    by (rule pacer_step.grants [of _ 5 False False])
      (use assms in \<open>simp_all add: begin_wait_def reset_window_def slot_wait_def Let_def pacing_window_def\<close>)
  ultimately show ?thesis by (meson rtranclp.rtrancl_refl rtranclp.rtrancl_into_rtrancl)
qed

theorem pacer_within_budget_witness:
  "pr_granted (demo_served demo_waiting) = [(5, 0)] \<and>
   int (length (filter (\<lambda>(g, _). 0 \<le> g \<and> g < 0 + pacing_window) (pr_granted (demo_served demo_waiting)))) \<le> 180"
proof -
  have "valid_budget 180" by (simp add: valid_budget_def gateway_requests_per_minute_def)
  moreover have "pacer_step\<^sup>*\<^sup>* (arrive (Some Ids) (new_pacer 180), 0) (demo_served demo_waiting, 5)"
    unfolding demo_waiting_def [symmetric]
    by (rule demo_serve) (simp_all add: demo_waiting_def arrive_def new_pacer_def anyone_waits_def lane_rotation_def Let_def)
  ultimately have "int (length (filter (\<lambda>(g, _). 0 \<le> g \<and> g < 0 + pacing_window) (pr_granted (demo_served demo_waiting)))) \<le> 180"
    by (rule pacer_within_budget)
  moreover have "pr_granted (demo_served demo_waiting) = [(5, 0)]"
    by (simp add: demo_served_def demo_waiting_def end_wait_def grant_def begin_wait_def arrive_def new_pacer_def Let_def four_places
        next_place reset_window_def)
  ultimately show ?thesis by simp
qed

definition queued_well :: "pacer \<Rightarrow> bool" where
  "queued_well p \<longleftrightarrow> pr_cursor p < 4 \<and> (\<forall>l. distinct (pr_pending p l) \<and> (\<forall>i \<in> set (pr_pending p l). i < pr_arrivals p))"

text \<open>An upper bound of the grants to others before a waiter's turn.\<close>

definition ahead :: "pacer \<Rightarrow> lane \<Rightarrow> nat \<Rightarrow> nat" where
  "ahead p l i = 4 * length (takeWhile (\<lambda>j. j \<noteq> i) (pr_pending p l)) + lane_distance (pr_cursor p) l"

lemma remove1_place: "j \<noteq> i \<Longrightarrow> length (takeWhile (\<lambda>k. k \<noteq> i) (remove1 j q)) \<le> length (takeWhile (\<lambda>k. k \<noteq> i) q)"
  by (induction q) auto

lemma arrive_sel:
  "pr_pending (arrive lane p) l = pr_pending p l @ (if l = (case lane of None \<Rightarrow> Ids | Some l \<Rightarrow> l) then [pr_arrivals p] else [])"
  "pr_arrivals (arrive lane p) = Suc (pr_arrivals p)" "pr_cursor (arrive lane p) = pr_cursor p"
  "pr_granted (arrive lane p) = pr_granted p"
  by (simp_all add: arrive_def Let_def)

lemma give_up_sel:
  "pr_pending (give_up m j p) l = (if l = m then remove1 j (pr_pending p l) else pr_pending p l)"
  "pr_arrivals (give_up m j p) = pr_arrivals p" "pr_cursor (give_up m j p) = pr_cursor p"
  "pr_granted (give_up m j p) = pr_granted p"
  by (simp_all add: give_up_def Let_def)

lemma begin_wait_sel:
  "pr_pending (begin_wait now p) = pr_pending p" "pr_arrivals (begin_wait now p) = pr_arrivals p"
  "pr_cursor (begin_wait now p) = pr_cursor p" "pr_granted (begin_wait now p) = pr_granted p"
  by (simp_all add: begin_wait_def Let_def)

lemma end_wait_sel:
  assumes "next_lane (length lane_rotation) (pr_cursor p) (pr_pending p) = (m, c)"
  shows "pr_cursor (end_wait w g e p) = c" "pr_arrivals (end_wait w g e p) = pr_arrivals p"
    "pr_pending (end_wait w g e p) l = (if m = Some l then tl (pr_pending p l) else pr_pending p l)"
    "length (pr_granted (end_wait w g e p)) = length (pr_granted p) + (if m = None then 0 else 1)"
  using assms by (cases m; simp add: end_wait_def grant_def)+

lemma next_lane_cursor: "c < 4 \<Longrightarrow> next_lane (length lane_rotation) c q = (m, c') \<Longrightarrow> c' < 4"
proof -
  assume c: "c < 4" and n: "next_lane (length lane_rotation) c q = (m, c')"
  from c consider "c = 0" | "c = Suc 0" | "c = 2" | "c = 3" by linarith
  then show ?thesis using n [unfolded four_places] by cases (auto simp: next_lanes split: if_splits)
qed

lemma in_tl: "i \<in> set (tl q) \<Longrightarrow> i \<in> set q"
  by (cases q) auto

lemma queued_well_step:
  assumes "pacer_step (p, t) (p', t')" and "queued_well p"
  shows "queued_well p'"
  using assms(1)
proof (cases rule: pacer_step.cases)
  case (grants until exhausted waited woke)
  obtain m c where n: "next_lane (length lane_rotation) (pr_cursor p) (pr_pending p) = (m, c)" by fastforce
  with assms(2) have "c < 4" using next_lane_cursor by (auto simp: queued_well_def)
  with assms(2) show ?thesis unfolding queued_well_def grants
    by (auto simp: end_wait_sel [OF n] distinct_tl dest: in_tl)
qed (use assms(2) in \<open>auto simp: queued_well_def arrive_sel give_up_sel begin_wait_sel less_Suc_eq dest: notin_set_remove1\<close>)

lemma ahead_step:
  assumes "pacer_step (p, t) (p', t')" and well: "queued_well p" and "i < pr_arrivals p" and "i \<in> set (pr_pending p' l)"
  shows "i \<in> set (pr_pending p l) \<and> length (pr_granted p') + ahead p' l i \<le> length (pr_granted p) + ahead p l i"
  using assms(1)
proof (cases rule: pacer_step.cases)
  case (arrives lane)
  with assms(3,4) have "i \<in> set (pr_pending p l)" by (auto simp: arrive_sel split: if_splits)
  with arrives show ?thesis by (simp add: ahead_def arrive_sel)
next
  case (gives_up j m)
  have "j \<noteq> i" if "m = l"
    using that gives_up(1) assms(4) well by (auto simp: give_up_sel queued_well_def)
  with gives_up assms(4) remove1_place [of j i "pr_pending p l"] show ?thesis
    by (auto simp: ahead_def give_up_sel dest: notin_set_remove1 split: if_splits)
next
  case begins
  with assms(4) show ?thesis by (simp add: ahead_def begin_wait_sel)
next
  case (grants until exhausted waited woke)
  obtain m c where n: "next_lane (length lane_rotation) (pr_cursor p) (pr_pending p) = (m, c)" by fastforce
  note sel = end_wait_sel [OF n, of woke t' exhausted]
  from assms(4) have "i \<in> set (pr_pending p l)" unfolding grants sel by (auto split: if_splits dest: in_tl)
  then have ne: "pr_pending p l \<noteq> []" by auto
  from next_lane_closer [OF _ ne n] well obtain k where k: "c < 4" "m = Some k" "pr_pending p k \<noteq> []"
    "k \<noteq> l \<longrightarrow> lane_distance c l < lane_distance (pr_cursor p) l" by (auto simp: queued_well_def)
  show ?thesis
  proof (cases "k = l")
    case False
    with k \<open>i \<in> set (pr_pending p l)\<close> show ?thesis unfolding grants by (simp add: ahead_def sel)
  next
    case True
    from ne obtain h q where q: "pr_pending p l = h # q" by (cases "pr_pending p l") auto
    from assms(4) True k(2) have "i \<in> set q" unfolding grants by (simp add: sel q)
    moreover have "h \<notin> set q" using well q unfolding queued_well_def by (metis distinct.simps(2))
    ultimately have "h \<noteq> i" by auto
    with True k lane_distance_bound [OF k(1), of l] \<open>i \<in> set q\<close> show ?thesis unfolding grants by (simp add: ahead_def sel q)
  qed
qed

text \<open>
  C39. No lane starves: while a caller waits, whatever arrives and gives up around it, at most four grants go to
  others for every caller before it in its lane, and three more.
\<close>

theorem pacer_lanes_fair:
  assumes "pacer_step\<^sup>*\<^sup>* (new_pacer b, t0) (p, t)" and "i \<in> set (pr_pending p l)"
    and "pacer_step\<^sup>*\<^sup>* (p, t) (p', t')" and "i \<in> set (pr_pending p' l)"
  shows "length (pr_granted p') \<le> length (pr_granted p) + 4 * length (takeWhile (\<lambda>j. j \<noteq> i) (pr_pending p l)) + 3"
proof -
  have well: "queued_well (fst s)" if "pacer_step\<^sup>*\<^sup>* (new_pacer b, t0) s" for s
    using that
  proof (induction rule: rtranclp_induct)
    case base
    show ?case by (simp add: queued_well_def new_pacer_def)
  next
    case (step s s')
    with queued_well_step [of "fst s" "snd s" "fst s'" "snd s'"] show ?case by simp
  qed
  from well [OF assms(1)] have wp: "queued_well p" by simp
  with assms(2) have old: "i < pr_arrivals p" by (auto simp: queued_well_def)
  have "queued_well (fst s) \<and> i < pr_arrivals (fst s) \<and> (i \<in> set (pr_pending (fst s) l) \<longrightarrow>
      length (pr_granted (fst s)) + ahead (fst s) l i \<le> length (pr_granted p) + ahead p l i)"
    if "pacer_step\<^sup>*\<^sup>* (p, t) s" for s
    using that
  proof (induction rule: rtranclp_induct)
    case base
    show ?case using wp old by simp
  next
    case (step s s')
    obtain q u q' u' where s: "s = (q, u)" "s' = (q', u')" by fastforce
    from step.hyps(2) s have st: "pacer_step (q, u) (q', u')" by simp
    from step.IH s have q: "queued_well q" "i < pr_arrivals q" by simp_all
    have "pr_arrivals q \<le> pr_arrivals q'"
      using st by (cases rule: pacer_step.cases)
        (auto simp: arrive_sel give_up_sel begin_wait_sel end_wait_def grant_def split: prod.splits option.splits)
    with queued_well_step [OF st q(1)] ahead_step [OF st q] step.IH s q(2) show ?case by fastforce
  qed
  from this [OF assms(3)] assms(4) have "length (pr_granted p') \<le> length (pr_granted p) + ahead p l i" by simp
  moreover have "lane_distance (pr_cursor p) l \<le> 3" using wp lane_distance_bound by (auto simp: queued_well_def)
  ultimately show ?thesis by (simp add: ahead_def)
qed

theorem pacer_lanes_fair_witness:
  "1 \<in> set (pr_pending (demo_served (arrive (Some Ids) demo_waiting)) Ids) \<and>
   length (pr_granted (demo_served (arrive (Some Ids) demo_waiting))) \<le> 0 + 4 * 1 + 3"
proof -
  let ?p = "arrive (Some Ids) demo_waiting"
  have "pacer_step (new_pacer 180, 0) (demo_waiting, 0)" unfolding demo_waiting_def by (rule pacer_step.arrives) simp
  moreover have "pacer_step (demo_waiting, 0) (?p, 0)" by (rule pacer_step.arrives) simp
  ultimately have start: "pacer_step\<^sup>*\<^sup>* (new_pacer 180, 0) (?p, 0)"
    by (rule rtranclp.rtrancl_into_rtrancl [OF r_into_rtranclp])
  have run: "pacer_step\<^sup>*\<^sup>* (?p, 0) (demo_served ?p, 5)"
    by (rule demo_serve) (simp_all add: demo_waiting_def arrive_def new_pacer_def anyone_waits_def lane_rotation_def Let_def)
  have q: "pr_pending ?p Ids = [0, 1]" "pr_granted ?p = []" by (simp_all add: demo_waiting_def arrive_def new_pacer_def Let_def)
  have waits: "1 \<in> set (pr_pending (demo_served ?p) Ids)"
    by (simp add: demo_served_def demo_waiting_def end_wait_def grant_def begin_wait_def arrive_def new_pacer_def Let_def four_places
        next_place reset_window_def)
  from pacer_lanes_fair [OF start _ run waits] q waits show ?thesis by simp
qed

end
