(* ===== verification/WebhookReceiver.thy ===== *)
theory WebhookReceiver
  imports WebhookClassifier MongoCollection
begin

text \<open>
  The receipt of the marketplace's notifications, \<^verbatim>\<open>gateway/webhooks/router.py\<close> and
  \<^verbatim>\<open>gateway/webhooks/publisher.py\<close>: the checks of the sender, the stored notification, the background task
  that classifies and publishes it, and how deliveries, tasks and crashes interleave. The parsing of
  addresses and networks and the keyed hash are arguments.
\<close>

section \<open>The sender\<close>

record 'ip receiver =
  rc_ip :: "string \<Rightarrow> 'ip option"
  rc_network :: "string \<Rightarrow> ('ip \<Rightarrow> bool) option"
  rc_hmac :: "string \<Rightarrow> string \<Rightarrow> string"
  rc_text :: "pyval \<Rightarrow> string"
  rc_allowed_ips :: string
  rc_require_signature :: bool
  rc_secret :: string
  rc_publishes :: bool

record webhook_request =
  rq_forwarded_for :: "string option"
  rq_peer :: "string option"
  rq_signature :: "string option"
  rq_body :: string
  rq_json :: "pyval option"
  rq_trace :: string

definition source_ip :: "webhook_request \<Rightarrow> string" where
  "source_ip q = (case rq_forwarded_for q of
     Some (c # cs) \<Rightarrow> strip (takeWhile (\<lambda>c. c \<noteq> CHR '','') (c # cs))
   | _ \<Rightarrow> (case rq_peer q of None \<Rightarrow> [] | Some host \<Rightarrow> host))"

text \<open>\<open>Inl\<close>: the \<^verbatim>\<open>ValueError\<close> of an address or a network that does not parse.\<close>

fun in_networks :: "(string \<Rightarrow> ('ip \<Rightarrow> bool) option) \<Rightarrow> 'ip \<Rightarrow> string list \<Rightarrow> (unit, bool) result" where
  "in_networks net ip [] = Inr False"
| "in_networks net ip (e # es) = (case net e of None \<Rightarrow> Inl () | Some N \<Rightarrow> if N ip then Inr True else in_networks net ip es)"

definition is_allowed_source_ip :: "'ip receiver \<Rightarrow> string \<Rightarrow> (unit, bool) result" where
  "is_allowed_source_ip R source =
    (if rc_allowed_ips R = [] then Inr False
     else (case rc_ip R source of None \<Rightarrow> Inl ()
           | Some ip \<Rightarrow> in_networks (rc_network R) ip
               (filter (\<lambda>e. e \<noteq> []) (map strip (split_on (CHR '','') (rc_allowed_ips R))))))"

text \<open>\<open>Inl\<close>: the \<^verbatim>\<open>TypeError\<close> of comparing digests with a character outside ASCII.\<close>

definition verify_hmac_signature :: "'ip receiver \<Rightarrow> webhook_request \<Rightarrow> (unit, bool) result" where
  "verify_hmac_signature R q = (case rq_signature q of
     None \<Rightarrow> Inr False
   | Some s \<Rightarrow> if s = [] then Inr False
       else if \<exists>c \<in> set s. 128 \<le> (of_char c :: nat) then Inl ()
       else Inr (s = ''sha256='' @ rc_hmac R (rc_secret R) (rq_body q)))"

datatype webhook_answer = Http_error int | Failed_request | Accepted bool

text \<open>The checks before the body is read: the answer when one fails.\<close>

definition reject_sender :: "'ip receiver \<Rightarrow> webhook_request \<Rightarrow> webhook_answer option" where
  "reject_sender R q = (case is_allowed_source_ip R (source_ip q) of
     Inl _ \<Rightarrow> Some Failed_request
   | Inr False \<Rightarrow> Some (Http_error 401)
   | Inr True \<Rightarrow>
       if \<not> rc_require_signature R then None
       else if rc_secret R = [] then Some (Http_error 503)
       else (case verify_hmac_signature R q of
               Inl _ \<Rightarrow> Some Failed_request
             | Inr ok \<Rightarrow> if ok then None else Some (Http_error 401)))"

section \<open>The notification\<close>

record notification =
  no_topic :: string
  no_user :: int
  no_resource :: string
  no_received_at :: instant
  no_published_at :: "instant option"
  no_classification :: "string option"
  no_raw :: event
  no_source :: string

text \<open>\<open>Inl (Http_error 422)\<close> is the missing identifier; a missing or unreadable field is a failed request.\<close>

definition payload_id :: "'ip receiver \<Rightarrow> event \<Rightarrow> (webhook_answer, string) result" where
  "payload_id R p =
    (let v = (if truthy (get p ''_id'') then get p ''_id''
              else if truthy (get p ''notification_id'') then get p ''notification_id''
              else get p ''id'')
     in if v = VNone then Inl (Http_error 422) else Inr (py_str (rc_text R) v))"

definition read_notification :: "'ip receiver \<Rightarrow> webhook_request \<Rightarrow> instant \<Rightarrow> (webhook_answer, string \<times> notification) result" where
  "read_notification R q now = (case rq_json q of
     Some (VObj p) \<Rightarrow>
       rbind (payload_id R p) (\<lambda>i.
         (case (map_of p ''topic'', seller_of p, map_of p ''resource'') of
            (Some topic, Inr user, Some resource) \<Rightarrow>
              Inr (i, \<lparr>no_topic = py_str (rc_text R) topic, no_user = user, no_resource = py_str (rc_text R) resource,
                       no_received_at = now, no_published_at = None, no_classification = None, no_raw = p,
                       no_source = source_ip q\<rparr>)
          | _ \<Rightarrow> Inl Failed_request))
   | _ \<Rightarrow> Inl Failed_request)"

text \<open>The stored document as the values the classifier reads.\<close>

definition event_of :: "string \<Rightarrow> notification \<Rightarrow> event" where
  "event_of i d = [(''_id'', VStr i), (''topic'', VStr (no_topic d)), (''user_id'', VInt (no_user d)),
     (''resource'', VStr (no_resource d)), (''received_at'', VDate (Aware (no_received_at d))), (''raw_body'', VObj (no_raw d))]"

section \<open>Publishing\<close>

text \<open>A message's headers; \<open>ms_topic\<close> is the original topic of an unknown one, whose envelope carries the raw seller.\<close>

record message =
  ms_routing_key :: string
  ms_idempotency_key :: string
  ms_topic :: "string option"
  ms_event_id :: string
  ms_event_type :: string
  ms_occurred_at :: string
  ms_resource :: string
  ms_trace_id :: string

definition fallback_event_id :: "(pyval \<Rightarrow> string) \<Rightarrow> event \<Rightarrow> string" where
  "fallback_event_id T ev =
    (let v = (if truthy (get ev ''_id'') then get ev ''_id''
              else if truthy (get ev ''notification_id'') then get ev ''notification_id''
              else get ev ''id'')
     in if truthy v then py_str T v else [])"

definition unknown_message :: "(pyval \<Rightarrow> string) \<Rightarrow> (int \<Rightarrow> instant) \<Rightarrow> instant \<Rightarrow> event \<Rightarrow> string option \<Rightarrow> message" where
  "unknown_message T local now ev trace =
    (let i = fallback_event_id T ev; topic = get_text T ev ''topic'' in
     \<lparr>ms_routing_key = ''webhooks.unknown.dlq'', ms_idempotency_key = ''unknown:'' @ topic @ '':'' @ i, ms_topic = Some topic,
      ms_event_id = i, ms_event_type = ''webhooks.unknown'', ms_occurred_at = format_occurred_at local now (get ev ''received_at''),
      ms_resource = get_text T ev ''resource'', ms_trace_id = or_str trace []\<rparr>)"

text \<open>\<open>publish_webhook_event\<close> up to the call of the publisher: the message, or the exception before it.\<close>

definition message_of ::
  "(pyval \<Rightarrow> string) \<Rightarrow> (int \<Rightarrow> instant) \<Rightarrow> instant \<Rightarrow> event \<Rightarrow> string option \<Rightarrow> (classify_error, message) result" where
  "message_of T local now ev trace =
    (case rbind (classify_webhook_event T ev) (\<lambda>c. rbind (build_event_envelope T local now ev trace) (\<lambda>e.
       Inr \<lparr>ms_routing_key = cw_routing_key c, ms_idempotency_key = cw_idempotency_key c, ms_topic = None,
            ms_event_id = env_event_id e, ms_event_type = env_event_type e, ms_occurred_at = env_occurred_at e,
            ms_resource = env_resource e, ms_trace_id = env_trace_id e\<rparr>)) of
       Inl (UnknownWebhookTopicError _) \<Rightarrow> Inr (unknown_message T local now ev trace)
     | r \<Rightarrow> r)"

section \<open>Deliveries, tasks and crashes\<close>

text \<open>
  The stored notifications, the background tasks of the processes, what the broker has accepted (with the
  identifier of the notification) and the tasks between that and the mark in the store. The upsert that
  only sets on insert is an insert that tells whether the identifier was there.
\<close>

record hooks =
  hk_events :: "notification coll"
  hk_tasks :: "(string \<times> notification \<times> string) list"
  hk_sent :: "(string \<times> message) list"
  hk_unmarked :: "string list"

definition no_hooks :: hooks where
  "no_hooks = \<lparr>hk_events = Map.empty, hk_tasks = [], hk_sent = [], hk_unmarked = []\<rparr>"

definition receive_meli_webhook ::
  "'ip receiver \<Rightarrow> notification mongo \<Rightarrow> webhook_request \<Rightarrow> instant \<Rightarrow> hooks \<Rightarrow> webhook_answer \<times> hooks" where
  "receive_meli_webhook R M q now s = (case reject_sender R q of
     Some a \<Rightarrow> (a, s)
   | None \<Rightarrow> (case read_notification R q now of
       Inl a \<Rightarrow> (a, s)
     | Inr (i, d) \<Rightarrow> (case insert_one M (hk_events s) i d of
         Inl _ \<Rightarrow> (Accepted True, s)
       | Inr c \<Rightarrow> (Accepted False, s\<lparr>hk_events := c, hk_tasks := hk_tasks s @ [(i, d, rq_trace q)]\<rparr>))))"

definition mark_published :: "notification mongo \<Rightarrow> instant \<Rightarrow> string \<Rightarrow> notification coll \<Rightarrow> notification coll" where
  "mark_published M now i c = snd (find_one_and_update M c i (\<lambda>_. True)
     (\<lambda>d. d\<lparr>no_published_at := Some now, no_classification := Some (no_topic d)\<rparr>))"

text \<open>
  A task ends without its message (no publisher, an exception before or in the call, a crash), or the broker
  accepts the message; then the mark is made or lost.
\<close>

inductive hook_step :: "'ip receiver \<Rightarrow> notification mongo \<Rightarrow> (int \<Rightarrow> instant) \<Rightarrow> hooks \<Rightarrow> hooks \<Rightarrow> bool"
  for R M local where
  receives: "receive_meli_webhook R M q now s = (a, s') \<Longrightarrow> hook_step R M local s s'"
| publishes: "rc_publishes R \<Longrightarrow> hk_tasks s = before @ (i, d, trace) # after \<Longrightarrow>
    message_of (rc_text R) local now (event_of i d) (Some trace) = Inr m \<Longrightarrow>
    hook_step R M local s (s\<lparr>hk_tasks := before @ after, hk_sent := (i, m) # hk_sent s, hk_unmarked := i # hk_unmarked s\<rparr>)"
| drops: "hk_tasks s = before @ task # after \<Longrightarrow> hook_step R M local s (s\<lparr>hk_tasks := before @ after\<rparr>)"
| marks: "hk_unmarked s = before @ i # after \<Longrightarrow>
    hook_step R M local s (s\<lparr>hk_unmarked := before @ after, hk_events := mark_published M now i (hk_events s)\<rparr>)"
| loses_mark: "hk_unmarked s = before @ i # after \<Longrightarrow> hook_step R M local s (s\<lparr>hk_unmarked := before @ after\<rparr>)"

section \<open>Every notification is published at most once\<close>

definition content :: "notification \<Rightarrow> notification" where
  "content d = d\<lparr>no_published_at := None, no_classification := None\<rparr>"

definition sent_well :: "'ip receiver \<Rightarrow> (int \<Rightarrow> instant) \<Rightarrow> notification coll \<Rightarrow> string \<Rightarrow> message \<Rightarrow> bool" where
  "sent_well R local c i m \<longleftrightarrow>
    (\<exists>d now trace. map_option content (c i) = Some d \<and> message_of (rc_text R) local now (event_of i d) (Some trace) = Inr m)"

definition hooks_ok :: "'ip receiver \<Rightarrow> (int \<Rightarrow> instant) \<Rightarrow> hooks \<Rightarrow> bool" where
  "hooks_ok R local s \<longleftrightarrow> distinct (map fst (hk_tasks s) @ map fst (hk_sent s)) \<and>
    (\<forall>(i, d, trace) \<in> set (hk_tasks s). map_option content (hk_events s i) = Some d) \<and>
    (\<forall>(i, m) \<in> set (hk_sent s). sent_well R local (hk_events s) i m) \<and>
    (\<forall>i d. hk_events s i = Some d \<longrightarrow> no_published_at d \<noteq> None \<longrightarrow> i \<in> fst ` set (hk_sent s)) \<and>
    set (hk_unmarked s) \<subseteq> fst ` set (hk_sent s)"

lemma hooks_okI:
  assumes "distinct (map fst (hk_tasks s) @ map fst (hk_sent s))"
    and "\<And>i d trace. (i, d, trace) \<in> set (hk_tasks s) \<Longrightarrow> map_option content (hk_events s i) = Some d"
    and "\<And>i m. (i, m) \<in> set (hk_sent s) \<Longrightarrow> sent_well R local (hk_events s) i m"
    and "\<And>i d. hk_events s i = Some d \<Longrightarrow> no_published_at d \<noteq> None \<Longrightarrow> i \<in> fst ` set (hk_sent s)"
    and "set (hk_unmarked s) \<subseteq> fst ` set (hk_sent s)"
  shows "hooks_ok R local s"
  using assms unfolding hooks_ok_def by blast

lemma hooks_okD:
  assumes "hooks_ok R local s"
  shows hooks_distinct: "distinct (map fst (hk_tasks s) @ map fst (hk_sent s))"
    and hooks_task: "(i, d, trace) \<in> set (hk_tasks s) \<Longrightarrow> map_option content (hk_events s i) = Some d"
    and hooks_sent: "(i, m) \<in> set (hk_sent s) \<Longrightarrow> sent_well R local (hk_events s) i m"
    and hooks_published: "hk_events s i = Some d \<Longrightarrow> no_published_at d \<noteq> None \<Longrightarrow> i \<in> fst ` set (hk_sent s)"
    and hooks_unmarked: "set (hk_unmarked s) \<subseteq> fst ` set (hk_sent s)"
  using assms unfolding hooks_ok_def by blast+

lemma content_read: "read_notification R q now = Inr (i, d) \<Longrightarrow> content d = d \<and> no_published_at d = None"
proof -
  assume r: "read_notification R q now = Inr (i, d)"
  then obtain p where p: "rq_json q = Some (VObj p)" by (auto simp: read_notification_def split: option.splits pyval.splits)
  with r obtain j where "payload_id R p = Inr j" by (auto simp: read_notification_def rbind_eq_Inr)
  with p r obtain topic user resource where "map_of p ''topic'' = Some topic" "seller_of p = Inr user" "map_of p ''resource'' = Some resource"
    by (auto simp: read_notification_def split: option.splits sum.splits)
  with p r \<open>payload_id R p = Inr j\<close> show ?thesis by (auto simp: read_notification_def content_def)
qed

locale hook_store = mongo_collection M for M :: "notification mongo"
begin

lemma receive_cases:
  assumes "receive_meli_webhook R M q now s = (a, s')"
  shows "s' = s \<or> (\<exists>i d trace. hk_events s i = None \<and> content d = d \<and> no_published_at d = None \<and> a = Accepted False \<and>
    s' = s\<lparr>hk_events := (hk_events s)(i \<mapsto> d), hk_tasks := hk_tasks s @ [(i, d, trace)]\<rparr>)"
  using assms content_read [of R q now]
  by (auto simp: receive_meli_webhook_def insert_one_law split: option.splits sum.splits prod.splits if_splits)

lemma mark_content: "map_option content (mark_published M now i c j) = map_option content (c j)"
  by (auto simp: mark_published_def find_one_and_update_law matches_def content_def split: option.splits)

lemma mark_published_at:
  "mark_published M now i c j = Some d \<Longrightarrow> no_published_at d \<noteq> None \<Longrightarrow> j = i \<or> (\<exists>d. c j = Some d \<and> no_published_at d \<noteq> None)"
  by (auto simp: mark_published_def find_one_and_update_law matches_def split: option.splits if_splits)

lemma hooks_ok_step:
  assumes "hook_step R M local s s'" and ok: "hooks_ok R local s"
  shows "hooks_ok R local s'"
  using assms(1)
proof (cases rule: hook_step.cases)
  case (receives q now a)
  from receive_cases [OF receives] consider "s' = s"
    | i d trace where "hk_events s i = None" "content d = d" "no_published_at d = None"
      "s' = s\<lparr>hk_events := (hk_events s)(i \<mapsto> d), hk_tasks := hk_tasks s @ [(i, d, trace)]\<rparr>" by blast
  then show ?thesis
  proof cases
    case 2
    have task: "i \<notin> fst ` set (hk_tasks s)"
    proof
      assume "i \<in> fst ` set (hk_tasks s)"
      then obtain e tr where "(i, e, tr) \<in> set (hk_tasks s)" by auto
      from hooks_task [OF ok this] 2(1) show False by simp
    qed
    have sent: "i \<notin> fst ` set (hk_sent s)"
    proof
      assume "i \<in> fst ` set (hk_sent s)"
      then obtain m where "(i, m) \<in> set (hk_sent s)" by auto
      from hooks_sent [OF ok this] 2(1) show False by (simp add: sent_well_def)
    qed
    show ?thesis
    proof (rule hooks_okI)
      show "distinct (map fst (hk_tasks s') @ map fst (hk_sent s'))"
        using hooks_distinct [OF ok] task sent by (auto simp: 2(4))
    next
      fix j e tr assume "(j, e, tr) \<in> set (hk_tasks s')"
      then consider "j = i" "e = d" | "(j, e, tr) \<in> set (hk_tasks s)" by (auto simp: 2(4))
      then show "map_option content (hk_events s' j) = Some e"
      proof cases
        case a: 2
        with task have "j \<noteq> i" by force
        with hooks_task [OF ok a] show ?thesis by (simp add: 2(4))
      qed (simp add: 2(2) 2(4))
    next
      fix j m assume a: "(j, m) \<in> set (hk_sent s')"
      then have m: "(j, m) \<in> set (hk_sent s)" by (simp add: 2(4))
      with sent have "j \<noteq> i" by force
      with hooks_sent [OF ok m] show "sent_well R local (hk_events s') j m" by (simp add: sent_well_def 2(4))
    next
      fix j e assume a: "hk_events s' j = Some e" "no_published_at e \<noteq> None"
      with 2(3) have "j \<noteq> i" by (auto simp: 2(4))
      with a hooks_published [OF ok] show "j \<in> fst ` set (hk_sent s')" by (simp add: 2(4))
    next
      show "set (hk_unmarked s') \<subseteq> fst ` set (hk_sent s')" using hooks_unmarked [OF ok] by (simp add: 2(4))
    qed
  qed (use ok in simp)
next
  case (publishes before i d trace after now m)
  have "(i, d, trace) \<in> set (hk_tasks s)" by (simp add: publishes(3))
  from hooks_task [OF ok this] publishes(4) have new: "sent_well R local (hk_events s) i m" by (auto simp: sent_well_def)
  show ?thesis
  proof (rule hooks_okI)
    show "distinct (map fst (hk_tasks s') @ map fst (hk_sent s'))"
      using hooks_distinct [OF ok] by (auto simp: publishes(1,3))
  next
    fix j e tr assume "(j, e, tr) \<in> set (hk_tasks s')"
    then have "(j, e, tr) \<in> set (hk_tasks s)" by (auto simp: publishes(1,3))
    from hooks_task [OF ok this] show "map_option content (hk_events s' j) = Some e" by (simp add: publishes(1))
  next
    fix j n assume "(j, n) \<in> set (hk_sent s')"
    then show "sent_well R local (hk_events s') j n" using new hooks_sent [OF ok] by (auto simp: publishes(1))
  next
    fix j e assume "hk_events s' j = Some e" "no_published_at e \<noteq> None"
    with hooks_published [OF ok] show "j \<in> fst ` set (hk_sent s')" by (simp add: publishes(1))
  next
    show "set (hk_unmarked s') \<subseteq> fst ` set (hk_sent s')" using hooks_unmarked [OF ok] by (auto simp: publishes(1))
  qed
next
  case (drops before task after)
  have sub: "set (hk_tasks s') \<subseteq> set (hk_tasks s)" by (auto simp: drops)
  show ?thesis
  proof (rule hooks_okI)
    show "distinct (map fst (hk_tasks s') @ map fst (hk_sent s'))"
      using hooks_distinct [OF ok] by (auto simp: drops)
  qed (use sub hooks_task [OF ok] hooks_sent [OF ok] hooks_published [OF ok] hooks_unmarked [OF ok] in \<open>auto simp: drops(1)\<close>)
next
  case (marks before i after now)
  have same: "sent_well R local (mark_published M now i (hk_events s)) j m = sent_well R local (hk_events s) j m" for j m
    by (simp add: sent_well_def mark_content)
  have i: "i \<in> fst ` set (hk_sent s)" using hooks_unmarked [OF ok] by (auto simp: marks(2))
  show ?thesis
  proof (rule hooks_okI)
    show "distinct (map fst (hk_tasks s') @ map fst (hk_sent s'))" using hooks_distinct [OF ok] by (simp add: marks(1))
  next
    fix j e tr assume "(j, e, tr) \<in> set (hk_tasks s')"
    then show "map_option content (hk_events s' j) = Some e" using hooks_task [OF ok] by (simp add: marks(1) mark_content)
  next
    fix j n assume "(j, n) \<in> set (hk_sent s')"
    then show "sent_well R local (hk_events s') j n" using hooks_sent [OF ok] by (simp add: marks(1) same)
  next
    fix j e assume a: "hk_events s' j = Some e" "no_published_at e \<noteq> None"
    from a(1) have "mark_published M now i (hk_events s) j = Some e" by (simp add: marks(1))
    from mark_published_at [OF this a(2)] i hooks_published [OF ok]
    show "j \<in> fst ` set (hk_sent s')" by (auto simp: marks(1))
  next
    show "set (hk_unmarked s') \<subseteq> fst ` set (hk_sent s')" using hooks_unmarked [OF ok] by (auto simp: marks(1,2))
  qed
next
  case (loses_mark before i after)
  show ?thesis
    by (rule hooks_okI)
      (use hooks_distinct [OF ok] hooks_task [OF ok] hooks_sent [OF ok] hooks_published [OF ok] hooks_unmarked [OF ok] in
        \<open>auto simp: loses_mark\<close>)
qed

lemma reachable_ok: "(hook_step R M local)\<^sup>*\<^sup>* no_hooks s \<Longrightarrow> hooks_ok R local s"
proof (induction rule: rtranclp_induct)
  case base
  show ?case by (simp add: hooks_ok_def no_hooks_def)
qed (rule hooks_ok_step)

end

interpretation mem_hooks: hook_store mem_mongo
  by (simp add: hook_store_def mem.mongo_collection_axioms)


definition demo_receiver :: "nat receiver" where
  "demo_receiver = \<lparr>rc_ip = (\<lambda>s. if all_digits s then Some (length s) else None),
     rc_network = (\<lambda>s. if all_digits s then Some (\<lambda>n. n = length s) else None), rc_hmac = (\<lambda>k b. k @ b), rc_text = (\<lambda>_. []),
     rc_allowed_ips = ''111,22'', rc_require_signature = False, rc_secret = [], rc_publishes = True\<rparr>"

definition demo_hook_request :: webhook_request where
  "demo_hook_request = \<lparr>rq_forwarded_for = Some ''22, 4444'', rq_peer = Some ''4444'', rq_signature = None, rq_body = [],
     rq_json = Some (VObj [(''_id'', VStr ''n1''), (''topic'', VStr ''items''), (''user_id'', VInt 7), (''resource'', VStr ''r'')]),
     rq_trace = []\<rparr>"

definition demo_notification :: notification where
  "demo_notification = \<lparr>no_topic = ''items'', no_user = 7, no_resource = ''r'', no_received_at = 5, no_published_at = None,
     no_classification = None,
     no_raw = [(''_id'', VStr ''n1''), (''topic'', VStr ''items''), (''user_id'', VInt 7), (''resource'', VStr ''r'')],
     no_source = ''22''\<rparr>"

lemma demo_admitted: "reject_sender demo_receiver demo_hook_request = None"
  by code_simp

lemma demo_received: "receive_meli_webhook demo_receiver mem_mongo demo_hook_request 5 no_hooks =
  (Accepted False, no_hooks\<lparr>hk_events := [''n1'' \<mapsto> demo_notification], hk_tasks := [(''n1'', demo_notification, [])]\<rparr>)"
proof -
  have "read_notification demo_receiver demo_hook_request 5 = Inr (''n1'', demo_notification)" by code_simp
  moreover have "rq_trace demo_hook_request = []" by (simp add: demo_hook_request_def)
  ultimately show ?thesis by (simp add: receive_meli_webhook_def demo_admitted no_hooks_def)
qed

lemma demo_message: "\<exists>m. message_of (rc_text demo_receiver) local now (event_of ''n1'' demo_notification) (Some []) = Inr m"
  by (simp add: message_of_def classify_webhook_event_def build_event_envelope_def event_id_def seller_of_def event_of_def
      demo_notification_def get_def get_text_def py_str_def truthy_def topic_routing_keys_def demo_receiver_def rbind_def or_str_def Let_def)


text \<open>
  A caller who sends its own \<^verbatim>\<open>X-Forwarded-For\<close> chooses the address the allowlist is asked about: the address of
  the connection is never looked at, and unless signatures are required, which is not the default, naming
  an allowed address admits any request.
\<close>

theorem forwarded_header_admits:
  assumes "a \<noteq> []" and "strip a = a" and "CHR '','' \<notin> set a" and "is_allowed_source_ip R a = Inr True"
    and "\<not> rc_require_signature R"
  shows "reject_sender R (q\<lparr>rq_forwarded_for := Some (a @ CHR '','' # rest)\<rparr>) = None \<and>
    reject_sender R (q\<lparr>rq_forwarded_for := Some a\<rparr>) = None"
proof -
  have first: "\<forall>c \<in> set a. c \<noteq> CHR '',''" using assms(3) by blast
  have "takeWhile (\<lambda>c. c \<noteq> CHR '','') (a @ CHR '','' # rest) = a" "takeWhile (\<lambda>c. c \<noteq> CHR '','') a = a"
    using first by (simp_all add: takeWhile_append2 takeWhile_eq_all_conv)
  with assms show ?thesis by (cases a) (auto simp: reject_sender_def source_ip_def)
qed

theorem forwarded_header_admits_witness:
  "is_allowed_source_ip demo_receiver ''4444'' = Inr False \<and>
    reject_sender demo_receiver (demo_hook_request\<lparr>rq_forwarded_for := Some ''111''\<rparr>) = None"
proof -
  have "strip ''111'' = ''111''" "is_allowed_source_ip demo_receiver ''111'' = Inr True"
    "is_allowed_source_ip demo_receiver ''4444'' = Inr False" "\<not> rc_require_signature demo_receiver" by code_simp+
  with forwarded_header_admits [of "''111''" demo_receiver "[]" demo_hook_request] show ?thesis by simp
qed

end
