(* ===== verification/Spec2Isabelle.thy ===== *)
theory Spec2Isabelle
  imports ClaimProtocol ClaimGate RepricerHandler RateLimit Retry BootstrapJobs RunRepository Freshness
    OrderSubdivision Dispatcher PublishRetry WebhookClassifier RecoveryOutcomes HistoryLedger TokenRefresh SyncRuns ProxyRoute
    Availability WinningTime Pacer WebhookReceiver
begin

text \<open>
  A verification development of the Zeler platform: the services that connect sellers of an online
  marketplace with modules that reprice, answer and report on their listings.

  The program. A gateway (\<^verbatim>\<open>src/gateway\<close>) receives the marketplace's notifications, classifies and
  publishes them to a broker, and proxies the modules' calls to the marketplace under a rate limit
  and a retry loop. A bootstrap service (\<^verbatim>\<open>src/bootstrap\<close>) loads a newly linked account in stages. The
  modules (\<^verbatim>\<open>src/modules\<close>) consume the notifications; a shared core (\<^verbatim>\<open>src/core\<close>) gives them the
  at-most-once event claims, the certificates of what has been read of the marketplace, and the lease
  under which the returns data is written. All state is in MongoDB collections.

  Conventions (theories \<open>Prelude\<close>, \<open>PyStrings\<close>, \<open>PyValues\<close>, \<open>MongoCollection\<close>). Instants and
  durations are integers of microseconds, Python's own resolution; integers are unbounded as in
  Python; prices and seconds given as floats or decimals are rationals; strings are character lists.
  A raised exception is \<open>Inl\<close>. A collection is a map from \<^verbatim>\<open>_id\<close> to documents; the driver is not part
  of the repository, so its operations are an argument (the record \<open>mongo\<close>) with the documented
  behaviour of single-document operations as the locale \<open>mongo_collection\<close>. \<open>mem_mongo\<close> is an
  in-memory collection on which the locale is interpreted and on which the witnesses run. Arguments
  named \<open>env\<close> are what other processes do between two calls of the modelled code.

  Theories and the code they model:
  \<^item> \<open>Idempotency\<close> (\<^verbatim>\<open>core/events/idempotency.py\<close>), \<open>EventClaims\<close> (\<^verbatim>\<open>events/claims.py\<close>), \<open>ClaimGate\<close>
    (\<^verbatim>\<open>events/claim_gate.py\<close>): the completed markers, the claim leases and the gates that
    consumers use. \<open>ClaimProtocol\<close> runs deliveries concurrently as a step relation over one store, with
    crashes, passing time and the TTL indexes, and proves its safety by rule induction.
  \<^item> \<open>RepricerEngine\<close> (\<^verbatim>\<open>repricer/engine.py\<close>), \<open>RepricerHandler\<close> (\<^verbatim>\<open>repricer/consumer.py\<close>): the pricing
    decisions and the whole delivery of an event, parametrised by a gate; the effects are a log.
  \<^item> \<open>RateLimit\<close>, \<open>Retry\<close> (\<^verbatim>\<open>gateway/proxy\<close>), \<open>WebhookClassifier\<close> (\<^verbatim>\<open>gateway/webhooks/classifier.py\<close>),
    \<open>WebhookReceiver\<close> (\<^verbatim>\<open>webhooks/router.py\<close>, \<^verbatim>\<open>webhooks/publisher.py\<close>): the receipt of a notification and the
    background task that publishes it, with every interleaving of deliveries, tasks and crashes.
  \<^item> \<open>Redaction\<close>, \<open>BootstrapJobs\<close> (\<^verbatim>\<open>bootstrap/state_machine.py\<close>, \<^verbatim>\<open>runner.py\<close>), \<open>Dispatcher\<close>
    (\<^verbatim>\<open>dispatcher.py\<close>, \<^verbatim>\<open>accounts_consumer.py\<close>), \<open>PublishRetry\<close> (\<^verbatim>\<open>runtime.py\<close>): the job document and
    its transitions, the runner over its stages, the slots of the dispatcher, the last publication.
  \<^item> \<open>RunWindows\<close>, \<open>RunRepository\<close> (\<^verbatim>\<open>core/devoluciones_runs.py\<close>), \<open>Certificates\<close>
    (\<^verbatim>\<open>core/devoluciones_certificates.py\<close>), \<open>DevolucionesLease\<close> (\<^verbatim>\<open>core/devoluciones_readiness.py\<close>),
    \<open>Freshness\<close> (\<^verbatim>\<open>core/read_model_freshness.py\<close>): quota runs and their windows, read certificates
    and the cover they give an interval, the fenced lease with its guarded writes, the marker writer.
  \<^item> \<open>OrderSubdivision\<close> (\<^verbatim>\<open>sheets/history_order_subdivision.py\<close>): splitting an order query.
  \<^item> \<open>Calendar\<close> (civil dates), \<open>MongoQueries\<close> (queries with a sort, counts and listings: the locale
    \<open>mongo_queries\<close> extends the contract of a collection). \<open>RecoveryRequests\<close>, \<open>RecoveryQueue\<close>,
    \<open>RecoveryLifecycle\<close>, \<open>RecoveryRuns\<close>, \<open>RecoveryOutcomes\<close> (\<^verbatim>\<open>sheets/formulas/recovery.py\<close>): the
    requests and their keys, admission under a capacity with a reserved slot, claims, leases and
    outcomes of recovery jobs; the abstract lifecycle of a job and the relation of all interleavings.
  \<^item> \<open>HistoryPolicy\<close>, \<open>HistoryWork\<close> (\<^verbatim>\<open>core/history_onboarding.py\<close>, \<^verbatim>\<open>core/history_work_intent.py\<close>),
    \<open>HistoryCredit\<close> (\<^verbatim>\<open>sheets/history_onboarding.py\<close>), \<open>HistorySend\<close> (\<^verbatim>\<open>gateway/proxy/router.py\<close>),
    \<open>HistoryLedger\<close>: the plan of a seller's history, the receipts of work, what modules charge before
    they call and what the gateway reserves before it sends, and the ledger of both.
  \<^item> \<open>TokenVault\<close>, \<open>TokenRefresh\<close> (\<^verbatim>\<open>gateway/tokens\<close>): the envelope encryption of the tokens and the pass
    that refreshes them. \<open>Glob\<close> (Python's \<^verbatim>\<open>fnmatchcase\<close>), \<open>ProxyRoute\<close> (\<^verbatim>\<open>gateway/proxy/router.py\<close>): the
    whole proxy route, on top of the limiter, the retry loop, the vault, the refresh locks and the reservations.
  \<^item> \<open>SyncJobs\<close>, \<open>SyncRuns\<close> (\<^verbatim>\<open>sheets/sync_jobs_processor.py\<close>, \<^verbatim>\<open>sheets/api.py\<close>): jobs that replay stored
    notifications into a spreadsheet, one attempt and all interleavings.
  \<^item> \<open>StepTimes\<close> (states that hold until the next row), \<open>Availability\<close> (\<^verbatim>\<open>sheets/availability_history.py\<close>,
    \<^verbatim>\<open>formulas/availability_metrics.py\<close>), \<open>WinningTime\<close> (\<^verbatim>\<open>sheets/catalog_observations.py\<close>,
    \<^verbatim>\<open>formulas/catalog_winning_time.py\<close>), \<open>Pacer\<close> (\<^verbatim>\<open>formulas/pacing.py\<close>): the time a publication was
    available or winning, and the pacing of the background acquisition.

  What the lemmas show. Every theory opens with the data and the operations, then the facts on each
  operation, then its properties with a witness at a concrete input. The claim group shows that side
  effects of one notification are exclusive and final; the repricer group that prices stay in
  their corridor and that every outcome is logged and claimed as the code means to; the gateway group
  the exact budget of a window and of a retry loop, and that a notification is published at most once; the bootstrap group that jobs move along their
  table, end, and do no stage twice; the returns group that windows tile a run, covers are exact,
  a superseded lease holder can no longer write, and a changed claim invalidates its certificates. The
  recovery group shows that the queue keeps its capacity, refines a job's abstract lifecycle and leaves a
  held job alone; the history group that every transport sent is covered by an attempt charged before;
  the token group that a stored token is read back and a pass settles what it takes; the proxy group that
  nothing is sent unauthorised or unaudited; the sync group that an append begun is not repeated; the
  metrics group that reading a log of changes, or two aggregations, gives the time the observations say,
  and that the pacer keeps its budget in every minute and starves no lane.

  Some properties show behaviour the code does not mean to have and say so: the shipment job that is never
  claimed again (\<open>exhausted_shipment_never_claimed\<close>), the daily budget a late clock resets
  (\<open>stale_day_resets_daily_budget\<close>), the account a late lock lets a second pass revoke
  (\<open>late_lock_lets_second_pass_revoke\<close>), the paths that pass the scope check by dot segments
  (\<open>dot_segments_pass_scope\<close>), the late observation that misreports (\<open>late_observation_misreports\<close>); beside
  them stand lemmas of the same kind in the theories of the engine, the dispatcher, the recovery and sync jobs.

  Loops. Retry loops recurse with a measure on the attempts left. \<open>run_job\<close> (the runner, which may
  requeue itself) takes fuel; the property \<open>bootstrap_run_ends\<close> gives the passes that are enough.
  A claim waits in a loop whose attempt budget is computed from the configured wait. The proxy's wait for a
  refresh recurses on the time to its deadline, at most 25 polls. Where processes interleave, step relations
  and rule induction take the place of loops.

  Not modelled: the HTTP handlers beside the proxy route, the receiver of notifications and the jobs' creation, drivers and process
  start-up; documents only described by schemas; the spreadsheet's row builders and read models, which
  format and aggregate stored documents without state of their own; the backfills and the stock-time
  engine, batch programs over marketplace pages whose rules are those of the documents they project;
  the listing publication, the replies and the consumers beside the repricer's, whose claims follow the
  protocol modelled here; infrastructure scripts. The manifest lists every part with the reason. Floats are
  rationals, so rounding of a sleep is not covered; logging and metrics are left out throughout.
\<close>

end
